(* ===== verification/Prelude.thy ===== *)
theory Prelude
  imports Main "HOL-Library.Char_ord" "HOL-Library.List_Lexorder"
begin

text \<open>
  Shared vocabulary of the development: results and machine-integer helpers, Rust strings as
  UTF-8 byte lists with the string functions the sources call, and the SQL tables of the hub's
  store as lists of row records with the handful of statements the store issues on them.
  The interface of a keyed table is the locale \<open>keyed_table\<close>; the list implementation is
  interpreted below, and the store theories use its facts through the prefix \<open>tbl\<close>.
\<close>

section \<open>Collections of facts\<close>

named_theorems str_simps \<open>equations of the string functions\<close>
named_theorems tbl_simps \<open>equations of the table statements\<close>
named_theorems store_defs \<open>definitions of the store operations\<close>

section \<open>Results and machine integers\<close>

type_synonym ms = int
type_synonym 'a row_table = "'a list"

definition i64_max :: int where
  "i64_max = 9223372036854775807"

definition i64_min :: int where
  "i64_min = - 9223372036854775808"

definition sat_i64 :: "int \<Rightarrow> int" where
  "sat_i64 x = max i64_min (min i64_max x)"

lemma sat_i64_bounds: "i64_min \<le> sat_i64 x \<and> sat_i64 x \<le> i64_max"
  by (auto simp: sat_i64_def i64_min_def i64_max_def)

lemma sat_i64_id: "i64_min \<le> x \<Longrightarrow> x \<le> i64_max \<Longrightarrow> sat_i64 x = x"
  by (simp add: sat_i64_def)

lemma sat_i64_mono: "x \<le> y \<Longrightarrow> sat_i64 x \<le> sat_i64 y"
  by (auto simp: sat_i64_def)

definition is_Some :: "'a option \<Rightarrow> bool" where
  "is_Some x = (case x of None \<Rightarrow> False | Some _ \<Rightarrow> True)"

lemma is_Some_simps [simp]: "is_Some (Some a)" "\<not> is_Some None"
  by (auto simp: is_Some_def)

lemma is_Some_iff: "is_Some x \<longleftrightarrow> (\<exists>a. x = Some a)"
  by (cases x) auto

definition opt_or :: "'a option \<Rightarrow> 'a \<Rightarrow> 'a" where
  "opt_or x d = (case x of None \<Rightarrow> d | Some a \<Rightarrow> a)"

lemma opt_or_simps [simp]: "opt_or None d = d" "opt_or (Some a) d = a"
  by (auto simp: opt_or_def)

fun filter_map :: "('a \<Rightarrow> 'b option) \<Rightarrow> 'a list \<Rightarrow> 'b list" where
  "filter_map f [] = []"
| "filter_map f (x # xs) = (case f x of None \<Rightarrow> filter_map f xs | Some y \<Rightarrow> y # filter_map f xs)"

lemma set_filter_map: "set (filter_map f xs) = {y. \<exists>x \<in> set xs. f x = Some y}"
  by (induction xs) (auto split: option.splits)

lemma filter_map_append [simp]: "filter_map f (xs @ ys) = filter_map f xs @ filter_map f ys"
  by (induction xs) (auto split: option.splits)

lemma filter_map_filter:
  "(\<And>x. x \<in> set xs \<Longrightarrow> \<not> P x \<Longrightarrow> f x = None) \<Longrightarrow> filter_map f (filter P xs) = filter_map f xs"
  by (induction xs) (auto split: option.splits)

lemma find_SomeD: "find P xs = Some x \<Longrightarrow> x \<in> set xs \<and> P x"
  by (induction xs) (auto split: if_splits)

section \<open>Rust strings: UTF-8 byte lists\<close>

text \<open>
  A Rust string is its UTF-8 bytes, so \<open>length\<close> is \<open>str::len\<close>. The scalar values of
  \<open>str::chars\<close> are the byte groups that start at a byte that is no continuation byte.
\<close>

definition byte :: "char \<Rightarrow> nat" where
  "byte c = of_char c"

definition is_cont_byte :: "char \<Rightarrow> bool" where
  "is_cont_byte c = (128 \<le> byte c \<and> byte c < 192)"

definition is_ascii :: "char \<Rightarrow> bool" where
  "is_ascii c = (byte c < 128)"

function utf8_chars :: "string \<Rightarrow> string list" where
  "utf8_chars [] = []"
| "utf8_chars (c # cs) = (c # takeWhile is_cont_byte cs) # utf8_chars (dropWhile is_cont_byte cs)"
  by pat_completeness auto
termination
  by (relation "measure length") (auto simp: less_Suc_eq_le length_dropWhile_le)

definition chars_count :: "string \<Rightarrow> nat" where
  "chars_count s = length (utf8_chars s)"

lemma concat_utf8_chars [simp]: "concat (utf8_chars s) = s"
  by (induction s rule: utf8_chars.induct) auto

lemma ascii_not_cont: "is_ascii c \<Longrightarrow> \<not> is_cont_byte c"
  by (simp add: is_ascii_def is_cont_byte_def)

lemma utf8_chars_ascii: "\<forall>c \<in> set s. is_ascii c \<Longrightarrow> utf8_chars s = map (\<lambda>c. [c]) s"
proof (induction s)
  case Nil
  then show ?case by simp
next
  case (Cons c cs)
  then have "takeWhile is_cont_byte cs = [] \<and> dropWhile is_cont_byte cs = cs"
    by (cases cs) (auto dest: ascii_not_cont)
  with Cons show ?case by simp
qed

lemma chars_count_ascii: "\<forall>c \<in> set s. is_ascii c \<Longrightarrow> chars_count s = length s"
  by (simp add: chars_count_def utf8_chars_ascii)

lemma chars_count_le: "chars_count s \<le> length s"
proof (unfold chars_count_def, induction s rule: utf8_chars.induct)
  case 1
  then show ?case by simp
next
  case (2 c cs)
  then show ?case using length_dropWhile_le [of is_cont_byte cs] by simp
qed

definition is_ascii_alphanumeric :: "char \<Rightarrow> bool" where
  "is_ascii_alphanumeric c =
     (let n = byte c in (48 \<le> n \<and> n \<le> 57) \<or> (65 \<le> n \<and> n \<le> 90) \<or> (97 \<le> n \<and> n \<le> 122))"

lemma alnum_ascii: "is_ascii_alphanumeric c \<Longrightarrow> is_ascii c"
  by (auto simp: is_ascii_alphanumeric_def is_ascii_def Let_def)

definition ascii_lower :: "char \<Rightarrow> char" where
  "ascii_lower c = (if 65 \<le> byte c \<and> byte c \<le> 90 then char_of (byte c + 32) else c)"

definition to_ascii_lowercase :: "string \<Rightarrow> string" where
  "to_ascii_lowercase s = map ascii_lower s"

definition eq_ignore_ascii_case :: "string \<Rightarrow> string \<Rightarrow> bool" where
  "eq_ignore_ascii_case a b = (to_ascii_lowercase a = to_ascii_lowercase b)"

lemma eq_ignore_ascii_case_refl [simp]: "eq_ignore_ascii_case a a"
  by (simp add: eq_ignore_ascii_case_def)

lemma eq_ignore_ascii_case_sym: "eq_ignore_ascii_case a b = eq_ignore_ascii_case b a"
  by (auto simp: eq_ignore_ascii_case_def)

lemma byte_char_of: "n < 256 \<Longrightarrow> byte (char_of n) = n"
  by (simp add: byte_def)

lemma ascii_lower_idem [simp]: "ascii_lower (ascii_lower c) = ascii_lower c"
  by (auto simp: ascii_lower_def byte_char_of)

lemma to_ascii_lowercase_idem [simp]: "to_ascii_lowercase (to_ascii_lowercase s) = to_ascii_lowercase s"
  by (simp add: to_ascii_lowercase_def)

text \<open>\<open>char::is_whitespace\<close> is Unicode \<open>White_Space\<close>; these are the UTF-8 forms of its 25 members.\<close>

definition ws_chars :: "nat list list" where
  "ws_chars = [[9], [10], [11], [12], [13], [32], [194, 133], [194, 160], [225, 154, 128],
     [226, 128, 128], [226, 128, 129], [226, 128, 130], [226, 128, 131], [226, 128, 132],
     [226, 128, 133], [226, 128, 134], [226, 128, 135], [226, 128, 136], [226, 128, 137],
     [226, 128, 138], [226, 128, 168], [226, 128, 169], [226, 128, 175], [226, 129, 159],
     [227, 128, 128]]"

definition is_whitespace :: "string \<Rightarrow> bool" where
  "is_whitespace g = (map byte g \<in> set ws_chars)"

definition trim_chars :: "(string \<Rightarrow> bool) \<Rightarrow> string \<Rightarrow> string" where
  "trim_chars p s = concat (rev (dropWhile p (rev (dropWhile p (utf8_chars s)))))"

definition trim :: "string \<Rightarrow> string" where
  "trim s = trim_chars is_whitespace s"

lemma set_trim_chars: "set (trim_chars p s) \<subseteq> set s"
proof -
  have "set (rev (dropWhile p (rev (dropWhile p (utf8_chars s))))) \<subseteq> set (utf8_chars s)"
    by (metis set_dropWhileD set_rev subsetI)
  then have "set (trim_chars p s) \<subseteq> set (concat (utf8_chars s))"
    unfolding trim_chars_def set_concat by blast
  then show ?thesis by simp
qed

lemma trim_chars_nop: "\<forall>g \<in> set (utf8_chars s). \<not> p g \<Longrightarrow> trim_chars p s = s"
proof -
  have nop: "\<forall>x \<in> set xs. \<not> p x \<Longrightarrow> dropWhile p xs = xs" for xs
    by (cases xs) auto
  assume "\<forall>g \<in> set (utf8_chars s). \<not> p g"
  then show ?thesis by (simp add: trim_chars_def nop)
qed

lemma is_whitespace_ascii: "is_whitespace [c] \<Longrightarrow> byte c \<le> 32"
  by (auto simp: is_whitespace_def ws_chars_def)

lemma trim_printable: "\<forall>c \<in> set s. is_ascii c \<and> 32 < byte c \<Longrightarrow> trim s = s"
  unfolding trim_def
proof (rule trim_chars_nop)
  assume a: "\<forall>c \<in> set s. is_ascii c \<and> 32 < byte c"
  then have "utf8_chars s = map (\<lambda>c. [c]) s" by (simp add: utf8_chars_ascii)
  with a show "\<forall>g \<in> set (utf8_chars s). \<not> is_whitespace g"
    using is_whitespace_ascii by fastforce
qed

fun split_on :: "'a \<Rightarrow> 'a list \<Rightarrow> 'a list list" where
  "split_on d [] = [[]]"
| "split_on d (c # cs) =
     (if c = d then [] # split_on d cs
      else (case split_on d cs of [] \<Rightarrow> [[c]] | w # ws \<Rightarrow> (c # w) # ws))"

fun join_with :: "'a list \<Rightarrow> 'a list list \<Rightarrow> 'a list" where
  "join_with sep [] = []"
| "join_with sep [w] = w"
| "join_with sep (w # v # ws) = w @ sep @ join_with sep (v # ws)"

lemma split_on_ne [simp]: "split_on d s \<noteq> []"
  by (induction s) (auto split: list.splits)

lemma split_on_word: "d \<notin> set w \<Longrightarrow> split_on d w = [w]"
  by (induction w) auto

lemma split_on_append: "d \<notin> set w \<Longrightarrow> split_on d (w @ d # s) = w # split_on d s"
  by (induction w) auto

lemma split_on_join:
  "ws \<noteq> [] \<Longrightarrow> \<forall>w \<in> set ws. d \<notin> set w \<Longrightarrow> split_on d (join_with [d] ws) = ws"
  by (induction "[d]" ws rule: join_with.induct) (auto simp: split_on_word split_on_append)

lemma split_on_not_in: "w \<in> set (split_on d s) \<Longrightarrow> d \<notin> set w"
  by (induction s arbitrary: w) (auto split: if_splits list.splits)

lemma join_split_on: "join_with [d] (split_on d s) = s"
proof (induction s)
  case Nil
  then show ?case by simp
next
  case (Cons c cs)
  obtain w ws where sp: "split_on d cs = w # ws" by (cases "split_on d cs") auto
  with Cons show ?case by (cases ws) auto
qed

lemma split_on_concat: "concat (split_on d s) = filter (\<lambda>c. c \<noteq> d) s"
  by (induction s) (auto split: list.splits)

definition strip_prefix :: "string \<Rightarrow> string \<Rightarrow> string option" where
  "strip_prefix p s = (if take (length p) s = p then Some (drop (length p) s) else None)"

lemma strip_prefix_append [simp]: "strip_prefix p (p @ s) = Some s"
  by (simp add: strip_prefix_def)

lemma strip_prefix_Some: "strip_prefix p s = Some r \<Longrightarrow> s = p @ r"
  by (auto simp: strip_prefix_def split: if_splits) (metis append_take_drop_id)

section \<open>Decimal integers\<close>

fun show_nat :: "nat \<Rightarrow> string" where
  "show_nat n = (if n < 10 then [char_of (48 + n)] else show_nat (n div 10) @ [char_of (48 + n mod 10)])"

declare show_nat.simps [simp del]

definition show_int :: "int \<Rightarrow> string" where
  "show_int i = (if i < 0 then CHR ''-'' # show_nat (nat (- i)) else show_nat (nat i))"

definition digit_val :: "char \<Rightarrow> nat option" where
  "digit_val c = (if 48 \<le> byte c \<and> byte c \<le> 57 then Some (byte c - 48) else None)"

fun parse_digits :: "nat \<Rightarrow> string \<Rightarrow> nat option" where
  "parse_digits acc [] = Some acc"
| "parse_digits acc (c # cs) =
     (case digit_val c of None \<Rightarrow> None | Some v \<Rightarrow> parse_digits (10 * acc + v) cs)"

text \<open>\<open>str::parse::<i64>\<close>: an optional sign, at least one digit, and the value in range.\<close>

definition parse_i64 :: "string \<Rightarrow> int option" where
  "parse_i64 s =
     (let (neg, ds) = (case s of [] \<Rightarrow> (False, [])
                       | c # cs \<Rightarrow> if c = CHR ''-'' then (True, cs)
                                   else if c = CHR ''+'' then (False, cs) else (False, s))
      in if ds = [] then None
         else (case parse_digits 0 ds of None \<Rightarrow> None
               | Some n \<Rightarrow> let v = (if neg then - int n else int n)
                           in if i64_min \<le> v \<and> v \<le> i64_max then Some v else None))"

lemma parse_digits_append:
  "parse_digits acc (xs @ ys) =
     (case parse_digits acc xs of None \<Rightarrow> None | Some a \<Rightarrow> parse_digits a ys)"
  by (induction xs arbitrary: acc) (auto split: option.splits)

lemma digit_val_char: "n < 10 \<Longrightarrow> digit_val (char_of (48 + n)) = Some n"
  by (simp add: digit_val_def byte_char_of)

lemma parse_show_nat: "parse_digits 0 (show_nat n) = Some n"
proof (induction n rule: show_nat.induct)
  case (1 n)
  show ?case
  proof (cases "n < 10")
    case True
    then show ?thesis by (simp add: show_nat.simps [of n] digit_val_char)
  next
    case False
    with 1 show ?thesis
      by (simp add: show_nat.simps [of n] parse_digits_append digit_val_char)
  qed
qed

lemma show_nat_digits: "c \<in> set (show_nat n) \<Longrightarrow> 48 \<le> byte c \<and> byte c \<le> 57"
proof (induction n rule: show_nat.induct)
  case (1 n)
  have d: "k < 10 \<Longrightarrow> 48 \<le> byte (char_of (48 + k)) \<and> byte (char_of (48 + k)) \<le> 57" for k :: nat
    using byte_char_of [of "48 + k"] by simp
  show ?case
    using 1 d [of n] d [of "n mod 10"] by (auto simp: show_nat.simps [of n] split: if_splits)
qed

lemma show_nat_ne [simp]: "show_nat n \<noteq> []"
  by (subst show_nat.simps) simp

lemma show_int_chars: "c \<in> set (show_int i) \<Longrightarrow> c = CHR ''-'' \<or> (48 \<le> byte c \<and> byte c \<le> 57)"
  by (auto simp: show_int_def dest: show_nat_digits split: if_splits)

lemma parse_show_int:
  assumes "i64_min \<le> i" "i \<le> i64_max"
  shows "parse_i64 (show_int i) = Some i"
proof (cases "i < 0")
  case True
  then show ?thesis using assms by (simp add: show_int_def parse_i64_def parse_show_nat)
next
  case False
  then obtain c cs where s: "show_nat (nat i) = c # cs" by (cases "show_nat (nat i)") auto
  then have "c \<noteq> CHR ''-''" "c \<noteq> CHR ''+''"
    using show_nat_digits [of c "nat i"] by (auto simp: byte_def)
  with False s show ?thesis
    using assms parse_show_nat [of "nat i"] by (simp add: show_int_def parse_i64_def)
qed

section \<open>SQL tables as row lists\<close>

definition lookup_key :: "('r \<Rightarrow> 'k) \<Rightarrow> 'k \<Rightarrow> 'r list \<Rightarrow> 'r option" where
  "lookup_key key k rows = find (\<lambda>r. key r = k) rows"

definition insert_or_ignore :: "('r \<Rightarrow> 'k) \<Rightarrow> 'r \<Rightarrow> 'r list \<Rightarrow> 'r list" where
  "insert_or_ignore key r rows = (if key r \<in> key ` set rows then rows else rows @ [r])"

definition upsert :: "('r \<Rightarrow> 'k) \<Rightarrow> ('r \<Rightarrow> 'r \<Rightarrow> 'r) \<Rightarrow> 'r \<Rightarrow> 'r list \<Rightarrow> 'r list" where
  "upsert key merge r rows =
     (if key r \<in> key ` set rows
      then map (\<lambda>old. if key old = key r then merge old r else old) rows
      else rows @ [r])"

definition update_where :: "('r \<Rightarrow> bool) \<Rightarrow> ('r \<Rightarrow> 'r) \<Rightarrow> 'r list \<Rightarrow> 'r list" where
  "update_where p f rows = map (\<lambda>r. if p r then f r else r) rows"

definition delete_where :: "('r \<Rightarrow> bool) \<Rightarrow> 'r list \<Rightarrow> 'r list" where
  "delete_where p rows = filter (\<lambda>r. \<not> p r) rows"

definition keys_ok :: "('r \<Rightarrow> 'k) \<Rightarrow> 'r list \<Rightarrow> bool" where
  "keys_ok key rows = distinct (map key rows)"

text \<open>
  The contract of a table with a primary key: what a lookup by key returns after each statement.
  \<open>merge\<close> of an upsert must not change the key.
\<close>

locale keyed_table =
  fixes key :: "'r \<Rightarrow> 'k"
    and get :: "'k \<Rightarrow> 't \<Rightarrow> 'r option"
    and ignore :: "'r \<Rightarrow> 't \<Rightarrow> 't"
    and ups :: "('r \<Rightarrow> 'r \<Rightarrow> 'r) \<Rightarrow> 'r \<Rightarrow> 't \<Rightarrow> 't"
    and invar :: "'t \<Rightarrow> bool"
  assumes get_ignore:
      "get k (ignore r t) = (if k = key r \<and> get k t = None then Some r else get k t)"
    and get_ups:
      "invar t \<Longrightarrow> (\<And>a b. key (m a b) = key a) \<Longrightarrow>
       get k (ups m r t) =
         (if k = key r then Some (case get k t of None \<Rightarrow> r | Some old \<Rightarrow> m old r) else get k t)"
    and invar_ignore: "invar t \<Longrightarrow> invar (ignore r t)"
    and invar_ups: "invar t \<Longrightarrow> (\<And>a b. key (m a b) = key a) \<Longrightarrow> invar (ups m r t)"
begin

lemma ignore_present: "get (key r) t = Some old \<Longrightarrow> get k (ignore r t) = get k t"
  by (auto simp: get_ignore)

lemma ignore_frame: "k \<noteq> key r \<Longrightarrow> get k (ignore r t) = get k t"
  by (simp add: get_ignore)

lemma ignore_defined: "get (key r) (ignore r t) \<noteq> None"
  by (simp add: get_ignore)

lemma ignore_idem: "get k (ignore r (ignore r t)) = get k (ignore r t)"
  by (auto simp: get_ignore)

lemma ups_frame:
  "invar t \<Longrightarrow> (\<And>a b. key (m a b) = key a) \<Longrightarrow> k \<noteq> key r \<Longrightarrow> get k (ups m r t) = get k t"
  by (simp add: get_ups)

lemma ups_fresh:
  "invar t \<Longrightarrow> (\<And>a b. key (m a b) = key a) \<Longrightarrow> get (key r) t = None \<Longrightarrow>
   get (key r) (ups m r t) = Some r"
  by (simp add: get_ups)

end

lemma lookup_key_Nil [simp]: "lookup_key key k [] = None"
  by (simp add: lookup_key_def)

lemma lookup_key_Cons: "lookup_key key k (r # rs) = (if key r = k then Some r else lookup_key key k rs)"
  by (simp add: lookup_key_def)

lemma lookup_key_append:
  "lookup_key key k (xs @ ys) = (case lookup_key key k xs of None \<Rightarrow> lookup_key key k ys | Some r \<Rightarrow> Some r)"
  by (induction xs) (auto simp: lookup_key_Cons)

lemma lookup_key_None: "lookup_key key k rows = None \<longleftrightarrow> k \<notin> key ` set rows"
  by (induction rows) (auto simp: lookup_key_Cons)

lemma lookup_key_in: "lookup_key key k rows = Some r \<Longrightarrow> r \<in> set rows \<and> key r = k"
  by (induction rows) (auto simp: lookup_key_Cons split: if_splits)

lemma lookup_key_iff:
  "keys_ok key rows \<Longrightarrow> lookup_key key k rows = Some r \<longleftrightarrow> r \<in> set rows \<and> key r = k"
  by (induction rows) (auto simp: lookup_key_Cons keys_ok_def image_iff)

lemma length_filter_key:
  "keys_ok key rows \<Longrightarrow> length (filter (\<lambda>r. key r = k \<and> P r) rows) =
     (case lookup_key key k rows of None \<Rightarrow> 0 | Some r \<Rightarrow> if P r then 1 else 0)"
proof (induction rows)
  case (Cons a rows)
  have "key a = k \<Longrightarrow> filter (\<lambda>r. key r = k \<and> P r) rows = []"
    using Cons.prems by (auto simp: keys_ok_def filter_empty_conv image_iff)
  with Cons show ?case by (auto simp: lookup_key_Cons keys_ok_def split: option.splits)
qed simp

lemma keys_ok_eq: "keys_ok key rows \<Longrightarrow> a \<in> set rows \<Longrightarrow> b \<in> set rows \<Longrightarrow> key a = key b \<Longrightarrow> a = b"
  by (auto simp: keys_ok_def distinct_map inj_on_def)

lemma lookup_key_map_keep:
  "(\<And>r. key (f r) = key r) \<Longrightarrow> lookup_key key k (map f rows) = map_option f (lookup_key key k rows)"
  by (induction rows) (auto simp: lookup_key_Cons)

lemma keys_ok_map_keep: "(\<And>r. key (f r) = key r) \<Longrightarrow> keys_ok key (map f rows) = keys_ok key rows"
  by (simp add: keys_ok_def comp_def)

lemma keys_ok_filter: "keys_ok key rows \<Longrightarrow> keys_ok key (filter p rows)"
  by (simp add: keys_ok_def distinct_map_filter)

lemma keys_ok_delete: "keys_ok key rows \<Longrightarrow> keys_ok key (delete_where p rows)"
  by (simp add: delete_where_def keys_ok_filter)

lemma keys_ok_update: "(\<And>r. key (f r) = key r) \<Longrightarrow> keys_ok key (update_where p f rows) = keys_ok key rows"
  by (simp add: update_where_def keys_ok_map_keep)

lemma keys_ok_ignore [simp]: "keys_ok key rows \<Longrightarrow> keys_ok key (insert_or_ignore key r rows)"
  by (auto simp: keys_ok_def insert_or_ignore_def)

lemma keys_ok_snoc: "keys_ok key rows \<Longrightarrow> key r \<notin> key ` set rows \<Longrightarrow> keys_ok key (rows @ [r])"
  by (auto simp: keys_ok_def)

lemma set_insert_or_ignore:
  "set (insert_or_ignore key r rows) = (if key r \<in> key ` set rows then set rows else insert r (set rows))"
  by (auto simp: insert_or_ignore_def)

lemma set_delete_where [simp]: "set (delete_where p rows) = {r \<in> set rows. \<not> p r}"
  by (auto simp: delete_where_def)

lemma set_update_where: "set (update_where p f rows) = (\<lambda>r. if p r then f r else r) ` set rows"
  by (simp add: update_where_def)

lemma update_where_keys: "(\<And>r. key (f r) = key r) \<Longrightarrow> map key (update_where p f rows) = map key rows"
  by (simp add: update_where_def)

lemma lookup_key_ignore:
  "lookup_key key k (insert_or_ignore key r t) =
     (if k = key r \<and> lookup_key key k t = None then Some r else lookup_key key k t)"
proof (cases "key r \<in> key ` set t")
  case True
  then have "lookup_key key (key r) t \<noteq> None" by (simp add: lookup_key_None)
  with True show ?thesis by (auto simp: insert_or_ignore_def)
next
  case False
  then have "lookup_key key (key r) t = None" by (simp add: lookup_key_None)
  with False show ?thesis
    by (auto simp: insert_or_ignore_def lookup_key_append lookup_key_Cons split: option.splits)
qed

lemma keys_ok_upsert:
  assumes "keys_ok key rows" "\<And>a b. key (m a b) = key a"
  shows "keys_ok key (upsert key m r rows)"
  using assms by (simp add: upsert_def keys_ok_map_keep keys_ok_snoc)

lemma lookup_key_upsert:
  assumes "\<And>a b. key (m a b) = key a"
  shows "lookup_key key k (upsert key m r rows) =
    (if k = key r then Some (case lookup_key key k rows of None \<Rightarrow> r | Some old \<Rightarrow> m old r)
     else lookup_key key k rows)"
proof (cases "key r \<in> key ` set rows")
  case True
  let ?f = "\<lambda>old. if key old = key r then m old r else old"
  have "lookup_key key k (map ?f rows) = map_option ?f (lookup_key key k rows)"
    by (rule lookup_key_map_keep) (simp add: assms)
  moreover have "lookup_key key (key r) rows \<noteq> None"
    using True by (simp add: lookup_key_None)
  moreover have "map_option ?f (lookup_key key k rows) = lookup_key key k rows" if "k \<noteq> key r"
    using that lookup_key_in [of key k rows] by (cases "lookup_key key k rows") auto
  ultimately show ?thesis
    using True lookup_key_in [of key k rows] by (auto simp: upsert_def split: option.splits)
next
  case False
  then have "lookup_key key (key r) rows = None" by (simp add: lookup_key_None)
  with False show ?thesis
    by (auto simp: upsert_def lookup_key_append lookup_key_Cons split: option.splits)
qed

interpretation tbl: keyed_table key "lookup_key key" "insert_or_ignore key" "upsert key" "keys_ok key"
  for key :: "'r \<Rightarrow> 'k"
  by unfold_locales (simp_all add: lookup_key_ignore lookup_key_upsert keys_ok_upsert)

lemmas table_defs = insert_or_ignore_def upsert_def update_where_def delete_where_def

end
