(* ===== verification/Wire.thy ===== *)
theory Wire
  imports Prelude "HOL-Library.Multiset"
begin

text \<open>
  The wire types of \<open>parler-protocol\<close>: JSON values, message parts and their hand-written codec
  (\<open>types.rs\<close>), the room, visibility, attention and task enumerations, the typed extension parts
  (bundle, file, handoff, dispatch, task, signature) with their encoders and decoders, the token
  estimate and the canonical form that signatures cover (\<open>hub.rs\<close>).
  The lemmas are the round trips of every codec, the laws of the canonical form, and the bounds
  of the estimate.

  A \<open>serde_json::Map\<close> is a list of entries with distinct keys in iteration order; a decoder
  returns \<open>None\<close> where serde reports an error.
\<close>

section \<open>JSON values\<close>

datatype json =
    JNull
  | JBool bool
  | JInt int
  | JFloat string
  | JStr string
  | JArr "json list"
  | JObj "(string \<times> json) list"

type_synonym jmap = "(string \<times> json) list"

definition jget :: "string \<Rightarrow> jmap \<Rightarrow> json option" where
  "jget k m = map_of m k"

fun as_str :: "json \<Rightarrow> string option" where
  "as_str (JStr s) = Some s"
| "as_str _ = None"

fun as_i64 :: "json \<Rightarrow> int option" where
  "as_i64 (JInt i) = (if i64_min \<le> i \<and> i \<le> i64_max then Some i else None)"
| "as_i64 _ = None"

fun as_u64 :: "json \<Rightarrow> nat option" where
  "as_u64 (JInt i) = (if 0 \<le> i \<and> i < 2 ^ 64 then Some (nat i) else None)"
| "as_u64 _ = None"

text \<open>\<open>Map::insert\<close>: replace the value of a present key, otherwise add the entry.\<close>

fun jinsert :: "string \<Rightarrow> json \<Rightarrow> jmap \<Rightarrow> jmap" where
  "jinsert k v [] = [(k, v)]"
| "jinsert k v ((k', v') # m) = (if k = k' then (k, v) # m else (k', v') # jinsert k v m)"

definition jremove :: "string \<Rightarrow> jmap \<Rightarrow> jmap" where
  "jremove k m = filter (\<lambda>e. fst e \<noteq> k) m"

definition jmap_ok :: "jmap \<Rightarrow> bool" where
  "jmap_ok m = distinct (map fst m)"

text \<open>serde's derived field decoders: a required string, an optional one (absent or null is \<open>None\<close>).\<close>

definition field_str :: "string \<Rightarrow> jmap \<Rightarrow> string option" where
  "field_str k m = Option.bind (jget k m) as_str"

definition field_u64 :: "string \<Rightarrow> jmap \<Rightarrow> nat option" where
  "field_u64 k m = Option.bind (jget k m) as_u64"

definition field_opt :: "(json \<Rightarrow> 'a option) \<Rightarrow> string \<Rightarrow> jmap \<Rightarrow> 'a option option" where
  "field_opt dec k m =
     (case jget k m of None \<Rightarrow> Some None | Some JNull \<Rightarrow> Some None
      | Some v \<Rightarrow> (case dec v of None \<Rightarrow> None | Some a \<Rightarrow> Some (Some a)))"

definition opt_entry :: "('a \<Rightarrow> json) \<Rightarrow> string \<Rightarrow> 'a option \<Rightarrow> jmap" where
  "opt_entry enc k x = (case x of None \<Rightarrow> [] | Some a \<Rightarrow> [(k, enc a)])"

definition jnat :: "nat \<Rightarrow> json" where
  "jnat n = JInt (int n)"

section \<open>Enumerations\<close>

datatype room_kind = Channel | Dm | Service

fun room_kind_as_str :: "room_kind \<Rightarrow> string" where
  "room_kind_as_str Channel = ''channel''"
| "room_kind_as_str Dm = ''dm''"
| "room_kind_as_str Service = ''service''"

definition room_kind_parse :: "string \<Rightarrow> room_kind option" where
  "room_kind_parse s =
     (if s = ''channel'' then Some Channel else if s = ''dm'' then Some Dm
      else if s = ''service'' then Some Service else None)"

datatype visibility = Public | Private

fun visibility_as_str :: "visibility \<Rightarrow> string" where
  "visibility_as_str Public = ''public''"
| "visibility_as_str Private = ''private''"

definition visibility_parse :: "string \<Rightarrow> visibility option" where
  "visibility_parse s =
     (if s = ''public'' then Some Public else if s = ''private'' then Some Private else None)"

datatype attention = Open | Dnd | Focus

fun attention_as_str :: "attention \<Rightarrow> string" where
  "attention_as_str Open = ''open''"
| "attention_as_str Dnd = ''dnd''"
| "attention_as_str Focus = ''focus''"

definition attention_parse :: "string \<Rightarrow> attention option" where
  "attention_parse s =
     (let l = to_ascii_lowercase s
      in if l = ''open'' then Some Open else if l = ''dnd'' then Some Dnd
         else if l = ''focus'' then Some Focus else None)"

datatype discover_scope = HubScope | PublicScope

datatype task_status = Accepted | Working | Awaiting | Done | Failed | Cancelled

fun task_status_label :: "task_status \<Rightarrow> string" where
  "task_status_label Accepted = ''accepted''"
| "task_status_label Working = ''working''"
| "task_status_label Awaiting = ''awaiting''"
| "task_status_label Done = ''done''"
| "task_status_label Failed = ''failed''"
| "task_status_label Cancelled = ''cancelled''"

fun is_terminal :: "task_status \<Rightarrow> bool" where
  "is_terminal Done = True"
| "is_terminal Failed = True"
| "is_terminal Cancelled = True"
| "is_terminal _ = False"

definition task_status_parse :: "string \<Rightarrow> task_status option" where
  "task_status_parse s =
     (let l = to_ascii_lowercase (trim s)
      in if l = ''accepted'' then Some Accepted else if l = ''working'' then Some Working
         else if l = ''awaiting'' then Some Awaiting else if l = ''done'' then Some Done
         else if l = ''failed'' then Some Failed
         else if l = ''cancelled'' \<or> l = ''canceled'' then Some Cancelled else None)"

definition task_status_of_wire :: "json \<Rightarrow> task_status option" where
  "task_status_of_wire v =
     (case as_str v of None \<Rightarrow> None
      | Some s \<Rightarrow> find (\<lambda>t. task_status_label t = s) [Accepted, Working, Awaiting, Done, Failed, Cancelled])"

section \<open>Message parts\<close>

datatype part = Text string | Data json | Extension string jmap

fun part_kind :: "part \<Rightarrow> string" where
  "part_kind (Text _) = ''text''"
| "part_kind (Data _) = ''data''"
| "part_kind (Extension k _) = k"

definition is_extension_kind :: "string \<Rightarrow> bool" where
  "is_extension_kind kind =
     (let segs = split_on (CHR ''.'') kind
      in 2 \<le> length segs \<and>
         (\<forall>s \<in> set segs. s \<noteq> [] \<and> (\<forall>b \<in> set s. is_ascii_alphanumeric b \<or> b = CHR ''-'')))"

fun serialize_part :: "part \<Rightarrow> json" where
  "serialize_part (Text t) = JObj [(''kind'', JStr ''text''), (''text'', JStr t)]"
| "serialize_part (Data d) = JObj [(''kind'', JStr ''data''), (''data'', d)]"
| "serialize_part (Extension kind fields) = JObj ((''kind'', JStr kind) # fields)"

definition visit_map :: "jmap \<Rightarrow> part option" where
  "visit_map entries =
     (let obj = foldl (\<lambda>m (k, v). jinsert k v m) [] entries
      in case field_str ''kind'' obj of
           None \<Rightarrow> None
         | Some kind \<Rightarrow>
             if kind = ''text'' then map_option Text (field_str ''text'' obj)
             else if kind = ''data'' then map_option Data (jget ''data'' obj)
             else if \<not> is_extension_kind kind then None
             else Some (Extension kind (jremove ''kind'' obj)))"

fun deserialize_part :: "json \<Rightarrow> part option" where
  "deserialize_part (JObj entries) = visit_map entries"
| "deserialize_part _ = None"

fun part_ok :: "part \<Rightarrow> bool" where
  "part_ok (Extension kind fields) =
     (is_extension_kind kind \<and> jmap_ok fields \<and> jget ''kind'' fields = None)"
| "part_ok _ = True"

section \<open>Shared message records\<close>

record endpoint_ref =
  ep_id :: string
  ep_name :: string
  ep_role :: "string option"

record stored_message =
  sm_seq :: int
  sm_id :: string
  sm_room :: string
  sm_from :: endpoint_ref
  sm_parts :: "part list"
  sm_mentions :: "string list option"
  sm_reply_to :: "string option"
  sm_ts :: ms

datatype target = TRoom string | TDm string | TService string

fun target_to_value :: "target \<Rightarrow> json" where
  "target_to_value (TRoom r) = JObj [(''kind'', JStr ''room''), (''room'', JStr r)]"
| "target_to_value (TDm a) = JObj [(''kind'', JStr ''dm''), (''agent'', JStr a)]"
| "target_to_value (TService s) = JObj [(''kind'', JStr ''service''), (''service'', JStr s)]"

fun target_from_value :: "json \<Rightarrow> target option" where
  "target_from_value (JObj m) =
     (case field_str ''kind'' m of
        None \<Rightarrow> None
      | Some k \<Rightarrow>
          if k = ''room'' then map_option TRoom (field_str ''room'' m)
          else if k = ''dm'' then map_option TDm (field_str ''agent'' m)
          else if k = ''service'' then map_option TService (field_str ''service'' m)
          else None)"
| "target_from_value _ = None"

section \<open>Agent cards\<close>

datatype endpoint_kind = KAgent | KEndpoint

record agent_skill =
  sk_id :: string
  sk_name :: string
  sk_description :: "string option"

record agent_card =
  ac_id :: string
  ac_name :: string
  ac_kind :: endpoint_kind
  ac_role :: "string option"
  ac_description :: "string option"
  ac_tags :: "string list option"
  ac_skills :: "agent_skill list option"
  ac_meta :: "jmap option"
  ac_protocol_version :: "string option"

definition skill_to_value :: "agent_skill \<Rightarrow> json" where
  "skill_to_value s =
     JObj ([(''id'', JStr (sk_id s)), (''name'', JStr (sk_name s))]
           @ opt_entry JStr ''description'' (sk_description s))"

definition card_to_value :: "agent_card \<Rightarrow> json" where
  "card_to_value c =
     JObj ([(''id'', JStr (ac_id c)), (''name'', JStr (ac_name c)),
            (''kind'', JStr (case ac_kind c of KAgent \<Rightarrow> ''agent'' | KEndpoint \<Rightarrow> ''endpoint''))]
           @ opt_entry JStr ''role'' (ac_role c)
           @ opt_entry JStr ''description'' (ac_description c)
           @ opt_entry (\<lambda>ts. JArr (map JStr ts)) ''tags'' (ac_tags c)
           @ opt_entry (\<lambda>ss. JArr (map skill_to_value ss)) ''skills'' (ac_skills c)
           @ opt_entry JObj ''meta'' (ac_meta c)
           @ opt_entry JStr ''protocolVersion'' (ac_protocol_version c))"

section \<open>Typed extension parts\<close>

definition BUNDLE_KIND :: string where "BUNDLE_KIND = ''com.parler.bundle''"
definition FILE_KIND :: string where "FILE_KIND = ''com.parler.file''"
definition HANDOFF_KIND :: string where "HANDOFF_KIND = ''com.parler.handoff''"
definition TASK_KIND :: string where "TASK_KIND = ''com.parler.task''"
definition DISPATCH_KIND :: string where "DISPATCH_KIND = ''com.parler.dispatch''"
definition MESSAGE_SIG_KIND :: string where "MESSAGE_SIG_KIND = ''com.parler.sig''"

lemmas kind_defs = BUNDLE_KIND_def FILE_KIND_def HANDOFF_KIND_def TASK_KIND_def
  DISPATCH_KIND_def MESSAGE_SIG_KIND_def

definition MESSAGE_SIG_V :: int where "MESSAGE_SIG_V = 1"

record bundle_ref =
  br_blob :: string
  br_vcs :: string
  br_tip :: "string option"
  br_base :: "string option"
  br_summary :: "string option"
  br_size :: nat
  br_media_type :: "string option"

definition bundle_to_part :: "bundle_ref \<Rightarrow> part" where
  "bundle_to_part b =
     Extension BUNDLE_KIND
       ([(''blob'', JStr (br_blob b)), (''vcs'', JStr (br_vcs b))]
        @ opt_entry JStr ''tip'' (br_tip b) @ opt_entry JStr ''base'' (br_base b)
        @ opt_entry JStr ''summary'' (br_summary b) @ [(''size'', jnat (br_size b))]
        @ opt_entry JStr ''mediaType'' (br_media_type b))"

definition bundle_of_fields :: "jmap \<Rightarrow> bundle_ref option" where
  "bundle_of_fields m =
     (case (field_str ''blob'' m, field_str ''vcs'' m, field_opt as_str ''tip'' m,
            field_opt as_str ''base'' m, field_opt as_str ''summary'' m, field_u64 ''size'' m,
            field_opt as_str ''mediaType'' m) of
        (Some b, Some v, Some t, Some ba, Some su, Some sz, Some mt) \<Rightarrow>
          Some \<lparr>br_blob = b, br_vcs = v, br_tip = t, br_base = ba, br_summary = su, br_size = sz,
                br_media_type = mt\<rparr>
      | _ \<Rightarrow> None)"

definition bundle_from_part :: "part \<Rightarrow> bundle_ref option" where
  "bundle_from_part p =
     (case p of Extension k m \<Rightarrow> if k = BUNDLE_KIND then bundle_of_fields m else None | _ \<Rightarrow> None)"

record file_ref =
  fr_blob :: string
  fr_name :: string
  fr_size :: nat
  fr_media_type :: "string option"
  fr_summary :: "string option"

definition file_to_part :: "file_ref \<Rightarrow> part" where
  "file_to_part f =
     Extension FILE_KIND
       ([(''blob'', JStr (fr_blob f)), (''name'', JStr (fr_name f)), (''size'', jnat (fr_size f))]
        @ opt_entry JStr ''mediaType'' (fr_media_type f)
        @ opt_entry JStr ''summary'' (fr_summary f))"

definition file_of_fields :: "jmap \<Rightarrow> file_ref option" where
  "file_of_fields m =
     (case (field_str ''blob'' m, field_str ''name'' m, field_u64 ''size'' m,
            field_opt as_str ''mediaType'' m, field_opt as_str ''summary'' m) of
        (Some b, Some n, Some sz, Some mt, Some su) \<Rightarrow>
          Some \<lparr>fr_blob = b, fr_name = n, fr_size = sz, fr_media_type = mt, fr_summary = su\<rparr>
      | _ \<Rightarrow> None)"

definition file_from_part :: "part \<Rightarrow> file_ref option" where
  "file_from_part p =
     (case p of Extension k m \<Rightarrow> if k = FILE_KIND then file_of_fields m else None | _ \<Rightarrow> None)"

record handoff_ref =
  ho_next :: string
  ho_summary :: "string option"
  ho_to :: "string option"
  ho_bundle :: "string option"

definition handoff_to_part :: "handoff_ref \<Rightarrow> part" where
  "handoff_to_part h =
     Extension HANDOFF_KIND
       ([(''next'', JStr (ho_next h))] @ opt_entry JStr ''summary'' (ho_summary h)
        @ opt_entry JStr ''to'' (ho_to h) @ opt_entry JStr ''bundle'' (ho_bundle h))"

definition handoff_of_fields :: "jmap \<Rightarrow> handoff_ref option" where
  "handoff_of_fields m =
     (case (field_str ''next'' m, field_opt as_str ''summary'' m, field_opt as_str ''to'' m,
            field_opt as_str ''bundle'' m) of
        (Some n, Some s, Some t, Some b) \<Rightarrow>
          Some \<lparr>ho_next = n, ho_summary = s, ho_to = t, ho_bundle = b\<rparr>
      | _ \<Rightarrow> None)"

definition handoff_from_part :: "part \<Rightarrow> handoff_ref option" where
  "handoff_from_part p =
     (case p of Extension k m \<Rightarrow> if k = HANDOFF_KIND then handoff_of_fields m else None | _ \<Rightarrow> None)"

definition handoff_is_for :: "handoff_ref \<Rightarrow> string \<Rightarrow> string option \<Rightarrow> bool" where
  "handoff_is_for h name role =
     (case ho_to h of None \<Rightarrow> True
      | Some addr \<Rightarrow>
          let addr = trim addr
          in eq_ignore_ascii_case addr name
             \<or> (case role of None \<Rightarrow> False | Some r \<Rightarrow> eq_ignore_ascii_case addr r))"

definition dispatch_to_part :: "string \<Rightarrow> part" where
  "dispatch_to_part role = Extension DISPATCH_KIND [(''role'', JStr role)]"

text \<open>A \<open>DispatchRef\<close> has the one field \<open>role\<close>; it is modelled by that string.\<close>

definition dispatch_from_part :: "part \<Rightarrow> string option" where
  "dispatch_from_part p =
     (case p of Extension k m \<Rightarrow> if k = DISPATCH_KIND then field_str ''role'' m else None | _ \<Rightarrow> None)"

record task_ref =
  tk_status :: task_status
  tk_task :: "string option"
  tk_note :: "string option"
  tk_result :: "string option"
  tk_tokens :: "nat option"
  tk_elapsed_ms :: "nat option"

definition task_new :: "task_status \<Rightarrow> task_ref" where
  "task_new s = \<lparr>tk_status = s, tk_task = None, tk_note = None, tk_result = None, tk_tokens = None,
                 tk_elapsed_ms = None\<rparr>"

definition task_to_part :: "task_ref \<Rightarrow> part" where
  "task_to_part t =
     Extension TASK_KIND
       ([(''status'', JStr (task_status_label (tk_status t)))] @ opt_entry JStr ''task'' (tk_task t)
        @ opt_entry JStr ''note'' (tk_note t) @ opt_entry JStr ''result'' (tk_result t)
        @ opt_entry jnat ''tokens'' (tk_tokens t) @ opt_entry jnat ''elapsedMs'' (tk_elapsed_ms t))"

definition task_of_fields :: "jmap \<Rightarrow> task_ref option" where
  "task_of_fields m =
     (case (Option.bind (jget ''status'' m) task_status_of_wire, field_opt as_str ''task'' m,
            field_opt as_str ''note'' m, field_opt as_str ''result'' m,
            field_opt as_u64 ''tokens'' m, field_opt as_u64 ''elapsedMs'' m) of
        (Some s, Some t, Some n, Some r, Some k, Some e) \<Rightarrow>
          Some \<lparr>tk_status = s, tk_task = t, tk_note = n, tk_result = r, tk_tokens = k,
                tk_elapsed_ms = e\<rparr>
      | _ \<Rightarrow> None)"

definition task_from_part :: "part \<Rightarrow> task_ref option" where
  "task_from_part p =
     (case p of Extension k m \<Rightarrow> if k = TASK_KIND then task_of_fields m else None | _ \<Rightarrow> None)"

record message_sig =
  ms_sig :: string
  ms_ts :: int
  ms_uid :: string
  ms_target :: target

definition is_message_sig_part :: "part \<Rightarrow> bool" where
  "is_message_sig_part p = (case p of Extension k _ \<Rightarrow> k = MESSAGE_SIG_KIND | _ \<Rightarrow> False)"

definition sig_to_part :: "message_sig \<Rightarrow> part" where
  "sig_to_part s =
     Extension MESSAGE_SIG_KIND
       [(''sig'', JStr (ms_sig s)), (''alg'', JStr ''ed25519''), (''v'', JInt MESSAGE_SIG_V),
        (''ts'', JInt (ms_ts s)), (''uid'', JStr (ms_uid s)),
        (''target'', target_to_value (ms_target s))]"

definition sig_of_fields :: "jmap \<Rightarrow> message_sig option" where
  "sig_of_fields m =
     (case (field_str ''sig'' m, Option.bind (jget ''ts'' m) as_i64, field_str ''uid'' m,
            Option.bind (jget ''target'' m) target_from_value) of
        (Some s, Some t, Some u, Some tg) \<Rightarrow>
          Some \<lparr>ms_sig = s, ms_ts = t, ms_uid = u, ms_target = tg\<rparr>
      | _ \<Rightarrow> None)"

definition sig_from_part :: "part \<Rightarrow> message_sig option" where
  "sig_from_part p =
     (case p of Extension k m \<Rightarrow> if k = MESSAGE_SIG_KIND then sig_of_fields m else None | _ \<Rightarrow> None)"

text \<open>\<open>Iterator::find_map\<close>: the first part that decodes.\<close>

definition sig_from_parts :: "part list \<Rightarrow> message_sig option" where
  "sig_from_parts parts =
     (case filter_map sig_from_part parts of [] \<Rightarrow> None | s # _ \<Rightarrow> Some s)"

section \<open>Token estimate\<close>

definition chars_to_tokens :: "nat \<Rightarrow> nat" where
  "chars_to_tokens chars = (chars + 3) div 4"

definition estimate_tokens :: "string \<Rightarrow> nat" where
  "estimate_tokens text = chars_to_tokens (chars_count text)"

fun json_string_chars :: "json \<Rightarrow> nat" where
  "json_string_chars (JStr s) = chars_count s"
| "json_string_chars (JArr a) = sum_list (map json_string_chars a)"
| "json_string_chars (JObj m) = sum_list (map (\<lambda>e. json_string_chars (snd e)) m)"
| "json_string_chars _ = 0"

fun part_chars :: "part \<Rightarrow> nat" where
  "part_chars (Text t) = chars_count t"
| "part_chars (Data v) = json_string_chars v"
| "part_chars (Extension kind flds) =
     (if is_message_sig_part (Extension kind flds) then 0
      else sum_list (map (\<lambda>e. json_string_chars (snd e)) flds))"

definition estimate_message_tokens :: "part list \<Rightarrow> nat" where
  "estimate_message_tokens parts = chars_to_tokens (sum_list (map part_chars parts))"

section \<open>Canonical form\<close>

fun canonicalize :: "json \<Rightarrow> json" where
  "canonicalize (JObj m) = JObj (sort_key fst (map (\<lambda>e. (fst e, canonicalize (snd e))) m))"
| "canonicalize (JArr a) = JArr (map canonicalize a)"
| "canonicalize v = v"

text \<open>\<open>to_vec\<close> is \<open>serde_json::to_vec\<close>.\<close>

definition canonical_card_bytes :: "(json \<Rightarrow> string) \<Rightarrow> agent_card \<Rightarrow> string" where
  "canonical_card_bytes to_vec c = to_vec (canonicalize (card_to_value c))"

definition signable_value ::
  "string \<Rightarrow> target \<Rightarrow> part list \<Rightarrow> string option \<Rightarrow> int \<Rightarrow> string \<Rightarrow> json" where
  "signable_value from_id target parts reply_to ts uid =
     JObj ([(''v'', JInt MESSAGE_SIG_V), (''from'', JStr from_id), (''target'', target_to_value target),
            (''parts'', JArr (map serialize_part (filter (\<lambda>p. \<not> is_message_sig_part p) parts)))]
           @ opt_entry JStr ''replyTo'' reply_to
           @ [(''ts'', JInt ts), (''uid'', JStr uid)])"

definition canonical_message_bytes ::
  "(json \<Rightarrow> string) \<Rightarrow> string \<Rightarrow> target \<Rightarrow> part list \<Rightarrow> string option \<Rightarrow> int \<Rightarrow> string \<Rightarrow> string" where
  "canonical_message_bytes to_vec from_id target parts reply_to ts uid =
     to_vec (canonicalize (signable_value from_id target parts reply_to ts uid))"

section \<open>Round trips of the enumerations\<close>

lemma room_kind_roundtrip: "room_kind_parse (room_kind_as_str k) = Some k"
  by (cases k) (simp_all add: room_kind_parse_def)

lemma visibility_roundtrip: "visibility_parse (visibility_as_str v) = Some v"
  by (cases v) (simp_all add: visibility_parse_def)

lemma attention_roundtrip: "attention_parse (attention_as_str a) = Some a"
  by (cases a) (simp_all add: attention_parse_def to_ascii_lowercase_def ascii_lower_def byte_def)

lemma task_status_wire_roundtrip: "task_status_of_wire (JStr (task_status_label t)) = Some t"
  by (cases t) (simp_all add: task_status_of_wire_def)

section \<open>The part codec\<close>

lemma jinsert_fresh: "k \<notin> fst ` set m \<Longrightarrow> jinsert k v m = m @ [(k, v)]"
  by (induction m) auto

lemma foldl_jinsert:
  "distinct (map fst (m @ es)) \<Longrightarrow> foldl (\<lambda>m (k, v). jinsert k v m) m es = m @ es"
proof (induction es arbitrary: m)
  case Nil
  then show ?case by simp
next
  case (Cons e es)
  obtain k v where e: "e = (k, v)" by force
  with Cons.prems have "k \<notin> fst ` set m" by auto
  then have "jinsert k v m = m @ [(k, v)]" by (rule jinsert_fresh)
  with Cons e show ?case by simp
qed

lemma jinsert_keys: "set (map fst (jinsert k v m)) = insert k (set (map fst m))"
  by (induction k v m rule: jinsert.induct) auto

lemma jinsert_distinct: "distinct (map fst m) \<Longrightarrow> distinct (map fst (jinsert k v m))"
proof (induction m)
  case Nil
  then show ?case by simp
next
  case (Cons e m)
  then show ?case using jinsert_keys [of k v m] by (cases e) auto
qed

lemma foldl_jinsert_distinct:
  "distinct (map fst m) \<Longrightarrow> distinct (map fst (foldl (\<lambda>m (k, v). jinsert k v m) m es))"
  by (induction es arbitrary: m) (auto simp: jinsert_distinct)

lemma jget_None: "jget k m = None \<longleftrightarrow> k \<notin> fst ` set m"
  by (simp add: jget_def map_of_eq_None_iff)

lemma jremove_absent: "k \<notin> fst ` set m \<Longrightarrow> jremove k m = m"
  by (auto simp: jremove_def filter_id_conv)

lemma part_codec_roundtrip:
  assumes "part_ok p"
  shows "deserialize_part (serialize_part p) = Some p"
proof (cases p)
  case (Extension kind flds)
  with assms have ok: "is_extension_kind kind" "distinct (map fst flds)" "''kind'' \<notin> fst ` set flds"
    by (auto simp: jmap_ok_def jget_None)
  have "\<not> is_extension_kind ''text''" "\<not> is_extension_kind ''data''"
    by (simp_all add: is_extension_kind_def)
  with ok have "kind \<noteq> ''text''" "kind \<noteq> ''data''" by auto
  moreover have "foldl (\<lambda>m (k, v). jinsert k v m) [] ((''kind'', JStr kind) # flds)
      = (''kind'', JStr kind) # flds"
    using ok foldl_jinsert [of "[(''kind'', JStr kind)]" flds] by auto
  ultimately show ?thesis
    using Extension ok by (simp add: visit_map_def field_str_def jget_def jremove_def)
      (metis jremove_absent jremove_def)
qed (simp_all add: visit_map_def field_str_def jget_def)

lemma deserialize_part_ok: "deserialize_part v = Some p \<Longrightarrow> part_ok p"
proof (cases v)
  case (JObj es)
  assume "deserialize_part v = Some p"
  with JObj have vm: "visit_map es = Some p" by simp
  let ?obj = "foldl (\<lambda>m (k, v). jinsert k v m) [] es"
  have d: "distinct (map fst (jremove ''kind'' ?obj))"
    using foldl_jinsert_distinct [of "[]" es] by (simp add: jremove_def distinct_map_filter)
  have n: "jget ''kind'' (jremove ''kind'' ?obj) = None"
    by (auto simp: jget_None jremove_def)
  from vm show ?thesis
    by (auto simp: visit_map_def Let_def jmap_ok_def d n split: option.splits if_splits)
qed auto

section \<open>The typed extension parts\<close>

lemma field_opt_entry:
  assumes "\<And>a. x = Some a \<Longrightarrow> dec (enc a) = Some a" "\<And>a. enc a \<noteq> JNull"
  shows "field_opt dec k (opt_entry enc k x) = Some x"
  using assms by (cases x) (auto simp: field_opt_def opt_entry_def jget_def split: json.splits)

lemma jget_simps:
  "jget k [] = None"
  "jget k ((k', v) # m) = (if k = k' then Some v else jget k m)"
  "jget k (opt_entry enc k' x @ m) =
     (if k = k' then (case x of None \<Rightarrow> jget k m | Some a \<Rightarrow> Some (enc a)) else jget k m)"
  by (auto simp: jget_def opt_entry_def split: option.splits)

lemma jget_entry:
  "jget k (opt_entry enc k' x) = (if k = k' then map_option enc x else None)"
  by (cases x) (auto simp: jget_def opt_entry_def)

lemmas codec_simps = jget_simps jget_entry field_str_def field_u64_def field_opt_def jnat_def

lemma bundle_roundtrip: "br_size b < 2 ^ 64 \<Longrightarrow> bundle_from_part (bundle_to_part b) = Some b"
  by (cases b) (simp add: bundle_from_part_def bundle_to_part_def bundle_of_fields_def codec_simps
      split: option.splits)

lemma file_roundtrip: "fr_size f < 2 ^ 64 \<Longrightarrow> file_from_part (file_to_part f) = Some f"
  by (cases f) (simp add: file_from_part_def file_to_part_def file_of_fields_def codec_simps
      split: option.splits)

lemma handoff_roundtrip: "handoff_from_part (handoff_to_part h) = Some h"
  by (cases h) (simp add: handoff_from_part_def handoff_to_part_def handoff_of_fields_def codec_simps
      split: option.splits)

lemma dispatch_roundtrip: "dispatch_from_part (dispatch_to_part r) = Some r"
  by (simp add: dispatch_from_part_def dispatch_to_part_def codec_simps)

lemma task_roundtrip:
  "\<lbrakk>\<And>n. tk_tokens t = Some n \<Longrightarrow> n < 2 ^ 64; \<And>n. tk_elapsed_ms t = Some n \<Longrightarrow> n < 2 ^ 64\<rbrakk>
   \<Longrightarrow> task_from_part (task_to_part t) = Some t"
  by (cases t) (simp add: task_from_part_def task_to_part_def task_of_fields_def codec_simps
      task_status_wire_roundtrip split: option.splits)

lemma target_roundtrip: "target_from_value (target_to_value t) = Some t"
  by (cases t) (simp_all add: codec_simps)

lemma sig_roundtrip:
  "i64_min \<le> ms_ts s \<Longrightarrow> ms_ts s \<le> i64_max \<Longrightarrow> sig_from_part (sig_to_part s) = Some s"
  by (cases s) (simp add: sig_from_part_def sig_to_part_def sig_of_fields_def codec_simps
      target_roundtrip)

lemma sig_to_part_is_sig [simp]: "is_message_sig_part (sig_to_part s)"
  by (simp add: is_message_sig_part_def sig_to_part_def)

lemma sig_from_part_Some: "sig_from_part p = Some s \<Longrightarrow> is_message_sig_part p"
  by (auto simp: sig_from_part_def is_message_sig_part_def split: part.splits if_splits)

section \<open>The token estimate\<close>

lemma chars_to_tokens_ceil: "4 * chars_to_tokens n \<ge> n \<and> 4 * chars_to_tokens n < n + 4"
  by (simp add: chars_to_tokens_def) arith

lemma part_chars_sig: "is_message_sig_part p \<Longrightarrow> part_chars p = 0"
  by (cases p) (auto simp: is_message_sig_part_def)

lemma sum_list_filter_zero:
  "(\<And>x. x \<in> set xs \<Longrightarrow> \<not> P x \<Longrightarrow> f x = (0::nat)) \<Longrightarrow> sum_list (map f (filter P xs)) = sum_list (map f xs)"
  by (induction xs) auto

section \<open>The canonical form\<close>

lemma canonicalize_idem: "canonicalize (canonicalize v) = canonicalize v"
proof (induction v rule: canonicalize.induct)
  case (1 m)
  let ?c = "\<lambda>e. (fst e, canonicalize (snd e))"
  have "map ?c (sort_key fst (map ?c m)) = sort_key fst (map ?c m)"
    by (rule map_idI) (use 1 in \<open>auto simp: set_sort\<close>)
  moreover have "sort_key fst (sort_key fst (map ?c m)) = sort_key fst (map ?c m)"
    by (rule sort_key_id_if_sorted) simp
  ultimately show ?case by simp
next
  case (2 a)
  then show ?case by simp
qed auto

lemma distinct_keys_sort: "distinct (map fst m) \<Longrightarrow> distinct (map fst (sort_key fst m))"
  by (metis distinct_map distinct_sort set_sort)

lemma map_of_sort_key:
  assumes "distinct (map fst m)"
  shows "map_of (sort_key fst m) = map_of m"
  by (rule map_of_inject_set [THEN iffD2])
    (use assms distinct_keys_sort [OF assms] in \<open>simp_all add: set_sort\<close>)

lemma map_of_canonical:
  assumes "distinct (map fst m)"
  shows "map_of (sort_key fst (map (\<lambda>e. (fst e, canonicalize (snd e))) m)) k
    = map_option canonicalize (map_of m k)"
proof -
  let ?c = "\<lambda>e. (fst e, canonicalize (snd e))"
  have "distinct (map fst (map ?c m))" using assms by (simp add: comp_def)
  then have "map_of (sort_key fst (map ?c m)) = map_of (map ?c m)" by (rule map_of_sort_key)
  moreover have "map_of (map ?c m) k = map_option canonicalize (map_of m k)"
    by (induction m) auto
  ultimately show ?thesis by simp
qed

lemma sort_key_perm_eq:
  fixes xs ys :: "('k::linorder \<times> 'v) list"
  assumes "mset xs = mset ys" "distinct (map fst xs)"
  shows "sort_key fst xs = sort_key fst ys"
proof -
  have st: "set ys = set xs" using assms(1) by (metis set_mset_mset)
  have "mset (map fst ys) = mset (map fst xs)" using assms(1) by simp
  then have dy: "distinct (map fst ys)" using assms(2) by (metis mset_eq_imp_distinct_iff)
  have inj: "inj_on fst (set xs)" using assms(2) by (simp add: distinct_map)
  show ?thesis
    by (rule map_sorted_distinct_set_unique [of fst])
      (use inj st distinct_keys_sort [OF assms(2)] distinct_keys_sort [OF dy] in
        \<open>simp_all add: set_sort\<close>)
qed

lemma canonicalize_key_order:
  assumes "mset m = mset m'" "jmap_ok m"
  shows "canonicalize (JObj m) = canonicalize (JObj m')"
proof -
  let ?c = "\<lambda>e. (fst e, canonicalize (snd e))"
  have "mset (map ?c m) = mset (map ?c m')" using assms(1) by simp
  moreover have "distinct (map fst (map ?c m))" using assms(2) by (simp add: jmap_ok_def comp_def)
  ultimately show ?thesis by (simp add: sort_key_perm_eq)
qed

lemma canonical_fields:
  assumes "canonicalize (JObj m) = canonicalize (JObj m')" "jmap_ok m" "jmap_ok m'"
  shows "map_option canonicalize (jget k m) = map_option canonicalize (jget k m')"
  using assms map_of_canonical [of m k] map_of_canonical [of m' k]
  by (simp add: jmap_ok_def jget_def)

lemma canonical_target_inj:
  assumes "canonicalize (target_to_value t) = canonicalize (target_to_value t')"
  shows "t = t'"
proof -
  obtain m m' where m: "target_to_value t = JObj m" "target_to_value t' = JObj m'"
    by (cases t; cases t') auto
  then have ok: "jmap_ok m" "jmap_ok m'"
    by (cases t; cases t'; auto simp: jmap_ok_def)+
  have f: "map_option canonicalize (jget k m) = map_option canonicalize (jget k m')" for k
    using assms m ok by (auto intro: canonical_fields)
  show ?thesis
    using f [of "''kind''"] f [of "''room''"] f [of "''agent''"] f [of "''service''"] m
    by (cases t; cases t') (auto simp: jget_simps)
qed

lemma signable_canonical_inj:
  assumes "canonicalize (signable_value f t ps r ts u) = canonicalize (signable_value f' t' ps' r' ts' u')"
  shows "f = f' \<and> t = t' \<and> r = r' \<and> ts = ts' \<and> u = u' \<and>
    map (\<lambda>p. canonicalize (serialize_part p)) (filter (\<lambda>p. \<not> is_message_sig_part p) ps) =
    map (\<lambda>p. canonicalize (serialize_part p)) (filter (\<lambda>p. \<not> is_message_sig_part p) ps')"
proof -
  obtain m m' where m: "signable_value f t ps r ts u = JObj m" "signable_value f' t' ps' r' ts' u' = JObj m'"
    by (simp add: signable_value_def)
  then have ok: "jmap_ok m" "jmap_ok m'"
    by (auto simp: signable_value_def jmap_ok_def opt_entry_def split: option.splits)
  have e: "map_option canonicalize (jget k m) = map_option canonicalize (jget k m')" for k
    using assms m ok by (auto intro: canonical_fields)
  show ?thesis
    using e [of "''from''"] e [of "''target''"] e [of "''parts''"] e [of "''replyTo''"] e [of "''ts''"]
      e [of "''uid''"] m canonical_target_inj [of t t']
    by (auto simp: signable_value_def jget_simps comp_def split: option.splits)
qed

end
