(* ===== verification/Subjects.thy ===== *)
theory Subjects
  imports Wire "HOL-Library.Word"
begin

unbundle bit_operations_syntax

text \<open>
  The subject grammar of \<open>parler-protocol/src/subjects.rs\<close>: token sanitising, channel paths and
  policies, subject construction, the parser that is the single authority on the layout, NATS
  pattern matching, bucket, stream and durable names, and the partition hash.
  The lemmas show that every built subject parses back to its sender and target, that sanitised
  tokens cannot smuggle a separator or a wildcard, that validation accepts exactly the channels
  that sanitising leaves unchanged, and that matching is the NATS rule on token lists.
\<close>

definition ROOT :: string where "ROOT = ''parler''"

datatype subject_error = WildcardNotLast string | InvalidChannel string

definition token_char :: "char \<Rightarrow> bool" where
  "token_char c = (is_ascii_alphanumeric c \<or> c = CHR ''_'' \<or> c = CHR ''-'')"

definition token_map :: "string \<Rightarrow> char" where
  "token_map g = (case g of [c] \<Rightarrow> if token_char c then c else CHR ''_'' | _ \<Rightarrow> CHR ''_'')"

definition token :: "string \<Rightarrow> string" where
  "token s = (let t = map token_map (utf8_chars (trim s)) in if t = [] then ''_'' else t)"

definition space_prefix :: "string \<Rightarrow> string" where
  "space_prefix space = ROOT @ ''.'' @ token space"

text \<open>\<open>str::to_lowercase\<close> needs the Unicode case tables; it is the parameter \<open>lower\<close>.\<close>

fun normalize_mentions_loop ::
  "(string \<Rightarrow> string) \<Rightarrow> string list \<Rightarrow> string list \<Rightarrow> string list" where
  "normalize_mentions_loop lower out [] = out"
| "normalize_mentions_loop lower out (m # ms) =
     (let m = lower (trim m)
      in if m \<noteq> [] \<and> m \<notin> set out then normalize_mentions_loop lower (out @ [m]) ms
         else normalize_mentions_loop lower out ms)"

definition normalize_mentions :: "(string \<Rightarrow> string) \<Rightarrow> string list \<Rightarrow> string list option" where
  "normalize_mentions lower mentions =
     (let out = normalize_mentions_loop lower [] mentions in if out = [] then None else Some out)"

text \<open>The loop of \<open>channel_path\<close> over the remaining segments; \<open>>\<close> must be the last one.\<close>

fun channel_path_loop :: "string \<Rightarrow> string list \<Rightarrow> subject_error + string list" where
  "channel_path_loop channel [] = Inr []"
| "channel_path_loop channel (s # ss) =
     (if s = ''>'' then (if ss \<noteq> [] then Inl (WildcardNotLast channel) else Inr [''>''])
      else (case channel_path_loop channel ss of
              Inl e \<Rightarrow> Inl e
            | Inr out \<Rightarrow> Inr ((if s = ''*'' then ''*'' else token s) # out)))"

definition channel_path :: "string \<Rightarrow> subject_error + string" where
  "channel_path channel =
     (let segs = filter (\<lambda>s. s \<noteq> []) (map trim (split_on (CHR ''.'') channel))
      in if segs = [] then Inr ''_''
         else (case channel_path_loop channel segs of
                 Inl e \<Rightarrow> Inl e
               | Inr out \<Rightarrow> Inr (join_with ''.'' out)))"

definition route_token :: "string \<Rightarrow> string" where
  "route_token s = (if s = ''*'' then ''*'' else token s)"

definition chat_subject :: "string \<Rightarrow> string \<Rightarrow> string \<Rightarrow> subject_error + string" where
  "chat_subject space sender channel =
     (case channel_path channel of
        Inl e \<Rightarrow> Inl e
      | Inr p \<Rightarrow> Inr (space_prefix space @ ''.chat.'' @ route_token sender @ ''.'' @ p))"

definition is_concrete_channel :: "string \<Rightarrow> bool" where
  "is_concrete_channel channel =
     (\<not> (\<exists>s \<in> set (split_on (CHR ''.'') channel). trim s = ''*'' \<or> trim s = ''>''))"

fun match_tokens :: "string list \<Rightarrow> string list \<Rightarrow> bool" where
  "match_tokens [] s = (s = [])"
| "match_tokens (p # ps) s =
     (if p = ''>'' then s \<noteq> []
      else (case s of [] \<Rightarrow> False
            | t # ts \<Rightarrow> if p = ''*'' \<or> p = t then match_tokens ps ts else False))"

definition subject_matches :: "string \<Rightarrow> string \<Rightarrow> bool" where
  "subject_matches pattern subject =
     match_tokens (split_on (CHR ''.'') pattern) (split_on (CHR ''.'') subject)"

fun valid_segments :: "string \<Rightarrow> string list \<Rightarrow> subject_error option" where
  "valid_segments channel [] = None"
| "valid_segments channel (s # ss) =
     (if s = ''>'' then (if ss \<noteq> [] then Some (WildcardNotLast channel) else valid_segments channel ss)
      else if s = ''*'' then valid_segments channel ss
      else if \<not> (\<forall>b \<in> set s. token_char b) then Some (InvalidChannel channel)
      else valid_segments channel ss)"

definition assert_valid_channel :: "string \<Rightarrow> subject_error + string" where
  "assert_valid_channel channel =
     (let segs = split_on (CHR ''.'') channel
      in if channel = [] \<or> (\<exists>s \<in> set segs. s = []) then Inl (InvalidChannel channel)
         else (case valid_segments channel segs of Some e \<Rightarrow> Inl e | None \<Rightarrow> Inr channel))"

definition channel_in_allow :: "string list \<Rightarrow> string \<Rightarrow> bool" where
  "channel_in_allow allow channel = (\<exists>a \<in> set allow. subject_matches a channel)"

fun uniq_loop :: "string list \<Rightarrow> string list \<Rightarrow> string list" where
  "uniq_loop seen [] = []"
| "uniq_loop seen (s # ss) = (if s \<in> set seen then uniq_loop seen ss else s # uniq_loop (s # seen) ss)"

definition collapse_filter_subjects :: "string list \<Rightarrow> string list" where
  "collapse_filter_subjects subjects =
     (let uniq = uniq_loop [] subjects
      in filter (\<lambda>x. \<not> (\<exists>y \<in> set uniq. y \<noteq> x \<and> subject_matches y x)) uniq)"

definition unicast_subject :: "string \<Rightarrow> string \<Rightarrow> string \<Rightarrow> string" where
  "unicast_subject space tgt sender =
     space_prefix space @ ''.inst.'' @ route_token tgt @ ''.'' @ route_token sender"

definition anycast_subject :: "string \<Rightarrow> string \<Rightarrow> string \<Rightarrow> string" where
  "anycast_subject space service sender =
     space_prefix space @ ''.svc.'' @ route_token service @ ''.'' @ route_token sender"

definition control_service_subject :: "string \<Rightarrow> string \<Rightarrow> string \<Rightarrow> string" where
  "control_service_subject space service sender =
     space_prefix space @ ''.ctl.'' @ route_token service @ ''.'' @ route_token sender"

definition trace_subject :: "string \<Rightarrow> string \<Rightarrow> string" where
  "trace_subject space agent_id = space_prefix space @ ''.trace.'' @ token agent_id"

definition control_subject :: "string \<Rightarrow> string \<Rightarrow> string" where
  "control_subject space agent_id = space_prefix space @ ''.control.'' @ token agent_id"

definition space_wildcard :: "string \<Rightarrow> string" where
  "space_wildcard space = space_prefix space @ ''.>''"

definition chat_wildcard :: "string \<Rightarrow> string" where
  "chat_wildcard space = space_prefix space @ ''.chat.>''"

datatype delivery_mode = DChat | DAnycast | DUnicast

datatype subject_kind = SChat | SInst | SSvc | SCtl

fun subject_kind_as_str :: "subject_kind \<Rightarrow> string" where
  "subject_kind_as_str SChat = ''chat''"
| "subject_kind_as_str SInst = ''inst''"
| "subject_kind_as_str SSvc = ''svc''"
| "subject_kind_as_str SCtl = ''ctl''"

record parsed_subject =
  ps_kind :: subject_kind
  ps_sender :: string
  ps_rest :: string

definition parse_subject :: "string \<Rightarrow> parsed_subject option" where
  "parse_subject subject =
     (let parts = split_on (CHR ''.'') subject
      in if length parts \<le> 2 \<or> parts ! 0 \<noteq> ROOT then None
         else if parts ! 2 = ''chat'' then
           (if length parts < 5 then None
            else Some \<lparr>ps_kind = SChat, ps_sender = parts ! 3, ps_rest = join_with ''.'' (drop 4 parts)\<rparr>)
         else if parts ! 2 = ''inst'' \<or> parts ! 2 = ''svc'' \<or> parts ! 2 = ''ctl'' then
           (if length parts \<noteq> 5 then None
            else Some \<lparr>ps_kind = (if parts ! 2 = ''inst'' then SInst
                                  else if parts ! 2 = ''svc'' then SSvc else SCtl),
                       ps_sender = parts ! 4, ps_rest = parts ! 3\<rparr>)
         else None)"

definition delivery_of :: "string \<Rightarrow> delivery_mode option" where
  "delivery_of subject =
     (case parse_subject subject of
        None \<Rightarrow> None
      | Some p \<Rightarrow> (case ps_kind p of SChat \<Rightarrow> Some DChat | SSvc \<Rightarrow> Some DAnycast
                   | SInst \<Rightarrow> Some DUnicast | SCtl \<Rightarrow> None))"

datatype route = Multicast string | Unicast string | Anycast string

fun route_mode :: "route \<Rightarrow> delivery_mode" where
  "route_mode (Multicast _) = DChat"
| "route_mode (Unicast _) = DUnicast"
| "route_mode (Anycast _) = DAnycast"

definition presence_bucket :: "string \<Rightarrow> string" where
  "presence_bucket space = ''parler_presence_'' @ token space"

definition channel_bucket :: "string \<Rightarrow> string" where
  "channel_bucket space = ''parler_channels_'' @ token space"

definition members_bucket :: "string \<Rightarrow> string" where
  "members_bucket space = ''parler_members_'' @ token space"

definition acl_bucket :: "string \<Rightarrow> string" where
  "acl_bucket space = ''parler_acl_'' @ token space"

definition membership_bucket :: "string \<Rightarrow> string" where
  "membership_bucket space = ''parler_membership_'' @ token space"

definition delivery_bucket :: "string \<Rightarrow> string" where
  "delivery_bucket space = ''parler_delivery_'' @ token space"

definition CHANNEL_DEFAULTS_KEY :: string where "CHANNEL_DEFAULTS_KEY = ''=defaults''"
definition MEMBERSHIP_FEED_KEY :: string where "MEMBERSHIP_FEED_KEY = ''=feed''"

definition member_key :: "string \<Rightarrow> string \<Rightarrow> string" where
  "member_key channel owner = channel @ ''/'' @ owner"

definition parse_member_key :: "string \<Rightarrow> (string \<times> string) option" where
  "parse_member_key key =
     (if CHR ''/'' \<notin> set key then None
      else let i = length (takeWhile (\<lambda>c. c \<noteq> CHR ''/'') key)
           in if i = 0 \<or> i \<ge> length key - 1 then None
              else Some (take i key, drop (i + 1) key))"

definition acl_key :: "string \<Rightarrow> string" where "acl_key owner = token owner"
definition membership_key :: "string \<Rightarrow> string" where "membership_key mid = token mid"

definition lease_key :: "nat \<Rightarrow> string" where
  "lease_key shard_index = ''lease.'' @ show_nat shard_index"

text \<open>The scalar value of one UTF-8 group, and its UTF-16 code units (\<open>str::encode_utf16\<close>).\<close>

fun codepoint :: "nat list \<Rightarrow> nat" where
  "codepoint [a] = a"
| "codepoint [a, b] = (a - 192) * 64 + (b - 128)"
| "codepoint [a, b, c] = (a - 224) * 4096 + (b - 128) * 64 + (c - 128)"
| "codepoint [a, b, c, d] = (a - 240) * 262144 + (b - 128) * 4096 + (c - 128) * 64 + (d - 128)"
| "codepoint _ = 0"

definition utf16_units :: "string \<Rightarrow> nat list" where
  "utf16_units s =
     concat (map (\<lambda>g. let cp = codepoint (map byte g)
                      in if cp < 65536 then [cp]
                         else [55296 + (cp - 65536) div 1024, 56320 + (cp - 65536) mod 1024])
                 (utf8_chars s))"

definition fnv_step :: "32 word \<Rightarrow> nat \<Rightarrow> 32 word" where
  "fnv_step h c = (h XOR of_nat c) * 0x01000193"

definition partition_hash :: "string \<Rightarrow> 32 word" where
  "partition_hash key = foldl fnv_step 0x811c9dc5 (utf16_units key)"

definition partition_of :: "32 word \<Rightarrow> string \<Rightarrow> 32 word" where
  "partition_of n key = (if n \<le> 1 then 0 else partition_hash key mod n)"

definition chat_stream :: "string \<Rightarrow> string" where "chat_stream space = ''CHAT_'' @ token space"
definition dm_stream :: "string \<Rightarrow> string" where "dm_stream space = ''DM_'' @ token space"
definition task_stream :: "string \<Rightarrow> string" where "task_stream space = ''TASK_'' @ token space"
definition inbox_stream :: "string \<Rightarrow> string" where "inbox_stream space = ''INBOX_'' @ token space"
definition dlv_stream :: "string \<Rightarrow> string" where "dlv_stream space = ''DLV_'' @ token space"

definition dinbox_subject :: "string \<Rightarrow> string \<Rightarrow> string" where
  "dinbox_subject space owner = space_prefix space @ ''.dinbox.'' @ route_token owner"

definition dlv_subject :: "string \<Rightarrow> string \<Rightarrow> string" where
  "dlv_subject space owner = space_prefix space @ ''.dlv.'' @ route_token owner"

definition parse_dinbox_owner :: "string \<Rightarrow> string option" where
  "parse_dinbox_owner subject =
     (let parts = split_on (CHR ''.'') subject
      in if length parts = 4 \<and> parts ! 0 = ROOT \<and> parts ! 2 = ''dinbox'' then Some (parts ! 3) else None)"

definition dlv_durable :: "string \<Rightarrow> string" where "dlv_durable owner = ''dlv_'' @ token owner"

definition fanout_durable :: "nat \<Rightarrow> nat \<Rightarrow> string" where
  "fanout_durable shard shards = (if shards \<le> 1 then ''fanout'' else ''fanout_'' @ show_nat shard)"

definition reader_durable :: "nat \<Rightarrow> nat \<Rightarrow> string" where
  "reader_durable shard shards = (if shards \<le> 1 then ''reader'' else ''reader_'' @ show_nat shard)"

definition chat_durable :: "string \<Rightarrow> string" where "chat_durable i = ''chat_'' @ token i"
definition chat_hist_durable :: "string \<Rightarrow> string" where "chat_hist_durable i = ''chathist_'' @ token i"
definition dm_durable :: "string \<Rightarrow> string" where "dm_durable i = ''dm_'' @ token i"
definition task_durable :: "string \<Rightarrow> string" where "task_durable service = ''svc_'' @ token service"

definition channel_from_chat_subscription :: "string \<Rightarrow> string \<Rightarrow> string option" where
  "channel_from_chat_subscription space subject =
     (if \<not> is_Some (strip_prefix (space_prefix space @ ''.chat.'') subject) then None
      else (case parse_subject subject of
              None \<Rightarrow> None
            | Some p \<Rightarrow> if ps_kind p = SChat then Some (ps_rest p) else None))"

definition connz_request_subject :: "string \<Rightarrow> string" where
  "connz_request_subject a = ''$SYS.REQ.ACCOUNT.'' @ a @ ''.CONNZ''"
definition account_connect_subject :: "string \<Rightarrow> string" where
  "account_connect_subject a = ''$SYS.ACCOUNT.'' @ a @ ''.CONNECT''"
definition account_disconnect_subject :: "string \<Rightarrow> string" where
  "account_disconnect_subject a = ''$SYS.ACCOUNT.'' @ a @ ''.DISCONNECT''"

section \<open>Tokens\<close>

lemma token_char_ascii: "token_char c \<Longrightarrow> is_ascii c \<and> 32 < byte c"
  by (auto simp: token_char_def is_ascii_alphanumeric_def is_ascii_def byte_def Let_def)

lemma token_map_safe: "token_char (token_map g)"
  by (auto simp: token_map_def token_char_def split: list.splits)

lemma token_safe: "token s \<noteq> [] \<and> (\<forall>c \<in> set (token s). token_char c)"
  by (auto simp: token_def Let_def token_map_safe) (auto simp: token_char_def)

lemma token_id: "s \<noteq> [] \<Longrightarrow> \<forall>c \<in> set s. token_char c \<Longrightarrow> token s = s"
proof -
  assume s: "s \<noteq> []" "\<forall>c \<in> set s. token_char c"
  then have "trim s = s" by (intro trim_printable) (auto dest: token_char_ascii)
  moreover have "utf8_chars s = map (\<lambda>c. [c]) s"
    using s by (intro utf8_chars_ascii) (auto dest: token_char_ascii)
  moreover have "map token_map (map (\<lambda>c. [c]) s) = s"
    using s by (induction s) (auto simp: token_map_def)
  ultimately show ?thesis using s by (simp add: token_def)
qed

lemma token_idem [simp]: "token (token s) = token s"
  using token_safe by (intro token_id) auto

lemma token_no_dot: "CHR ''.'' \<notin> set (token s)"
  using token_safe [of s] by (auto simp: token_char_def is_ascii_alphanumeric_def byte_def Let_def)

lemma token_no_slash: "CHR ''/'' \<notin> set (token s)"
  using token_safe [of s] by (auto simp: token_char_def is_ascii_alphanumeric_def byte_def Let_def)

lemma token_no_star: "token s \<noteq> ''*'' \<and> token s \<noteq> ''>''"
  using token_safe [of s] by (auto simp: token_char_def is_ascii_alphanumeric_def byte_def Let_def)

lemma route_token_no_dot: "CHR ''.'' \<notin> set (route_token s)"
  by (simp add: route_token_def token_no_dot)

section \<open>Building and parsing subjects\<close>

lemma split_space_prefix:
  "split_on (CHR ''.'') (space_prefix space @ CHR ''.'' # rest)
     = ROOT # token space # split_on (CHR ''.'') rest"
proof -
  have "CHR ''.'' \<notin> set ROOT" by (simp add: ROOT_def)
  then have "split_on (CHR ''.'') (ROOT @ CHR ''.'' # (token space @ CHR ''.'' # rest))
      = ROOT # split_on (CHR ''.'') (token space @ CHR ''.'' # rest)"
    by (rule split_on_append)
  then show ?thesis by (simp add: space_prefix_def split_on_append token_no_dot)
qed

lemma split_subject:
  assumes "CHR ''.'' \<notin> set k" "CHR ''.'' \<notin> set a"
  shows "split_on (CHR ''.'') (space_prefix space @ CHR ''.'' # k @ CHR ''.'' # a @ CHR ''.'' # rest)
    = ROOT # token space # k # a # split_on (CHR ''.'') rest"
  using assms by (simp add: split_space_prefix split_on_append)

lemma channel_path_segments:
  assumes "channel_path ch = Inr p"
  shows "\<exists>out. out \<noteq> [] \<and> (\<forall>w \<in> set out. CHR ''.'' \<notin> set w) \<and> p = join_with ''.'' out"
proof -
  let ?segs = "filter (\<lambda>s. s \<noteq> []) (map trim (split_on (CHR ''.'') ch))"
  have loop: "channel_path_loop ch ss = Inr out \<Longrightarrow>
      length out = length ss \<and> (\<forall>w \<in> set out. CHR ''.'' \<notin> set w)" for ss out
    by (induction ss arbitrary: out) (auto simp: token_no_dot split: if_splits sum.splits)
  show ?thesis
  proof (cases "?segs = []")
    case True
    with assms have "p = join_with ''.'' [''_'']" by (simp add: channel_path_def)
    then show ?thesis by (intro exI [of _ "[''_'']"]) simp
  next
    case False
    then obtain out where o: "channel_path_loop ch ?segs = Inr out" "p = join_with ''.'' out"
      using assms by (auto simp: channel_path_def Let_def split: sum.splits)
    from loop [OF o(1)] False have "out \<noteq> []" by (metis length_0_conv)
    with loop [OF o(1)] o(2) show ?thesis by blast
  qed
qed

lemma channel_path_split:
  assumes "channel_path ch = Inr p"
  shows "join_with ''.'' (split_on (CHR ''.'') p) = p"
  by (rule join_split_on)

lemma parse_five:
  assumes "CHR ''.'' \<notin> set k" "CHR ''.'' \<notin> set a"
  shows "parse_subject (space_prefix space @ CHR ''.'' # k @ CHR ''.'' # a @ CHR ''.'' # rest) =
    (if k = ''chat'' then Some \<lparr>ps_kind = SChat, ps_sender = a, ps_rest = rest\<rparr>
     else if (k = ''inst'' \<or> k = ''svc'' \<or> k = ''ctl'') \<and> CHR ''.'' \<notin> set rest
     then Some \<lparr>ps_kind = (if k = ''inst'' then SInst else if k = ''svc'' then SSvc else SCtl),
                ps_sender = rest, ps_rest = a\<rparr>
     else None)"
proof -
  let ?r = "split_on (CHR ''.'') rest"
  have sp: "split_on (CHR ''.'') (space_prefix space @ CHR ''.'' # k @ CHR ''.'' # a @ CHR ''.'' # rest)
      = ROOT # token space # k # a # ?r"
    by (rule split_subject [OF assms])
  have j: "join_with ''.'' ?r = rest" by (rule join_split_on)
  have len: "length ?r = 1 \<longleftrightarrow> CHR ''.'' \<notin> set rest"
  proof
    assume "length ?r = 1"
    then obtain w where "?r = [w]" by (cases ?r) auto
    then show "CHR ''.'' \<notin> set rest" using j split_on_not_in [of w "CHR ''.''" rest] by simp
  next
    assume "CHR ''.'' \<notin> set rest"
    then show "length ?r = 1" by (simp add: split_on_word)
  qed
  have r0: "length ?r = 1 \<Longrightarrow> ?r ! 0 = rest"
    using j by (cases ?r) auto
  show ?thesis
    unfolding parse_subject_def sp Let_def using j len r0 by (cases ?r) (auto simp: nth_Cons')
qed

lemma parse_chat_subject:
  assumes "chat_subject space sender ch = Inr sub" "channel_path ch = Inr p"
  shows "parse_subject sub = Some \<lparr>ps_kind = SChat, ps_sender = route_token sender, ps_rest = p\<rparr>"
proof -
  have "sub = space_prefix space @ CHR ''.'' # ''chat'' @ CHR ''.'' # route_token sender @ CHR ''.'' # p"
    using assms by (simp add: chat_subject_def)
  then show ?thesis using parse_five [of "''chat''" "route_token sender" space p]
    by (simp add: route_token_no_dot)
qed

lemma parse_routed:
  assumes "k = ''inst'' \<or> k = ''svc'' \<or> k = ''ctl''"
  shows "parse_subject (space_prefix space @ CHR ''.'' # k @ CHR ''.'' # route_token t @ CHR ''.'' # route_token s)
    = Some \<lparr>ps_kind = (if k = ''inst'' then SInst else if k = ''svc'' then SSvc else SCtl),
            ps_sender = route_token s, ps_rest = route_token t\<rparr>"
  using assms parse_five [of k "route_token t" space "route_token s"]
  by (auto simp: route_token_no_dot)

lemma parse_routed_subjects:
  "parse_subject (unicast_subject space t s) =
     Some \<lparr>ps_kind = SInst, ps_sender = route_token s, ps_rest = route_token t\<rparr>"
  "parse_subject (anycast_subject space t s) =
     Some \<lparr>ps_kind = SSvc, ps_sender = route_token s, ps_rest = route_token t\<rparr>"
  "parse_subject (control_service_subject space t s) =
     Some \<lparr>ps_kind = SCtl, ps_sender = route_token s, ps_rest = route_token t\<rparr>"
  using parse_routed [of "''inst''" space t s] parse_routed [of "''svc''" space t s]
    parse_routed [of "''ctl''" space t s]
  by (simp_all add: unicast_subject_def anycast_subject_def control_service_subject_def)

section \<open>Channel policies\<close>

lemma valid_segments_path:
  assumes "valid_segments ch ss = None" "\<forall>s \<in> set ss. s \<noteq> []"
  shows "channel_path_loop ch ss = Inr ss \<and> (\<forall>s \<in> set ss. \<forall>c \<in> set s. is_ascii c \<and> 32 < byte c)"
  using assms
proof (induction ss)
  case Nil
  then show ?case by simp
next
  case (Cons s ss)
  have wild: "\<forall>c \<in> set ''*''. is_ascii c \<and> 32 < byte c" "\<forall>c \<in> set ''>''. is_ascii c \<and> 32 < byte c"
    by (simp_all add: is_ascii_def byte_def)
  from Cons show ?case
    using wild by (auto simp: token_id split: if_splits dest: token_char_ascii)
qed

lemma valid_channel_path:
  assumes "assert_valid_channel ch = Inr c"
  shows "c = ch \<and> channel_path ch = Inr ch"
proof -
  let ?segs = "split_on (CHR ''.'') ch"
  from assms have v: "c = ch" "ch \<noteq> []" "\<forall>s \<in> set ?segs. s \<noteq> []" "valid_segments ch ?segs = None"
    by (auto simp: assert_valid_channel_def Let_def split: if_splits option.splits)
  from valid_segments_path [OF v(4,3)]
  have p: "channel_path_loop ch ?segs = Inr ?segs" "\<forall>s \<in> set ?segs. trim s = s"
    by (auto intro: trim_printable)
  then have "filter (\<lambda>s. s \<noteq> []) (map trim ?segs) = ?segs"
    using v(3) by (simp add: map_idI filter_id_conv)
  with p v(1) show ?thesis by (simp add: channel_path_def join_split_on)
qed

section \<open>Pattern matching\<close>

text \<open>The NATS rule on token lists, stated as an inductive relation.\<close>

inductive nats_match :: "string list \<Rightarrow> string list \<Rightarrow> bool" where
  empty: "nats_match [] []"
| rest: "ts \<noteq> [] \<Longrightarrow> nats_match (''>'' # ps) ts"
| star: "nats_match ps ts \<Longrightarrow> nats_match (''*'' # ps) (t # ts)"
| literal: "p \<noteq> ''>'' \<Longrightarrow> nats_match ps ts \<Longrightarrow> nats_match (p # ps) (p # ts)"

inductive_cases nats_match_NilE: "nats_match [] s"
inductive_cases nats_match_ConsE: "nats_match (p # ps) s"

lemma match_tokens_nats: "match_tokens ps ts \<longleftrightarrow> nats_match ps ts"
proof
  show "match_tokens ps ts \<Longrightarrow> nats_match ps ts"
    by (induction ps ts rule: match_tokens.induct)
      (auto intro: nats_match.intros split: if_splits list.splits)
  show "nats_match ps ts \<Longrightarrow> match_tokens ps ts"
    by (induction rule: nats_match.induct) auto
qed

lemma match_literal: "\<forall>p \<in> set ps. p \<noteq> ''>'' \<and> p \<noteq> ''*'' \<Longrightarrow> match_tokens ps ts \<longleftrightarrow> ps = ts"
  by (induction ps arbitrary: ts) (auto split: list.splits)

section \<open>Mentions\<close>

lemma normalize_mentions_loop_distinct:
  "distinct out \<Longrightarrow> distinct (normalize_mentions_loop lower out ms)"
  by (induction lower out ms rule: normalize_mentions_loop.induct) (auto simp: Let_def)

lemma normalize_mentions_loop_set:
  "set (normalize_mentions_loop lower out ms) = set out \<union> ((\<lambda>m. lower (trim m)) ` set ms - {[]})"
proof (induction lower out ms rule: normalize_mentions_loop.induct)
  case (2 lower out m ms)
  then show ?case
    by (cases "lower (trim m) \<noteq> [] \<and> lower (trim m) \<notin> set out") (auto simp: Let_def)
qed simp

section \<open>Filter collapse\<close>

lemma uniq_loop_props: "distinct (uniq_loop seen ss) \<and> set (uniq_loop seen ss) = set ss - set seen"
  by (induction seen ss rule: uniq_loop.induct) auto

end
