(* ===== verification/Store_Base.thy ===== *)
theory Store_Base
  imports Subjects
begin

text \<open>
  The hub's durable store (\<open>parler-hub/src/store.rs\<close>), first part: the tables, and the operations
  on agents, presence, rooms, membership and the message log.

  Every table is a list of row records in insertion order; \<open>INTEGER PRIMARY KEY AUTOINCREMENT\<close>
  is the counter of its table. A column that holds JSON text holds the decoded value (the codec
  round trips are in the theory of the wire types). A query without \<open>ORDER BY\<close> reads in insertion
  order. Values the code draws at random (message ids, codes, tokens) and the clock are arguments.
  A SQLite failure other than a violated key is not modelled.
\<close>

section \<open>Errors\<close>

datatype error_code =
    UNAUTHENTICATED | BAD_FRAME | PROTOCOL | AT_CAPACITY | TIMEOUT | NOT_MEMBER
  | UNKNOWN_SERVICE | INVALID_INVITE | NOT_OWNER | RATE_LIMITED | TOO_LARGE | STORAGE_FULL
  | NOT_AUTHORIZED | UNKNOWN_BLOB | INVALID_CARD | INTERNAL

text \<open>An \<open>anyhow::Error\<close> with or without a \<open>CodedError\<close> inside. Texts are shortened to ASCII.\<close>

datatype hub_error = Coded error_code string | Uncoded string

section \<open>Rows\<close>

record agent_row =
  ag_id :: string
  ag_name :: string
  ag_role :: "string option"
  ag_first_seen :: ms
  ag_last_seen :: ms

record presence_row =
  pr_agent :: string
  pr_status :: string
  pr_activity :: "string option"
  pr_attention :: "string option"
  pr_ts :: ms

record room_row =
  rm_name :: string
  rm_kind :: string
  rm_description :: "string option"
  rm_owner :: "string option"
  rm_created :: ms

record member_row =
  mb_room :: string
  mb_agent :: string
  mb_joined :: ms
  mb_cursor :: int

record message_row =
  mg_seq :: int
  mg_id :: string
  mg_room :: string
  mg_author :: string
  mg_author_name :: string
  mg_author_role :: "string option"
  mg_parts :: "part list"
  mg_mentions :: "string list option"
  mg_reply_to :: "string option"
  mg_ts :: ms
  mg_tokens :: int
  mg_client_id :: "string option"

record worker_row =
  sw_room :: string
  sw_agent :: string
  sw_role :: string
  sw_registered :: ms

record claim_row =
  sc_room :: string
  sc_message :: string
  sc_worker :: string
  sc_state :: string
  sc_claimed :: ms
  sc_lease_until :: ms

record dispatch_row =
  sd_room :: string
  sd_message :: string
  sd_role :: string
  sd_seq :: int

record fact_row =
  fa_id :: int
  fa_fkey :: "string option"
  fa_room :: "string option"
  fa_author :: string
  fa_text :: string
  fa_ts :: ms
  fa_embedding_model :: "string option"

record invite_row =
  iv_code :: string
  iv_room :: string
  iv_kind :: string
  iv_role :: "string option"
  iv_max_uses :: nat
  iv_uses :: nat
  iv_expires :: ms
  iv_created_by :: string
  iv_require_approval :: bool
  iv_created :: ms

record join_row =
  jr_room :: string
  jr_agent :: string
  jr_status :: string
  jr_requested :: ms

record directory_row =
  dr_agent :: string
  dr_visibility :: string
  dr_card :: agent_card
  dr_sig :: "string option"
  dr_verified :: bool
  dr_tags :: string
  dr_skills :: string
  dr_registered :: ms
  dr_updated :: ms

record token_row =
  dt_token :: string
  dt_scope :: string
  dt_expires :: ms
  dt_created_by :: string
  dt_created :: ms

record blob_row =
  bl_id :: string
  bl_media_type :: "string option"
  bl_size :: int
  bl_created :: ms
  bl_last_fetched :: "ms option"

record blob_room_row =
  bb_blob :: string
  bb_room :: string
  bb_author :: string
  bb_created :: ms

type_synonym embedding = "32 word list"

record store =
  st_agents :: "agent_row list"
  st_presence :: "presence_row list"
  st_rooms :: "room_row list"
  st_members :: "member_row list"
  st_messages :: "message_row list"
  st_next_seq :: int
  st_workers :: "worker_row list"
  st_claims :: "claim_row list"
  st_dispatches :: "dispatch_row list"
  st_facts :: "fact_row list"
  st_next_fact :: int
  st_vec_facts :: "(int \<times> embedding) list"
  st_invites :: "invite_row list"
  st_join_requests :: "join_row list"
  st_directory :: "directory_row list"
  st_tokens :: "token_row list"
  st_blobs :: "blob_row list"
  st_blob_rooms :: "blob_room_row list"
  st_waitlist :: "(string \<times> ms) list"

definition empty_store :: store where
  "empty_store =
     \<lparr>st_agents = [], st_presence = [], st_rooms = [], st_members = [], st_messages = [],
      st_next_seq = 1, st_workers = [], st_claims = [], st_dispatches = [], st_facts = [],
      st_next_fact = 1, st_vec_facts = [], st_invites = [], st_join_requests = [],
      st_directory = [], st_tokens = [], st_blobs = [], st_blob_rooms = [], st_waitlist = []\<rparr>"

abbreviation member_key_of :: "member_row \<Rightarrow> string \<times> string" where
  "member_key_of m \<equiv> (mb_room m, mb_agent m)"

section \<open>Agents and presence\<close>

definition PRESENCE_STALE_MS :: int where "PRESENCE_STALE_MS = 300000"

definition upsert_agent :: "string \<Rightarrow> string \<Rightarrow> string option \<Rightarrow> ms \<Rightarrow> store \<Rightarrow> store" where
  "upsert_agent aid name role now s =
     s\<lparr>st_agents := upsert ag_id
         (\<lambda>old new. old\<lparr>ag_name := ag_name new, ag_role := ag_role new, ag_last_seen := ag_last_seen new\<rparr>)
         \<lparr>ag_id = aid, ag_name = name, ag_role = role, ag_first_seen = now, ag_last_seen = now\<rparr>
         (st_agents s)\<rparr>"

definition touch_presence ::
  "string \<Rightarrow> string \<Rightarrow> string option \<Rightarrow> attention option \<Rightarrow> ms \<Rightarrow> store \<Rightarrow> store" where
  "touch_presence agent status activity attn now s =
     s\<lparr>st_presence := upsert pr_agent
         (\<lambda>old new. old\<lparr>pr_status := pr_status new, pr_activity := pr_activity new,
            pr_attention := (case pr_attention new of None \<Rightarrow> pr_attention old | Some a \<Rightarrow> Some a),
            pr_ts := pr_ts new\<rparr>)
         \<lparr>pr_agent = agent, pr_status = status, pr_activity = activity,
          pr_attention = map_option attention_as_str attn, pr_ts = now\<rparr>
         (st_presence s)\<rparr>"

definition refresh_presence :: "string \<Rightarrow> ms \<Rightarrow> store \<Rightarrow> store" where
  "refresh_presence agent now s =
     s\<lparr>st_presence := upsert pr_agent (\<lambda>old new. old\<lparr>pr_ts := pr_ts new\<rparr>)
         \<lparr>pr_agent = agent, pr_status = ''idle'', pr_activity = None, pr_attention = None, pr_ts = now\<rparr>
         (st_presence s)\<rparr>"

definition set_attention :: "string \<Rightarrow> attention \<Rightarrow> ms \<Rightarrow> store \<Rightarrow> store" where
  "set_attention agent attn now s =
     s\<lparr>st_presence := upsert pr_agent
         (\<lambda>old new. old\<lparr>pr_attention := pr_attention new, pr_ts := pr_ts new\<rparr>)
         \<lparr>pr_agent = agent, pr_status = ''idle'', pr_activity = None,
          pr_attention = Some (attention_as_str attn), pr_ts = now\<rparr>
         (st_presence s)\<rparr>"

section \<open>Rooms and membership\<close>

definition ensure_room :: "string \<Rightarrow> room_kind \<Rightarrow> string option \<Rightarrow> ms \<Rightarrow> store \<Rightarrow> store" where
  "ensure_room name kind description now s =
     s\<lparr>st_rooms := insert_or_ignore rm_name
         \<lparr>rm_name = name, rm_kind = room_kind_as_str kind, rm_description = description,
          rm_owner = None, rm_created = now\<rparr> (st_rooms s)\<rparr>"

definition add_member :: "string \<Rightarrow> string \<Rightarrow> ms \<Rightarrow> store \<Rightarrow> store" where
  "add_member room agent now s =
     s\<lparr>st_members := insert_or_ignore member_key_of
         \<lparr>mb_room = room, mb_agent = agent, mb_joined = now, mb_cursor = 0\<rparr> (st_members s)\<rparr>"

definition is_member :: "string \<Rightarrow> string \<Rightarrow> store \<Rightarrow> bool" where
  "is_member room agent s =
     (0 < length (filter (\<lambda>m. mb_room m = room \<and> mb_agent m = agent) (st_members s)))"

definition room_owned_by :: "string \<Rightarrow> string \<Rightarrow> store \<Rightarrow> bool" where
  "room_owned_by room owner s =
     (0 < length (filter (\<lambda>r. rm_name r = room \<and> rm_owner r = Some owner) (st_rooms s)))"

definition room_member_ids :: "string \<Rightarrow> store \<Rightarrow> string list" where
  "room_member_ids room s = map mb_agent (filter (\<lambda>m. mb_room m = room) (st_members s))"

definition room_kind_of :: "string \<Rightarrow> store \<Rightarrow> room_kind option" where
  "room_kind_of name s =
     (case find (\<lambda>r. rm_name r = name) (st_rooms s) of
        None \<Rightarrow> None | Some r \<Rightarrow> room_kind_parse (rm_kind r))"

definition set_room_owner :: "string \<Rightarrow> string \<Rightarrow> store \<Rightarrow> store" where
  "set_room_owner room owner s =
     s\<lparr>st_rooms := update_where (\<lambda>r. rm_name r = room \<and> rm_owner r = None)
         (\<lambda>r. r\<lparr>rm_owner := Some owner\<rparr>) (st_rooms s)\<rparr>"

definition owned_room_count :: "string \<Rightarrow> store \<Rightarrow> nat" where
  "owned_room_count owner s = length (filter (\<lambda>r. rm_owner r = Some owner) (st_rooms s))"

definition find_dm_room :: "string \<Rightarrow> string \<Rightarrow> store \<Rightarrow> string option" where
  "find_dm_room a b s =
     map_option mb_room
       (find (\<lambda>m1. mb_agent m1 = a
                \<and> (\<exists>m2 \<in> set (st_members s). mb_room m2 = mb_room m1 \<and> mb_agent m2 = b)
                \<and> (\<exists>r \<in> set (st_rooms s). rm_name r = mb_room m1 \<and> rm_kind r = ''dm'')
                \<and> length (filter (\<lambda>mm. mb_room mm = mb_room m1) (st_members s)) = 2)
          (st_members s))"

record room_info =
  ri_name :: string
  ri_kind :: room_kind
  ri_members :: nat
  ri_unread :: nat

definition rooms_of :: "string \<Rightarrow> store \<Rightarrow> room_info list" where
  "rooms_of agent s =
     filter_map
       (\<lambda>m. case find (\<lambda>r. rm_name r = mb_room m) (st_rooms s) of
              None \<Rightarrow> None
            | Some r \<Rightarrow> Some \<lparr>ri_name = mb_room m,
                ri_kind = opt_or (room_kind_parse (rm_kind r)) Channel,
                ri_members = length (filter (\<lambda>x. mb_room x = mb_room m) (st_members s)),
                ri_unread = length (filter (\<lambda>g. mg_room g = mb_room m \<and> mb_cursor m < mg_seq g) (st_messages s))\<rparr>)
       (sort_key mb_room (filter (\<lambda>m. mb_agent m = agent) (st_members s)))"

record roster_entry =
  re_id :: string
  re_name :: string
  re_role :: "string option"
  re_status :: string
  re_activity :: "string option"
  re_attention :: "attention option"
  re_service_role :: "string option"
  re_last_seen :: ms

definition presence_of :: "string \<Rightarrow> store \<Rightarrow> presence_row option" where
  "presence_of agent s = find (\<lambda>p. pr_agent p = agent) (st_presence s)"

definition fresh_presence :: "presence_row option \<Rightarrow> ms \<Rightarrow> bool" where
  "fresh_presence p now = (case p of None \<Rightarrow> False | Some r \<Rightarrow> now - pr_ts r \<le> PRESENCE_STALE_MS)"

definition roster_entry_of :: "string \<Rightarrow> ms \<Rightarrow> store \<Rightarrow> agent_row \<Rightarrow> roster_entry" where
  "roster_entry_of room now s a =
     (let p = presence_of (ag_id a) s; fresh = fresh_presence p now
      in \<lparr>re_id = ag_id a, re_name = ag_name a, re_role = ag_role a,
          re_status = (case p of Some r \<Rightarrow> if fresh then pr_status r else ''offline'' | None \<Rightarrow> ''offline''),
          re_activity = Option.bind p pr_activity,
          re_attention = (if fresh then Option.bind (Option.bind p pr_attention) attention_parse else None),
          re_service_role = map_option sw_role
             (find (\<lambda>w. sw_room w = room \<and> sw_agent w = ag_id a) (st_workers s)),
          re_last_seen = (case p of Some r \<Rightarrow> pr_ts r | None \<Rightarrow> ag_last_seen a)\<rparr>)"

definition roster :: "string \<Rightarrow> ms \<Rightarrow> store \<Rightarrow> roster_entry list" where
  "roster room now s =
     sort_key re_name
       (filter_map (\<lambda>m. map_option (roster_entry_of room now s) (find (\<lambda>a. ag_id a = mb_agent m) (st_agents s)))
          (filter (\<lambda>m. mb_room m = room) (st_members s)))"

section \<open>The message log\<close>

record append_outcome =
  ao_id :: string
  ao_seq :: int
  ao_tokens :: int
  ao_deduped :: bool

definition client_conflict :: "string \<Rightarrow> string \<Rightarrow> string option \<Rightarrow> message_row \<Rightarrow> bool" where
  "client_conflict room author client_id g =
     (client_id \<noteq> None \<and> mg_room g = room \<and> mg_author g = author \<and> mg_client_id g = client_id)"

definition insert_dispatches :: "string \<Rightarrow> string \<Rightarrow> int \<Rightarrow> part list \<Rightarrow> dispatch_row list \<Rightarrow> dispatch_row list" where
  "insert_dispatches room mid seq parts rows =
     foldl (\<lambda>rs role. insert_or_ignore (\<lambda>d. (sd_room d, sd_message d, sd_role d))
              \<lparr>sd_room = room, sd_message = mid, sd_role = role, sd_seq = seq\<rparr> rs)
       rows (filter_map dispatch_from_part parts)"

definition append_message ::
  "string \<Rightarrow> string \<Rightarrow> endpoint_ref \<Rightarrow> part list \<Rightarrow> string list option \<Rightarrow> string option \<Rightarrow> string option
    \<Rightarrow> ms \<Rightarrow> store \<Rightarrow> (hub_error + append_outcome) \<times> store" where
  "append_message mid room from parts mentions reply_to client_id ts s =
     (let tokens = int (estimate_message_tokens parts) in
      case find (client_conflict room (ep_id from) client_id) (st_messages s) of
        Some g \<Rightarrow>
          (Inr \<lparr>ao_id = mg_id g, ao_seq = mg_seq g, ao_tokens = 0, ao_deduped = True\<rparr>, s)
      | None \<Rightarrow>
          if \<exists>g \<in> set (st_messages s). mg_id g = mid then (Inl (Uncoded ''UNIQUE messages.id''), s)
          else let seq = st_next_seq s
               in (Inr \<lparr>ao_id = mid, ao_seq = seq, ao_tokens = tokens, ao_deduped = False\<rparr>,
                   s\<lparr>st_messages := st_messages s @
                       [\<lparr>mg_seq = seq, mg_id = mid, mg_room = room, mg_author = ep_id from,
                         mg_author_name = ep_name from, mg_author_role = ep_role from,
                         mg_parts = parts, mg_mentions = mentions, mg_reply_to = reply_to,
                         mg_ts = ts, mg_tokens = tokens, mg_client_id = client_id\<rparr>],
                     st_next_seq := seq + 1,
                     st_dispatches := insert_dispatches room mid seq parts (st_dispatches s)\<rparr>))"

definition to_stored :: "message_row \<Rightarrow> stored_message" where
  "to_stored g =
     \<lparr>sm_seq = mg_seq g, sm_id = mg_id g, sm_room = mg_room g,
      sm_from = \<lparr>ep_id = mg_author g, ep_name = mg_author_name g, ep_role = mg_author_role g\<rparr>,
      sm_parts = mg_parts g, sm_mentions = mg_mentions g, sm_reply_to = mg_reply_to g, sm_ts = mg_ts g\<rparr>"

definition get_cursor :: "string \<Rightarrow> string \<Rightarrow> store \<Rightarrow> int" where
  "get_cursor room agent s =
     (case find (\<lambda>m. mb_room m = room \<and> mb_agent m = agent) (st_members s) of
        None \<Rightarrow> 0 | Some m \<Rightarrow> mb_cursor m)"

definition set_cursor :: "string \<Rightarrow> string \<Rightarrow> int \<Rightarrow> store \<Rightarrow> store" where
  "set_cursor room agent c s =
     s\<lparr>st_members := update_where (\<lambda>m. mb_room m = room \<and> mb_agent m = agent)
         (\<lambda>m. m\<lparr>mb_cursor := c\<rparr>) (st_members s)\<rparr>"

text \<open>The rows of \<open>room\<close> past \<open>cur\<close> by ascending \<open>seq\<close>, at most \<open>lim\<close> of them.\<close>

definition read_log :: "string \<Rightarrow> int \<Rightarrow> nat \<Rightarrow> store \<Rightarrow> message_row list" where
  "read_log room cur lim s =
     take lim (sort_key mg_seq (filter (\<lambda>g. mg_room g = room \<and> cur < mg_seq g) (st_messages s)))"

definition pull_limit :: "nat option \<Rightarrow> nat" where
  "pull_limit limit = min (opt_or limit 200) 1000"

definition last_seq :: "message_row list \<Rightarrow> int \<Rightarrow> int" where
  "last_seq raws cur = (if raws = [] then cur else mg_seq (last raws))"

definition pull ::
  "string \<Rightarrow> string \<Rightarrow> int option \<Rightarrow> nat option \<Rightarrow> int option \<Rightarrow> store
    \<Rightarrow> (stored_message list \<times> int) \<times> store" where
  "pull room agent since limit ack s =
     (let lim = pull_limit limit;
          (cur, s1) = (case since of
             Some c \<Rightarrow> (c, s)
           | None \<Rightarrow>
               (let stored = get_cursor room agent s
                in case ack of
                     Some a \<Rightarrow> if stored < a then (a, set_cursor room agent a s) else (stored, s)
                   | None \<Rightarrow> (stored, s)));
          raws = read_log room cur lim s1;
          new_cursor = last_seq raws cur;
          s2 = (if since = None \<and> ack = None \<and> cur < new_cursor
                then set_cursor room agent new_cursor s1 else s1)
      in ((map to_stored raws, new_cursor), s2))"

definition room_messages :: "string \<Rightarrow> int \<Rightarrow> nat \<Rightarrow> store \<Rightarrow> stored_message list" where
  "room_messages room since limit s = map to_stored (read_log room since (min limit 1000) s)"

record agent_stat =
  as_name :: string
  as_role :: "string option"
  as_messages :: nat
  as_tokens :: int

record room_stats_rec =
  rs_messages :: nat
  rs_tokens :: int
  rs_first_ts :: "ms option"
  rs_last_ts :: "ms option"
  rs_per_agent :: "agent_stat list"

definition group_stat :: "message_row list \<Rightarrow> string \<times> string option \<Rightarrow> agent_stat" where
  "group_stat rows k =
     (let g = filter (\<lambda>m. (mg_author_name m, mg_author_role m) = k) rows
      in \<lparr>as_name = fst k, as_role = snd k, as_messages = length g,
          as_tokens = sum_list (map mg_tokens g)\<rparr>)"

text \<open>\<open>ORDER BY toks DESC, n DESC, author_name ASC\<close>: a stable sort per key, the last key first.\<close>

definition room_stats :: "string \<Rightarrow> store \<Rightarrow> room_stats_rec" where
  "room_stats room s =
     (let rows = filter (\<lambda>m. mg_room m = room) (st_messages s);
          groups = map (group_stat rows) (remdups (map (\<lambda>m. (mg_author_name m, mg_author_role m)) rows))
      in \<lparr>rs_messages = length rows, rs_tokens = sum_list (map mg_tokens rows),
          rs_first_ts = (if rows = [] then None else Some (Min (mg_ts ` set rows))),
          rs_last_ts = (if rows = [] then None else Some (Max (mg_ts ` set rows))),
          rs_per_agent = sort_key (\<lambda>a. - as_tokens a)
             (sort_key (\<lambda>a. - int (as_messages a)) (sort_key as_name groups))\<rparr>)"

section \<open>Retention of the log\<close>

text \<open>SQLite reads a negative \<open>OFFSET\<close> as zero, hence the \<open>nat\<close>.\<close>

definition nth_newest :: "string \<Rightarrow> nat \<Rightarrow> store \<Rightarrow> int" where
  "nth_newest room k s =
     (let seqs = rev (sort (map mg_seq (filter (\<lambda>g. mg_room g = room) (st_messages s))))
      in if k < length seqs then seqs ! k else - 1)"

definition prune_messages :: "int \<Rightarrow> int \<Rightarrow> ms \<Rightarrow> store \<Rightarrow> nat \<times> store" where
  "prune_messages retain_ms keep_per_room now s =
     (let doomed = (\<lambda>g. mg_ts g < now - retain_ms \<and> mg_seq g \<le> nth_newest (mg_room g) (nat keep_per_room) s)
      in (length (filter doomed (st_messages s)),
          s\<lparr>st_messages := delete_where doomed (st_messages s)\<rparr>))"

end
