(* ===== verification/Store_Log.thy ===== *)
theory Store_Log
  imports Store_Base
begin

text \<open>
  The delivery guarantees of the message log: the log is strictly increasing in \<open>seq\<close>, a cursor
  read returns the next unread messages in order, any interleaving of sends and reads delivers
  every message of the room exactly once, an acknowledged read is repeatable until it is
  acknowledged, a keyed send is idempotent, and retention keeps the newest messages of a room.
\<close>

section \<open>Well-formed logs\<close>

definition log_ok :: "store \<Rightarrow> bool" where
  "log_ok s =
     (sorted_wrt (<) (map mg_seq (st_messages s))
      \<and> (\<forall>g \<in> set (st_messages s). 1 \<le> mg_seq g \<and> mg_seq g < st_next_seq s)
      \<and> distinct (map mg_id (st_messages s))
      \<and> 1 \<le> st_next_seq s)"

definition client_ids_ok :: "store \<Rightarrow> bool" where
  "client_ids_ok s =
     (\<forall>g \<in> set (st_messages s). \<forall>h \<in> set (st_messages s).
        mg_client_id g \<noteq> None \<longrightarrow> mg_room g = mg_room h \<longrightarrow> mg_author g = mg_author h
        \<longrightarrow> mg_client_id g = mg_client_id h \<longrightarrow> g = h)"

definition unread :: "string \<Rightarrow> int \<Rightarrow> store \<Rightarrow> message_row list" where
  "unread room cur s = filter (\<lambda>g. mg_room g = room \<and> cur < mg_seq g) (st_messages s)"

definition backlog :: "string \<Rightarrow> string \<Rightarrow> store \<Rightarrow> message_row list" where
  "backlog room agent s = unread room (get_cursor room agent s) s"

text \<open>What other clients and the reader itself may do to the log between two reads.\<close>

datatype log_op =
    OpAppend string string endpoint_ref "part list" "string list option" "string option" "string option" ms
  | OpPull "nat option"
  | OpReread "nat option" int

fun run_log :: "string \<Rightarrow> string \<Rightarrow> log_op list \<Rightarrow> store \<Rightarrow> stored_message list \<times> store" where
  "run_log room agent [] s = ([], s)"
| "run_log room agent (OpAppend mid r from parts men rep cid ts # ops) s =
     run_log room agent ops (snd (append_message mid r from parts men rep cid ts s))"
| "run_log room agent (OpPull lim # ops) s =
     (let ((ms, c), s') = pull room agent None lim None s;
          (rest, s'') = run_log room agent ops s'
      in (ms @ rest, s''))"
| "run_log room agent (OpReread lim a # ops) s =
     (let (_, s') = pull room agent (Some a) lim None s in run_log room agent ops s')"

lemma sorted_wrt_filter_map:
  "sorted_wrt (<) (map f xs) \<Longrightarrow> sorted_wrt (<) (map f (filter P xs))"
  by (induction xs) auto

lemma log_sorted: "log_ok s \<Longrightarrow> sorted_wrt (<) (map mg_seq (unread room cur s))"
  by (simp add: log_ok_def unread_def sorted_wrt_filter_map)

lemma sort_key_strict: "sorted_wrt (<) (map f xs) \<Longrightarrow> sort_key f xs = (xs :: 'a list)"
  for f :: "'a \<Rightarrow> int"
  by (rule sort_key_id_if_sorted) (auto intro: sorted_wrt_mono_rel [of _ "(<)"])

lemma read_log_unread: "log_ok s \<Longrightarrow> read_log room cur lim s = take lim (unread room cur s)"
  using log_sorted [of s room cur] by (simp add: read_log_def unread_def sort_key_strict)

text \<open>Past the last row of a batch the rest of the unread rows remain, and nothing else.\<close>

lemma filter_gt_split:
  fixes f :: "'a \<Rightarrow> int"
  assumes "sorted_wrt (<) (map f (xs @ ys))" "xs \<noteq> []"
  shows "filter (\<lambda>g. f (last xs) < f g) (xs @ ys) = ys"
proof -
  have "\<forall>x \<in> set xs. f x \<le> f (last xs)"
  proof -
    obtain zs z where xs: "xs = zs @ [z]" using assms(2) by (cases xs rule: rev_cases) auto
    with assms(1) show ?thesis by (auto simp: sorted_wrt_append less_imp_le)
  qed
  moreover have "\<forall>y \<in> set ys. f (last xs) < f y"
    using assms by (auto simp: sorted_wrt_append)
  ultimately show ?thesis by (auto simp: filter_empty_conv filter_id_conv)
qed

lemma last_seq_ge:
  assumes "log_ok s"
  shows "cur \<le> last_seq (take n (unread room cur s)) cur"
proof (cases "take n (unread room cur s) = []")
  case False
  then have "last (take n (unread room cur s)) \<in> set (unread room cur s)"
    by (meson in_set_takeD last_in_set)
  with False show ?thesis by (auto simp: last_seq_def unread_def)
qed (simp add: last_seq_def)

lemma unread_after_batch:
  assumes "log_ok s"
  shows "take n (unread room cur s) @ unread room (last_seq (take n (unread room cur s)) cur) s
    = unread room cur s"
proof (cases "take n (unread room cur s) = []")
  case True
  then show ?thesis by (simp add: last_seq_def)
next
  case False
  let ?xs = "take n (unread room cur s)" and ?ys = "drop n (unread room cur s)"
  let ?c = "mg_seq (last ?xs)"
  have "unread room ?c s = filter (\<lambda>g. ?c < mg_seq g) (unread room cur s)"
    using last_seq_ge [OF assms, of cur n room] False
    by (auto simp: unread_def last_seq_def intro!: filter_cong)
  also have "\<dots> = filter (\<lambda>g. ?c < mg_seq g) (?xs @ ?ys)" by simp
  also have "\<dots> = ?ys"
    using log_sorted [OF assms, of room cur] False by (intro filter_gt_split) simp_all
  finally show ?thesis using False by (simp add: last_seq_def)
qed

section \<open>Cursors\<close>

lemma is_member_iff: "is_member room agent s \<longleftrightarrow> (\<exists>m \<in> set (st_members s). mb_room m = room \<and> mb_agent m = agent)"
  by (auto simp: is_member_def filter_empty_conv)

lemma find_update_same:
  assumes "\<And>m. P (f m) = P m"
  shows "find P (update_where P f xs) = map_option f (find P xs)"
  using assms by (induction xs) (auto simp: update_where_def)

lemma find_update_other:
  assumes "\<And>m. Q (f m) = Q m" "\<And>m. Q m \<Longrightarrow> \<not> P m"
  shows "find Q (update_where P f xs) = find Q xs"
  using assms by (induction xs) (auto simp: update_where_def)

lemma get_set_cursor:
  "is_member room agent s \<Longrightarrow> get_cursor room agent (set_cursor room agent c s) = c"
proof -
  assume "is_member room agent s"
  then have "find (\<lambda>m. mb_room m = room \<and> mb_agent m = agent) (st_members s) \<noteq> None"
    by (auto simp: is_member_iff find_None_iff)
  then show ?thesis
    by (auto simp: get_cursor_def set_cursor_def find_update_same split: option.splits)
qed

lemma get_set_cursor_other:
  assumes "(r, a) \<noteq> (room, agent)"
  shows "get_cursor r a (set_cursor room agent c s) = get_cursor r a s"
proof -
  have "find (\<lambda>m. mb_room m = r \<and> mb_agent m = a)
      (update_where (\<lambda>m. mb_room m = room \<and> mb_agent m = agent) (\<lambda>m. m\<lparr>mb_cursor := c\<rparr>) (st_members s))
    = find (\<lambda>m. mb_room m = r \<and> mb_agent m = a) (st_members s)"
    by (rule find_update_other) (use assms in auto)
  then show ?thesis by (simp add: get_cursor_def set_cursor_def)
qed

lemma set_cursor_member [simp]: "is_member r a (set_cursor room agent c s) = is_member r a s"
proof -
  have "is_member r a s \<longleftrightarrow> (r, a) \<in> member_key_of ` set (st_members s)" for s
    by (auto simp: is_member_iff)
  moreover have "map member_key_of (st_members (set_cursor room agent c s)) = map member_key_of (st_members s)"
    by (simp add: set_cursor_def update_where_keys)
  then have "member_key_of ` set (st_members (set_cursor room agent c s)) = member_key_of ` set (st_members s)"
    by (metis set_map)
  ultimately show ?thesis by simp
qed

lemma set_cursor_frame [simp]:
  "st_messages (set_cursor room agent c s) = st_messages s"
  "st_next_seq (set_cursor room agent c s) = st_next_seq s"
  "log_ok (set_cursor room agent c s) = log_ok s"
  "client_ids_ok (set_cursor room agent c s) = client_ids_ok s"
  "unread r cur (set_cursor room agent c s) = unread r cur s"
  "read_log r cur lim (set_cursor room agent c s) = read_log r cur lim s"
  by (simp_all add: set_cursor_def log_ok_def client_ids_ok_def unread_def read_log_def)

section \<open>Reading\<close>

lemma pull_frame:
  "st_messages (snd (pull room agent since limit ack s)) = st_messages s"
  "st_next_seq (snd (pull room agent since limit ack s)) = st_next_seq s"
  "log_ok (snd (pull room agent since limit ack s)) = log_ok s"
  by (auto simp: pull_def Let_def split: option.splits)

lemma pull_member: "is_member r a (snd (pull room agent since limit ack s)) = is_member r a s"
  by (auto simp: pull_def Let_def split: option.splits)

lemma pull_since: "pull room agent (Some c) limit ack s =
    ((map to_stored (read_log room c (pull_limit limit) s), last_seq (read_log room c (pull_limit limit) s) c), s)"
  by (simp add: pull_def Let_def)

lemma pull_advance:
  assumes "log_ok s" "is_member room agent s"
    and "pull room agent None limit None s = ((ms, c), s')"
  shows "ms = map to_stored (take (pull_limit limit) (backlog room agent s))"
    and "c = last_seq (take (pull_limit limit) (backlog room agent s)) (get_cursor room agent s)"
    and "get_cursor room agent s' = c"
    and "take (pull_limit limit) (backlog room agent s) @ backlog room agent s' = backlog room agent s"
proof -
  let ?cur = "get_cursor room agent s"
  let ?b = "take (pull_limit limit) (unread room ?cur s)"
  have s': "s' = (if ?cur < last_seq ?b ?cur then set_cursor room agent (last_seq ?b ?cur) s else s)"
    and ms: "ms = map to_stored ?b" and c: "c = last_seq ?b ?cur"
    using assms by (auto simp: pull_def Let_def read_log_unread)
  show "ms = map to_stored (take (pull_limit limit) (backlog room agent s))"
    using ms by (simp add: backlog_def)
  show "c = last_seq (take (pull_limit limit) (backlog room agent s)) ?cur"
    using c by (simp add: backlog_def)
  have cur: "get_cursor room agent s' = last_seq ?b ?cur"
    using s' assms(2) last_seq_ge [OF assms(1), of ?cur "pull_limit limit" room]
    by (auto simp: get_set_cursor)
  then show "get_cursor room agent s' = c" using c by simp
  have "unread room x s' = unread room x s" for x using s' by simp
  then show "take (pull_limit limit) (backlog room agent s) @ backlog room agent s' = backlog room agent s"
    using unread_after_batch [OF assms(1)] cur by (simp add: backlog_def)
qed

lemma pull_ack:
  assumes "log_ok s" "is_member room agent s"
    and "pull room agent None limit (Some a) s = ((ms, c), s')"
  shows "get_cursor room agent s' = max a (get_cursor room agent s)"
    and "ms = map to_stored (take (pull_limit limit) (backlog room agent s'))"
    and "c = last_seq (take (pull_limit limit) (backlog room agent s')) (get_cursor room agent s')"
  using assms
  by (auto simp: pull_def Let_def read_log_unread backlog_def get_set_cursor split: if_splits)

section \<open>Appending\<close>

lemma append_new:
  assumes "find (client_conflict room (ep_id from) cid) (st_messages s) = None"
    and "\<forall>g \<in> set (st_messages s). mg_id g \<noteq> mid"
  shows "append_message mid room from parts men rep cid ts s =
    (Inr \<lparr>ao_id = mid, ao_seq = st_next_seq s, ao_tokens = int (estimate_message_tokens parts),
          ao_deduped = False\<rparr>,
     s\<lparr>st_messages := st_messages s @
         [\<lparr>mg_seq = st_next_seq s, mg_id = mid, mg_room = room, mg_author = ep_id from,
           mg_author_name = ep_name from, mg_author_role = ep_role from, mg_parts = parts,
           mg_mentions = men, mg_reply_to = rep, mg_ts = ts,
           mg_tokens = int (estimate_message_tokens parts), mg_client_id = cid\<rparr>],
       st_next_seq := st_next_seq s + 1,
       st_dispatches := insert_dispatches room mid (st_next_seq s) parts (st_dispatches s)\<rparr>)"
  using assms by (auto simp: append_message_def Let_def)

text \<open>An append adds one row at the end, or leaves the store as it is.\<close>

lemma append_cases:
  obtains (same) "snd (append_message mid room from parts men rep cid ts s) = s"
  | (new) g where "st_messages (snd (append_message mid room from parts men rep cid ts s)) = st_messages s @ [g]"
      "mg_seq g = st_next_seq s" "mg_room g = room" "mg_author g = ep_id from" "mg_id g = mid"
      "mg_client_id g = cid" "\<forall>h \<in> set (st_messages s). mg_id h \<noteq> mid"
      "\<forall>h \<in> set (st_messages s). \<not> client_conflict room (ep_id from) cid h"
      "st_next_seq (snd (append_message mid room from parts men rep cid ts s)) = st_next_seq s + 1"
      "st_members (snd (append_message mid room from parts men rep cid ts s)) = st_members s"
proof (cases "find (client_conflict room (ep_id from) cid) (st_messages s) = None
      \<and> (\<forall>g \<in> set (st_messages s). mg_id g \<noteq> mid)")
  case True
  then have a: "find (client_conflict room (ep_id from) cid) (st_messages s) = None"
    "\<forall>g \<in> set (st_messages s). mg_id g \<noteq> mid" by auto
  show ?thesis
    by (rule new) (use append_new [OF a] a in \<open>auto simp: find_None_iff\<close>)
next
  case False
  then show ?thesis by (intro same) (auto simp: append_message_def Let_def split: option.splits)
qed

lemma append_log_ok:
  assumes "log_ok s"
  shows "log_ok (snd (append_message mid room from parts men rep cid ts s))"
  by (cases rule: append_cases [of mid room "from" parts men rep cid ts s])
    (use assms in \<open>auto simp: log_ok_def sorted_wrt_append\<close>)

lemma append_client_ids:
  assumes "client_ids_ok s"
  shows "client_ids_ok (snd (append_message mid room from parts men rep cid ts s))"
  by (cases rule: append_cases [of mid room "from" parts men rep cid ts s])
    (use assms in \<open>auto simp: client_ids_ok_def client_conflict_def\<close>)

lemma append_members [simp]:
  "st_members (snd (append_message mid room from parts men rep cid ts s)) = st_members s"
  by (cases rule: append_cases [of mid room "from" parts men rep cid ts s]) auto

lemma append_backlog:
  assumes "log_ok s" "get_cursor room agent s < st_next_seq s"
  shows "\<exists>gs. st_messages (snd (append_message mid r from parts men rep cid ts s)) = st_messages s @ gs \<and>
    backlog room agent (snd (append_message mid r from parts men rep cid ts s)) =
      backlog room agent s @ filter (\<lambda>g. mg_room g = room) gs \<and>
    get_cursor room agent (snd (append_message mid r from parts men rep cid ts s))
      < st_next_seq (snd (append_message mid r from parts men rep cid ts s))"
proof (cases rule: append_cases [of mid r "from" parts men rep cid ts s])
  case same
  with assms show ?thesis by (intro exI [of _ "[]"]) simp
next
  case (new g)
  have "get_cursor room agent (snd (append_message mid r from parts men rep cid ts s)) = get_cursor room agent s"
    by (simp add: get_cursor_def)
  with new assms show ?thesis
    by (intro exI [of _ "[g]"]) (simp add: backlog_def unread_def)
qed

section \<open>Interleaved runs\<close>

lemma pull_cursor_bound:
  assumes "log_ok s" "is_member room agent s" "get_cursor room agent s < st_next_seq s"
    and "pull room agent None limit None s = ((ms, c), s')"
  shows "get_cursor room agent s' < st_next_seq s'"
proof -
  let ?b = "take (pull_limit limit) (backlog room agent s)"
  have "st_next_seq s' = st_next_seq s"
    using assms(4) pull_frame(2) [of room agent None limit None s] by simp
  moreover have "get_cursor room agent s' = last_seq ?b (get_cursor room agent s)"
    using pull_advance [OF assms(1,2,4)] by simp
  moreover have "?b \<noteq> [] \<Longrightarrow> last ?b \<in> set (st_messages s)"
    by (metis backlog_def filter_is_subset in_set_takeD last_in_set subsetD unread_def)
  ultimately show ?thesis using assms(1,3) by (auto simp: last_seq_def log_ok_def)
qed

lemma run_log_delivery:
  assumes "log_ok s" "is_member room agent s" "get_cursor room agent s < st_next_seq s"
    and "run_log room agent ops s = (ms, s')"
  shows "\<exists>gs. st_messages s' = st_messages s @ gs \<and>
    ms @ map to_stored (backlog room agent s') =
      map to_stored (backlog room agent s @ filter (\<lambda>g. mg_room g = room) gs)"
  using assms
proof (induction room agent ops s arbitrary: ms rule: run_log.induct)
  case (1 room agent s)
  then show ?case by simp
next
  case (2 room agent mid r "from" parts men rep cid ts ops s)
  let ?s1 = "snd (append_message mid r from parts men rep cid ts s)"
  obtain gs where gs: "st_messages ?s1 = st_messages s @ gs"
    "backlog room agent ?s1 = backlog room agent s @ filter (\<lambda>g. mg_room g = room) gs"
    "get_cursor room agent ?s1 < st_next_seq ?s1"
    using append_backlog [OF 2(2,4), of mid r "from" parts men rep cid ts] by blast
  have "is_member room agent ?s1" using 2(3) by (simp add: is_member_iff)
  then obtain hs where "st_messages s' = st_messages ?s1 @ hs"
    "ms @ map to_stored (backlog room agent s') =
       map to_stored (backlog room agent ?s1 @ filter (\<lambda>g. mg_room g = room) hs)"
    using 2(1) [OF append_log_ok [OF 2(2)] _ gs(3)] 2(5) by auto
  with gs show ?case by (intro exI [of _ "gs @ hs"]) simp
next
  case (3 room agent lim ops s)
  obtain b c s1 where p: "pull room agent None lim None s = ((b, c), s1)" by (metis surj_pair)
  obtain rest where r: "run_log room agent ops s1 = (rest, s')" and ms: "ms = b @ rest"
    using 3(5) p by (auto split: prod.splits)
  have fr: "st_messages s1 = st_messages s" "is_member room agent s1" "log_ok s1"
    using pull_frame [of room agent None lim None s] pull_member [of room agent room agent None lim None s]
      p 3(2,3) by auto
  obtain gs where gs: "st_messages s' = st_messages s1 @ gs"
    "rest @ map to_stored (backlog room agent s') =
       map to_stored (backlog room agent s1 @ filter (\<lambda>g. mg_room g = room) gs)"
    using 3(1) [OF p [symmetric] refl refl fr(3,2) pull_cursor_bound [OF 3(2,3,4) p] r] by auto
  have "b @ map to_stored (backlog room agent s1) = map to_stored (backlog room agent s)"
    using pull_advance(1,4) [OF 3(2,3) p] by (metis map_append)
  with gs ms fr(1) show ?case by (intro exI [of _ gs]) simp
next
  case (4 room agent lim a ops s)
  then show ?case by (simp add: pull_since)
qed

section \<open>Retention\<close>

lemma count_newer_bound:
  fixes xs :: "int list"
  assumes "sorted_wrt (<) xs" "k < length xs"
  shows "length (filter (\<lambda>x. rev xs ! k < x) xs) = k"
proof -
  let ?n = "length xs"
  have "rev xs ! k = xs ! (?n - 1 - k)" using assms(2) by (simp add: rev_nth)
  moreover have "filter (\<lambda>x. xs ! (?n - 1 - k) < x) xs = drop (?n - k) xs"
  proof -
    let ?i = "?n - 1 - k"
    have xs: "xs = take (Suc ?i) xs @ drop (Suc ?i) xs" by simp
    have "last (take (Suc ?i) xs) = xs ! ?i"
      using assms(2) by (simp add: take_Suc_conv_app_nth)
    then have "filter (\<lambda>x. xs ! ?i < x) (take (Suc ?i) xs @ drop (Suc ?i) xs) = drop (Suc ?i) xs"
      using filter_gt_split [of "\<lambda>x. x" "take (Suc ?i) xs" "drop (Suc ?i) xs"] assms
      by (auto simp del: append_take_drop_id) (metis append_take_drop_id assms(1) list.size(3) not_less_zero take_eq_Nil nat.discI)
    moreover have "Suc ?i = ?n - k" using assms(2) by simp
    ultimately show ?thesis by simp
  qed
  ultimately show ?thesis using assms(2) by simp
qed

definition newer_count :: "message_row \<Rightarrow> store \<Rightarrow> nat" where
  "newer_count g s = length (filter (\<lambda>h. mg_room h = mg_room g \<and> mg_seq g < mg_seq h) (st_messages s))"

lemma count_le_iff:
  fixes xs :: "int list"
  assumes "sorted_wrt (<) xs" "k < length xs" "x \<in> set xs"
  shows "x \<le> rev xs ! k \<longleftrightarrow> k \<le> length (filter (\<lambda>y. x < y) xs)"
proof -
  let ?r = "rev xs ! k"
  have d: "distinct xs" using assms(1) strict_sorted_iff by blast
  then have len: "length (filter P xs) = card {y \<in> set xs. P y}" for P
    by (metis distinct_card distinct_filter set_filter)
  have k: "card {y \<in> set xs. ?r < y} = k"
    using count_newer_bound [OF assms(1,2)] len [of "\<lambda>y. ?r < y"] by simp
  show ?thesis
  proof (cases "x \<le> ?r")
    case True
    then have "{y \<in> set xs. ?r < y} \<subseteq> {y \<in> set xs. x < y}" by auto
    from card_mono [OF _ this] have "k \<le> card {y \<in> set xs. x < y}" using k by simp
    with True len show ?thesis by simp
  next
    case False
    then have "insert x {y \<in> set xs. x < y} \<subseteq> {y \<in> set xs. ?r < y}" using assms(3) by auto
    from card_mono [OF _ this] have "card (insert x {y \<in> set xs. x < y}) \<le> k" using k by simp
    then have "card {y \<in> set xs. x < y} < k" by simp
    with False len show ?thesis by simp
  qed
qed

lemma nth_newest_iff:
  assumes "log_ok s" "g \<in> set (st_messages s)"
  shows "mg_seq g \<le> nth_newest (mg_room g) k s \<longleftrightarrow> k \<le> newer_count g s"
proof -
  let ?xs = "map mg_seq (filter (\<lambda>h. mg_room h = mg_room g) (st_messages s))"
  have so: "sorted_wrt (<) ?xs" using assms(1) by (simp add: log_ok_def sorted_wrt_filter_map)
  then have sorted: "sort ?xs = ?xs" by (simp add: sort_key_strict)
  have mem: "mg_seq g \<in> set ?xs" using assms(2) by auto
  have cnt: "newer_count g s = length (filter (\<lambda>y. mg_seq g < y) ?xs)"
    by (simp add: newer_count_def filter_map comp_def)
  show ?thesis
  proof (cases "k < length ?xs")
    case True
    then show ?thesis
      using count_le_iff [OF so True mem] sorted cnt by (simp add: nth_newest_def Let_def)
  next
    case False
    have "length (filter (\<lambda>y. mg_seq g < y) ?xs) < length ?xs"
      by (rule length_filter_less [OF mem]) simp
    moreover have "1 \<le> mg_seq g" using assms by (auto simp: log_ok_def)
    ultimately show ?thesis using False sorted cnt by (simp add: nth_newest_def Let_def)
  qed
qed

section \<open>Draining and repeating\<close>

lemma run_log_drain:
  assumes "log_ok s" "is_member room agent s"
    and "length (backlog room agent s) \<le> n * pull_limit lim"
    and "run_log room agent (replicate n (OpPull lim)) s = (ms, s')"
  shows "ms = map to_stored (backlog room agent s) \<and> backlog room agent s' = []"
  using assms
proof (induction n arbitrary: s ms)
  case 0
  then show ?case by simp
next
  case (Suc n)
  obtain b c s1 where p: "pull room agent None lim None s = ((b, c), s1)" by (metis surj_pair)
  obtain rest where r: "run_log room agent (replicate n (OpPull lim)) s1 = (rest, s')" and ms: "ms = b @ rest"
    using Suc.prems(4) p by (auto split: prod.splits)
  have fr: "is_member room agent s1" "log_ok s1"
    using pull_frame [of room agent None lim None s] pull_member [of room agent room agent None lim None s]
      p Suc.prems by auto
  note adv = pull_advance [OF Suc.prems(1,2) p]
  have "length (take (pull_limit lim) (backlog room agent s)) + length (backlog room agent s1)
      = length (backlog room agent s)"
    using adv(4) by (metis length_append)
  then have "length (backlog room agent s1) \<le> n * pull_limit lim" using Suc.prems(3) by auto
  with Suc.IH [OF fr(2,1) _ r]
  have "rest = map to_stored (backlog room agent s1) \<and> backlog room agent s' = []" by simp
  with ms adv(1,4) show ?case by (metis map_append)
qed

lemma pull_ack_idem:
  assumes "log_ok s" "is_member room agent s"
    and "pull room agent None limit (Some a) s = (r, s')"
  shows "pull room agent None limit (Some a) s' = (r, s')"
proof -
  obtain ms c where r: "r = (ms, c)" by force
  note ack = pull_ack [OF assms(1,2) assms(3) [unfolded r]]
  have "log_ok s'" "read_log room x (pull_limit limit) s' = read_log room x (pull_limit limit) s" for x
    using assms pull_frame [of room agent None limit "Some a" s] by (auto simp: read_log_def)
  with ack(1) r assms(3) show ?thesis
    by (auto simp: pull_def Let_def get_set_cursor assms(2) split: if_splits)
qed

lemma keyed_conflict:
  assumes "client_ids_ok s" "g \<in> set (st_messages s)" "client_conflict room author cid g"
  shows "find (client_conflict room author cid) (st_messages s) = Some g"
proof -
  obtain h where h: "find (client_conflict room author cid) (st_messages s) = Some h"
    using assms(2,3) by (metis find_None_iff not_Some_eq)
  then have "h \<in> set (st_messages s)" "client_conflict room author cid h"
    by (auto simp: find_Some_iff)
  with assms have "h = g" by (auto simp: client_ids_ok_def client_conflict_def)
  with h show ?thesis by simp
qed

lemma append_twice:
  assumes "append_message mid room from parts men rep (Some k) ts s = (Inr o1, s1)"
  shows "append_message mid' room from parts' men' rep' (Some k) ts' s1 =
    (Inr \<lparr>ao_id = ao_id o1, ao_seq = ao_seq o1, ao_tokens = 0, ao_deduped = True\<rparr>, s1)"
proof (cases "find (client_conflict room (ep_id from) (Some k)) (st_messages s)")
  case (Some g)
  with assms show ?thesis by (auto simp: append_message_def Let_def)
next
  case None
  then have u: "\<forall>g \<in> set (st_messages s). mg_id g \<noteq> mid"
    using assms by (auto simp: append_message_def Let_def split: if_splits)
  have "find P (xs @ [x]) = (case find P xs of None \<Rightarrow> if P x then Some x else None | Some y \<Rightarrow> Some y)"
    for P and xs :: "message_row list" and x by (induction xs) auto
  then show ?thesis using append_new [OF None u] assms None
    by (auto simp: append_message_def Let_def client_conflict_def)
qed

section \<open>Properties\<close>

definition demo_ep :: endpoint_ref where
  "demo_ep = \<lparr>ep_id = ''a'', ep_name = ''ann'', ep_role = None\<rparr>"

definition demo_log :: store where
  "demo_log =
     snd (append_message ''m2'' ''r'' demo_ep [Text ''two''] None None None 20
       (snd (append_message ''m1'' ''r'' demo_ep [Text ''one''] None None (Some ''k'') 10
         (add_member ''r'' ''b'' 0 (add_member ''r'' ''a'' 0 (ensure_room ''r'' Channel None 0 empty_store))))))"

text \<open>C1: Exactly-once, in-order delivery. A member reads a room with cursor-advancing pulls while
  any agents append to any rooms and history is re-read with explicit cursors, in any interleaving.
  The messages its pulls returned, followed by what is still unread, are exactly the messages that
  were unread at the start followed by the room's new messages, in log order: none is lost, none is
  duplicated, none is reordered.\<close>

theorem exactly_once_delivery:
  assumes "log_ok s" "is_member room agent s" "get_cursor room agent s < st_next_seq s"
    and "run_log room agent ops s = (ms, s')"
  shows "\<exists>gs. st_messages s' = st_messages s @ gs \<and>
    ms @ map to_stored (backlog room agent s') =
      map to_stored (backlog room agent s @ filter (\<lambda>g. mg_room g = room) gs)"
  using assms by (rule run_log_delivery)

theorem exactly_once_delivery_witness:
  "let (ms, s') = run_log ''r'' ''b''
       [OpPull (Some 1), OpAppend ''m3'' ''r'' demo_ep [Text ''three''] None None None 30, OpPull None] demo_log
   in \<exists>gs. st_messages s' = st_messages demo_log @ gs \<and>
        ms @ map to_stored (backlog ''r'' ''b'' s') =
          map to_stored (backlog ''r'' ''b'' demo_log @ filter (\<lambda>g. mg_room g = ''r'') gs)"
proof -
  have "log_ok demo_log" "is_member ''r'' ''b'' demo_log"
    "get_cursor ''r'' ''b'' demo_log < st_next_seq demo_log" by code_simp+
  from exactly_once_delivery [OF this surjective_pairing] show ?thesis
    by (simp only: Let_def case_prod_unfold)
qed

text \<open>C36: Delivery is live. As soon as a member has pulled often enough for its page size to cover
  the unread messages, it has received all of them and nothing is left unread.\<close>

theorem pulls_drain_room:
  assumes "log_ok s" "is_member room agent s"
    and "length (backlog room agent s) \<le> n * pull_limit lim"
    and "run_log room agent (replicate n (OpPull lim)) s = (ms, s')"
  shows "ms = map to_stored (backlog room agent s) \<and> backlog room agent s' = []"
  using assms by (rule run_log_drain)

theorem pulls_drain_room_witness:
  "fst (run_log ''r'' ''b'' (replicate 2 (OpPull (Some 1))) demo_log) = map to_stored (backlog ''r'' ''b'' demo_log)
   \<and> backlog ''r'' ''b'' (snd (run_log ''r'' ''b'' (replicate 2 (OpPull (Some 1))) demo_log)) = []"
proof -
  have a: "log_ok demo_log" "is_member ''r'' ''b'' demo_log"
    "length (backlog ''r'' ''b'' demo_log) \<le> 2 * pull_limit (Some 1)" by code_simp+
  show ?thesis by (rule pulls_drain_room [OF a surjective_pairing])
qed

text \<open>At-least-once reads. A pull that acknowledges up to \<open>a\<close> moves the cursor to the larger of
  \<open>a\<close> and the stored cursor, never back, does not consume what it returns, and is repeatable: the same
  pull on the resulting state returns the same page and changes nothing, so a lost reply loses no
  message.\<close>

theorem acked_pull_repeatable:
  assumes "log_ok s" "is_member room agent s"
    and "pull room agent None limit (Some a) s = ((ms, c), s')"
  shows "pull room agent None limit (Some a) s' = ((ms, c), s')
    \<and> get_cursor room agent s' = max a (get_cursor room agent s)
    \<and> ms = map to_stored (take (pull_limit limit) (backlog room agent s'))"
  using pull_ack_idem [OF assms] pull_ack(1,2) [OF assms] by simp

theorem acked_pull_repeatable_witness:
  "let ((ms, c), s') = pull ''r'' ''b'' None None (Some 1) demo_log
   in pull ''r'' ''b'' None None (Some 1) s' = ((ms, c), s') \<and> get_cursor ''r'' ''b'' s' = 1 \<and> length ms = 1"
proof -
  have a: "log_ok demo_log" "is_member ''r'' ''b'' demo_log" by code_simp+
  obtain ms c s' where p: "pull ''r'' ''b'' None None (Some 1) demo_log = ((ms, c), s')" by (metis surj_pair)
  have "get_cursor ''r'' ''b'' demo_log = 0"
    "length (fst (fst (pull ''r'' ''b'' None None (Some 1) demo_log))) = 1" by code_simp+
  with acked_pull_repeatable [OF a p] p show ?thesis by simp
qed

text \<open>A keyed send is idempotent. Once a send with client id \<open>k\<close> has been appended, every retry
  by the same author in the same room under \<open>k\<close>, whatever it carries, returns the id and sequence
  number of the first, is reported as a duplicate of zero tokens and leaves the store unchanged.\<close>

theorem keyed_append_idempotent:
  assumes "append_message mid room from parts men rep (Some k) ts s = (Inr o1, s1)"
  shows "append_message mid' room from parts' men' rep' (Some k) ts' s1 =
    (Inr \<lparr>ao_id = ao_id o1, ao_seq = ao_seq o1, ao_tokens = 0, ao_deduped = True\<rparr>, s1)"
  using assms by (rule append_twice)

theorem keyed_append_idempotent_witness:
  "let r = append_message ''m9'' ''r'' demo_ep [Text ''x''] None None (Some ''q'') 40 demo_log
   in fst (append_message ''m10'' ''r'' demo_ep [] None None (Some ''q'') 50 (snd r))
      = Inr \<lparr>ao_id = ''m9'', ao_seq = 3, ao_tokens = 0, ao_deduped = True\<rparr>"
proof -
  let ?o = "\<lparr>ao_id = ''m9'', ao_seq = 3, ao_tokens = 1, ao_deduped = False\<rparr>"
  have "fst (append_message ''m9'' ''r'' demo_ep [Text ''x''] None None (Some ''q'') 40 demo_log) = Inr ?o"
    by code_simp
  then have "append_message ''m9'' ''r'' demo_ep [Text ''x''] None None (Some ''q'') 40 demo_log
    = (Inr ?o, snd (append_message ''m9'' ''r'' demo_ep [Text ''x''] None None (Some ''q'') 40 demo_log))"
    by (metis prod.collapse)
  from keyed_append_idempotent [OF this] show ?thesis by (simp add: Let_def)
qed

text \<open>Retention is exact. Pruning keeps a message if and only if it is younger than the retention
  window or fewer than \<open>keep\<close> messages of its room are newer, and reports how many it deleted.\<close>

theorem prune_messages_exact:
  assumes "log_ok s" "0 \<le> keep"
  shows "set (st_messages (snd (prune_messages retain keep now s))) =
      {g \<in> set (st_messages s). now - retain \<le> mg_ts g \<or> int (newer_count g s) < keep}
    \<and> fst (prune_messages retain keep now s) + length (st_messages (snd (prune_messages retain keep now s)))
      = length (st_messages s)"
proof -
  have k: "nat keep \<le> newer_count g s \<longleftrightarrow> keep \<le> int (newer_count g s)" for g
    using assms(2) by linarith
  have "mg_seq g \<le> nth_newest (mg_room g) (nat keep) s \<longleftrightarrow> keep \<le> int (newer_count g s)"
    if "g \<in> set (st_messages s)" for g
    using nth_newest_iff [OF assms(1) that] k by simp
  then show ?thesis
    by (auto simp: prune_messages_def Let_def delete_where_def sum_length_filter_compl simp del: de_Morgan_conj)
qed

theorem prune_messages_exact_witness:
  "map mg_id (st_messages (snd (prune_messages 5 1 100 demo_log))) = [''m2'']
   \<and> set (st_messages (snd (prune_messages 5 1 100 demo_log))) =
      {g \<in> set (st_messages demo_log). 95 \<le> mg_ts g \<or> int (newer_count g demo_log) < 1}"
proof -
  have a: "log_ok demo_log" by code_simp
  have b: "map mg_id (st_messages (snd (prune_messages 5 1 100 demo_log))) = [''m2'']" by code_simp
  from prune_messages_exact [OF a, of 1 5 100] b show ?thesis by simp
qed

end
