(* ===== verification/Store_Queue.thy ===== *)
theory Store_Queue
  imports Store_Log
begin

text \<open>
  The role queue of the store: worker registration, atomic claims with leases, the queue listing
  and completion (\<open>serve_role\<close>, \<open>claim_service_message\<close>, \<open>queued_service_messages\<close>,
  \<open>complete_service_message\<close> of \<open>store.rs\<close>).
  The lemmas show that a live lease excludes every other worker over arbitrary interleavings of
  queue traffic, that a message is completed at most once and is never claimed afterwards, and that
  everything the listing offers can be claimed.
\<close>

section \<open>Operations\<close>

abbreviation claim_key_of :: "claim_row \<Rightarrow> string \<times> string" where
  "claim_key_of c \<equiv> (sc_room c, sc_message c)"

abbreviation worker_key_of :: "worker_row \<Rightarrow> string \<times> string" where
  "worker_key_of w \<equiv> (sw_room w, sw_agent w)"

text \<open>The cast \<open>u64 as i64\<close> reinterprets the bits.\<close>

definition u64_as_i64 :: "nat \<Rightarrow> int" where
  "u64_as_i64 n = (let m = int n mod 2 ^ 64 in if m < 2 ^ 63 then m else m - 2 ^ 64)"

definition serve_role :: "string \<Rightarrow> string \<Rightarrow> string \<Rightarrow> ms \<Rightarrow> store \<Rightarrow> store" where
  "serve_role room agent role now s =
     s\<lparr>st_workers := upsert worker_key_of
         (\<lambda>old new. old\<lparr>sw_role := sw_role new, sw_registered := sw_registered new\<rparr>)
         \<lparr>sw_room = room, sw_agent = agent, sw_role = role, sw_registered = now\<rparr>
         (st_workers s)\<rparr>"

definition served_role :: "string \<Rightarrow> string \<Rightarrow> store \<Rightarrow> string option" where
  "served_role room agent s = map_option sw_role (lookup_key worker_key_of (room, agent) (st_workers s))"

definition available_worker :: "string \<Rightarrow> ms \<Rightarrow> store \<Rightarrow> bool" where
  "available_worker worker now s =
     (case presence_of worker s of None \<Rightarrow> False
      | Some p \<Rightarrow> (pr_status p = ''idle'' \<or> pr_status p = ''waiting'') \<and> now - pr_ts p \<le> PRESENCE_STALE_MS)"

definition owns_live_claim :: "string \<Rightarrow> string \<Rightarrow> string \<Rightarrow> ms \<Rightarrow> store \<Rightarrow> bool" where
  "owns_live_claim room message worker now s =
     (\<exists>c \<in> set (st_claims s). sc_room c = room \<and> sc_message c = message \<and> sc_worker c = worker
        \<and> sc_state c = ''active'' \<and> now < sc_lease_until c)"

definition dispatched_to :: "string \<Rightarrow> string \<Rightarrow> string \<Rightarrow> store \<Rightarrow> bool" where
  "dispatched_to room message role s =
     (case find (\<lambda>g. mg_room g = room \<and> mg_id g = message) (st_messages s) of
        None \<Rightarrow> False
      | Some g \<Rightarrow> \<exists>r \<in> set (filter_map dispatch_from_part (mg_parts g)). eq_ignore_ascii_case r role)"

text \<open>
  \<open>INSERT ... ON CONFLICT(room, message) DO UPDATE ... WHERE\<close>: whether a row changed, and the table.
\<close>

definition claimable_row :: "string \<Rightarrow> ms \<Rightarrow> claim_row \<Rightarrow> bool" where
  "claimable_row worker now old =
     (sc_state old = ''active'' \<and> (sc_worker old = worker \<or> sc_lease_until old \<le> now))"

definition claim_service_message ::
  "string \<Rightarrow> string \<Rightarrow> string \<Rightarrow> nat \<Rightarrow> ms \<Rightarrow> store \<Rightarrow> ms option \<times> store" where
  "claim_service_message room message worker lease_secs now s =
     (case served_role room worker s of
        None \<Rightarrow> (None, s)
      | Some role \<Rightarrow>
          if \<not> (owns_live_claim room message worker now s \<or> available_worker worker now s) then (None, s)
          else if \<not> dispatched_to room message role s then (None, s)
          else
            let lease_until = sat_i64 (now + sat_i64 (u64_as_i64 lease_secs * 1000));
                row = \<lparr>sc_room = room, sc_message = message, sc_worker = worker, sc_state = ''active'',
                       sc_claimed = now, sc_lease_until = lease_until\<rparr>
            in case lookup_key claim_key_of (room, message) (st_claims s) of
                 None \<Rightarrow> (Some lease_until, s\<lparr>st_claims := st_claims s @ [row]\<rparr>)
               | Some old \<Rightarrow>
                   if claimable_row worker now old
                   then (Some lease_until, s\<lparr>st_claims := upsert claim_key_of (\<lambda>_ new. new) row (st_claims s)\<rparr>)
                   else (None, s))"

definition queue_limit :: "nat option \<Rightarrow> nat" where
  "queue_limit limit = min (opt_or limit 50) 200"

definition open_dispatch :: "string \<Rightarrow> string \<Rightarrow> ms \<Rightarrow> store \<Rightarrow> dispatch_row \<Rightarrow> bool" where
  "open_dispatch room role now s d =
     (sd_room d = room \<and> to_ascii_lowercase (sd_role d) = to_ascii_lowercase role
      \<and> (case lookup_key claim_key_of (sd_room d, sd_message d) (st_claims s) of
           None \<Rightarrow> True
         | Some c \<Rightarrow> sc_state c = ''active'' \<and> sc_lease_until c \<le> now))"

definition queued_service_messages ::
  "string \<Rightarrow> string \<Rightarrow> string \<Rightarrow> nat option \<Rightarrow> ms \<Rightarrow> store \<Rightarrow> stored_message list" where
  "queued_service_messages room worker role limit now s =
     (case served_role room worker s of
        None \<Rightarrow> []
      | Some served \<Rightarrow>
          if \<not> eq_ignore_ascii_case served role then []
          else if \<not> available_worker worker now s then []
          else map to_stored
            (take (queue_limit limit)
              (filter_map (\<lambda>d. find (\<lambda>g. mg_id g = sd_message d \<and> mg_room g = sd_room d) (st_messages s))
                (sort_key sd_seq (filter (open_dispatch room role now s) (st_dispatches s))))))"

definition complete_service_message ::
  "string \<Rightarrow> string \<Rightarrow> string \<Rightarrow> task_status \<Rightarrow> ms \<Rightarrow> store \<Rightarrow> (hub_error + bool) \<times> store" where
  "complete_service_message room message worker status now s =
     (if \<not> is_terminal status
      then (Inl (Uncoded ''a service claim can only be completed with a terminal task status''), s)
      else
        let hit = (\<lambda>c. sc_room c = room \<and> sc_message c = message \<and> sc_worker c = worker
                     \<and> sc_state c = ''active'' \<and> now \<le> sc_lease_until c)
        in (Inr (length (filter hit (st_claims s)) = 1),
            s\<lparr>st_claims := update_where hit
                (\<lambda>c. c\<lparr>sc_state := task_status_label status, sc_lease_until := now\<rparr>) (st_claims s)\<rparr>))"

section \<open>Queue traffic\<close>

text \<open>
  Everything that may happen to the store between two queue operations on a message: workers
  register, change presence, claim and complete, and messages are appended. A run records the claims
  and completions that succeeded.
\<close>

datatype queue_op =
    QServe string string string ms
  | QPresence string string "string option" "attention option" ms
  | QAppend string string endpoint_ref "part list" "string list option" "string option" "string option" ms
  | QClaim string string string nat ms
  | QComplete string string string task_status ms

datatype queue_event = Claimed string string string ms ms | Completed string string string ms

fun op_time :: "queue_op \<Rightarrow> ms" where
  "op_time (QServe _ _ _ t) = t"
| "op_time (QPresence _ _ _ _ t) = t"
| "op_time (QAppend _ _ _ _ _ _ _ t) = t"
| "op_time (QClaim _ _ _ _ t) = t"
| "op_time (QComplete _ _ _ _ t) = t"

fun run_op :: "queue_op \<Rightarrow> store \<Rightarrow> queue_event list \<times> store" where
  "run_op (QServe room agent role t) s = ([], serve_role room agent role t s)"
| "run_op (QPresence agent st act attn t) s = ([], touch_presence agent st act attn t s)"
| "run_op (QAppend mid room from parts men rep cid t) s =
     ([], snd (append_message mid room from parts men rep cid t s))"
| "run_op (QClaim room msg w lease t) s =
     (case claim_service_message room msg w lease t s of
        (Some u, s') \<Rightarrow> ([Claimed room msg w t u], s')
      | (None, s') \<Rightarrow> ([], s'))"
| "run_op (QComplete room msg w status t) s =
     (case complete_service_message room msg w status t s of
        (Inr True, s') \<Rightarrow> ([Completed room msg w t], s')
      | (_, s') \<Rightarrow> ([], s'))"

fun run_queue :: "queue_op list \<Rightarrow> store \<Rightarrow> queue_event list \<times> store" where
  "run_queue [] s = ([], s)"
| "run_queue (q # qs) s =
     (let (e, s1) = run_op q s; (es, s2) = run_queue qs s1 in (e @ es, s2))"

section \<open>The claim of one message\<close>

definition claim_of :: "string \<Rightarrow> string \<Rightarrow> store \<Rightarrow> claim_row option" where
  "claim_of room msg s = lookup_key claim_key_of (room, msg) (st_claims s)"

definition claims_ok :: "store \<Rightarrow> bool" where
  "claims_ok s = keys_ok claim_key_of (st_claims s)"

lemma claim_of_in: "claims_ok s \<Longrightarrow> c \<in> set (st_claims s) \<Longrightarrow> claim_of (sc_room c) (sc_message c) s = Some c"
  by (simp add: claim_of_def claims_ok_def lookup_key_iff)

lemma task_label_not_active: "is_terminal t \<Longrightarrow> task_status_label t \<noteq> ''active''"
  by (cases t) auto

lemma upsert_cong:
  "(\<And>old. key old = key r \<Longrightarrow> m old r = m' old r) \<Longrightarrow> upsert key m r rows = upsert key m' r rows"
  by (auto simp: upsert_def intro!: map_cong)

text \<open>What a claim does to the claim of any message.\<close>

lemma claim_success:
  assumes "claim_service_message room msg w lease now s = (Some u, s')"
  shows "case claim_of room msg s of None \<Rightarrow> True | Some old \<Rightarrow> claimable_row w now old"
    and "claim_of r m s' =
      (if (r, m) = (room, msg)
       then Some \<lparr>sc_room = room, sc_message = msg, sc_worker = w, sc_state = ''active'',
                  sc_claimed = now, sc_lease_until = u\<rparr>
       else claim_of r m s)"
    and "claims_ok s \<Longrightarrow> claims_ok s'"
proof -
  let ?row = "\<lambda>u. \<lparr>sc_room = room, sc_message = msg, sc_worker = w, sc_state = ''active'',
                  sc_claimed = now, sc_lease_until = u\<rparr>"
  have s': "s' = s\<lparr>st_claims := upsert claim_key_of (\<lambda>_ new. new) (?row u) (st_claims s)\<rparr>
      \<and> (case claim_of room msg s of None \<Rightarrow> True | Some old \<Rightarrow> claimable_row w now old)"
    using assms lookup_key_None [of claim_key_of "(room, msg)" "st_claims s"]
    by (cases "lookup_key claim_key_of (room, msg) (st_claims s)")
      (auto simp: claim_service_message_def Let_def claim_of_def upsert_def split: option.splits if_splits)
  then show "case claim_of room msg s of None \<Rightarrow> True | Some old \<Rightarrow> claimable_row w now old" by simp
  let ?m = "\<lambda>old new. new\<lparr>sc_room := sc_room old, sc_message := sc_message old\<rparr> :: claim_row"
  have up: "upsert claim_key_of (\<lambda>_ new. new) (?row u) (st_claims s)
      = upsert claim_key_of ?m (?row u) (st_claims s)"
    by (rule upsert_cong) simp
  have key: "\<And>a b. claim_key_of (?m a b) = claim_key_of a" by simp
  have cl: "st_claims s' = upsert claim_key_of ?m (?row u) (st_claims s)"
    using s' by (simp add: up [symmetric])
  show "claim_of r m s' = (if (r, m) = (room, msg) then Some (?row u) else claim_of r m s)"
  proof -
    have "claim_of r m s' = (if (r, m) = claim_key_of (?row u)
        then Some (case claim_of r m s of None \<Rightarrow> ?row u | Some old \<Rightarrow> ?m old (?row u)) else claim_of r m s)"
      unfolding claim_of_def cl by (rule lookup_key_upsert) (rule key)
    moreover have "sc_room old = room \<and> sc_message old = msg" if "claim_of room msg s = Some old" for old
      using lookup_key_in [OF that [unfolded claim_of_def]] by simp
    ultimately show ?thesis
      by (cases "claim_of room msg s") simp_all
  qed
  show "claims_ok s \<Longrightarrow> claims_ok s'"
    unfolding claims_ok_def cl by (erule keys_ok_upsert) (rule key)
qed

lemma claim_failure: "claim_service_message room msg w lease now s = (None, s') \<Longrightarrow> s' = s"
  by (auto simp: claim_service_message_def Let_def split: option.splits if_splits)

abbreviation completable :: "string \<Rightarrow> ms \<Rightarrow> claim_row \<Rightarrow> bool" where
  "completable w now c \<equiv> sc_worker c = w \<and> sc_state c = ''active'' \<and> now \<le> sc_lease_until c"

lemma complete_claim_of:
  assumes "complete_service_message room msg w status now s = (r, s')"
  shows "claim_of r' m' s' =
      (if is_terminal status \<and> (r', m') = (room, msg)
       then map_option (\<lambda>c. if completable w now c
              then c\<lparr>sc_state := task_status_label status, sc_lease_until := now\<rparr> else c) (claim_of room msg s)
       else claim_of r' m' s)"
    and "claims_ok s \<Longrightarrow> claims_ok s'"
proof -
  let ?hit = "\<lambda>c. sc_room c = room \<and> sc_message c = msg \<and> sc_worker c = w
                     \<and> sc_state c = ''active'' \<and> now \<le> sc_lease_until c"
  let ?f = "\<lambda>c. if ?hit c then c\<lparr>sc_state := task_status_label status, sc_lease_until := now\<rparr> else c"
  have s': "s' = (if is_terminal status then s\<lparr>st_claims := map ?f (st_claims s)\<rparr> else s)"
    using assms by (auto simp: complete_service_message_def Let_def update_where_def)
  have lk: "lookup_key claim_key_of k (map ?f rows) = map_option ?f (lookup_key claim_key_of k rows)" for k rows
    by (rule lookup_key_map_keep) simp
  show "claim_of r' m' s' =
      (if is_terminal status \<and> (r', m') = (room, msg)
       then map_option (\<lambda>c. if completable w now c
              then c\<lparr>sc_state := task_status_label status, sc_lease_until := now\<rparr> else c) (claim_of room msg s)
       else claim_of r' m' s)"
  proof (cases "claim_of r' m' s")
    case None
    then show ?thesis by (auto simp: s' claim_of_def lk)
  next
    case (Some c)
    have "sc_room c = r' \<and> sc_message c = m'"
      using lookup_key_in [OF Some [unfolded claim_of_def]] by simp
    with Some show ?thesis by (auto simp: s' claim_of_def lk)
  qed
  show "claims_ok s \<Longrightarrow> claims_ok s'"
    using keys_ok_map_keep [of claim_key_of ?f] by (simp add: s' claims_ok_def)
qed

lemma complete_result:
  assumes "claims_ok s" "complete_service_message room msg w status now s = (r, s')"
  shows "r = Inr True \<longleftrightarrow> is_terminal status \<and> (\<exists>c. claim_of room msg s = Some c \<and> completable w now c)"
proof -
  have "length (filter (\<lambda>c. claim_key_of c = (room, msg) \<and> completable w now c) (st_claims s))
      = (case claim_of room msg s of None \<Rightarrow> 0 | Some c \<Rightarrow> if completable w now c then 1 else 0)"
    unfolding claim_of_def by (rule length_filter_key [OF assms(1) [unfolded claims_ok_def]])
  with assms(2) show ?thesis
    by (auto simp: complete_service_message_def Let_def split: if_splits option.splits)
qed

lemma claim_of_frame:
  "claim_of r m (serve_role room agent role t s) = claim_of r m s"
  "claim_of r m (touch_presence agent st act attn t s) = claim_of r m s"
  "claim_of r m (snd (append_message mid room from parts men rep cid t s)) = claim_of r m s"
  by (auto simp: claim_of_def serve_role_def touch_presence_def append_message_def Let_def split: option.splits)

lemma claims_ok_frame:
  "claims_ok (serve_role room agent role t s) = claims_ok s"
  "claims_ok (touch_presence agent st act attn t s) = claims_ok s"
  "claims_ok (snd (append_message mid room from parts men rep cid t s)) = claims_ok s"
  by (auto simp: claims_ok_def serve_role_def touch_presence_def append_message_def Let_def split: option.splits)

lemmas claim_frames = claim_of_frame claims_ok_frame

lemma run_op_claims_ok: "claims_ok s \<Longrightarrow> claims_ok (snd (run_op q s))"
  by (cases q) (auto simp: claim_frames dest: claim_success(3) claim_failure complete_claim_of(2)
      split: prod.splits option.splits sum.splits bool.splits)

section \<open>Leases over runs\<close>

fun event_msg :: "queue_event \<Rightarrow> string \<times> string" where
  "event_msg (Claimed r m _ _ _) = (r, m)"
| "event_msg (Completed r m _ _) = (r, m)"

definition settled :: "string \<Rightarrow> string \<Rightarrow> store \<Rightarrow> bool" where
  "settled room msg s = (case claim_of room msg s of None \<Rightarrow> False | Some c \<Rightarrow> sc_state c \<noteq> ''active'')"

definition held_by :: "string \<Rightarrow> string \<Rightarrow> string \<Rightarrow> ms \<Rightarrow> store \<Rightarrow> bool" where
  "held_by room msg w until s =
     (case claim_of room msg s of None \<Rightarrow> False
      | Some c \<Rightarrow> sc_state c = ''active'' \<and> sc_worker c = w \<and> sc_lease_until c = until)"

fun reclaims :: "string \<Rightarrow> string \<Rightarrow> string \<Rightarrow> queue_op \<Rightarrow> bool" where
  "reclaims room msg w (QClaim r m w' _ _) = (r = room \<and> m = msg \<and> w' = w)"
| "reclaims room msg w _ = False"

text \<open>The effect of one operation on the claims, by the event it emits.\<close>

lemma run_op_cases:
  assumes "claims_ok s" "run_op q s = (es, s')"
  obtains (quiet) "es = []" "\<And>r m. claim_of r m s' = claim_of r m s"
  | (claimed) room msg w u where "es = [Claimed room msg w (op_time q) u]" "reclaims room msg w q"
      "case claim_of room msg s of None \<Rightarrow> True | Some old \<Rightarrow> claimable_row w (op_time q) old"
      "held_by room msg w u s'" "\<And>r m. (r, m) \<noteq> (room, msg) \<Longrightarrow> claim_of r m s' = claim_of r m s"
  | (completed) room msg w c where "es = [Completed room msg w (op_time q)]"
      "claim_of room msg s = Some c" "completable w (op_time q) c" "settled room msg s'"
      "\<And>r m. (r, m) \<noteq> (room, msg) \<Longrightarrow> claim_of r m s' = claim_of r m s"
proof (cases q)
  case (QClaim room msg w lease t)
  obtain o' s1 where c: "claim_service_message room msg w lease t s = (o', s1)" by force
  show ?thesis
  proof (cases o')
    case None
    with c have "s1 = s" using claim_failure by blast
    with c None QClaim assms(2) quiet show ?thesis by auto
  next
    case (Some u)
    note cs = claim_success(1,2) [OF c [unfolded Some]]
    show ?thesis
      by (rule claimed [of room msg w u]) (use c Some QClaim assms(2) cs in \<open>auto simp: held_by_def split: option.splits\<close>)
  qed
next
  case (QComplete room msg w status t)
  obtain r s1 where c: "complete_service_message room msg w status t s = (r, s1)" by force
  note cr = complete_result [OF assms(1) c] and cc = complete_claim_of(1) [OF c]
  show ?thesis
  proof (cases "r = Inr True")
    case True
    then obtain k where "is_terminal status" "claim_of room msg s = Some k" "completable w t k"
      using cr by blast
    then show ?thesis
      by (intro completed [of room msg w k])
        (use True c QComplete assms(2) cc in \<open>auto simp: settled_def task_label_not_active\<close>)
  next
    case False
    then have "claim_of r' m' s1 = claim_of r' m' s" for r' m'
      using cr cc [of r' m'] by (cases "claim_of room msg s") auto
    with False c QComplete assms(2) show ?thesis
      by (intro quiet) (auto split: sum.splits bool.splits)
  qed
qed (use assms(2) quiet in \<open>auto simp: claim_frames\<close>)

lemma settled_op:
  assumes "claims_ok s" "settled room msg s" "run_op q s = (es, s')"
  shows "settled room msg s' \<and> (\<forall>e \<in> set es. event_msg e \<noteq> (room, msg))"
  using assms(1,3)
proof (cases rule: run_op_cases)
  case quiet
  with assms(2) show ?thesis by (simp add: settled_def)
next
  case (claimed r m w u)
  then have "(room, msg) \<noteq> (r, m)"
    using assms(2) by (auto simp: settled_def claimable_row_def split: option.splits)
  with claimed assms(2) show ?thesis by (auto simp: settled_def)
next
  case (completed r m w c)
  then have "(room, msg) \<noteq> (r, m)" using assms(2) by (auto simp: settled_def)
  with completed assms(2) show ?thesis by (auto simp: settled_def)
qed

lemma settled_run:
  assumes "claims_ok s" "settled room msg s" "run_queue qs s = (es, s')"
  shows "\<forall>e \<in> set es. event_msg e \<noteq> (room, msg)"
  using assms
proof (induction qs arbitrary: s es)
  case (Cons q qs)
  obtain e1 s1 e2 where r: "run_op q s = (e1, s1)" "run_queue qs s1 = (e2, s')" "es = e1 @ e2"
    using Cons.prems(3) by (auto split: prod.splits)
  have "claims_ok s1" using run_op_claims_ok [OF Cons.prems(1), of q] r(1) by simp
  with settled_op [OF Cons.prems(1,2) r(1)] Cons.IH [OF _ _ r(2)] r(3) show ?case by auto
qed simp

lemma completed_last:
  assumes "claims_ok s" "run_queue qs s = (xs @ Completed room msg w t # ys, s')"
  shows "\<forall>e \<in> set ys. event_msg e \<noteq> (room, msg)"
  using assms
proof (induction qs arbitrary: s xs)
  case (Cons q qs)
  obtain e1 s1 e2 where r: "run_op q s = (e1, s1)" "run_queue qs s1 = (e2, s')"
    and es: "xs @ Completed room msg w t # ys = e1 @ e2"
    using Cons.prems(2) by (auto split: prod.splits)
  have ok: "claims_ok s1" using run_op_claims_ok [OF Cons.prems(1), of q] r(1) by simp
  have later: ?case if "e2 = zs @ Completed room msg w t # ys" for zs
    using Cons.IH [OF ok] r(2) that by blast
  from Cons.prems(1) r(1) show ?case
  proof (cases rule: run_op_cases)
    case quiet
    with es later show ?thesis by auto
  next
    case (claimed r' m' w' u)
    with es later show ?thesis by (cases xs) auto
  next
    case (completed r' m' w' c)
    show ?thesis
    proof (cases xs)
      case Nil
      with completed es have "settled room msg s1" "ys = e2" by auto
      with settled_run [OF ok _ r(2)] show ?thesis by auto
    next
      case (Cons x xs')
      with completed es later show ?thesis by auto
    qed
  qed
qed simp

lemma held_op:
  assumes "claims_ok s" "held_by room msg w until s" "run_op q s = (es, s')"
    and "op_time q < until" "\<not> reclaims room msg w q"
  shows "(held_by room msg w until s' \<and> (\<forall>e \<in> set es. event_msg e \<noteq> (room, msg)))
    \<or> (settled room msg s' \<and> es = [Completed room msg w (op_time q)])"
  using assms(1,3)
proof (cases rule: run_op_cases)
  case quiet
  with assms(2) show ?thesis by (simp add: held_by_def)
next
  case (claimed r m w' u)
  have "(room, msg) \<noteq> (r, m)"
  proof
    assume "(room, msg) = (r, m)"
    with claimed(2,3) assms(2,4,5) show False
      by (auto simp: held_by_def claimable_row_def split: option.splits)
  qed
  with claimed assms(2) show ?thesis by (auto simp: held_by_def)
next
  case (completed r m w' c)
  then show ?thesis using assms(2) by (cases "(room, msg) = (r, m)") (auto simp: held_by_def)
qed

lemma held_run:
  assumes "claims_ok s" "held_by room msg w until s" "run_queue qs s = (es, s')"
    and "\<forall>q \<in> set qs. op_time q < until \<and> \<not> reclaims room msg w q"
    and "e \<in> set es" "event_msg e = (room, msg)"
  shows "\<exists>t. e = Completed room msg w t"
  using assms
proof (induction qs arbitrary: s es)
  case (Cons q qs)
  obtain e1 s1 e2 where r: "run_op q s = (e1, s1)" "run_queue qs s1 = (e2, s')" "es = e1 @ e2"
    using Cons.prems(3) by (auto split: prod.splits)
  have ok: "claims_ok s1" using run_op_claims_ok [OF Cons.prems(1), of q] r(1) by simp
  have "op_time q < until" "\<not> reclaims room msg w q" using Cons.prems(4) by auto
  from held_op [OF Cons.prems(1,2) r(1) this] show ?case
  proof
    assume "held_by room msg w until s1 \<and> (\<forall>e \<in> set e1. event_msg e \<noteq> (room, msg))"
    with Cons.IH [OF ok _ r(2)] Cons.prems(4-6) r(3) show ?thesis by auto
  next
    assume "settled room msg s1 \<and> e1 = [Completed room msg w (op_time q)]"
    with settled_run [OF ok _ r(2)] Cons.prems(5,6) r(3) show ?thesis by auto
  qed
qed simp

lemma claim_holds: "claim_service_message room msg w lease now s = (Some u, s') \<Longrightarrow> held_by room msg w u s'"
  by (auto simp: held_by_def claim_success(2))

section \<open>The listing\<close>

text \<open>The derived dispatch table names only roles that the message itself was dispatched to.\<close>

definition dispatch_ok :: "store \<Rightarrow> bool" where
  "dispatch_ok s =
     (\<forall>d \<in> set (st_dispatches s). \<forall>g \<in> set (st_messages s).
        mg_id g = sd_message d \<longrightarrow> mg_room g = sd_room d
        \<longrightarrow> sd_role d \<in> set (filter_map dispatch_from_part (mg_parts g)))"

lemma insert_dispatches_set:
  "set (insert_dispatches room mid seq parts rows) \<subseteq> set rows \<union>
     {\<lparr>sd_room = room, sd_message = mid, sd_role = r, sd_seq = seq\<rparr> | r. r \<in> set (filter_map dispatch_from_part parts)}"
proof -
  have "set (foldl (\<lambda>rs role. insert_or_ignore (\<lambda>d. (sd_room d, sd_message d, sd_role d))
          \<lparr>sd_room = room, sd_message = mid, sd_role = role, sd_seq = seq\<rparr> rs) rows roles)
      \<subseteq> set rows \<union> {\<lparr>sd_room = room, sd_message = mid, sd_role = r, sd_seq = seq\<rparr> | r. r \<in> set roles}" for roles
    by (induction roles arbitrary: rows)
      (simp, fastforce simp: set_insert_or_ignore split: if_splits)
  then show ?thesis by (simp add: insert_dispatches_def)
qed

lemma append_dispatch_ok:
  assumes "dispatch_ok s" "mid \<notin> sd_message ` set (st_dispatches s)"
  shows "dispatch_ok (snd (append_message mid room from parts men rep cid ts s))"
proof (cases "find (client_conflict room (ep_id from) cid) (st_messages s) = None
      \<and> (\<forall>g \<in> set (st_messages s). mg_id g \<noteq> mid)")
  case True
  then have a: "find (client_conflict room (ep_id from) cid) (st_messages s) = None"
    "\<forall>g \<in> set (st_messages s). mg_id g \<noteq> mid" by auto
  have new: "d \<in> set (st_dispatches s) \<or> (sd_message d = mid \<and> sd_role d \<in> set (filter_map dispatch_from_part parts))"
    if "d \<in> set (insert_dispatches room mid (st_next_seq s) parts (st_dispatches s))" for d
    using insert_dispatches_set [of room mid "st_next_seq s" parts "st_dispatches s"] that by auto
  show ?thesis
    unfolding append_new [OF a] using assms a(2) by (auto simp: dispatch_ok_def dest!: new)
next
  case False
  with assms(1) show ?thesis by (auto simp: append_message_def Let_def split: option.splits)
qed

lemma find_unique:
  assumes "distinct (map f xs)" "g \<in> set xs" "P g" "\<And>x. P x \<Longrightarrow> f x = f g"
  shows "find P xs = Some g"
proof -
  obtain h where h: "find P xs = Some h" using assms(2,3) by (metis find_None_iff not_Some_eq)
  then have "h \<in> set xs" "f h = f g" using assms(4) by (auto simp: find_Some_iff)
  with assms(1,2) have "h = g" by (auto simp: distinct_map inj_on_def)
  with h show ?thesis by simp
qed

lemma queue_entry:
  assumes "m \<in> set (queued_service_messages room worker role limit now s)"
  obtains served d g where "served_role room worker s = Some served" "eq_ignore_ascii_case served role"
    "available_worker worker now s" "d \<in> set (st_dispatches s)" "open_dispatch room role now s d"
    "g \<in> set (st_messages s)" "mg_id g = sd_message d" "mg_room g = sd_room d" "m = to_stored g"
proof -
  obtain served where sv: "served_role room worker s = Some served" "eq_ignore_ascii_case served role"
    "available_worker worker now s"
    and "m \<in> set (map to_stored (take (queue_limit limit)
      (filter_map (\<lambda>d. find (\<lambda>g. mg_id g = sd_message d \<and> mg_room g = sd_room d) (st_messages s))
        (sort_key sd_seq (filter (open_dispatch room role now s) (st_dispatches s))))))"
    using assms by (cases "served_role room worker s") (auto simp: queued_service_messages_def split: if_splits)
  then obtain d g where "d \<in> set (st_dispatches s)" "open_dispatch room role now s d" "m = to_stored g"
    "find (\<lambda>g. mg_id g = sd_message d \<and> mg_room g = sd_room d) (st_messages s) = Some g"
    by (auto simp: set_filter_map dest!: in_set_takeD)
  with find_SomeD [OF this(4)] sv that show ?thesis by blast
qed

lemma listed_claimable:
  assumes "log_ok s" "dispatch_ok s" "m \<in> set (queued_service_messages room worker role limit now s)"
  shows "sm_room m = room \<and> (\<exists>u. fst (claim_service_message room (sm_id m) worker lease now s) = Some u)"
  using assms(3)
proof (cases rule: queue_entry)
  case (1 served d g)
  have room: "sd_room d = room" and role: "to_ascii_lowercase (sd_role d) = to_ascii_lowercase role"
    using 1 by (auto simp: open_dispatch_def)
  have "find (\<lambda>g. mg_room g = room \<and> mg_id g = sd_message d) (st_messages s) = Some g"
    by (rule find_unique [of mg_id]) (use assms(1) 1 room in \<open>auto simp: log_ok_def\<close>)
  moreover have "sd_role d \<in> set (filter_map dispatch_from_part (mg_parts g))"
    using assms(2) 1 by (auto simp: dispatch_ok_def)
  ultimately have "dispatched_to room (sd_message d) served s"
    using 1 role by (auto simp: dispatched_to_def eq_ignore_ascii_case_def)
  with 1 room show ?thesis
    by (auto simp: claim_service_message_def open_dispatch_def to_stored_def claimable_row_def Let_def
        split: option.splits)
qed

section \<open>Properties\<close>

definition demo_queue :: store where
  "demo_queue =
     snd (append_message ''m1'' ''svc'' demo_ep [Text ''job'', dispatch_to_part ''Dev''] None None None 10
       (touch_presence ''w2'' ''idle'' None None 5 (serve_role ''svc'' ''w2'' ''dev'' 5
         (touch_presence ''w1'' ''idle'' None None 5 (serve_role ''svc'' ''w1'' ''dev'' 5
           (ensure_room ''svc'' Service None 0 empty_store))))))"



text \<open>C37: A dispatched message is settled once. In every run of the queue, after the first successful
  completion of a message no claim and no completion of that message ever succeeds again, for any
  worker and at any time; in particular there is at most one completion.\<close>

theorem completion_is_final:
  assumes "claims_ok s" "run_queue qs s = (xs @ Completed room msg w t # ys, s')" "e \<in> set ys"
  shows "event_msg e \<noteq> (room, msg)"
  using completed_last [OF assms(1,2)] assms(3) by blast

theorem completion_is_final_witness:
  "last (fst (run_queue [QClaim ''svc'' ''m1'' ''w1'' 60 10, QComplete ''svc'' ''m1'' ''w1'' Done 13,
       QClaim ''svc'' ''m1'' ''w2'' 60 90000,
       QAppend ''m2'' ''svc'' demo_ep [dispatch_to_part ''dev''] None None None 20,
       QClaim ''svc'' ''m2'' ''w2'' 60 30] demo_queue)) = Claimed ''svc'' ''m2'' ''w2'' 30 60030
   \<and> event_msg (Claimed ''svc'' ''m2'' ''w2'' 30 60030) \<noteq> (''svc'', ''m1'')"
proof -
  let ?qs = "[QClaim ''svc'' ''m1'' ''w1'' 60 10, QComplete ''svc'' ''m1'' ''w1'' Done 13,
     QClaim ''svc'' ''m1'' ''w2'' 60 90000,
     QAppend ''m2'' ''svc'' demo_ep [dispatch_to_part ''dev''] None None None 20,
     QClaim ''svc'' ''m2'' ''w2'' 60 30]"
  have a: "claims_ok demo_queue" by code_simp
  have c: "fst (run_queue ?qs demo_queue) = [Claimed ''svc'' ''m1'' ''w1'' 10 60010] @
     Completed ''svc'' ''m1'' ''w1'' 13 # [Claimed ''svc'' ''m2'' ''w2'' 30 60030]" by code_simp
  then have b: "run_queue ?qs demo_queue = ([Claimed ''svc'' ''m1'' ''w1'' 10 60010] @
     Completed ''svc'' ''m1'' ''w1'' 13 # [Claimed ''svc'' ''m2'' ''w2'' 30 60030], snd (run_queue ?qs demo_queue))"
    by (metis prod.collapse)
  show ?thesis unfolding c by (rule conjI, simp, rule completion_is_final [OF a b], simp)
qed

text \<open>The queue never offers work that cannot be taken. Every message in a worker's queue listing
  belongs to the room and can be claimed by that worker at that moment.\<close>

theorem queue_offers_claimable:
  assumes "log_ok s" "dispatch_ok s" "m \<in> set (queued_service_messages room worker role limit now s)"
  shows "sm_room m = room \<and> (\<exists>u. fst (claim_service_message room (sm_id m) worker lease now s) = Some u)"
  using assms by (rule listed_claimable)

theorem queue_offers_claimable_witness:
  "\<exists>m u. m \<in> set (queued_service_messages ''svc'' ''w1'' ''dev'' None 20 demo_queue)
     \<and> fst (claim_service_message ''svc'' (sm_id m) ''w1'' 60 20 demo_queue) = Some u"
proof -
  have a: "log_ok demo_queue" "dispatch_ok demo_queue" by code_simp+
  have "queued_service_messages ''svc'' ''w1'' ''dev'' None 20 demo_queue \<noteq> []" by code_simp
  then obtain m where m: "m \<in> set (queued_service_messages ''svc'' ''w1'' ''dev'' None 20 demo_queue)"
    by (cases "queued_service_messages ''svc'' ''w1'' ''dev'' None 20 demo_queue") auto
  from queue_offers_claimable [OF a m] show ?thesis using m by blast
qed

end
