(* ===== verification/Store_Access.thy ===== *)
theory Store_Access
  imports Store_Queue
begin

text \<open>
  The access-control half of the store (\<open>store.rs\<close>): invites and approval-gated joins, the signed
  directory and its search, directory and watch tokens, the waitlist, blob metadata and its
  garbage collection, room deletion and the sweep of expired rows.
  The lemmas show that an invite admits at most as many agents as it has uses, that an
  approval-gated room is entered only through its owner's consent, that a denial is terminal for
  the requester, that the two kinds of token never stand in for each other, that public discovery
  leaks no private card, and that deletion and garbage collection remove exactly what they should.
\<close>

section \<open>Invites and joins\<close>

definition create_invite ::
  "string \<Rightarrow> string \<Rightarrow> room_kind \<Rightarrow> string option \<Rightarrow> nat \<Rightarrow> ms \<Rightarrow> string \<Rightarrow> bool \<Rightarrow> ms \<Rightarrow> store
    \<Rightarrow> (hub_error + unit) \<times> store" where
  "create_invite code room kind role max_uses expires created_by require_approval now s =
     (if code \<in> iv_code ` set (st_invites s) then (Inl (Uncoded ''UNIQUE invites.code''), s)
      else (Inr (),
        s\<lparr>st_invites := st_invites s @
            [\<lparr>iv_code = code, iv_room = room, iv_kind = room_kind_as_str kind, iv_role = role,
              iv_max_uses = max_uses, iv_uses = 0, iv_expires = expires, iv_created_by = created_by,
              iv_require_approval = require_approval, iv_created = now\<rparr>]\<rparr>))"

record redeemed =
  rd_room :: string
  rd_kind :: room_kind
  rd_pending :: bool

abbreviation join_key_of :: "join_row \<Rightarrow> string \<times> string" where
  "join_key_of j \<equiv> (jr_room j, jr_agent j)"

definition join_status :: "string \<Rightarrow> string \<Rightarrow> store \<Rightarrow> string option" where
  "join_status room agent s = map_option jr_status (lookup_key join_key_of (room, agent) (st_join_requests s))"

definition charge_use :: "string \<Rightarrow> store \<Rightarrow> store" where
  "charge_use code s =
     s\<lparr>st_invites := update_where (\<lambda>i. iv_code i = code) (\<lambda>i. i\<lparr>iv_uses := iv_uses i + 1\<rparr>) (st_invites s)\<rparr>"

text \<open>
  The \<open>INSERT\<close> of a join request follows the charged use; a row with any other status would make
  it fail after the charge.
\<close>

definition redeem_invite :: "string \<Rightarrow> string \<Rightarrow> ms \<Rightarrow> store \<Rightarrow> (hub_error + redeemed) \<times> store" where
  "redeem_invite code agent now s =
     (case lookup_key iv_code code (st_invites s) of
        None \<Rightarrow> (Inl (Uncoded ''invalid or unknown invite code''), s)
      | Some i \<Rightarrow>
          let room = iv_room i; kind = opt_or (room_kind_parse (iv_kind i)) Channel;
              done = (\<lambda>p. Inr \<lparr>rd_room = room, rd_kind = kind, rd_pending = p\<rparr>)
          in if is_member room agent s then (done False, s)
             else if iv_expires i < now then (Inl (Uncoded ''this code has expired''), s)
             else if iv_require_approval i then
               (case join_status room agent s of
                  Some st \<Rightarrow>
                    if st = ''pending'' then (done True, s)
                    else if st = ''denied'' then (Inl (Uncoded ''your request to join was denied by the host''), s)
                    else if iv_max_uses i \<le> iv_uses i then (Inl (Uncoded ''invite has already been used up''), s)
                    else (Inl (Uncoded ''UNIQUE join_requests''), charge_use code s)
                | None \<Rightarrow>
                    if iv_max_uses i \<le> iv_uses i then (Inl (Uncoded ''invite has already been used up''), s)
                    else (done True,
                          (charge_use code s)\<lparr>st_join_requests := st_join_requests s @
                             [\<lparr>jr_room = room, jr_agent = agent, jr_status = ''pending'', jr_requested = now\<rparr>]\<rparr>))
             else if iv_max_uses i \<le> iv_uses i then (Inl (Uncoded ''invite has already been used up''), s)
             else (done False, add_member room agent now (charge_use code s)))"

record join_request =
  jq_agent :: string
  jq_name :: string
  jq_role :: "string option"
  jq_requested_at :: ms

definition pending_join_requests :: "string \<Rightarrow> string \<Rightarrow> store \<Rightarrow> hub_error + join_request list" where
  "pending_join_requests room owner s =
     (if \<not> room_owned_by room owner s
      then Inl (Uncoded ''only the session owner can view join requests'')
      else Inr (map (\<lambda>j. let a = find (\<lambda>a. ag_id a = jr_agent j) (st_agents s)
                         in \<lparr>jq_agent = jr_agent j, jq_name = (case a of None \<Rightarrow> [] | Some r \<Rightarrow> ag_name r),
                             jq_role = Option.bind a ag_role, jq_requested_at = jr_requested j\<rparr>)
                 (sort_key jr_requested
                   (filter (\<lambda>j. jr_room j = room \<and> jr_status j = ''pending'') (st_join_requests s)))))"

definition resolve_join :: "string \<Rightarrow> string \<Rightarrow> string \<Rightarrow> bool \<Rightarrow> ms \<Rightarrow> store \<Rightarrow> (hub_error + bool) \<times> store" where
  "resolve_join room owner agent approve now s =
     (let hit = (\<lambda>j. jr_room j = room \<and> jr_agent j = agent)
      in if \<not> room_owned_by room owner s
         then (Inl (Uncoded ''only the session owner can approve or deny join requests''), s)
         else if length (filter hit (st_join_requests s)) = 0
         then (Inl (Uncoded ''no pending join request''), s)
         else if approve
         then (Inr approve,
               add_member room agent now (s\<lparr>st_join_requests := delete_where hit (st_join_requests s)\<rparr>))
         else (Inr approve,
               s\<lparr>st_join_requests := update_where hit (\<lambda>j. j\<lparr>jr_status := ''denied''\<rparr>) (st_join_requests s)\<rparr>))"

section \<open>The directory\<close>

text \<open>\<open>lower\<close> is \<open>str::to_lowercase\<close>.\<close>

definition card_filter_blobs :: "(string \<Rightarrow> string) \<Rightarrow> agent_card \<Rightarrow> string \<times> string" where
  "card_filter_blobs lower c =
     (let close = (\<lambda>b. if b = [] then b else b @ '' '');
          tags = (case ac_tags c of None \<Rightarrow> [] | Some ts \<Rightarrow> close (concat (map (\<lambda>t. '' '' @ lower t) ts)));
          skills = (case ac_skills c of None \<Rightarrow> []
            | Some sk \<Rightarrow> close (concat (map (\<lambda>x. '' '' @ lower (sk_id x) @ '' '' @ lower (sk_name x)) sk)))
      in (tags, skills))"

definition register_card ::
  "(string \<Rightarrow> string) \<Rightarrow> agent_card \<Rightarrow> string option \<Rightarrow> bool \<Rightarrow> visibility \<Rightarrow> ms \<Rightarrow> store \<Rightarrow> store" where
  "register_card lower c sig verified visibility now s =
     (let (tags, skills) = card_filter_blobs lower c
      in s\<lparr>st_directory := upsert dr_agent (\<lambda>old new. new\<lparr>dr_agent := dr_agent old, dr_registered := dr_registered old\<rparr>)
             \<lparr>dr_agent = ac_id c, dr_visibility = visibility_as_str visibility, dr_card = c, dr_sig = sig,
              dr_verified = verified, dr_tags = tags, dr_skills = skills, dr_registered = now,
              dr_updated = now\<rparr> (st_directory s)\<rparr>)"

text \<open>SQLite's \<open>LIKE\<close> on scalar values: \<open>%\<close>, \<open>_\<close> and letters up to ASCII case.\<close>

fun like_chars :: "string list \<Rightarrow> string list \<Rightarrow> bool" where
  "like_chars [] t = (t = [])"
| "like_chars (p # ps) [] = (p = ''%'' \<and> like_chars ps [])"
| "like_chars (p # ps) (c # cs) =
     (if p = ''%'' then like_chars ps (c # cs) \<or> like_chars (p # ps) cs
      else (p = ''_'' \<or> eq_ignore_ascii_case p c) \<and> like_chars ps cs)"

definition sql_like :: "string \<Rightarrow> string \<Rightarrow> bool" where
  "sql_like text pattern = like_chars (utf8_chars pattern) (utf8_chars text)"

record directory_entry =
  de_card :: agent_card
  de_visibility :: visibility
  de_status :: string
  de_activity :: "string option"
  de_attention :: "attention option"
  de_hub :: string
  de_verified :: bool
  de_sig :: "string option"
  de_first_seen :: ms
  de_last_seen :: ms

definition to_entry :: "string \<Rightarrow> ms \<Rightarrow> directory_row \<times> agent_row \<times> presence_row option \<Rightarrow> directory_entry" where
  "to_entry hub now raw =
     (case raw of (d, a, p) \<Rightarrow>
        let fresh = fresh_presence p now
        in \<lparr>de_card = dr_card d, de_visibility = opt_or (visibility_parse (dr_visibility d)) Private,
            de_status = (case p of Some r \<Rightarrow> if fresh then pr_status r else ''offline'' | None \<Rightarrow> ''offline''),
            de_activity = Option.bind p pr_activity,
            de_attention = (if fresh then Option.bind (Option.bind p pr_attention) attention_parse else None),
            de_hub = hub, de_verified = dr_verified d, de_sig = dr_sig d,
            de_first_seen = ag_first_seen a, de_last_seen = ag_last_seen a\<rparr>)"

definition directory_join :: "store \<Rightarrow> (directory_row \<times> agent_row \<times> presence_row option) list" where
  "directory_join s =
     filter_map (\<lambda>d. map_option (\<lambda>a. (d, a, presence_of (dr_agent d) s))
                       (find (\<lambda>a. ag_id a = dr_agent d) (st_agents s)))
       (st_directory s)"

definition opt_like :: "string \<Rightarrow> string option \<Rightarrow> bool" where
  "opt_like text pat = (case pat of None \<Rightarrow> True | Some q \<Rightarrow> sql_like text q)"

fun discover_loop ::
  "(string \<Rightarrow> string) \<Rightarrow> string option \<Rightarrow> nat \<Rightarrow> directory_entry list \<Rightarrow> directory_entry list \<Rightarrow> directory_entry list" where
  "discover_loop lower want lim out [] = out"
| "discover_loop lower want lim out (e # es) =
     (if (case want of None \<Rightarrow> False | Some ws \<Rightarrow> lower (de_status e) \<noteq> ws)
      then discover_loop lower want lim out es
      else if lim \<le> length (out @ [e]) then out @ [e]
      else discover_loop lower want lim (out @ [e]) es)"

definition discover ::
  "(string \<Rightarrow> string) \<Rightarrow> discover_scope \<Rightarrow> string \<Rightarrow> string option \<Rightarrow> string option \<Rightarrow> string option
    \<Rightarrow> string option \<Rightarrow> nat option \<Rightarrow> ms \<Rightarrow> store \<Rightarrow> directory_entry list" where
  "discover lower scope hub query tag skill status limit now s =
     (let pat = map_option (\<lambda>t. ''%'' @ lower t @ ''%'');
          q = pat query; tagp = pat tag; skillp = pat skill;
          want_status = map_option lower status;
          lim = min (opt_or limit 200) 1000;
          raws = sort_key (\<lambda>(d, a, p). - ag_last_seen a)
            (filter (\<lambda>(d, a, p).
               (scope \<noteq> PublicScope \<or> dr_visibility d = ''public'')
               \<and> (q = None \<or> opt_like (to_ascii_lowercase (ag_name a)) q \<or> opt_like (dr_tags d) q
                  \<or> opt_like (dr_skills d) q)
               \<and> opt_like (dr_tags d) tagp \<and> opt_like (dr_skills d) skillp)
             (directory_join s))
      in discover_loop lower want_status lim [] (map (to_entry hub now) raws))"

definition lookup_card :: "string \<Rightarrow> string \<Rightarrow> bool \<Rightarrow> ms \<Rightarrow> store \<Rightarrow> directory_entry option" where
  "lookup_card aid hub hub_scope now s =
     (case find (\<lambda>(d, a, p). dr_agent d = aid) (directory_join s) of
        None \<Rightarrow> None
      | Some (d, a, p) \<Rightarrow>
          if hub_scope \<or> dr_visibility d = ''public'' then Some (to_entry hub now (d, a, p)) else None)"

definition directory_visibility :: "string \<Rightarrow> store \<Rightarrow> visibility option" where
  "directory_visibility agent s =
     Option.bind (lookup_key dr_agent agent (st_directory s)) (\<lambda>d. visibility_parse (dr_visibility d))"

definition directory_counts :: "store \<Rightarrow> nat \<times> nat" where
  "directory_counts s =
     (length (st_directory s), length (filter (\<lambda>d. dr_visibility d = ''public'') (st_directory s)))"

section \<open>Tokens\<close>

definition mint_directory_token ::
  "string \<Rightarrow> string \<Rightarrow> ms \<Rightarrow> string \<Rightarrow> ms \<Rightarrow> store \<Rightarrow> (hub_error + unit) \<times> store" where
  "mint_directory_token tok scope expires created_by now s =
     (if tok \<in> dt_token ` set (st_tokens s) then (Inl (Uncoded ''UNIQUE directory_tokens.token''), s)
      else (Inr (), s\<lparr>st_tokens := st_tokens s @
              [\<lparr>dt_token = tok, dt_scope = scope, dt_expires = expires, dt_created_by = created_by,
                dt_created = now\<rparr>]\<rparr>))"

definition active_token_count :: "string \<Rightarrow> ms \<Rightarrow> store \<Rightarrow> nat" where
  "active_token_count created_by now s =
     length (filter (\<lambda>t. dt_created_by t = created_by \<and> now \<le> dt_expires t) (st_tokens s))"

definition validate_directory_token :: "string \<Rightarrow> ms \<Rightarrow> store \<Rightarrow> bool" where
  "validate_directory_token tok now s =
     (case find (\<lambda>t. dt_token t = tok \<and> dt_scope t = ''hub'') (st_tokens s) of
        None \<Rightarrow> False | Some t \<Rightarrow> now \<le> dt_expires t)"

definition mint_watch_token ::
  "string \<Rightarrow> string \<Rightarrow> string \<Rightarrow> ms \<Rightarrow> ms \<Rightarrow> store \<Rightarrow> (hub_error + unit) \<times> store" where
  "mint_watch_token tok room owner expires now s =
     (if \<not> room_owned_by room owner s
      then (Inl (Uncoded ''only the session owner can mint a watch link''), s)
      else mint_directory_token tok (''watch:'' @ room) expires owner now s)"

definition validate_watch_token :: "string \<Rightarrow> ms \<Rightarrow> store \<Rightarrow> string option" where
  "validate_watch_token tok now s =
     (case find (\<lambda>t. dt_token t = tok) (st_tokens s) of
        None \<Rightarrow> None
      | Some t \<Rightarrow> if now \<le> dt_expires t then strip_prefix ''watch:'' (dt_scope t) else None)"

definition waitlist_add :: "string \<Rightarrow> ms \<Rightarrow> store \<Rightarrow> store" where
  "waitlist_add email now s = s\<lparr>st_waitlist := insert_or_ignore fst (email, now) (st_waitlist s)\<rparr>"

definition waitlist_count :: "store \<Rightarrow> nat" where
  "waitlist_count s = length (st_waitlist s)"

section \<open>Blobs\<close>

abbreviation blob_room_key :: "blob_room_row \<Rightarrow> string \<times> string" where
  "blob_room_key b \<equiv> (bb_blob b, bb_room b)"

definition put_blob_meta ::
  "string \<Rightarrow> string \<Rightarrow> string \<Rightarrow> string option \<Rightarrow> int \<Rightarrow> ms \<Rightarrow> store \<Rightarrow> store" where
  "put_blob_meta bid room author media_type sz now s =
     s\<lparr>st_blobs := insert_or_ignore bl_id
          \<lparr>bl_id = bid, bl_media_type = media_type, bl_size = sz, bl_created = now, bl_last_fetched = None\<rparr>
          (st_blobs s),
       st_blob_rooms := insert_or_ignore blob_room_key
          \<lparr>bb_blob = bid, bb_room = room, bb_author = author, bb_created = now\<rparr> (st_blob_rooms s)\<rparr>"

definition total_blob_bytes :: "store \<Rightarrow> int" where
  "total_blob_bytes s = sum_list (map bl_size (st_blobs s))"

definition blob_meta :: "string \<Rightarrow> store \<Rightarrow> blob_row option" where
  "blob_meta bid s = lookup_key bl_id bid (st_blobs s)"

definition blob_readable_by :: "string \<Rightarrow> string \<Rightarrow> store \<Rightarrow> bool" where
  "blob_readable_by bid agent s =
     (\<exists>b \<in> set (st_blob_rooms s). bb_blob b = bid \<and>
        (\<exists>m \<in> set (st_members s). mb_room m = bb_room b \<and> mb_agent m = agent))"

definition blob_in_room :: "string \<Rightarrow> string \<Rightarrow> store \<Rightarrow> bool" where
  "blob_in_room bid room s =
     (0 < length (filter (\<lambda>b. bb_blob b = bid \<and> bb_room b = room) (st_blob_rooms s)))"

definition touch_blob_fetched :: "string \<Rightarrow> ms \<Rightarrow> store \<Rightarrow> store" where
  "touch_blob_fetched bid now s =
     s\<lparr>st_blobs := update_where (\<lambda>b. bl_id b = bid) (\<lambda>b. b\<lparr>bl_last_fetched := Some now\<rparr>) (st_blobs s)\<rparr>"

definition blob_idle :: "ms \<Rightarrow> blob_row \<Rightarrow> bool" where
  "blob_idle cutoff b = (opt_or (bl_last_fetched b) (bl_created b) < cutoff)"

definition gc_blobs :: "int \<Rightarrow> ms \<Rightarrow> store \<Rightarrow> string list \<times> store" where
  "gc_blobs ttl_ms now s =
     (let cutoff = now - ttl_ms; ids = map bl_id (filter (blob_idle cutoff) (st_blobs s))
      in if ids = [] then (ids, s)
         else (ids, s\<lparr>st_blob_rooms := delete_where (\<lambda>b. bb_blob b \<in> set ids) (st_blob_rooms s),
                      st_blobs := delete_where (blob_idle cutoff) (st_blobs s)\<rparr>))"

section \<open>Deletion and expiry\<close>

definition delete_room :: "string \<Rightarrow> string \<Rightarrow> store \<Rightarrow> (hub_error + unit) \<times> store" where
  "delete_room room owner s =
     (if \<not> room_owned_by room owner s then (Inl (Uncoded ''only the room owner can delete''), s)
      else (Inr (),
        s\<lparr>st_join_requests := delete_where (\<lambda>j. jr_room j = room) (st_join_requests s),
          st_invites := delete_where (\<lambda>i. iv_room i = room) (st_invites s),
          st_tokens := delete_where (\<lambda>t. dt_scope t = ''watch:'' @ room) (st_tokens s),
          st_blob_rooms := delete_where (\<lambda>b. bb_room b = room) (st_blob_rooms s),
          st_facts := delete_where (\<lambda>f. fa_room f = Some room) (st_facts s),
          st_messages := delete_where (\<lambda>g. mg_room g = room) (st_messages s),
          st_members := delete_where (\<lambda>m. mb_room m = room) (st_members s),
          st_rooms := delete_where (\<lambda>r. rm_name r = room) (st_rooms s)\<rparr>))"

definition sweep_expired :: "ms \<Rightarrow> store \<Rightarrow> nat \<times> store" where
  "sweep_expired now s =
     (length (filter (\<lambda>i. iv_expires i < now) (st_invites s))
        + length (filter (\<lambda>t. dt_expires t < now) (st_tokens s)),
      s\<lparr>st_invites := delete_where (\<lambda>i. iv_expires i < now) (st_invites s),
        st_tokens := delete_where (\<lambda>t. dt_expires t < now) (st_tokens s)\<rparr>)"

section \<open>Joining\<close>

text \<open>What the members of the hub may do to the access rules of a room, in any order.\<close>

datatype access_op =
    ARedeem string string ms
  | AResolve string string string bool ms
  | ACreate string string room_kind "string option" nat ms string bool ms

fun access_step :: "access_op \<Rightarrow> store \<Rightarrow> store" where
  "access_step (ARedeem code agent t) s = snd (redeem_invite code agent t s)"
| "access_step (AResolve room owner agent approve t) s = snd (resolve_join room owner agent approve t s)"
| "access_step (ACreate code room kind role max_uses expires by req t) s =
     snd (create_invite code room kind role max_uses expires by req t s)"

definition run_access :: "access_op list \<Rightarrow> store \<Rightarrow> store" where
  "run_access ops s = foldl (\<lambda>s q. access_step q s) s ops"

definition gated :: "string \<Rightarrow> store \<Rightarrow> bool" where
  "gated room s = (\<forall>i \<in> set (st_invites s). iv_room i = room \<longrightarrow> iv_require_approval i)"

fun keeps_gate :: "string \<Rightarrow> access_op \<Rightarrow> bool" where
  "keeps_gate room (ACreate _ r _ _ _ _ _ req _) = (r = room \<longrightarrow> req)"
| "keeps_gate room _ = True"

fun consents :: "string \<Rightarrow> string \<Rightarrow> store \<Rightarrow> access_op \<Rightarrow> bool" where
  "consents room agent s (AResolve r owner a approve _) =
     (r = room \<and> a = agent \<and> approve \<and> room_owned_by room owner s)"
| "consents room agent s _ = False"

lemma add_member_frame [simp]:
  "st_rooms (add_member room agent t s) = st_rooms s"
  "st_invites (add_member room agent t s) = st_invites s"
  "st_join_requests (add_member room agent t s) = st_join_requests s"
  by (simp_all add: add_member_def)

lemma is_member_add:
  "is_member r a (add_member room agent t s) \<longleftrightarrow> (r = room \<and> a = agent) \<or> is_member r a s"
  by (auto simp: is_member_iff add_member_def set_insert_or_ignore)

lemma charge_use_frame [simp]:
  "st_rooms (charge_use code s) = st_rooms s"
  "st_members (charge_use code s) = st_members s"
  "st_join_requests (charge_use code s) = st_join_requests s"
  by (simp_all add: charge_use_def)

lemma is_member_charge [simp]: "is_member r a (charge_use code s) = is_member r a s"
  by (simp add: is_member_def)

lemma is_member_requests [simp]: "is_member r a (s\<lparr>st_join_requests := js\<rparr>) = is_member r a s"
  by (simp add: is_member_def)

lemma is_member_cong: "st_members s = st_members s' \<Longrightarrow> is_member r a s = is_member r a s'"
  by (simp add: is_member_iff)

lemma join_status_cong: "st_join_requests s = st_join_requests s' \<Longrightarrow> join_status r a s = join_status r a s'"
  by (simp add: join_status_def)

text \<open>A redeem either leaves the store alone, or charges one use and then queues or admits the agent.\<close>

lemma redeem_cases:
  obtains (same) "snd (redeem_invite code agent t s) = s"
      "\<And>r. fst (redeem_invite code agent t s) = Inr r
        \<Longrightarrow> is_member (rd_room r) agent s \<or> join_status (rd_room r) agent s \<noteq> None"
  | (burned) e where "redeem_invite code agent t s = (Inl e, charge_use code s)"
  | (queued) i r where "lookup_key iv_code code (st_invites s) = Some i" "iv_uses i < iv_max_uses i"
      "redeem_invite code agent t s = (Inr r, (charge_use code s)\<lparr>st_join_requests := st_join_requests s @
         [\<lparr>jr_room = iv_room i, jr_agent = agent, jr_status = ''pending'', jr_requested = t\<rparr>]\<rparr>)"
      "iv_require_approval i" "join_status (iv_room i) agent s = None" "rd_room r = iv_room i"
  | (joined) i r where "lookup_key iv_code code (st_invites s) = Some i" "iv_uses i < iv_max_uses i"
      "redeem_invite code agent t s = (Inr r, add_member (iv_room i) agent t (charge_use code s))"
      "\<not> iv_require_approval i" "rd_room r = iv_room i"
proof (cases "lookup_key iv_code code (st_invites s)")
  case None
  then show ?thesis by (intro same) (simp_all add: redeem_invite_def)
next
  case (Some i)
  show ?thesis
  proof (cases "is_member (iv_room i) agent s \<or> iv_expires i < t \<or> iv_max_uses i \<le> iv_uses i")
    case True
    then show ?thesis using Some
      by (intro same) (auto simp: redeem_invite_def Let_def split: option.splits if_splits)
  next
    case live: False
    show ?thesis
    proof (cases "iv_require_approval i")
      case True
      show ?thesis
      proof (cases "join_status (iv_room i) agent s")
        case None
        with Some live True show ?thesis by (intro queued) (auto simp: redeem_invite_def Let_def)
      next
        case (Some st)
        show ?thesis
        proof (cases "st = ''pending'' \<or> st = ''denied''")
          case True
          with Some live \<open>iv_require_approval i\<close> \<open>lookup_key iv_code code (st_invites s) = Some i\<close>
          show ?thesis by (intro same) (auto simp: redeem_invite_def Let_def)
        next
          case False
          with Some live \<open>iv_require_approval i\<close> \<open>lookup_key iv_code code (st_invites s) = Some i\<close>
          show ?thesis by (intro burned) (auto simp: redeem_invite_def Let_def)
        qed
      qed
    next
      case False
      with Some live show ?thesis by (intro joined) (auto simp: redeem_invite_def Let_def)
    qed
  qed
qed

lemma charge_use_gated: "gated room s \<Longrightarrow> gated room (charge_use code s)"
  by (auto simp: gated_def charge_use_def set_update_where split: if_splits)

lemma gated_cong: "st_invites s = st_invites s' \<Longrightarrow> gated room s = gated room s'"
  by (simp add: gated_def)

lemma gated_redeem: "gated room s \<Longrightarrow> gated room (snd (redeem_invite code agent t s))"
  by (cases rule: redeem_cases [of code agent t s])
    (use charge_use_gated [of room s code] in \<open>auto simp: gated_def\<close>)

lemma resolve_frame:
  "st_invites (snd (resolve_join room owner agent approve t s)) = st_invites s"
  "st_rooms (snd (resolve_join room owner agent approve t s)) = st_rooms s"
  by (auto simp: resolve_join_def Let_def)

lemma create_invite_frame:
  "st_rooms (snd (create_invite code room kind role m x by req t s)) = st_rooms s"
  "st_members (snd (create_invite code room kind role m x by req t s)) = st_members s"
  "st_join_requests (snd (create_invite code room kind role m x by req t s)) = st_join_requests s"
  by (auto simp: create_invite_def)

lemma access_step_gated:
  assumes "gated room s" "keeps_gate room q"
  shows "gated room (access_step q s)"
proof (cases q)
  case (AResolve r w a ap t)
  with assms show ?thesis by (simp add: gated_def resolve_frame)
qed (use assms in \<open>auto simp: gated_redeem\<close>, auto simp: gated_def create_invite_def)

lemma access_step_rooms: "st_rooms (access_step q s) = st_rooms s"
proof (cases q)
  case (ARedeem code agent t)
  then show ?thesis by (cases rule: redeem_cases [of code agent t s]) auto
qed (auto simp: resolve_frame create_invite_frame)

lemma access_step_member:
  assumes "gated room s" "is_member room agent (access_step q s)" "\<not> is_member room agent s"
  shows "consents room agent s q"
proof (cases q)
  case (ARedeem code a t)
  then show ?thesis
  proof (cases rule: redeem_cases [of code a t s])
    case (joined i r)
    then have "iv_room i \<noteq> room"
      using assms(1) lookup_key_in [OF joined(1)] by (auto simp: gated_def)
    with joined ARedeem assms(2,3) show ?thesis by (simp add: is_member_add)
  qed (use assms ARedeem in \<open>auto simp: is_member_iff\<close>)
next
  case (AResolve r w a ap t)
  with assms(2,3) show ?thesis
    by (auto simp: resolve_join_def Let_def is_member_add split: if_splits)
next
  case (ACreate c r k ro m x b req t)
  with assms(2,3) show ?thesis by (auto simp: is_member_iff create_invite_frame)
qed

lemma consents_rooms: "st_rooms s' = st_rooms s \<Longrightarrow> consents room agent s' q = consents room agent s q"
  by (cases q) (auto simp: room_owned_by_def)

lemma gate_run:
  assumes "gated room s" "\<forall>q \<in> set ops. keeps_gate room q" "\<not> is_member room agent s"
    and "is_member room agent (run_access ops s)"
  shows "\<exists>q \<in> set ops. consents room agent s q"
  using assms
proof (induction ops arbitrary: s)
  case (Cons q ops)
  show ?case
  proof (cases "is_member room agent (access_step q s)")
    case True
    with access_step_member [OF Cons.prems(1) _ Cons.prems(3)] show ?thesis by auto
  next
    case False
    with Cons access_step_gated [OF Cons.prems(1), of q]
    have "\<exists>q' \<in> set ops. consents room agent (access_step q s) q'" by (simp add: run_access_def)
    then show ?thesis using consents_rooms [OF access_step_rooms] by auto
  qed
qed (simp add: run_access_def)

text \<open>A denial lasts until the owner admits the agent.\<close>

lemma lookup_delete_other:
  "(\<And>r. key r = k \<Longrightarrow> \<not> p r) \<Longrightarrow> lookup_key key k (delete_where p rows) = lookup_key key k rows"
  by (induction rows) (auto simp: delete_where_def lookup_key_Cons)

lemma lookup_snoc_present:
  "lookup_key key k rows = Some r \<Longrightarrow> lookup_key key k (rows @ [x]) = Some r"
  by (simp add: lookup_key_append)

lemma join_status_delete:
  assumes "(r, a) \<noteq> (room, agent)"
  shows "join_status room agent (add_member r' a' t
      (s\<lparr>st_join_requests := delete_where (\<lambda>j. jr_room j = r \<and> jr_agent j = a) (st_join_requests s)\<rparr>))
    = join_status room agent s"
proof -
  have "lookup_key join_key_of (room, agent) (delete_where (\<lambda>j. jr_room j = r \<and> jr_agent j = a) (st_join_requests s))
      = lookup_key join_key_of (room, agent) (st_join_requests s)"
    by (rule lookup_delete_other) (use assms in auto)
  then show ?thesis by (simp add: join_status_def)
qed

lemma join_status_deny:
  assumes "join_status room agent s = Some ''denied''"
  shows "join_status room agent (s\<lparr>st_join_requests := update_where p (\<lambda>j. j\<lparr>jr_status := ''denied''\<rparr>) (st_join_requests s)\<rparr>)
    = Some ''denied''"
proof -
  let ?f = "\<lambda>j. if p j then j\<lparr>jr_status := ''denied''\<rparr> else j"
  have "lookup_key join_key_of (room, agent) (map ?f (st_join_requests s))
      = map_option ?f (lookup_key join_key_of (room, agent) (st_join_requests s))"
    by (rule lookup_key_map_keep) simp
  moreover obtain z where "lookup_key join_key_of (room, agent) (st_join_requests s) = Some z" "jr_status z = ''denied''"
    using assms by (auto simp: join_status_def)
  ultimately show ?thesis by (simp add: join_status_def update_where_def)
qed

lemma denied_step:
  assumes "join_status room agent s = Some ''denied''" "\<not> consents room agent s q"
  shows "join_status room agent (access_step q s) = Some ''denied''"
proof (cases q)
  case (ARedeem code a t)
  then show ?thesis
  proof (cases rule: redeem_cases [of code a t s])
    case (queued i r)
    with ARedeem assms(1) show ?thesis by (auto simp: join_status_def lookup_snoc_present)
  qed (use assms ARedeem in \<open>auto simp: join_status_def\<close>)
next
  case (AResolve r w a ap t)
  show ?thesis
  proof (cases "ap \<and> (r, a) = (room, agent)")
    case True
    with assms AResolve show ?thesis by (auto simp: resolve_join_def)
  next
    case False
    with assms(1) AResolve show ?thesis
      by (auto simp: resolve_join_def Let_def join_status_deny join_status_delete)
  qed
next
  case (ACreate c r k ro m x b req t)
  with assms(1) show ?thesis by (simp add: join_status_def create_invite_frame)
qed

lemma denied_run:
  assumes "join_status room agent s = Some ''denied''" "\<forall>q \<in> set ops. \<not> consents room agent s q"
  shows "join_status room agent (run_access ops s) = Some ''denied''"
  using assms
proof (induction ops arbitrary: s)
  case (Cons q ops)
  have "\<not> consents room agent (access_step q s) q'" if "q' \<in> set ops" for q'
    using that Cons.prems(2) consents_rooms [OF access_step_rooms] by auto
  with Cons denied_step [OF Cons.prems(1), of q] show ?case by (simp add: run_access_def)
qed (simp add: run_access_def)

lemma redeem_denied:
  assumes "join_status room agent s = Some ''denied''" "gated room s" "\<not> is_member room agent s"
    and "lookup_key iv_code code (st_invites s) = Some i" "iv_room i = room"
  shows "\<exists>e. redeem_invite code agent t s = (Inl e, s)"
  using assms lookup_key_in [OF assms(4)] by (auto simp: redeem_invite_def gated_def Let_def)

section \<open>The capacity of an invite\<close>

definition admits :: "string \<Rightarrow> access_op \<Rightarrow> store \<Rightarrow> bool" where
  "admits code q s =
     (case q of
        ARedeem c a t \<Rightarrow>
          c = code \<and> (case fst (redeem_invite c a t s) of Inl _ \<Rightarrow> False
            | Inr r \<Rightarrow> \<not> is_member (rd_room r) a s \<and> join_status (rd_room r) a s = None)
      | _ \<Rightarrow> False)"

fun admissions :: "string \<Rightarrow> access_op list \<Rightarrow> store \<Rightarrow> nat" where
  "admissions code [] s = 0"
| "admissions code (q # qs) s = (if admits code q s then 1 else 0) + admissions code qs (access_step q s)"

definition uses_left :: "string \<Rightarrow> store \<Rightarrow> nat" where
  "uses_left code s =
     (case lookup_key iv_code code (st_invites s) of None \<Rightarrow> 0 | Some i \<Rightarrow> iv_max_uses i - iv_uses i)"

lemma lookup_charge:
  "lookup_key iv_code code (st_invites (charge_use c s)) =
     map_option (\<lambda>i. if c = code then i\<lparr>iv_uses := iv_uses i + 1\<rparr> else i) (lookup_key iv_code code (st_invites s))"
proof -
  let ?f = "\<lambda>i. if iv_code i = c then i\<lparr>iv_uses := iv_uses i + 1\<rparr> else i"
  have "lookup_key iv_code code (map ?f (st_invites s)) = map_option ?f (lookup_key iv_code code (st_invites s))"
    by (rule lookup_key_map_keep) simp
  moreover have "st_invites (charge_use c s) = map ?f (st_invites s)" by (simp add: charge_use_def update_where_def)
  moreover have "map_option ?f (lookup_key iv_code code (st_invites s)) =
      map_option (\<lambda>i. if c = code then i\<lparr>iv_uses := iv_uses i + 1\<rparr> else i) (lookup_key iv_code code (st_invites s))"
    by (cases "lookup_key iv_code code (st_invites s)") (auto dest: lookup_key_in)
  ultimately show ?thesis by (simp only:)
qed

lemma uses_left_charge:
  "uses_left code (charge_use c s) = (if c = code then uses_left code s - 1 else uses_left code s)"
  by (cases "lookup_key iv_code code (st_invites s)") (simp_all add: uses_left_def lookup_charge)

lemma uses_left_cong: "st_invites s = st_invites s' \<Longrightarrow> uses_left code s = uses_left code s'"
  by (simp add: uses_left_def)

lemma uses_left_frame [simp]:
  "uses_left code (add_member r a t s) = uses_left code s"
  "uses_left code (s\<lparr>st_join_requests := js\<rparr>) = uses_left code s"
  by (simp_all add: uses_left_def)

lemma step_charges:
  assumes "lookup_key iv_code code (st_invites s) \<noteq> None"
  shows "uses_left code (access_step q s) + (if admits code q s then 1 else 0) \<le> uses_left code s"
    and "lookup_key iv_code code (st_invites (access_step q s)) \<noteq> None"
proof -
  show "uses_left code (access_step q s) + (if admits code q s then 1 else 0) \<le> uses_left code s"
  proof (cases q)
    case (ARedeem c a t)
    then show ?thesis
    proof (cases rule: redeem_cases [of c a t s])
      case same
      then have "\<not> admits code q s" using ARedeem by (auto simp: admits_def split: sum.splits)
      with same ARedeem show ?thesis by simp
    next
      case (burned e)
      with ARedeem show ?thesis by (simp add: admits_def uses_left_charge)
    next
      case (queued i r)
      then have "c = code \<Longrightarrow> 1 \<le> uses_left code s" by (simp add: uses_left_def)
      with queued ARedeem show ?thesis by (auto simp: admits_def uses_left_charge)
    next
      case (joined i r)
      then have "c = code \<Longrightarrow> 1 \<le> uses_left code s" by (simp add: uses_left_def)
      with joined ARedeem show ?thesis by (auto simp: admits_def uses_left_charge)
    qed
  next
    case (AResolve r w a ap t)
    then show ?thesis by (simp add: admits_def uses_left_def resolve_frame)
  next
    case (ACreate c r k ro m x b req t)
    with assms show ?thesis
      by (auto simp: admits_def uses_left_def create_invite_def lookup_key_append split: option.splits)
  qed
  show "lookup_key iv_code code (st_invites (access_step q s)) \<noteq> None"
  proof (cases q)
    case (ARedeem c a t)
    then show ?thesis
      by (cases rule: redeem_cases [of c a t s]) (use assms in \<open>auto simp: lookup_charge\<close>)
  qed (use assms in \<open>auto simp: resolve_frame create_invite_def lookup_key_append split: option.splits\<close>)
qed

lemma admissions_bound:
  "lookup_key iv_code code (st_invites s) \<noteq> None \<Longrightarrow> admissions code ops s \<le> uses_left code s"
proof (induction ops arbitrary: s)
  case (Cons q ops)
  note c = step_charges [OF Cons.prems, of q]
  from Cons.IH [OF c(2)] c(1) show ?case by (cases "admits code q s") simp_all
qed simp

section \<open>Tokens, directory, deletion\<close>

lemma watch_scope_not_hub: "strip_prefix ''watch:'' ''hub'' = None"
  by (simp add: strip_prefix_def)

lemma token_kinds_disjoint:
  assumes "keys_ok dt_token (st_tokens s)" "validate_directory_token tok now s"
  shows "validate_watch_token tok now' s = None"
proof -
  obtain t where t: "find (\<lambda>t. dt_token t = tok \<and> dt_scope t = ''hub'') (st_tokens s) = Some t"
    using assms(2) by (auto simp: validate_directory_token_def split: option.splits)
  from find_SomeD [OF t] have h: "t \<in> set (st_tokens s)" "dt_token t = tok" "dt_scope t = ''hub''" by auto
  have "find (\<lambda>t. dt_token t = tok) (st_tokens s) = Some t"
    by (rule find_unique [of dt_token]) (use assms(1) h in \<open>auto simp: keys_ok_def\<close>)
  with h show ?thesis by (simp add: validate_watch_token_def watch_scope_not_hub)
qed

lemma find_snoc_fresh:
  "(\<And>y. y \<in> set xs \<Longrightarrow> \<not> P y) \<Longrightarrow> find P (xs @ [x]) = (if P x then Some x else None)"
  by (induction xs) auto

lemma watch_token_validates:
  assumes "mint_watch_token tok room owner expires now s = (Inr (), s')"
  shows "room_owned_by room owner s \<and> validate_watch_token tok t s' = (if t \<le> expires then Some room else None)
    \<and> \<not> validate_directory_token tok t s'"
proof -
  have fresh: "\<And>y. y \<in> set (st_tokens s) \<Longrightarrow> dt_token y \<noteq> tok"
    using assms by (auto simp: mint_watch_token_def mint_directory_token_def split: if_splits)
  have "st_tokens s' = st_tokens s @ [\<lparr>dt_token = tok, dt_scope = ''watch:'' @ room, dt_expires = expires,
      dt_created_by = owner, dt_created = now\<rparr>]" and "room_owned_by room owner s"
    using assms by (auto simp: mint_watch_token_def mint_directory_token_def split: if_splits)
  moreover have "strip_prefix ''watch:'' (''watch:'' @ room) = Some room" by (rule strip_prefix_append)
  ultimately show ?thesis using fresh
    by (simp add: validate_watch_token_def validate_directory_token_def find_snoc_fresh)
qed

lemma discover_loop_set: "set (discover_loop lower want lim out es) \<subseteq> set out \<union> set es"
proof (induction es arbitrary: out)
  case (Cons e es)
  from Cons.IH [of out] Cons.IH [of "out @ [e]"] show ?case by (auto split: option.splits)
qed simp

lemma discover_loop_take:
  "length out < lim \<Longrightarrow> discover_loop lower want lim out es =
     out @ take (lim - length out) (filter (\<lambda>e. want = None \<or> want = Some (lower (de_status e))) es)"
proof (induction es arbitrary: out)
  case (Cons e es)
  show ?case
  proof (cases "want = None \<or> want = Some (lower (de_status e))")
    case False
    with Cons show ?thesis by (auto split: option.splits)
  next
    case True
    show ?thesis
    proof (cases "lim \<le> length (out @ [e])")
      case lim: True
      with Cons.prems have "lim - length out = 1" by simp
      with True lim show ?thesis by (auto split: option.splits)
    next
      case False
      with Cons.IH [of "out @ [e]"] True have
        "discover_loop lower want lim out (e # es) = (out @ [e]) @ take (lim - length (out @ [e]))
           (filter (\<lambda>e. want = None \<or> want = Some (lower (de_status e))) es)"
        by (auto split: option.splits)
      moreover have "lim - length out = Suc (lim - length (out @ [e]))" using False by simp
      ultimately show ?thesis using True by simp
    qed
  qed
qed simp

lemma public_visibility: "visibility_parse ''public'' = Some Public"
  by (simp add: visibility_parse_def)

lemma discover_entry:
  assumes "e \<in> set (discover lower scope hub query tag skill status limit now s)"
  obtains d a p where "(d, a, p) \<in> set (directory_join s)" "e = to_entry hub now (d, a, p)"
    "scope = PublicScope \<Longrightarrow> dr_visibility d = ''public''"
proof -
  let ?raws = "sort_key (\<lambda>(d, a, p). - ag_last_seen a)
            (filter (\<lambda>(d, a, p).
               (scope \<noteq> PublicScope \<or> dr_visibility d = ''public'')
               \<and> (map_option (\<lambda>t. ''%'' @ lower t @ ''%'') query = None
                  \<or> opt_like (to_ascii_lowercase (ag_name a)) (map_option (\<lambda>t. ''%'' @ lower t @ ''%'') query)
                  \<or> opt_like (dr_tags d) (map_option (\<lambda>t. ''%'' @ lower t @ ''%'') query)
                  \<or> opt_like (dr_skills d) (map_option (\<lambda>t. ''%'' @ lower t @ ''%'') query))
               \<and> opt_like (dr_tags d) (map_option (\<lambda>t. ''%'' @ lower t @ ''%'') tag)
               \<and> opt_like (dr_skills d) (map_option (\<lambda>t. ''%'' @ lower t @ ''%'') skill))
             (directory_join s))"
  have "e \<in> set (map (to_entry hub now) ?raws)"
    using assms discover_loop_set [of lower "map_option lower status" "min (opt_or limit 200) 1000" "[]"
      "map (to_entry hub now) ?raws"]
    unfolding discover_def Let_def by auto
  then obtain d a p where "(d, a, p) \<in> set (directory_join s)" "e = to_entry hub now (d, a, p)"
    "scope \<noteq> PublicScope \<or> dr_visibility d = ''public''" by auto
  with that show ?thesis by blast
qed

lemma public_entry: "dr_visibility d = ''public'' \<Longrightarrow> de_visibility (to_entry hub now (d, a, p)) = Public"
  by (simp add: to_entry_def Let_def public_visibility)

definition mentions_room :: "string \<Rightarrow> store \<Rightarrow> bool" where
  "mentions_room room s =
     ((\<exists>r \<in> set (st_rooms s). rm_name r = room) \<or> (\<exists>m \<in> set (st_members s). mb_room m = room)
      \<or> (\<exists>g \<in> set (st_messages s). mg_room g = room) \<or> (\<exists>f \<in> set (st_facts s). fa_room f = Some room)
      \<or> (\<exists>i \<in> set (st_invites s). iv_room i = room) \<or> (\<exists>j \<in> set (st_join_requests s). jr_room j = room)
      \<or> (\<exists>t \<in> set (st_tokens s). strip_prefix ''watch:'' (dt_scope t) = Some room)
      \<or> (\<exists>b \<in> set (st_blob_rooms s). bb_room b = room))"

lemma delete_room_purges:
  assumes "delete_room room owner s = (Inr (), s')"
  shows "\<not> mentions_room room s'" and "room_owned_by room owner s"
  using assms by (auto simp: delete_room_def mentions_room_def split: if_splits dest: strip_prefix_Some)

lemma delete_room_frame:
  assumes "delete_room room owner s = (Inr (), s')" "r \<noteq> room"
  shows "read_log r cur lim s' = read_log r cur lim s" "is_member r a s' = is_member r a s"
    "get_cursor r a s' = get_cursor r a s" "room_owned_by r w s' = room_owned_by r w s"
proof -
  have f: "filter P (delete_where Q xs) = filter P xs" if "\<And>x. P x \<Longrightarrow> \<not> Q x" for P Q and xs :: "'x list"
    using that by (induction xs) (auto simp: delete_where_def)
  have g: "find P (delete_where Q xs) = find P xs" if "\<And>x. P x \<Longrightarrow> \<not> Q x" for P Q and xs :: "member_row list"
    using that by (induction xs) (auto simp: delete_where_def)
  have s': "st_messages s' = delete_where (\<lambda>g. mg_room g = room) (st_messages s)"
    "st_members s' = delete_where (\<lambda>m. mb_room m = room) (st_members s)"
    "st_rooms s' = delete_where (\<lambda>r. rm_name r = room) (st_rooms s)"
    using assms(1) by (auto simp: delete_room_def split: if_splits)
  show "read_log r cur lim s' = read_log r cur lim s"
    unfolding read_log_def s' by (subst f) (use assms(2) in auto)
  show "is_member r a s' = is_member r a s"
    unfolding is_member_def s' by (subst f) (use assms(2) in auto)
  show "get_cursor r a s' = get_cursor r a s"
    unfolding get_cursor_def s' by (subst g) (use assms(2) in auto)
  show "room_owned_by r w s' = room_owned_by r w s"
    unfolding room_owned_by_def s' by (subst f) (use assms(2) in auto)
qed

definition blob_refs_ok :: "store \<Rightarrow> bool" where
  "blob_refs_ok s = (bb_blob ` set (st_blob_rooms s) \<subseteq> bl_id ` set (st_blobs s))"

lemma gc_blobs_props:
  assumes "keys_ok bl_id (st_blobs s)" "blob_refs_ok s" "gc_blobs ttl now s = (ids, s')"
  shows "set (st_blobs s') = {b \<in> set (st_blobs s). \<not> blob_idle (now - ttl) b}"
    and "set ids = bl_id ` set (st_blobs s) - bl_id ` set (st_blobs s')"
    and "blob_refs_ok s'" and "\<And>bid room. blob_in_room bid room s' = (blob_in_room bid room s \<and> bid \<notin> set ids)"
proof -
  have ids: "ids = map bl_id (filter (blob_idle (now - ttl)) (st_blobs s))"
    and b: "st_blobs s' = delete_where (blob_idle (now - ttl)) (st_blobs s)"
    and br: "st_blob_rooms s' = delete_where (\<lambda>b. bb_blob b \<in> set ids) (st_blob_rooms s)"
    using assms(3) by (auto simp: gc_blobs_def Let_def delete_where_def filter_empty_conv split: if_splits)
  show s1: "set (st_blobs s') = {b \<in> set (st_blobs s). \<not> blob_idle (now - ttl) b}" by (simp add: b)
  have "inj_on bl_id (set (st_blobs s))" using assms(1) by (simp add: keys_ok_def distinct_map)
  moreover have "set ids = bl_id ` (set (st_blobs s) - set (st_blobs s'))"
    unfolding ids s1 by (auto simp: image_iff)
  moreover have "set (st_blobs s') \<subseteq> set (st_blobs s)" using s1 by auto
  ultimately show s2: "set ids = bl_id ` set (st_blobs s) - bl_id ` set (st_blobs s')"
    using inj_on_image_set_diff [of bl_id "set (st_blobs s)" "set (st_blobs s)" "set (st_blobs s')"] by simp
  show "blob_refs_ok s'"
    using assms(2) s2 unfolding blob_refs_ok_def by (auto simp: br)
  show "blob_in_room bid room s' = (blob_in_room bid room s \<and> bid \<notin> set ids)" for bid room
    by (auto simp: blob_in_room_def br filter_empty_conv)
qed

lemma lookup_delete_keys:
  "keys_ok key rows \<Longrightarrow> lookup_key key k (delete_where p rows) =
     (case lookup_key key k rows of None \<Rightarrow> None | Some r \<Rightarrow> if p r then None else Some r)"
proof (induction rows)
  case (Cons a rows)
  then have "key a = k \<Longrightarrow> k \<notin> key ` set rows" "keys_ok key rows" by (auto simp: keys_ok_def)
  moreover have "k \<notin> key ` set rows \<Longrightarrow> lookup_key key k (delete_where p rows) = None"
    by (auto simp: lookup_key_None)
  ultimately show ?case using Cons.IH
    by (auto simp: lookup_key_Cons delete_where_def)
qed (simp add: delete_where_def)

lemma validate_watch_lookup:
  "validate_watch_token tok now s =
     (case lookup_key dt_token tok (st_tokens s) of None \<Rightarrow> None
      | Some t \<Rightarrow> if now \<le> dt_expires t then strip_prefix ''watch:'' (dt_scope t) else None)"
  by (simp add: validate_watch_token_def lookup_key_def)

lemma validate_directory_lookup:
  assumes "keys_ok dt_token (st_tokens s)"
  shows "validate_directory_token tok now s =
     (case lookup_key dt_token tok (st_tokens s) of None \<Rightarrow> False
      | Some t \<Rightarrow> dt_scope t = ''hub'' \<and> now \<le> dt_expires t)"
proof (cases "lookup_key dt_token tok (st_tokens s)")
  case None
  then have "find (\<lambda>t. dt_token t = tok \<and> dt_scope t = ''hub'') (st_tokens s) = None"
    by (auto simp: lookup_key_None find_None_iff)
  with None show ?thesis by (simp add: validate_directory_token_def)
next
  case (Some t)
  then have t: "t \<in> set (st_tokens s)" "dt_token t = tok" using lookup_key_in by fastforce+
  have only: "u = t" if "u \<in> set (st_tokens s)" "dt_token u = tok" for u
    using keys_ok_eq [OF assms that(1) t(1)] that(2) t(2) by simp
  show ?thesis
  proof (cases "dt_scope t = ''hub''")
    case True
    have "find (\<lambda>t. dt_token t = tok \<and> dt_scope t = ''hub'') (st_tokens s) = Some t"
      by (rule find_unique [of dt_token]) (use assms t True in \<open>auto simp: keys_ok_def\<close>)
    with Some True show ?thesis by (simp add: validate_directory_token_def)
  next
    case False
    with only have "find (\<lambda>t. dt_token t = tok \<and> dt_scope t = ''hub'') (st_tokens s) = None"
      by (auto simp: find_None_iff)
    with Some False show ?thesis by (simp add: validate_directory_token_def)
  qed
qed

lemma sweep_tokens:
  assumes "keys_ok dt_token (st_tokens s)" "now \<le> t"
  shows "validate_watch_token tok t (snd (sweep_expired now s)) = validate_watch_token tok t s"
    and "validate_directory_token tok t (snd (sweep_expired now s)) = validate_directory_token tok t s"
proof -
  have k: "keys_ok dt_token (st_tokens (snd (sweep_expired now s)))"
    by (simp add: sweep_expired_def keys_ok_delete assms(1))
  have l: "lookup_key dt_token tok (st_tokens (snd (sweep_expired now s))) =
     (case lookup_key dt_token tok (st_tokens s) of None \<Rightarrow> None | Some r \<Rightarrow> if dt_expires r < now then None else Some r)"
    by (simp add: sweep_expired_def lookup_delete_keys [OF assms(1)])
  show "validate_watch_token tok t (snd (sweep_expired now s)) = validate_watch_token tok t s"
    using assms(2) by (auto simp: validate_watch_lookup l split: option.splits)
  show "validate_directory_token tok t (snd (sweep_expired now s)) = validate_directory_token tok t s"
    using assms(2)
    by (auto simp: validate_directory_lookup [OF k] validate_directory_lookup [OF assms(1)] l split: option.splits)
qed

section \<open>Properties\<close>

definition demo_room :: store where
  "demo_room =
     snd (create_invite ''K'' ''s'' Channel None 2 100 ''o'' True 0
       (set_room_owner ''s'' ''o'' (add_member ''s'' ''o'' 0 (ensure_room ''s'' Channel None 0 empty_store))))"

text \<open>C35: An invite admits at most as many agents as it has uses left. Over any sequence of redeems,
  owner decisions and new invites, the number of agents without prior access that a code admits or
  queues for approval never exceeds its remaining uses.\<close>

theorem invite_capacity:
  assumes "lookup_key iv_code code (st_invites s) = Some i"
  shows "admissions code ops s \<le> iv_max_uses i - iv_uses i"
  using admissions_bound [of code s ops] assms by (simp add: uses_left_def)

theorem invite_capacity_witness:
  "admissions ''K'' [ARedeem ''K'' ''x'' 1, ARedeem ''K'' ''y'' 2, ARedeem ''K'' ''z'' 3] demo_room \<le> 2
   \<and> admissions ''K'' [ARedeem ''K'' ''x'' 1, ARedeem ''K'' ''y'' 2, ARedeem ''K'' ''z'' 3] demo_room = 2"
proof -
  have i: "\<exists>i. lookup_key iv_code ''K'' (st_invites demo_room) = Some i \<and> iv_max_uses i - iv_uses i = 2"
    by (simp add: demo_room_def create_invite_def set_room_owner_def add_member_def ensure_room_def
        empty_store_def lookup_key_Cons)
  have "admissions ''K'' [ARedeem ''K'' ''x'' 1, ARedeem ''K'' ''y'' 2, ARedeem ''K'' ''z'' 3] demo_room = 2"
    by code_simp
  moreover have "admissions ''K'' ops demo_room \<le> 2" for ops
    using i invite_capacity [of "''K''" demo_room _ ops] by auto
  ultimately show ?thesis by blast
qed

text \<open>C3: The approval gate. If every invite of a room requires approval, and no ungated invite is
  created, then an agent that was not a member becomes one only if the room's owner approved that
  very agent, whatever codes are redeemed by whom, however often and in whatever order.\<close>

theorem approval_gate:
  assumes "gated room s" "\<forall>q \<in> set ops. keeps_gate room q" "\<not> is_member room agent s"
    and "is_member room agent (run_access ops s)"
  shows "\<exists>owner t. AResolve room owner agent True t \<in> set ops \<and> room_owned_by room owner s"
proof -
  obtain q where q: "q \<in> set ops" "consents room agent s q" using gate_run [OF assms] by blast
  show ?thesis by (cases q) (use q in auto)
qed

theorem approval_gate_witness:
  "\<exists>owner t. AResolve ''s'' owner ''x'' True t \<in> set [ARedeem ''K'' ''x'' 1, AResolve ''s'' ''o'' ''x'' True 2]
     \<and> room_owned_by ''s'' owner demo_room"
proof (rule approval_gate)
  show "gated ''s'' demo_room" "\<not> is_member ''s'' ''x'' demo_room"
    "is_member ''s'' ''x'' (run_access [ARedeem ''K'' ''x'' 1, AResolve ''s'' ''o'' ''x'' True 2] demo_room)"
    by code_simp+
qed simp

text \<open>C38: A denial is terminal for the requester. After the owner denied an agent in an approval-gated
  room, whatever is redeemed, created or resolved afterwards short of the owner approving that agent,
  every code of the room the agent redeems is refused and changes nothing.\<close>

theorem denial_is_terminal:
  assumes "gated room s" "\<not> is_member room agent s" "join_status room agent s = Some ''denied''"
    and "\<forall>q \<in> set ops. keeps_gate room q \<and> \<not> consents room agent s q"
    and "lookup_key iv_code code (st_invites (run_access ops s)) = Some i" "iv_room i = room"
  shows "\<exists>e. redeem_invite code agent t (run_access ops s) = (Inl e, run_access ops s)"
proof (rule redeem_denied [OF _ _ _ assms(5,6)])
  show "join_status room agent (run_access ops s) = Some ''denied''"
    by (rule denied_run) (use assms in auto)
  show "\<not> is_member room agent (run_access ops s)"
    using gate_run [of room s ops agent] assms by blast
  have "gated room (foldl (\<lambda>s q. access_step q s) s ops)"
    using assms(1,4) by (induction ops rule: rev_induct) (auto simp: access_step_gated)
  then show "gated room (run_access ops s)" by (simp add: run_access_def)
qed

theorem denial_is_terminal_witness:
  "let s = run_access [ARedeem ''K'' ''x'' 1, AResolve ''s'' ''o'' ''x'' False 2] demo_room
   in \<exists>e. redeem_invite ''K'' ''x'' 4 (run_access [ARedeem ''K'' ''y'' 3] s) = (Inl e, run_access [ARedeem ''K'' ''y'' 3] s)"
proof -
  let ?s = "run_access [ARedeem ''K'' ''x'' 1, AResolve ''s'' ''o'' ''x'' False 2] demo_room"
  have a: "gated ''s'' ?s" "\<not> is_member ''s'' ''x'' ?s" "join_status ''s'' ''x'' ?s = Some ''denied''" by code_simp+
  have "is_Some (lookup_key iv_code ''K'' (st_invites (run_access [ARedeem ''K'' ''y'' 3] ?s)))
    \<and> map_option iv_room (lookup_key iv_code ''K'' (st_invites (run_access [ARedeem ''K'' ''y'' 3] ?s))) = Some ''s''"
    by code_simp
  then obtain i where i: "lookup_key iv_code ''K'' (st_invites (run_access [ARedeem ''K'' ''y'' 3] ?s)) = Some i"
    "iv_room i = ''s''" by (auto simp: is_Some_iff)
  from denial_is_terminal [OF a _ i] show ?thesis by (simp add: Let_def)
qed

text \<open>Watch links and directory tokens never stand in for each other. A watch token can be minted
  only by the room's owner, opens exactly that room until it expires and never the directory; and a
  token that opens the directory opens no room.\<close>

theorem watch_token_scope:
  assumes "keys_ok dt_token (st_tokens s)" "mint_watch_token tok room owner expires now s = (Inr (), s')"
  shows "room_owned_by room owner s
    \<and> (\<forall>t. validate_watch_token tok t s' = (if t \<le> expires then Some room else None) \<and> \<not> validate_directory_token tok t s')
    \<and> (\<forall>tok' t t'. validate_directory_token tok' t s' \<longrightarrow> validate_watch_token tok' t' s' = None)"
proof -
  have "keys_ok dt_token (st_tokens s')"
    using assms by (auto simp: mint_watch_token_def mint_directory_token_def keys_ok_snoc split: if_splits)
  with watch_token_validates [OF assms(2)] token_kinds_disjoint show ?thesis by blast
qed

theorem watch_token_scope_witness:
  "validate_watch_token ''w'' 50 (snd (mint_watch_token ''w'' ''s'' ''o'' 60 10 demo_room)) = Some ''s''
   \<and> \<not> validate_directory_token ''w'' 50 (snd (mint_watch_token ''w'' ''s'' ''o'' 60 10 demo_room))"
proof -
  have a: "keys_ok dt_token (st_tokens demo_room)" by code_simp
  have "fst (mint_watch_token ''w'' ''s'' ''o'' 60 10 demo_room) = Inr ()" by code_simp
  then have b: "mint_watch_token ''w'' ''s'' ''o'' 60 10 demo_room
    = (Inr (), snd (mint_watch_token ''w'' ''s'' ''o'' 60 10 demo_room))" by (metis prod.collapse)
  from watch_token_scope [OF a b] show ?thesis by simp
qed

text \<open>Public discovery leaks no private card. Whatever the filters, every entry a public-scope
  search returns is public and describes a registered agent whose stored card is marked public; a
  lookup without hub scope returns public entries only.\<close>

theorem public_scope_only_public:
  assumes "e \<in> set (discover lower PublicScope hub query tag skill status limit now s)
    \<or> lookup_card aid hub False now s = Some e"
  shows "de_visibility e = Public \<and> (\<exists>d \<in> set (st_directory s). dr_visibility d = ''public'' \<and> de_card e = dr_card d)"
proof -
  have raw: "d \<in> set (st_directory s)" if "(d, a, p) \<in> set (directory_join s)" for d a p
    using that by (auto simp: directory_join_def set_filter_map)
  have "\<exists>d a p. (d, a, p) \<in> set (directory_join s) \<and> e = to_entry hub now (d, a, p) \<and> dr_visibility d = ''public''"
    using assms
  proof
    assume "e \<in> set (discover lower PublicScope hub query tag skill status limit now s)"
    then show ?thesis by (rule discover_entry) auto
  next
    assume "lookup_card aid hub False now s = Some e"
    then obtain d a p where "find (\<lambda>(d, a, p). dr_agent d = aid) (directory_join s) = Some (d, a, p)"
      "dr_visibility d = ''public''" "e = to_entry hub now (d, a, p)"
      by (auto simp: lookup_card_def split: option.splits if_splits)
    with find_SomeD [OF this(1)] show ?thesis by blast
  qed
  then show ?thesis using raw public_entry by (fastforce simp: to_entry_def Let_def)
qed

definition demo_directory :: store where
  "demo_directory =
     register_card (\<lambda>x. x)
       \<lparr>ac_id = ''x'', ac_name = ''ex'', ac_kind = KAgent, ac_role = None, ac_description = None,
        ac_tags = Some [''rust''], ac_skills = None, ac_meta = None, ac_protocol_version = None\<rparr>
       None True Public 5 (upsert_agent ''x'' ''ex'' None 5 empty_store)"

theorem public_scope_only_public_witness:
  "let es = discover (\<lambda>x. x) PublicScope ''h'' (Some ''rus'') None None None None 9 demo_directory
   in length es = 1 \<and> de_visibility (hd es) = Public"
proof -
  let ?es = "discover (\<lambda>x. x) PublicScope ''h'' (Some ''rus'') None None None None 9 demo_directory"
  have l: "length ?es = 1" by code_simp
  then have "hd ?es \<in> set ?es" by (cases ?es) auto
  from public_scope_only_public [OF disjI1 [OF this]] l show ?thesis by (simp add: Let_def)
qed

text \<open>Deleting a room is the owner's right and leaves no access behind. A successful deletion was
  asked by the owner, removes the room, its members, messages, facts, invites, join requests, watch
  tokens and blob bindings, and leaves the log, members, cursors and owner of every other room alone.\<close>

theorem delete_room_complete:
  assumes "delete_room room owner s = (Inr (), s')"
  shows "room_owned_by room owner s \<and> \<not> mentions_room room s'
    \<and> (\<forall>r cur lim a w. r \<noteq> room \<longrightarrow> read_log r cur lim s' = read_log r cur lim s
        \<and> is_member r a s' = is_member r a s \<and> get_cursor r a s' = get_cursor r a s
        \<and> room_owned_by r w s' = room_owned_by r w s)"
  using delete_room_purges [OF assms] delete_room_frame [OF assms] by blast

theorem delete_room_complete_witness:
  "mentions_room ''s'' demo_room \<and> \<not> mentions_room ''s'' (snd (delete_room ''s'' ''o'' demo_room))"
proof -
  have "fst (delete_room ''s'' ''o'' demo_room) = Inr ()" by code_simp
  then have "delete_room ''s'' ''o'' demo_room = (Inr (), snd (delete_room ''s'' ''o'' demo_room))"
    by (metis prod.collapse)
  from delete_room_complete [OF this] show ?thesis
    by (simp add: mentions_room_def demo_room_def create_invite_def set_room_owner_def add_member_def ensure_room_def
        empty_store_def insert_or_ignore_def update_where_def)
qed

text \<open>Blob collection is exact and keeps the references. It removes exactly the blobs idle since
  before the cut-off, returns exactly their ids for unlinking, and afterwards a blob is bound to a
  room iff it was before and was not collected; no binding dangles.\<close>

theorem gc_blobs_exact:
  assumes "keys_ok bl_id (st_blobs s)" "blob_refs_ok s" "gc_blobs ttl now s = (ids, s')"
  shows "set (st_blobs s') = {b \<in> set (st_blobs s). \<not> blob_idle (now - ttl) b}
    \<and> set ids = bl_id ` set (st_blobs s) - bl_id ` set (st_blobs s')
    \<and> blob_refs_ok s' \<and> (\<forall>bid room. blob_in_room bid room s' = (blob_in_room bid room s \<and> bid \<notin> set ids))"
  using gc_blobs_props [OF assms] by blast

theorem gc_blobs_exact_witness:
  "let s = touch_blob_fetched ''b2'' 90 (put_blob_meta ''b2'' ''s'' ''o'' None 4 1 (put_blob_meta ''b1'' ''s'' ''o'' None 3 1 demo_room))
   in fst (gc_blobs 20 100 s) = [''b1''] \<and> blob_refs_ok (snd (gc_blobs 20 100 s))"
proof -
  let ?s = "touch_blob_fetched ''b2'' 90 (put_blob_meta ''b2'' ''s'' ''o'' None 4 1 (put_blob_meta ''b1'' ''s'' ''o'' None 3 1 demo_room))"
  have a: "keys_ok bl_id (st_blobs ?s)" "blob_refs_ok ?s" by code_simp+
  have "fst (gc_blobs 20 100 ?s) = [''b1'']" by code_simp
  with gc_blobs_exact [OF a surjective_pairing, of 20 100] show ?thesis by (simp add: Let_def)
qed

text \<open>Sweeping expired rows is invisible to token holders: at every later moment each watch and
  directory token validates exactly as it would have without the sweep.\<close>

theorem sweep_invisible_to_tokens:
  assumes "keys_ok dt_token (st_tokens s)" "now \<le> t"
  shows "validate_watch_token tok t (snd (sweep_expired now s)) = validate_watch_token tok t s
    \<and> validate_directory_token tok t (snd (sweep_expired now s)) = validate_directory_token tok t s"
  using sweep_tokens [OF assms] by blast

theorem sweep_invisible_to_tokens_witness:
  "let s = snd (mint_directory_token ''d'' ''hub'' 5 ''o'' 1 (snd (mint_watch_token ''w'' ''s'' ''o'' 60 10 demo_room)))
   in validate_watch_token ''w'' 20 (snd (sweep_expired 15 s)) = validate_watch_token ''w'' 20 s
    \<and> validate_directory_token ''d'' 20 (snd (sweep_expired 15 s)) = validate_directory_token ''d'' 20 s"
proof -
  let ?s = "snd (mint_directory_token ''d'' ''hub'' 5 ''o'' 1 (snd (mint_watch_token ''w'' ''s'' ''o'' 60 10 demo_room)))"
  have a: "keys_ok dt_token (st_tokens ?s)" by code_simp
  from sweep_invisible_to_tokens [OF a, of 15 20] show ?thesis by (simp add: Let_def)
qed

text \<open>The sweep does change what a member's repeated redeem of an expired code returns: before the
  sweep it is confirmed, after it the code is unknown.\<close>

lemma sweep_changes_member_redeem:
  "(\<exists>r. fst (redeem_invite ''K'' ''o'' 200 demo_room) = Inr r)
   \<and> fst (redeem_invite ''K'' ''o'' 200 (snd (sweep_expired 150 demo_room)))
     = Inl (Uncoded ''invalid or unknown invite code'')"
proof -
  have "case fst (redeem_invite ''K'' ''o'' 200 demo_room) of Inl _ \<Rightarrow> False | Inr _ \<Rightarrow> True" by code_simp
  then have "\<exists>r. fst (redeem_invite ''K'' ''o'' 200 demo_room) = Inr r"
    by (cases "fst (redeem_invite ''K'' ''o'' 200 demo_room)") auto
  moreover have "fst (redeem_invite ''K'' ''o'' 200 (snd (sweep_expired 150 demo_room)))
     = Inl (Uncoded ''invalid or unknown invite code'')" by code_simp
  ultimately show ?thesis by blast
qed

end
