(* ===== verification/Memory.thy ===== *)
theory Memory
  imports Complex_Main Store_Access
begin

text \<open>
  The shared memory of the store: facts, keyed upserts, exact and ranked recall, reciprocal rank
  fusion and retention (\<open>remember\<close>, \<open>recall\<close>, \<open>recall_by_key\<close>, \<open>recall_fts\<close>, \<open>recall_vec\<close>,
  \<open>rrf_fuse\<close>, \<open>prune_facts\<close>, \<open>keyed_fact_within_quota\<close> of \<open>store.rs\<close>).

  The FTS5 index and the sqlite-vec nearest-neighbour search are not part of the repository: \<open>fts\<close>
  maps a query and the indexed \<open>(rowid, text)\<close> pairs to the matching rowids with their BM25 score
  in ascending order, \<open>knn\<close> maps a vector, a bound and the stored vectors to fact ids with their
  distance. Floating-point scores are modelled by the rational they denote, with exact sums.
  \<open>hash_order\<close> is the iteration order of a \<open>HashMap\<close>.
  The lemmas show that recall never leaves the caller's scope, that a keyed fact is unique and is
  returned exactly, that retention keeps keyed and recent facts, and what fusion computes.
\<close>

section \<open>Facts\<close>

record fact =
  fc_text :: string
  fc_key :: "string option"
  fc_room :: "string option"

record recall_hit =
  rh_text :: string
  rh_key :: "string option"
  rh_room :: "string option"
  rh_author :: string
  rh_ts :: ms
  rh_score :: rat

text \<open>\<open>IFNULL(room, '')\<close>.\<close>

definition room_or_empty :: "string option \<Rightarrow> string" where
  "room_or_empty r = opt_or r []"

definition keyed_fact_within_quota :: "string \<Rightarrow> string \<Rightarrow> string option \<Rightarrow> nat \<Rightarrow> store \<Rightarrow> bool" where
  "keyed_fact_within_quota author key room max_facts s =
     ((\<exists>f \<in> set (st_facts s). fa_author f = author \<and> fa_fkey f = Some key \<and> fa_room f = room)
      \<or> length (filter (\<lambda>f. fa_author f = author \<and> fa_fkey f \<noteq> None) (st_facts s)) < max_facts)"

definition same_fact :: "string \<Rightarrow> string option \<Rightarrow> string \<Rightarrow> fact_row \<Rightarrow> bool" where
  "same_fact author room key f =
     (fa_author f = author \<and> room_or_empty (fa_room f) = room_or_empty room \<and> fa_fkey f = Some key)"

definition insert_fact ::
  "string option \<Rightarrow> string option \<Rightarrow> string \<Rightarrow> string \<Rightarrow> ms \<Rightarrow> string option \<Rightarrow> store \<Rightarrow> int \<times> store" where
  "insert_fact key room author text ts model s =
     (st_next_fact s,
      s\<lparr>st_facts := st_facts s @ [\<lparr>fa_id = st_next_fact s, fa_fkey = key, fa_room = room, fa_author = author,
                                   fa_text = text, fa_ts = ts, fa_embedding_model = model\<rparr>],
        st_next_fact := st_next_fact s + 1\<rparr>)"

definition remember ::
  "nat \<Rightarrow> string \<Rightarrow> fact \<Rightarrow> ms \<Rightarrow> embedding option \<Rightarrow> string option \<Rightarrow> store \<Rightarrow> (hub_error + unit) \<times> store" where
  "remember vec_dim author fct ts embedding model s =
     (if (case embedding of None \<Rightarrow> False | Some emb \<Rightarrow> length emb \<noteq> vec_dim)
      then (Inl (Uncoded ''embedding dimension mismatch''), s)
      else
        let (fact_id, s1) =
          (case fc_key fct of
             Some k \<Rightarrow>
               (let hit = same_fact author (fc_room fct) k
                in case find hit (st_facts s) of
                     None \<Rightarrow> insert_fact (Some k) (fc_room fct) author (fc_text fct) ts model s
                   | Some f \<Rightarrow>
                       (fa_id f,
                        s\<lparr>st_facts := update_where hit
                            (\<lambda>f. f\<lparr>fa_text := fc_text fct, fa_ts := ts, fa_embedding_model := model\<rparr>) (st_facts s)\<rparr>))
           | None \<Rightarrow> insert_fact None (fc_room fct) author (fc_text fct) ts model s)
        in case embedding of
             None \<Rightarrow> (Inr (), s1)
           | Some emb \<Rightarrow>
               (Inr (), s1\<lparr>st_vec_facts := delete_where (\<lambda>v. fst v = fact_id) (st_vec_facts s1) @ [(fact_id, emb)]\<rparr>))"

section \<open>Recall\<close>

definition recall_limit :: "nat option \<Rightarrow> nat" where
  "recall_limit limit = min (opt_or limit 8) 50"

definition hit_of :: "fact_row \<Rightarrow> rat \<Rightarrow> recall_hit" where
  "hit_of f score =
     \<lparr>rh_text = fa_text f, rh_key = fa_fkey f, rh_room = fa_room f, rh_author = fa_author f, rh_ts = fa_ts f,
      rh_score = score\<rparr>"

text \<open>The \<open>WHERE\<close> clause shared by the three reads.\<close>

definition in_scope :: "string \<Rightarrow> string option \<Rightarrow> store \<Rightarrow> fact_row \<Rightarrow> bool" where
  "in_scope agent room s f =
     (case room of
        Some r \<Rightarrow> fa_room f = Some r
      | None \<Rightarrow> (case fa_room f of None \<Rightarrow> fa_author f = agent | Some r \<Rightarrow> is_member r agent s))"

definition recall_by_key :: "string \<Rightarrow> string \<Rightarrow> string option \<Rightarrow> nat option \<Rightarrow> store \<Rightarrow> recall_hit list" where
  "recall_by_key agent key room limit s =
     map (\<lambda>f. hit_of f 0)
       (take (recall_limit limit)
         (sort_key (\<lambda>f. - fa_ts f) (filter (\<lambda>f. fa_fkey f = Some key \<and> in_scope agent room s f) (st_facts s))))"

type_synonym fts_index = "string \<Rightarrow> (int \<times> string) list \<Rightarrow> (int \<times> rat) list"
type_synonym knn_index = "embedding \<Rightarrow> nat \<Rightarrow> (int \<times> embedding) list \<Rightarrow> (int \<times> rat) list"

definition join_facts :: "(int \<times> rat) list \<Rightarrow> store \<Rightarrow> (fact_row \<times> rat) list" where
  "join_facts ranked s =
     filter_map (\<lambda>(i, sc). map_option (\<lambda>f. (f, sc)) (find (\<lambda>f. fa_id f = i) (st_facts s))) ranked"

definition recall_fts :: "fts_index \<Rightarrow> string \<Rightarrow> string \<Rightarrow> string option \<Rightarrow> nat \<Rightarrow> store \<Rightarrow> recall_hit list" where
  "recall_fts fts agent match_q room cap s =
     map (\<lambda>(f, sc). hit_of f sc)
       (take cap (filter (\<lambda>(f, sc). in_scope agent room s f)
         (join_facts (fts match_q (map (\<lambda>f. (fa_id f, fa_text f)) (st_facts s))) s)))"

definition recall_vec :: "knn_index \<Rightarrow> string \<Rightarrow> embedding \<Rightarrow> string option \<Rightarrow> nat \<Rightarrow> store \<Rightarrow> recall_hit list" where
  "recall_vec knn agent embedding room cap s =
     take cap (map (\<lambda>(f, sc). hit_of f sc)
       (filter (\<lambda>(f, sc). in_scope agent room s f)
         (join_facts (knn embedding (min (cap * 5) 200) (st_vec_facts s)) s)))"

text \<open>
  \<open>&hit.text[..min(len, 128)]\<close> panics when the bound is inside a scalar value: that is \<open>None\<close>.
\<close>

definition is_char_boundary :: "string \<Rightarrow> nat \<Rightarrow> bool" where
  "is_char_boundary s i = (i = 0 \<or> i = length s \<or> (i < length s \<and> \<not> is_cont_byte (s ! i)))"

definition hit_key :: "recall_hit \<Rightarrow> string option" where
  "hit_key h =
     (let n = min (length (rh_text h)) 128
      in if is_char_boundary (rh_text h) n
         then Some (rh_author h @ ''|'' @ show_int (rh_ts h) @ ''|'' @ opt_or (rh_room h) [] @ ''|'' @ take n (rh_text h))
         else None)"

definition RRF_K :: rat where "RRF_K = 60"

definition rrf_weight :: "nat \<Rightarrow> rat" where
  "rrf_weight rank = 1 / (RRF_K + of_nat rank + 1)"

text \<open>\<open>scores.entry(key).or_insert_with(..).0 += rrf\<close>.\<close>

fun add_score :: "string \<Rightarrow> recall_hit \<Rightarrow> rat \<Rightarrow> (string \<times> rat \<times> recall_hit) list \<Rightarrow> (string \<times> rat \<times> recall_hit) list" where
  "add_score k h w [] = [(k, w, h)]"
| "add_score k h w ((k', sc, h') # m) =
     (if k = k' then (k', sc + w, h') # m else (k', sc, h') # add_score k h w m)"

fun rrf_loop ::
  "nat \<Rightarrow> recall_hit list \<Rightarrow> (string \<times> rat \<times> recall_hit) list \<Rightarrow> (string \<times> rat \<times> recall_hit) list option" where
  "rrf_loop rank [] m = Some m"
| "rrf_loop rank (h # hs) m =
     (case hit_key h of None \<Rightarrow> None | Some k \<Rightarrow> rrf_loop (Suc rank) hs (add_score k h (rrf_weight rank) m))"

type_synonym hash_order = "(rat \<times> recall_hit) list \<Rightarrow> (rat \<times> recall_hit) list"

definition rrf_fuse :: "hash_order \<Rightarrow> recall_hit list \<Rightarrow> recall_hit list \<Rightarrow> nat \<Rightarrow> recall_hit list option" where
  "rrf_fuse hash_order fts vec limit =
     (case Option.bind (rrf_loop 0 fts []) (rrf_loop 0 vec) of
        None \<Rightarrow> None
      | Some m \<Rightarrow>
          let results = sort_key (\<lambda>e. - fst e) (hash_order (map snd m))
          in Some (map (\<lambda>(sc, h). h\<lparr>rh_score := sc\<rparr>) (take limit results)))"

text \<open>\<open>alnum\<close> is \<open>char::is_alphanumeric\<close> on one scalar value, \<open>lower\<close> is \<open>str::to_lowercase\<close>.\<close>

fun fts_terms :: "(string \<Rightarrow> bool) \<Rightarrow> string list \<Rightarrow> string \<Rightarrow> string list" where
  "fts_terms alnum [] cur = [cur]"
| "fts_terms alnum (g # gs) cur =
     (if alnum g then fts_terms alnum gs (cur @ g) else cur # fts_terms alnum gs [])"

definition build_fts_query :: "(string \<Rightarrow> bool) \<Rightarrow> (string \<Rightarrow> string) \<Rightarrow> string \<Rightarrow> string" where
  "build_fts_query alnum lower q =
     join_with '' OR '' (map (\<lambda>t. lower t @ ''*'') (filter (\<lambda>t. t \<noteq> []) (fts_terms alnum (utf8_chars q) [])))"

text \<open>A panic inside fusion ends the request; it is the error \<open>Uncoded\<close> of the model.\<close>

definition recall ::
  "(string \<Rightarrow> bool) \<Rightarrow> (string \<Rightarrow> string) \<Rightarrow> fts_index \<Rightarrow> knn_index \<Rightarrow> hash_order \<Rightarrow> nat
    \<Rightarrow> string \<Rightarrow> string \<Rightarrow> string option \<Rightarrow> nat option \<Rightarrow> embedding option \<Rightarrow> store \<Rightarrow> hub_error + recall_hit list" where
  "recall alnum lower fts knn hash_order vec_dim agent query room limit embedding s =
     (if (case embedding of None \<Rightarrow> False | Some emb \<Rightarrow> length emb \<noteq> vec_dim)
      then Inl (Uncoded ''embedding dimension mismatch'')
      else
        let cap = recall_limit limit;
            match_q = build_fts_query alnum lower query;
            fts_hits = (if match_q \<noteq> [] then recall_fts fts agent match_q room cap s else []);
            vec_hits = (case embedding of None \<Rightarrow> [] | Some emb \<Rightarrow> recall_vec knn agent emb room cap s)
        in if fts_hits = [] \<and> vec_hits = [] then Inr []
           else if vec_hits = [] then Inr fts_hits
           else if fts_hits = [] then Inr vec_hits
           else (case rrf_fuse hash_order fts_hits vec_hits cap of
                   None \<Rightarrow> Inl (Uncoded ''panic: byte index is not a char boundary'')
                 | Some hs \<Rightarrow> Inr hs))"

section \<open>Retention\<close>

definition same_bucket :: "fact_row \<Rightarrow> fact_row \<Rightarrow> bool" where
  "same_bucket f g = (fa_fkey g = None \<and> fa_author g = fa_author f \<and> room_or_empty (fa_room g) = room_or_empty (fa_room f))"

definition nth_newest_fact :: "fact_row \<Rightarrow> nat \<Rightarrow> store \<Rightarrow> int" where
  "nth_newest_fact f k s =
     (let ids = rev (sort (map fa_id (filter (same_bucket f) (st_facts s))))
      in if k < length ids then ids ! k else - 1)"

definition prune_facts :: "int \<Rightarrow> store \<Rightarrow> nat \<times> store" where
  "prune_facts keep s =
     (let doomed = (\<lambda>f. fa_fkey f = None \<and> fa_id f \<le> nth_newest_fact f (nat keep) s);
          n = length (filter doomed (st_facts s));
          facts = delete_where doomed (st_facts s)
      in (n, s\<lparr>st_facts := facts,
               st_vec_facts := (if 0 < n then delete_where (\<lambda>v. fst v \<notin> fa_id ` set facts) (st_vec_facts s)
                                else st_vec_facts s)\<rparr>))"

section \<open>Facts are unique per key\<close>

definition facts_ok :: "store \<Rightarrow> bool" where
  "facts_ok s =
     (sorted_wrt (<) (map fa_id (st_facts s))
      \<and> (\<forall>f \<in> set (st_facts s). 1 \<le> fa_id f \<and> fa_id f < st_next_fact s) \<and> 1 \<le> st_next_fact s
      \<and> (\<forall>author room key. length (filter (same_fact author room key) (st_facts s)) \<le> 1))"

lemma same_fact_insert:
  "filter (same_fact author room key) (st_facts (snd (insert_fact k r a t ts m s))) =
     filter (same_fact author room key) (st_facts s) @
       (if a = author \<and> k = Some key \<and> room_or_empty r = room_or_empty room
        then [\<lparr>fa_id = st_next_fact s, fa_fkey = k, fa_room = r, fa_author = a, fa_text = t, fa_ts = ts,
               fa_embedding_model = m\<rparr>] else [])"
  by (auto simp: insert_fact_def same_fact_def)

lemma insert_fact_ok:
  assumes "facts_ok s" "case k of None \<Rightarrow> True | Some key \<Rightarrow> find (same_fact a r key) (st_facts s) = None"
  shows "facts_ok (snd (insert_fact k r a t ts m s))"
proof -
  have "length (filter (same_fact author room key) (st_facts (snd (insert_fact k r a t ts m s)))) \<le> 1"
    for author room key
  proof (cases "a = author \<and> k = Some key \<and> room_or_empty r = room_or_empty room")
    case True
    then have "same_fact author room key = same_fact a r key" by (auto simp: same_fact_def fun_eq_iff)
    then have "filter (same_fact author room key) (st_facts s) = []"
      using assms(2) True by (simp add: find_None_iff filter_empty_conv)
    then show ?thesis by (simp add: same_fact_insert)
  next
    case False
    then have "filter (same_fact author room key) (st_facts (snd (insert_fact k r a t ts m s)))
      = filter (same_fact author room key) (st_facts s)" by (auto simp: same_fact_insert)
    then show ?thesis using assms(1) by (simp add: facts_ok_def)
  qed
  moreover have "sorted_wrt (<) (map fa_id (st_facts (snd (insert_fact k r a t ts m s))))"
    using assms(1) by (auto simp: insert_fact_def facts_ok_def sorted_wrt_append)
  moreover have "\<forall>f \<in> set (st_facts (snd (insert_fact k r a t ts m s))). 1 \<le> fa_id f
      \<and> fa_id f < st_next_fact (snd (insert_fact k r a t ts m s))"
    using assms(1) by (auto simp: insert_fact_def facts_ok_def)
  moreover have "1 \<le> st_next_fact (snd (insert_fact k r a t ts m s))"
    using assms(1) by (simp add: insert_fact_def facts_ok_def)
  ultimately show ?thesis by (simp add: facts_ok_def)
qed

lemma filter_update_keep:
  "(\<And>f. P (g f) = P f) \<Longrightarrow> length (filter P (update_where Q g xs)) = length (filter P xs)"
  by (induction xs) (auto simp: update_where_def)

lemma update_facts_ok:
  assumes "facts_ok s" "\<And>f. fa_id (g f) = fa_id f \<and> fa_author (g f) = fa_author f \<and> fa_room (g f) = fa_room f \<and> fa_fkey (g f) = fa_fkey f"
  shows "facts_ok (s\<lparr>st_facts := update_where Q g (st_facts s)\<rparr>)"
proof -
  have ids: "map fa_id (update_where Q g (st_facts s)) = map fa_id (st_facts s)"
    by (rule update_where_keys) (simp add: assms(2))
  have "length (filter (same_fact author room key) (update_where Q g (st_facts s)))
      = length (filter (same_fact author room key) (st_facts s))" for author room key
    by (rule filter_update_keep) (simp add: same_fact_def assms(2))
  moreover have "1 \<le> fa_id f \<and> fa_id f < st_next_fact s" if "f \<in> set (update_where Q g (st_facts s))" for f
    using that assms by (auto simp: set_update_where facts_ok_def split: if_splits)
  ultimately show ?thesis using assms(1) ids by (simp add: facts_ok_def)
qed

lemma facts_ok_vec [simp]: "facts_ok (s\<lparr>st_vec_facts := v\<rparr>) = facts_ok s"
  by (simp add: facts_ok_def)

text \<open>The two ways a write can go, before the embedding is stored.\<close>

lemma remember_facts:
  assumes "remember vd author fct ts emb model s = (Inr (), s')"
  shows "st_facts s' =
    (case fc_key fct of
       None \<Rightarrow> st_facts (snd (insert_fact None (fc_room fct) author (fc_text fct) ts model s))
     | Some k \<Rightarrow>
         if find (same_fact author (fc_room fct) k) (st_facts s) = None
         then st_facts (snd (insert_fact (Some k) (fc_room fct) author (fc_text fct) ts model s))
         else update_where (same_fact author (fc_room fct) k)
                (\<lambda>f. f\<lparr>fa_text := fc_text fct, fa_ts := ts, fa_embedding_model := model\<rparr>) (st_facts s))"
    and "st_members s' = st_members s"
  using assms
  by (auto simp: remember_def Let_def insert_fact_def split: option.splits if_splits)

lemma remember_ok:
  assumes "facts_ok s"
  shows "facts_ok (snd (remember vd author fct ts emb model s))"
proof -
  let ?ins = "\<lambda>k. insert_fact k (fc_room fct) author (fc_text fct) ts model s"
  let ?upd = "\<lambda>k. s\<lparr>st_facts := update_where (same_fact author (fc_room fct) k)
      (\<lambda>f. f\<lparr>fa_text := fc_text fct, fa_ts := ts, fa_embedding_model := model\<rparr>) (st_facts s)\<rparr>"
  have none: "facts_ok (snd (?ins None))" by (rule insert_fact_ok) (simp_all add: assms)
  have upd: "facts_ok (?upd k)" for k by (rule update_facts_ok [OF assms]) simp
  have ins: "facts_ok (snd (?ins (Some k)))" if "find (same_fact author (fc_room fct) k) (st_facts s) = None" for k
    by (rule insert_fact_ok) (simp_all add: assms that)
  show ?thesis
    using none upd ins assms
    by (auto simp: remember_def Let_def case_prod_unfold split: option.splits)
qed

lemma unique_filter:
  assumes "length (filter P xs) \<le> 1" "x \<in> set xs" "P x"
  shows "filter P xs = [x]"
proof -
  have "x \<in> set (filter P xs)" using assms(2,3) by simp
  with assms(1) show ?thesis by (cases "filter P xs") auto
qed

lemma remember_unique:
  assumes "facts_ok s" "fc_key fct = Some k" "remember vd author fct ts emb model s = (Inr (), s')"
  obtains f where "filter (same_fact author (fc_room fct) k) (st_facts s') = [f]"
    "fa_text f = fc_text fct" "fa_ts f = ts" "f \<in> set (st_facts s')"
proof -
  have ok: "facts_ok s'" using remember_ok [OF assms(1), of vd author fct ts emb model] assms(3) by simp
  have "\<exists>f \<in> set (st_facts s'). same_fact author (fc_room fct) k f \<and> fa_text f = fc_text fct \<and> fa_ts f = ts"
  proof (cases "find (same_fact author (fc_room fct) k) (st_facts s)")
    case None
    then show ?thesis
      using remember_facts(1) [OF assms(3)] assms(2) by (auto simp: insert_fact_def same_fact_def)
  next
    case (Some f)
    let ?g = "f\<lparr>fa_text := fc_text fct, fa_ts := ts, fa_embedding_model := model\<rparr>"
    have f: "f \<in> set (st_facts s)" "same_fact author (fc_room fct) k f" using find_SomeD [OF Some] by auto
    have "st_facts s' = update_where (same_fact author (fc_room fct) k)
        (\<lambda>f. f\<lparr>fa_text := fc_text fct, fa_ts := ts, fa_embedding_model := model\<rparr>) (st_facts s)"
      using remember_facts(1) [OF assms(3)] assms(2) Some by simp
    then have "?g \<in> set (st_facts s')" using f by (force simp: set_update_where)
    moreover have "same_fact author (fc_room fct) k ?g" using f(2) by (simp add: same_fact_def)
    ultimately show ?thesis by (intro bexI [of _ ?g]) simp_all
  qed
  then obtain f where "f \<in> set (st_facts s')" "same_fact author (fc_room fct) k f"
    "fa_text f = fc_text fct" "fa_ts f = ts" by blast
  with that unique_filter [of "same_fact author (fc_room fct) k" "st_facts s'" f] ok show ?thesis
    by (auto simp: facts_ok_def)
qed

lemma sort_key_first:
  fixes k :: "'a \<Rightarrow> int"
  assumes "x \<in> set xs" "\<And>y. y \<in> set xs \<Longrightarrow> y \<noteq> x \<Longrightarrow> k x < k y"
  shows "\<exists>ys. sort_key k xs = x # ys"
proof (cases "sort_key k xs")
  case Nil
  then have "set xs = {}" by (metis set_sort list.set(1))
  with assms(1) show ?thesis by simp
next
  case (Cons h ys)
  have "sorted (map k (h # ys))" using Cons sorted_sort_key [of k xs] by simp
  moreover have "x \<in> set (h # ys)" "h \<in> set xs" using assms(1) Cons by (metis set_sort list.set_intros(1))+
  ultimately have "h = x" using assms(2) [of h] by force
  with Cons show ?thesis by blast
qed

lemma remember_read_back:
  assumes "facts_ok s" "fc_key fct = Some k" "fc_room fct = Some r" "remember vd author fct ts emb model s = (Inr (), s')"
    and "\<And>f. f \<in> set (st_facts s) \<Longrightarrow> fa_fkey f = Some k \<Longrightarrow> fa_room f = Some r \<Longrightarrow> fa_ts f < ts"
    and "0 < recall_limit limit" "r \<noteq> []"
  shows "\<exists>rest. recall_by_key agent k (Some r) limit s' =
    \<lparr>rh_text = fc_text fct, rh_key = Some k, rh_room = Some r, rh_author = author, rh_ts = ts, rh_score = 0\<rparr> # rest"
proof -
  obtain f where f: "filter (same_fact author (fc_room fct) k) (st_facts s') = [f]"
    "fa_text f = fc_text fct" "fa_ts f = ts" "f \<in> set (st_facts s')"
    using remember_unique [OF assms(1,2,4)] by blast
  have sf: "same_fact author (Some r) k f" using f(1) assms(3) by (metis filter_eq_ConsD)
  have room: "fa_room f = Some r" using sf assms(7) by (cases "fa_room f") (auto simp: same_fact_def room_or_empty_def)
  let ?xs = "filter (\<lambda>g. fa_fkey g = Some k \<and> in_scope agent (Some r) s' g) (st_facts s')"
  have "f \<in> set ?xs" using f(4) sf room by (auto simp: same_fact_def in_scope_def)
  moreover have "- fa_ts f < - fa_ts g" if "g \<in> set ?xs" "g \<noteq> f" for g
  proof -
    have g: "g \<in> set (st_facts s')" "fa_fkey g = Some k" "fa_room g = Some r" using that(1) by (auto simp: in_scope_def)
    have "\<not> same_fact author (Some r) k g" using f(1) that(2) g(1) assms(3)
      by (metis (no_types, lifting) filter_set list.set(1) list.set(2) mem_Collect_eq set_filter singletonD)
    then have "fa_author g \<noteq> author" using g by (auto simp: same_fact_def)
    then have "g \<in> set (st_facts s)"
      using g(1) remember_facts(1) [OF assms(4)] assms(2)
      by (auto simp: insert_fact_def set_update_where same_fact_def split: if_splits)
    with assms(5) g f(3) show ?thesis by auto
  qed
  ultimately obtain ys where "sort_key (\<lambda>f. - fa_ts f) ?xs = f # ys" using sort_key_first [of f ?xs "\<lambda>f. - fa_ts f"] by blast
  moreover obtain n where "recall_limit limit = Suc n" using assms(6) gr0_conv_Suc by blast
  ultimately show ?thesis
    using f room sf by (auto simp: recall_by_key_def hit_of_def same_fact_def)
qed

section \<open>Recall stays in scope\<close>

definition scoped_hit :: "string \<Rightarrow> string option \<Rightarrow> store \<Rightarrow> recall_hit \<Rightarrow> bool" where
  "scoped_hit agent room s h =
     (\<exists>f \<in> set (st_facts s). in_scope agent room s f \<and> rh_text h = fa_text f \<and> rh_room h = fa_room f
        \<and> rh_author h = fa_author f)"

lemma hit_of_scoped: "f \<in> set (st_facts s) \<Longrightarrow> in_scope agent room s f \<Longrightarrow> scoped_hit agent room s (hit_of f sc)"
  by (auto simp: scoped_hit_def hit_of_def)

lemma join_facts_in: "(f, sc) \<in> set (join_facts ranked s) \<Longrightarrow> f \<in> set (st_facts s)"
  by (auto simp: join_facts_def set_filter_map dest: find_SomeD)

lemma join_scoped:
  "(f, sc) \<in> set (join_facts ranked s) \<Longrightarrow> in_scope agent room s f \<Longrightarrow> scoped_hit agent room s (hit_of f sc)"
  by (rule hit_of_scoped [OF join_facts_in])

lemma recall_by_key_scoped: "h \<in> set (recall_by_key agent key room limit s) \<Longrightarrow> scoped_hit agent room s h"
  by (auto simp: recall_by_key_def hit_of_scoped dest!: in_set_takeD)

lemma recall_fts_scoped: "h \<in> set (recall_fts fts agent q room cap s) \<Longrightarrow> scoped_hit agent room s h"
  by (auto simp: recall_fts_def intro: join_scoped dest!: in_set_takeD)

lemma recall_vec_scoped: "h \<in> set (recall_vec knn agent emb room cap s) \<Longrightarrow> scoped_hit agent room s h"
  by (auto simp: recall_vec_def intro: join_scoped dest!: in_set_takeD)

section \<open>Reciprocal rank fusion\<close>

fun key_score :: "string \<Rightarrow> nat \<Rightarrow> recall_hit list \<Rightarrow> rat" where
  "key_score k rank [] = 0"
| "key_score k rank (h # hs) = (if hit_key h = Some k then rrf_weight rank else 0) + key_score k (Suc rank) hs"

definition score_of :: "string \<Rightarrow> (string \<times> rat \<times> recall_hit) list \<Rightarrow> rat" where
  "score_of k m = (case map_of m k of None \<Rightarrow> 0 | Some (sc, h) \<Rightarrow> sc)"

lemma add_score_score: "score_of k' (add_score k h w m) = score_of k' m + (if k' = k then w else 0)"
  by (induction k h w m rule: add_score.induct) (auto simp: score_of_def)

lemma add_score_keys: "fst ` set (add_score k h w m) = insert k (fst ` set m)"
  by (induction k h w m rule: add_score.induct) auto

lemma add_score_distinct: "distinct (map fst m) \<Longrightarrow> distinct (map fst (add_score k h w m))"
proof (induction k h w m rule: add_score.induct)
  case (2 k h w k' sc h' m)
  then show ?case using add_score_keys [of k h w m] by (auto simp: image_iff)
qed simp

lemma add_score_hits: "(k', sc, h') \<in> set (add_score k h w m) \<Longrightarrow> (k' = k \<and> h' = h) \<or> (\<exists>sc'. (k', sc', h') \<in> set m)"
  by (induction k h w m rule: add_score.induct) (auto split: if_splits)

lemma rrf_loop_props:
  assumes "rrf_loop rank hs m = Some m'" "distinct (map fst m)"
  shows "distinct (map fst m')"
    and "score_of k m' = score_of k m + key_score k rank hs"
    and "fst ` set m' = fst ` set m \<union> {k. \<exists>h \<in> set hs. hit_key h = Some k}"
    and "(k, sc, h) \<in> set m' \<Longrightarrow> (h \<in> set hs \<and> hit_key h = Some k) \<or> (\<exists>sc'. (k, sc', h) \<in> set m)"
  using assms
proof (induction rank hs m rule: rrf_loop.induct)
  case (1 rank m)
  { case 1 then show ?case by simp }
  { case 2 then show ?case by simp }
  { case 3 then show ?case by simp }
  { case 4 then show ?case by auto }
next
  case (2 rank h0 hs m)
  { case 1
    then show ?case using 2(1) add_score_distinct by (auto split: option.splits) }
  { case 2
    then show ?case using "2.IH"(2) add_score_distinct by (auto simp: add_score_score split: option.splits) }
  { case 3
    then show ?case using "2.IH"(3) add_score_distinct by (auto simp: add_score_keys split: option.splits) }
  { case 4
    then show ?case using "2.IH"(4) add_score_distinct add_score_hits by (fastforce split: option.splits) }
qed

definition rrf_entries :: "recall_hit list \<Rightarrow> recall_hit list \<Rightarrow> (string \<times> rat \<times> recall_hit) list \<Rightarrow> bool" where
  "rrf_entries fts vec m =
     (distinct (map fst m) \<and> fst ` set m = {k. \<exists>h \<in> set fts \<union> set vec. hit_key h = Some k}
      \<and> (\<forall>k sc h. (k, sc, h) \<in> set m \<longrightarrow> sc = key_score k 0 fts + key_score k 0 vec
           \<and> h \<in> set fts \<union> set vec \<and> hit_key h = Some k))"

lemma rrf_fuse_entries:
  assumes "rrf_fuse order fts vec limit = Some out"
  shows "\<exists>m. rrf_entries fts vec m \<and>
    out = map (\<lambda>(sc, h). h\<lparr>rh_score := sc\<rparr>) (take limit (sort_key (\<lambda>e. - fst e) (order (map snd m))))"
proof -
  obtain m1 m where m1: "rrf_loop 0 fts [] = Some m1" and m: "rrf_loop 0 vec m1 = Some m"
    and out: "out = map (\<lambda>(sc, h). h\<lparr>rh_score := sc\<rparr>) (take limit (sort_key (\<lambda>e. - fst e) (order (map snd m))))"
    using assms(1) by (auto simp: rrf_fuse_def Let_def bind_eq_Some_conv split: option.splits)
  note p1 = rrf_loop_props [OF m1] and p2 = rrf_loop_props [OF m]
  have d1: "distinct (map fst m1)" using p1(1) by simp
  have "sc = key_score k 0 fts + key_score k 0 vec" if "(k, sc, h) \<in> set m" for k sc h
  proof -
    have "score_of k m = sc" using that p2(1) [OF d1] by (simp add: score_of_def map_of_is_SomeI)
    then show ?thesis using p2(2) [OF d1, of k] p1(2) [of k] by (simp add: score_of_def)
  qed
  moreover have "h \<in> set fts \<union> set vec \<and> hit_key h = Some k" if "(k, sc, h) \<in> set m" for k sc h
    using p2(4) [OF d1 that]
  proof
    assume "\<exists>sc'. (k, sc', h) \<in> set m1"
    then obtain sc' where "(k, sc', h) \<in> set m1" ..
    from p1(4) [OF _ this] show ?thesis by simp
  qed simp
  moreover have "fst ` set m = {k. \<exists>h \<in> set fts \<union> set vec. hit_key h = Some k}"
    using p2(3) [OF d1] p1(3) by auto
  ultimately have "rrf_entries fts vec m" using p2(1) [OF d1] unfolding rrf_entries_def by blast
  with out show ?thesis by blast
qed

lemma rrf_fuse_scoped:
  assumes "rrf_fuse order fts vec limit = Some out" "\<And>xs. mset (order xs) = mset xs"
    and "\<And>h. h \<in> set fts \<union> set vec \<Longrightarrow> scoped_hit agent room s h" "h \<in> set out"
  shows "scoped_hit agent room s h"
proof -
  obtain m where m: "rrf_entries fts vec m"
    and out: "out = map (\<lambda>(sc, h). h\<lparr>rh_score := sc\<rparr>) (take limit (sort_key (\<lambda>e. - fst e) (order (map snd m))))"
    using rrf_fuse_entries [OF assms(1)] by blast
  obtain sc h0 where h: "h = h0\<lparr>rh_score := sc\<rparr>" "(sc, h0) \<in> set (order (map snd m))"
    using assms(4) unfolding out by (auto dest!: in_set_takeD)
  have "set (order (map snd m)) = set (map snd m)" using assms(2) by (metis set_mset_mset)
  then obtain k where "(k, sc, h0) \<in> set m" using h(2) by force
  with m have "h0 \<in> set fts \<union> set vec" unfolding rrf_entries_def by blast
  with assms(3) h(1) show ?thesis by (auto simp: scoped_hit_def)
qed

lemma recall_scoped:
  assumes "recall alnum lower fts knn order vd agent q room limit emb s = Inr hs" "\<And>xs. mset (order xs) = mset xs"
    and "h \<in> set hs"
  shows "scoped_hit agent room s h"
proof -
  let ?f = "if build_fts_query alnum lower q \<noteq> []
    then recall_fts fts agent (build_fts_query alnum lower q) room (recall_limit limit) s else []"
  let ?v = "case emb of None \<Rightarrow> [] | Some e \<Rightarrow> recall_vec knn agent e room (recall_limit limit) s"
  have sc: "scoped_hit agent room s x" if "x \<in> set ?f \<union> set ?v" for x
    using that recall_fts_scoped recall_vec_scoped by (auto split: if_splits option.splits)
  have "hs = [] \<or> hs = ?f \<or> hs = ?v \<or> rrf_fuse order ?f ?v (recall_limit limit) = Some hs"
    using assms(1) unfolding recall_def Let_def by (auto split: if_splits option.splits)
  then show ?thesis
  proof (elim disjE)
    assume "rrf_fuse order ?f ?v (recall_limit limit) = Some hs"
    from rrf_fuse_scoped [OF this assms(2) sc assms(3)] show ?thesis by blast
  qed (use assms(3) sc in auto)
qed

section \<open>Retention of facts\<close>

definition newer_facts :: "fact_row \<Rightarrow> store \<Rightarrow> nat" where
  "newer_facts f s = length (filter (\<lambda>g. same_bucket f g \<and> fa_id f < fa_id g) (st_facts s))"

lemma nth_newest_fact_iff:
  assumes "facts_ok s" "f \<in> set (st_facts s)" "fa_fkey f = None"
  shows "fa_id f \<le> nth_newest_fact f k s \<longleftrightarrow> k \<le> newer_facts f s"
proof -
  let ?xs = "map fa_id (filter (same_bucket f) (st_facts s))"
  have so: "sorted_wrt (<) ?xs" using assms(1) by (simp add: facts_ok_def sorted_wrt_filter_map)
  then have sorted: "sort ?xs = ?xs" by (simp add: sort_key_strict)
  have mem: "fa_id f \<in> set ?xs" using assms(2,3) by (auto simp: same_bucket_def)
  have cnt: "newer_facts f s = length (filter (\<lambda>y. fa_id f < y) ?xs)"
    by (simp add: newer_facts_def filter_map comp_def)
  show ?thesis
  proof (cases "k < length ?xs")
    case True
    then show ?thesis
      using count_le_iff [OF so True mem] sorted cnt by (simp add: nth_newest_fact_def Let_def)
  next
    case False
    have "length (filter (\<lambda>y. fa_id f < y) ?xs) < length ?xs"
      by (rule length_filter_less [OF mem]) simp
    moreover have "1 \<le> fa_id f" using assms by (auto simp: facts_ok_def)
    ultimately show ?thesis using False sorted cnt by (simp add: nth_newest_fact_def Let_def)
  qed
qed

section \<open>Properties\<close>

definition demo_memory :: store where
  "demo_memory =
     snd (remember 2 ''a'' \<lparr>fc_text = ''note two'', fc_key = None, fc_room = None\<rparr> 3 None None
       (snd (remember 2 ''a'' \<lparr>fc_text = ''note one'', fc_key = None, fc_room = None\<rparr> 2 None None
         (snd (remember 2 ''b'' \<lparr>fc_text = ''old'', fc_key = Some ''k'', fc_room = Some ''r''\<rparr> 1 None None demo_log)))))"

text \<open>Recall never leaves the caller's scope. Every hit of a ranked recall, with or without an
  embedding, and of a keyed recall is a stored fact that belongs to the requested room or, with no
  room given, to a room the caller is a member of or to the caller's own private memory.\<close>

theorem recall_stays_in_scope:
  assumes "\<forall>xs. mset (hash_order xs) = mset xs"
    and "recall alnum lower fts knn hash_order vd agent q room limit emb s = Inr hs
         \<or> recall_by_key agent key room limit s = hs"
    and "h \<in> set hs"
  shows "\<exists>f \<in> set (st_facts s). rh_text h = fa_text f \<and> rh_author h = fa_author f \<and> rh_room h = fa_room f
    \<and> (case room of Some r \<Rightarrow> fa_room f = Some r
       | None \<Rightarrow> (case fa_room f of None \<Rightarrow> fa_author f = agent | Some r \<Rightarrow> is_member r agent s))"
proof -
  have "scoped_hit agent room s h"
    using assms recall_scoped recall_by_key_scoped by metis
  then show ?thesis by (auto simp: scoped_hit_def in_scope_def)
qed

theorem recall_stays_in_scope_witness:
  "\<exists>f \<in> set (st_facts demo_memory). fa_text f = ''old'' \<and> is_member ''r'' ''a'' demo_memory"
proof -
  have "length (recall_by_key ''a'' ''k'' None None demo_memory) = 1
    \<and> rh_text (hd (recall_by_key ''a'' ''k'' None None demo_memory)) = ''old''
    \<and> rh_room (hd (recall_by_key ''a'' ''k'' None None demo_memory)) = Some ''r''" by code_simp
  then have h: "hd (recall_by_key ''a'' ''k'' None None demo_memory) \<in> set (recall_by_key ''a'' ''k'' None None demo_memory)"
    "rh_text (hd (recall_by_key ''a'' ''k'' None None demo_memory)) = ''old''"
    "rh_room (hd (recall_by_key ''a'' ''k'' None None demo_memory)) = Some ''r''"
    by (cases "recall_by_key ''a'' ''k'' None None demo_memory"; simp)+
  have "\<forall>xs. mset ((\<lambda>x. x) xs) = mset xs" by simp
  from recall_stays_in_scope [OF this disjI2 [OF refl] h(1)] h(2,3) show ?thesis
    by (auto split: option.splits)
qed

text \<open>A keyed fact is an idempotent upsert that reads its own write. After a keyed write to a room
  there is exactly one fact of that author, room and key, it carries the new text, and a keyed recall
  in the room returns it first if the write is the latest under that key.\<close>

theorem keyed_fact_read_back:
  assumes "facts_ok s" "fc_key fct = Some k" "fc_room fct = Some r" "r \<noteq> []"
    and "remember vd author fct ts emb model s = (Inr (), s')"
    and "\<forall>f \<in> set (st_facts s). fa_fkey f = Some k \<and> fa_room f = Some r \<longrightarrow> fa_ts f < ts"
    and "0 < recall_limit limit"
  shows "facts_ok s' \<and> length (filter (same_fact author (Some r) k) (st_facts s')) = 1
    \<and> (\<exists>rest. recall_by_key agent k (Some r) limit s' =
        \<lparr>rh_text = fc_text fct, rh_key = Some k, rh_room = Some r, rh_author = author, rh_ts = ts, rh_score = 0\<rparr> # rest)"
proof -
  have "facts_ok s'" using remember_ok [OF assms(1), of vd author fct ts emb model] assms(5) by simp
  moreover have "length (filter (same_fact author (Some r) k) (st_facts s')) = 1"
    using remember_unique [OF assms(1,2,5)] assms(3) by (metis One_nat_def length_Cons list.size(3))
  moreover have "fa_ts f < ts" if "f \<in> set (st_facts s)" "fa_fkey f = Some k" "fa_room f = Some r" for f
    using assms(6) that by blast
  ultimately show ?thesis using remember_read_back [OF assms(1,2,3,5) _ assms(7,4)] by blast
qed

theorem keyed_fact_read_back_witness:
  "\<exists>rest. recall_by_key ''a'' ''k'' (Some ''r'') None
     (snd (remember 2 ''b'' \<lparr>fc_text = ''new'', fc_key = Some ''k'', fc_room = Some ''r''\<rparr> 9 None None demo_memory)) =
     \<lparr>rh_text = ''new'', rh_key = Some ''k'', rh_room = Some ''r'', rh_author = ''b'', rh_ts = 9, rh_score = 0\<rparr> # rest"
proof -
  let ?f = "\<lparr>fc_text = ''new'', fc_key = Some ''k'', fc_room = Some ''r''\<rparr>"
  have "sorted_wrt (<) (map fa_id (st_facts demo_memory))
      \<and> (\<forall>f \<in> set (st_facts demo_memory). 1 \<le> fa_id f \<and> fa_id f < st_next_fact demo_memory) \<and> 1 \<le> st_next_fact demo_memory"
    by code_simp
  moreover have "facts_ok demo_log" by (simp add: facts_ok_def demo_log_def append_message_def add_member_def
        ensure_room_def empty_store_def Let_def demo_ep_def insert_or_ignore_def client_conflict_def)
  then have "facts_ok demo_memory" unfolding demo_memory_def by (intro remember_ok)
  moreover have "fst (remember 2 ''b'' ?f 9 None None demo_memory) = Inr ()" by code_simp
  then have "remember 2 ''b'' ?f 9 None None demo_memory = (Inr (), snd (remember 2 ''b'' ?f 9 None None demo_memory))"
    by (metis prod.collapse)
  moreover have "\<forall>f \<in> set (st_facts demo_memory). fa_fkey f = Some ''k'' \<and> fa_room f = Some ''r'' \<longrightarrow> fa_ts f < 9"
    by code_simp
  ultimately show ?thesis
    using keyed_fact_read_back [of demo_memory ?f "''k''" "''r''" 2 "''b''" 9 None None _ None "''a''"]
    by (simp add: recall_limit_def)
qed

text \<open>Fact retention is exact. Pruning removes a fact if and only if it has no key and at least
  \<open>keep\<close> newer unkeyed facts of the same author and room exist; keyed facts always survive, and no
  vector of a removed fact remains.\<close>

theorem prune_facts_exact:
  assumes "facts_ok s" "0 \<le> keep"
  shows "set (st_facts (snd (prune_facts keep s))) =
      {f \<in> set (st_facts s). fa_fkey f \<noteq> None \<or> int (newer_facts f s) < keep}
    \<and> (fst ` set (st_vec_facts s) \<subseteq> fa_id ` set (st_facts s)
       \<longrightarrow> fst ` set (st_vec_facts (snd (prune_facts keep s))) \<subseteq> fa_id ` set (st_facts (snd (prune_facts keep s))))"
proof -
  have k: "nat keep \<le> newer_facts f s \<longleftrightarrow> keep \<le> int (newer_facts f s)" for f
    using assms(2) by linarith
  have iff: "fa_id f \<le> nth_newest_fact f (nat keep) s \<longleftrightarrow> keep \<le> int (newer_facts f s)"
    if "f \<in> set (st_facts s)" "fa_fkey f = None" for f
    using nth_newest_fact_iff [OF assms(1) that] k by simp
  have "set (st_facts (snd (prune_facts keep s))) =
      {f \<in> set (st_facts s). fa_fkey f \<noteq> None \<or> int (newer_facts f s) < keep}"
  proof (rule set_eqI)
    fix f
    show "f \<in> set (st_facts (snd (prune_facts keep s))) \<longleftrightarrow>
        f \<in> {f \<in> set (st_facts s). fa_fkey f \<noteq> None \<or> int (newer_facts f s) < keep}"
      using iff [of f] by (cases "fa_fkey f") (auto simp: prune_facts_def Let_def)
  qed
  moreover have "fst ` set (st_vec_facts (snd (prune_facts keep s))) \<subseteq> fa_id ` set (st_facts (snd (prune_facts keep s)))"
    if v: "fst ` set (st_vec_facts s) \<subseteq> fa_id ` set (st_facts s)"
  proof (cases "filter (\<lambda>f. fa_fkey f = None \<and> fa_id f \<le> nth_newest_fact f (nat keep) s) (st_facts s) = []")
    case True
    then have "st_facts (snd (prune_facts keep s)) = st_facts s" "st_vec_facts (snd (prune_facts keep s)) = st_vec_facts s"
      by (auto simp: prune_facts_def Let_def delete_where_def filter_empty_conv filter_id_conv)
    with v show ?thesis by simp
  next
    case False
    then show ?thesis by (auto simp: prune_facts_def Let_def)
  qed
  ultimately show ?thesis by blast
qed

theorem prune_facts_exact_witness:
  "map fa_text (st_facts (snd (prune_facts 1 demo_memory))) = [''old'', ''note two'']
   \<and> set (st_facts (snd (prune_facts 1 demo_memory))) =
      {f \<in> set (st_facts demo_memory). fa_fkey f \<noteq> None \<or> int (newer_facts f demo_memory) < 1}"
proof -
  have "facts_ok demo_log" by (simp add: facts_ok_def demo_log_def append_message_def add_member_def
        ensure_room_def empty_store_def Let_def demo_ep_def insert_or_ignore_def client_conflict_def)
  then have a: "facts_ok demo_memory" unfolding demo_memory_def by (intro remember_ok)
  have "map fa_text (st_facts (snd (prune_facts 1 demo_memory))) = [''old'', ''note two'']" by code_simp
  with prune_facts_exact [OF a, of 1] show ?thesis by simp
qed

text \<open>Reciprocal rank fusion. The fused list has one hit per distinct key of the two rankings, as
  many as the limit allows, in decreasing order of score, and the score of each hit is the sum of
  \<open>1 / (61 + rank)\<close> over its occurrences in both rankings, whatever the hash order.\<close>

theorem rrf_fuse_ranks:
  assumes "\<forall>xs. mset (hash_order xs) = mset xs" "rrf_fuse hash_order fts vec limit = Some out"
  shows "sorted_wrt (\<ge>) (map rh_score out)
    \<and> length out = min limit (card {k. \<exists>h \<in> set fts \<union> set vec. hit_key h = Some k})
    \<and> (\<forall>h \<in> set out. \<exists>h0 \<in> set fts \<union> set vec. \<exists>k. hit_key h0 = Some k
         \<and> h = h0\<lparr>rh_score := key_score k 0 fts + key_score k 0 vec\<rparr>)"
proof -
  have ord: "\<And>xs. mset (hash_order xs) = mset xs" using assms(1) by blast
  obtain m where me: "rrf_entries fts vec m"
    and out: "out = map (\<lambda>(sc, h). h\<lparr>rh_score := sc\<rparr>) (take limit (sort_key (\<lambda>e. - fst e) (hash_order (map snd m))))"
    using rrf_fuse_entries [OF assms(2)] by blast
  have m: "distinct (map fst m)" "fst ` set m = {k. \<exists>h \<in> set fts \<union> set vec. hit_key h = Some k}"
    using me by (simp_all only: rrf_entries_def)
  let ?r = "sort_key (\<lambda>e. - fst e) (hash_order (map snd m))"
  have "sorted (map (\<lambda>e. - fst e) (take limit ?r))" by (metis sorted_sort_key sorted_wrt_take take_map)
  then have "sorted_wrt (\<ge>) (map fst (take limit ?r))"
    by (simp add: sorted_wrt_map comp_def)
  moreover have "map rh_score out = map fst (take limit ?r)" unfolding out by (auto simp: case_prod_unfold)
  moreover have "length out = min limit (length m)"
    unfolding out using ord by (simp add: min.commute) (metis length_map size_mset)
  moreover have "length m = card (fst ` set m)" using m(1) by (metis distinct_card length_map set_map)
  moreover have "\<exists>h0 \<in> set fts \<union> set vec. \<exists>k. hit_key h0 = Some k
      \<and> h = h0\<lparr>rh_score := key_score k 0 fts + key_score k 0 vec\<rparr>" if ho: "h \<in> set out" for h
  proof -
    obtain sc h0 where h: "h = h0\<lparr>rh_score := sc\<rparr>" "(sc, h0) \<in> set (hash_order (map snd m))"
      using ho unfolding out by (auto dest!: in_set_takeD)
    have "set (hash_order (map snd m)) = set (map snd m)" using ord by (metis set_mset_mset)
    then obtain k where "(k, sc, h0) \<in> set m" using h(2) by force
    with me have "sc = key_score k 0 fts + key_score k 0 vec \<and> h0 \<in> set fts \<union> set vec \<and> hit_key h0 = Some k"
      unfolding rrf_entries_def by blast
    with h(1) show ?thesis by blast
  qed
  ultimately show ?thesis using m(2) by simp
qed

theorem rrf_fuse_ranks_witness:
  "let h1 = \<lparr>rh_text = ''x'', rh_key = None, rh_room = None, rh_author = ''a'', rh_ts = 1, rh_score = 0\<rparr>;
       h2 = \<lparr>rh_text = ''y'', rh_key = None, rh_room = None, rh_author = ''a'', rh_ts = 2, rh_score = 0\<rparr>
   in \<exists>out. rrf_fuse (\<lambda>x. x) [h1, h2] [h2] 5 = Some out \<and> sorted_wrt (\<ge>) (map rh_score out)
      \<and> map rh_text out = [''y'', ''x'']"
proof -
  let ?h1 = "\<lparr>rh_text = ''x'', rh_key = None, rh_room = None, rh_author = ''a'', rh_ts = 1, rh_score = 0\<rparr>"
  let ?h2 = "\<lparr>rh_text = ''y'', rh_key = None, rh_room = None, rh_author = ''a'', rh_ts = 2, rh_score = 0\<rparr>"
  have "map_option (map rh_text) (rrf_fuse (\<lambda>x. x) [?h1, ?h2] [?h2] 5) = Some [''y'', ''x'']" by code_simp
  then obtain out where o: "rrf_fuse (\<lambda>x. x) [?h1, ?h2] [?h2] 5 = Some out" "map rh_text out = [''y'', ''x'']" by auto
  have "\<forall>xs. mset ((\<lambda>x. x) xs) = mset xs" by simp
  from rrf_fuse_ranks [OF this o(1)] o show ?thesis by (auto simp: Let_def)
qed

text \<open>A fact whose 128th byte is inside a multi-byte character makes the fusion key, and with it the
  whole recall, panic.\<close>

lemma hit_key_panics:
  "hit_key \<lparr>rh_text = replicate 127 (CHR ''a'') @ [CHR 0xC3, CHR 0xA9], rh_key = None, rh_room = None,
      rh_author = ''a'', rh_ts = 1, rh_score = 0\<rparr> = None"
  by (simp add: hit_key_def is_char_boundary_def Let_def nth_append is_cont_byte_def byte_def)

end
