(* ===== verification/Rate.thy ===== *)
theory Rate
  imports Prelude
begin

text \<open>
  The flood limits of the hub (\<open>server.rs\<close>): fixed-window counters, the per-agent, per-room, per-IP
  and waitlist limiters over them, and the janitor's pruning of idle counters.
  The lemmas bound how many events a limiter lets through in any interval of one window length, show
  that a counter never exceeds its limit, and that pruning never changes a later decision.
\<close>

record window =
  w_start :: int
  w_count :: nat

definition window_default :: window where
  "window_default = \<lparr>w_start = 0, w_count = 0\<rparr>"

text \<open>\<open>charge_window\<close>: whether the event is within the limit, and the updated window.\<close>

definition charge_window :: "nat \<Rightarrow> int \<Rightarrow> int \<Rightarrow> window \<Rightarrow> bool \<times> window" where
  "charge_window limit window_ms now w =
     (if limit = 0 then (True, w)
      else let w1 = (if window_ms \<le> now - w_start w then \<lparr>w_start = now, w_count = 0\<rparr> else w)
           in if limit \<le> w_count w1 then (False, w1) else (True, w1\<lparr>w_count := w_count w1 + 1\<rparr>))"

record rate_windows =
  rw_operations :: window
  rw_sends :: window
  rw_blobs :: window

definition rate_windows_default :: rate_windows where
  "rate_windows_default =
     \<lparr>rw_operations = window_default, rw_sends = window_default, rw_blobs = window_default\<rparr>"

datatype rate_kind = Operation | Send_kind | Blob_kind

record rate_limits =
  max_ops_per_min :: nat
  max_sends_per_min :: nat
  max_blobs_per_hour :: nat
  max_room_sends_per_min :: nat
  max_room_blobs_per_hour :: nat

definition rate_limits_default :: rate_limits where
  "rate_limits_default =
     \<lparr>max_ops_per_min = 600, max_sends_per_min = 240, max_blobs_per_hour = 120,
      max_room_sends_per_min = 1200, max_room_blobs_per_hour = 600\<rparr>"

type_synonym rate_map = "string \<Rightarrow> rate_windows option"
type_synonym ip_map = "string \<Rightarrow> window option"

definition windows_of :: "string \<Rightarrow> rate_map \<Rightarrow> rate_windows" where
  "windows_of k m = opt_or (m k) rate_windows_default"

fun get_window :: "rate_kind \<Rightarrow> rate_windows \<Rightarrow> window" where
  "get_window Operation r = rw_operations r"
| "get_window Send_kind r = rw_sends r"
| "get_window Blob_kind r = rw_blobs r"

fun set_window :: "rate_kind \<Rightarrow> window \<Rightarrow> rate_windows \<Rightarrow> rate_windows" where
  "set_window Operation w r = r\<lparr>rw_operations := w\<rparr>"
| "set_window Send_kind w r = r\<lparr>rw_sends := w\<rparr>"
| "set_window Blob_kind w r = r\<lparr>rw_blobs := w\<rparr>"

text \<open>Charge the window of one kind under one key, creating the entry on first use.\<close>

definition charge_key :: "nat \<Rightarrow> int \<Rightarrow> string \<Rightarrow> rate_kind \<Rightarrow> int \<Rightarrow> rate_map \<Rightarrow> bool \<times> rate_map" where
  "charge_key limit window_ms k kind now m =
     (if limit = 0 then (True, m)
      else let r = windows_of k m; (ok, w) = charge_window limit window_ms now (get_window kind r)
           in (ok, m(k \<mapsto> set_window kind w r)))"

fun agent_limit :: "rate_limits \<Rightarrow> rate_kind \<Rightarrow> nat \<times> int" where
  "agent_limit l Operation = (max_ops_per_min l, 60000)"
| "agent_limit l Send_kind = (max_sends_per_min l, 60000)"
| "agent_limit l Blob_kind = (max_blobs_per_hour l, 3600000)"

definition rate_allows :: "rate_limits \<Rightarrow> string \<Rightarrow> rate_kind \<Rightarrow> int \<Rightarrow> rate_map \<Rightarrow> bool \<times> rate_map" where
  "rate_allows l agent kind now m = (let (limit, w) = agent_limit l kind in charge_key limit w agent kind now m)"

fun room_limit :: "rate_limits \<Rightarrow> rate_kind \<Rightarrow> nat \<times> int" where
  "room_limit l Operation = (0, 0)"
| "room_limit l Send_kind = (max_room_sends_per_min l, 60000)"
| "room_limit l Blob_kind = (max_room_blobs_per_hour l, 3600000)"

text \<open>For \<open>Operation\<close> the code returns \<open>true\<close> at once, which is what a limit of zero does.\<close>

definition room_rate_allows :: "rate_limits \<Rightarrow> string \<Rightarrow> rate_kind \<Rightarrow> int \<Rightarrow> rate_map \<Rightarrow> bool \<times> rate_map" where
  "room_rate_allows l room kind now m = (let (limit, w) = room_limit l kind in charge_key limit w room kind now m)"

definition http_rate_allows :: "nat \<Rightarrow> string \<Rightarrow> int \<Rightarrow> ip_map \<Rightarrow> bool \<times> ip_map" where
  "http_rate_allows limit ip now m =
     (if limit = 0 then (True, m)
      else let w = opt_or (m ip) window_default;
               w1 = (if 60000 \<le> now - w_start w then \<lparr>w_start = now, w_count = 0\<rparr> else w)
           in if limit \<le> w_count w1 then (False, m(ip \<mapsto> w1))
              else (True, m(ip \<mapsto> w1\<lparr>w_count := w_count w1 + 1\<rparr>)))"

definition WAITLIST_MAX_PER_MIN :: nat where "WAITLIST_MAX_PER_MIN = 10"

definition waitlist_rate_allows :: "string \<Rightarrow> int \<Rightarrow> ip_map \<Rightarrow> bool \<times> ip_map" where
  "waitlist_rate_allows ip now m =
     (let w = opt_or (m ip) window_default;
          w1 = (if 60000 \<le> now - w_start w then \<lparr>w_start = now, w_count = 0\<rparr> else w)
      in if WAITLIST_MAX_PER_MIN \<le> w_count w1 then (False, m(ip \<mapsto> w1))
         else (True, m(ip \<mapsto> w1\<lparr>w_count := w_count w1 + 1\<rparr>)))"

definition MAX_WINDOW_MS :: int where "MAX_WINDOW_MS = 3600000"

text \<open>The four \<open>retain\<close> calls of \<open>prune_rate_windows\<close>.\<close>

definition retain_map :: "('a \<Rightarrow> bool) \<Rightarrow> (string \<Rightarrow> 'a option) \<Rightarrow> string \<Rightarrow> 'a option" where
  "retain_map p m k = (case m k of None \<Rightarrow> None | Some v \<Rightarrow> if p v then Some v else None)"

definition prune_agent_windows :: "int \<Rightarrow> rate_map \<Rightarrow> rate_map" where
  "prune_agent_windows now =
     retain_map (\<lambda>r. now - w_start (rw_operations r) < MAX_WINDOW_MS \<or> now - w_start (rw_sends r) < MAX_WINDOW_MS
                  \<or> now - w_start (rw_blobs r) < MAX_WINDOW_MS)"

definition prune_room_windows :: "int \<Rightarrow> rate_map \<Rightarrow> rate_map" where
  "prune_room_windows now =
     retain_map (\<lambda>r. now - w_start (rw_sends r) < MAX_WINDOW_MS \<or> now - w_start (rw_blobs r) < MAX_WINDOW_MS)"

definition prune_ip_windows :: "int \<Rightarrow> ip_map \<Rightarrow> ip_map" where
  "prune_ip_windows now = retain_map (\<lambda>w. now - w_start w < 60000)"

lemma http_is_charge:
  "http_rate_allows limit ip now m =
     (if limit = 0 then (True, m)
      else let (ok, w) = charge_window limit 60000 now (opt_or (m ip) window_default) in (ok, m(ip \<mapsto> w)))"
  by (auto simp: http_rate_allows_def charge_window_def Let_def)

lemma waitlist_is_charge:
  "waitlist_rate_allows ip now m =
     (let (ok, w) = charge_window WAITLIST_MAX_PER_MIN 60000 now (opt_or (m ip) window_default) in (ok, m(ip \<mapsto> w)))"
  by (auto simp: waitlist_rate_allows_def charge_window_def Let_def WAITLIST_MAX_PER_MIN_def)

section \<open>How much a window lets through\<close>

text \<open>The events of a limiter at the given times: each time with the limiter's decision.\<close>

fun charge_run :: "nat \<Rightarrow> int \<Rightarrow> int list \<Rightarrow> window \<Rightarrow> (int \<times> bool) list" where
  "charge_run limit wms [] w = []"
| "charge_run limit wms (t # ts) w =
     (let (ok, w') = charge_window limit wms t w in (t, ok) # charge_run limit wms ts w')"

definition passed_in :: "int \<Rightarrow> int \<Rightarrow> (int \<times> bool) list \<Rightarrow> nat" where
  "passed_in t wms es = length (filter (\<lambda>(n, ok). ok \<and> t \<le> n \<and> n < t + wms) es)"

lemma charge_count: "0 < limit \<Longrightarrow> w_count w \<le> limit \<Longrightarrow> w_count (snd (charge_window limit wms t w)) \<le> limit"
  by (auto simp: charge_window_def Let_def)

lemma passed_after:
  "\<forall>n \<in> set ts. t + wms \<le> n \<Longrightarrow> passed_in t wms (charge_run limit wms ts w) = 0"
  by (induction ts arbitrary: w) (auto simp: passed_in_def case_prod_unfold Let_def)

text \<open>Inside the interval: what remains of the running window, plus one fresh window if it began earlier.\<close>

lemma passed_within:
  assumes "0 < limit" "0 < wms" "sorted ts" "\<forall>n \<in> set ts. t \<le> n" "w_count w \<le> limit"
  shows "passed_in t wms (charge_run limit wms ts w) \<le> (limit - w_count w) + (if w_start w < t then limit else 0)"
  using assms
proof (induction ts arbitrary: w)
  case Nil
  then show ?case by (simp add: passed_in_def)
next
  case (Cons n ts)
  let ?w' = "snd (charge_window limit wms n w)" and ?ok = "fst (charge_window limit wms n w)"
  have run: "passed_in t wms (charge_run limit wms (n # ts) w) =
      (if ?ok \<and> n < t + wms then 1 else 0) + passed_in t wms (charge_run limit wms ts ?w')"
    using Cons.prems(4) by (simp add: case_prod_unfold Let_def passed_in_def)
  show ?case
  proof (cases "t + wms \<le> n")
    case True
    then have "\<forall>m \<in> set (n # ts). t + wms \<le> m" using Cons.prems(3) by auto
    from passed_after [OF this] show ?thesis by simp
  next
    case False
    have ih: "passed_in t wms (charge_run limit wms ts ?w')
        \<le> (limit - w_count ?w') + (if w_start ?w' < t then limit else 0)"
      using Cons.IH [of ?w'] Cons.prems charge_count [OF Cons.prems(1,5)] by simp
    have n: "t \<le> n" using Cons.prems(4) by simp
    show ?thesis
    proof (cases "wms \<le> n - w_start w")
      case roll: True
      then have "w_start w < t" using False by linarith
      moreover have "w_start ?w' = n" "?ok" "w_count ?w' = 1"
        using roll Cons.prems(1) by (auto simp: charge_window_def Let_def)
      ultimately show ?thesis using ih run n Cons.prems(1) False by auto
    next
      case same: False
      then have "w_start ?w' = w_start w" "?ok = (w_count w < limit)"
        "w_count ?w' = (if ?ok then w_count w + 1 else w_count w)"
        using Cons.prems(1) by (auto simp: charge_window_def Let_def)
      then show ?thesis using ih run Cons.prems(5) by (auto split: if_splits)
    qed
  qed
qed

lemma passed_any:
  assumes "0 < limit" "0 < wms" "sorted ts" "w_count w \<le> limit"
  shows "passed_in t wms (charge_run limit wms ts w) \<le> 2 * limit"
  using assms(3,4)
proof (induction ts arbitrary: w)
  case Nil
  then show ?case by (simp add: passed_in_def)
next
  case (Cons n ts)
  show ?case
  proof (cases "t \<le> n")
    case True
    then have "\<forall>m \<in> set (n # ts). t \<le> m" using Cons.prems(1) by auto
    from passed_within [OF assms(1,2) Cons.prems(1) this Cons.prems(2)] show ?thesis
      by (auto split: if_splits)
  next
    case False
    then have "passed_in t wms (charge_run limit wms (n # ts) w)
        = passed_in t wms (charge_run limit wms ts (snd (charge_window limit wms n w)))"
      by (simp add: case_prod_unfold Let_def passed_in_def)
    with Cons.IH Cons.prems charge_count [OF assms(1) Cons.prems(2)] show ?thesis by simp
  qed
qed

section \<open>Pruning is invisible\<close>

definition stale :: "int \<Rightarrow> int \<Rightarrow> window \<Rightarrow> bool" where
  "stale wms now w = (wms \<le> now - w_start w)"

definition win_eq :: "int \<Rightarrow> int \<Rightarrow> window \<Rightarrow> window \<Rightarrow> bool" where
  "win_eq wms now a b = (a = b \<or> (stale wms now a \<and> stale wms now b))"

lemma win_eq_mono: "win_eq wms now a b \<Longrightarrow> now \<le> t \<Longrightarrow> win_eq wms t a b"
  by (auto simp: win_eq_def stale_def)

lemma win_eq_charge:
  assumes "win_eq wms now a b" "now \<le> t"
  shows "fst (charge_window limit wms t a) = fst (charge_window limit wms t b)"
    and "limit \<noteq> 0 \<Longrightarrow> snd (charge_window limit wms t a) = snd (charge_window limit wms t b)"
  using assms by (auto simp: win_eq_def stale_def charge_window_def Let_def)

definition map_eq :: "(rate_kind \<Rightarrow> nat \<times> int) \<Rightarrow> int \<Rightarrow> rate_map \<Rightarrow> rate_map \<Rightarrow> bool" where
  "map_eq lim_of now m m' =
     (\<forall>k kind. fst (lim_of kind) = 0 \<or>
        win_eq (snd (lim_of kind)) now (get_window kind (windows_of k m)) (get_window kind (windows_of k m')))"

fun rate_run :: "(rate_kind \<Rightarrow> nat \<times> int) \<Rightarrow> (string \<times> rate_kind \<times> int) list \<Rightarrow> rate_map \<Rightarrow> bool list" where
  "rate_run lim_of [] m = []"
| "rate_run lim_of ((k, kind, t) # cs) m =
     (let (ok, m') = charge_key (fst (lim_of kind)) (snd (lim_of kind)) k kind t m in ok # rate_run lim_of cs m')"

lemma get_set_window: "get_window kind' (set_window kind w r) = (if kind' = kind then w else get_window kind' r)"
  by (cases kind; cases kind') auto

lemma windows_of_upd: "windows_of k' (m(k \<mapsto> r)) = (if k' = k then r else windows_of k' m)"
  by (simp add: windows_of_def)

lemma map_eq_charge:
  assumes "map_eq lim_of now m m'" "now \<le> t"
  shows "fst (charge_key (fst (lim_of kind)) (snd (lim_of kind)) k kind t m)
      = fst (charge_key (fst (lim_of kind)) (snd (lim_of kind)) k kind t m')"
    and "map_eq lim_of t (snd (charge_key (fst (lim_of kind)) (snd (lim_of kind)) k kind t m))
      (snd (charge_key (fst (lim_of kind)) (snd (lim_of kind)) k kind t m'))"
proof -
  have mono: "map_eq lim_of t m m'" using assms by (auto simp: map_eq_def intro: win_eq_mono)
  show "fst (charge_key (fst (lim_of kind)) (snd (lim_of kind)) k kind t m)
      = fst (charge_key (fst (lim_of kind)) (snd (lim_of kind)) k kind t m')"
  proof (cases "fst (lim_of kind) = 0")
    case False
    with mono have "win_eq (snd (lim_of kind)) t (get_window kind (windows_of k m)) (get_window kind (windows_of k m'))"
      using mono [unfolded map_eq_def, THEN spec, THEN spec, of kind k] by simp
    from win_eq_charge(1) [OF this order_refl] show ?thesis by (simp add: charge_key_def Let_def case_prod_unfold)
  qed (simp add: charge_key_def)
  show "map_eq lim_of t (snd (charge_key (fst (lim_of kind)) (snd (lim_of kind)) k kind t m))
      (snd (charge_key (fst (lim_of kind)) (snd (lim_of kind)) k kind t m'))"
  proof (cases "fst (lim_of kind) = 0")
    case False
    with mono have "win_eq (snd (lim_of kind)) t (get_window kind (windows_of k m)) (get_window kind (windows_of k m'))"
      using mono [unfolded map_eq_def, THEN spec, THEN spec, of kind k] by simp
    from win_eq_charge(2) [OF this order_refl False] mono False show ?thesis
      by (auto simp: charge_key_def Let_def case_prod_unfold map_eq_def windows_of_upd get_set_window win_eq_def)
  qed (use mono in \<open>simp add: charge_key_def\<close>)
qed

lemma map_eq_run:
  assumes "map_eq lim_of now m m'" "sorted (now # map (\<lambda>(k, kind, t). t) cs)"
  shows "rate_run lim_of cs m = rate_run lim_of cs m'"
  using assms
proof (induction cs arbitrary: m m' now)
  case (Cons q cs)
  obtain k kind t where q: "q = (k, kind, t)" by (cases q)
  have le: "now \<le> t" and so: "sorted (t # map (\<lambda>(k, kind, t). t) cs)" using Cons.prems(2) q by auto
  note c = map_eq_charge [OF Cons.prems(1) le, of kind k]
  from Cons.IH [OF c(2) so] c(1) show ?case by (simp add: q case_prod_unfold Let_def)
qed simp

lemma prune_map_eq:
  assumes "MAX_WINDOW_MS \<le> now"
    and "\<And>r kind. \<not> p r \<Longrightarrow> fst (lim_of kind) \<noteq> 0 \<Longrightarrow> MAX_WINDOW_MS \<le> now - w_start (get_window kind r)"
    and "\<And>kind. snd (lim_of kind) \<le> MAX_WINDOW_MS"
  shows "map_eq lim_of now m (retain_map p m)"
proof -
  have d: "stale (snd (lim_of kind)) now (get_window kind rate_windows_default)" for kind
    using assms(1) assms(3) [of kind] by (cases kind) (auto simp: stale_def rate_windows_default_def window_default_def)
  have "fst (lim_of kind) = 0 \<or> win_eq (snd (lim_of kind)) now (get_window kind (windows_of k m))
      (get_window kind (windows_of k (retain_map p m)))" for k kind
  proof (cases "m k")
    case (Some r)
    show ?thesis
    proof (cases "p r \<or> fst (lim_of kind) = 0")
      case True
      with Some show ?thesis by (auto simp: windows_of_def retain_map_def win_eq_def)
    next
      case False
      then have "stale (snd (lim_of kind)) now (get_window kind r)"
        using assms(2) [of r kind] assms(3) [of kind] by (auto simp: stale_def)
      with Some False d show ?thesis by (auto simp: windows_of_def retain_map_def win_eq_def)
    qed
  qed (auto simp: windows_of_def retain_map_def win_eq_def)
  then show ?thesis by (auto simp: map_eq_def)
qed

section \<open>Properties\<close>

text \<open>C39: The flood bound of a fixed window. From any counter within its limit, however often and
  whenever events arrive, at most twice the limit passes in any interval of one window length, and
  the counter never exceeds the limit, so it cannot overflow its 32 bits.\<close>

theorem window_flood_bound:
  assumes "0 < limit" "0 < wms" "sorted ts" "w_count w \<le> limit"
  shows "passed_in t wms (charge_run limit wms ts w) \<le> 2 * limit
    \<and> w_count (snd (charge_window limit wms n w)) \<le> limit"
  using passed_any [OF assms] charge_count [OF assms(1,4)] by blast

theorem window_flood_bound_witness:
  "passed_in 59990 60000 (charge_run 2 60000 [59990, 59995, 59999, 60000, 60001, 60002] window_default) \<le> 2 * 2
   \<and> passed_in 59990 60000 (charge_run 2 60000 [59990, 59995, 59999, 60000, 60001, 60002] window_default) = 4"
proof -
  have a: "0 < (2::nat)" "0 < (60000::int)" "sorted [59990, 59995, 59999, 60000, 60001, 60002 :: int]"
    "w_count window_default \<le> 2" by (simp_all add: window_default_def)
  have "passed_in 59990 60000 (charge_run 2 60000 [59990, 59995, 59999, 60000, 60001, 60002] window_default) = 4"
    by code_simp
  with window_flood_bound [OF a] show ?thesis by blast
qed

text \<open>Pruning idle counters is invisible. From one hour after the epoch on, dropping the counters
  the janitor drops changes no later decision of the per-agent or the per-room limiter, for any
  sequence of later events.\<close>

theorem prune_windows_invisible:
  assumes "MAX_WINDOW_MS \<le> now" "sorted (now # map (\<lambda>(k, kind, t). t) cs)"
  shows "rate_run (agent_limit l) cs (prune_agent_windows now m) = rate_run (agent_limit l) cs m
    \<and> rate_run (room_limit l) cs (prune_room_windows now m) = rate_run (room_limit l) cs m"
proof
  have le: "snd (agent_limit l kind) \<le> MAX_WINDOW_MS" "snd (room_limit l kind) \<le> MAX_WINDOW_MS" for kind
    by (cases kind; simp add: MAX_WINDOW_MS_def)+
  have "map_eq (agent_limit l) now m (prune_agent_windows now m)"
    unfolding prune_agent_windows_def
  proof (rule prune_map_eq [OF assms(1) _ le(1)])
    fix r :: rate_windows and kind
    assume "\<not> (now - w_start (rw_operations r) < MAX_WINDOW_MS \<or> now - w_start (rw_sends r) < MAX_WINDOW_MS
        \<or> now - w_start (rw_blobs r) < MAX_WINDOW_MS)"
    then show "MAX_WINDOW_MS \<le> now - w_start (get_window kind r)" by (cases kind) auto
  qed
  from map_eq_run [OF this assms(2)]
  show "rate_run (agent_limit l) cs (prune_agent_windows now m) = rate_run (agent_limit l) cs m" by simp
  have "map_eq (room_limit l) now m (prune_room_windows now m)"
    unfolding prune_room_windows_def
  proof (rule prune_map_eq [OF assms(1) _ le(2)])
    fix r :: rate_windows and kind
    assume "\<not> (now - w_start (rw_sends r) < MAX_WINDOW_MS \<or> now - w_start (rw_blobs r) < MAX_WINDOW_MS)"
      "fst (room_limit l kind) \<noteq> 0"
    then show "MAX_WINDOW_MS \<le> now - w_start (get_window kind r)" by (cases kind) auto
  qed
  from map_eq_run [OF this assms(2)]
  show "rate_run (room_limit l) cs (prune_room_windows now m) = rate_run (room_limit l) cs m" by simp
qed

theorem prune_windows_invisible_witness:
  "let m = Map.empty(''a'' \<mapsto> rate_windows_default\<lparr>rw_sends := \<lparr>w_start = 5, w_count = 240\<rparr>\<rparr>)
   in prune_agent_windows 3700000 m ''a'' = None
    \<and> rate_run (agent_limit rate_limits_default) [(''a'', Send_kind, 3700001)] (prune_agent_windows 3700000 m)
      = rate_run (agent_limit rate_limits_default) [(''a'', Send_kind, 3700001)] m"
proof -
  let ?m = "Map.empty(''a'' \<mapsto> rate_windows_default\<lparr>rw_sends := \<lparr>w_start = 5, w_count = 240\<rparr>\<rparr>)"
  have "prune_agent_windows 3700000 ?m ''a'' = None"
    by (simp add: prune_agent_windows_def retain_map_def rate_windows_default_def window_default_def MAX_WINDOW_MS_def)
  with prune_windows_invisible [of 3700000 "[(''a'', Send_kind, 3700001)]" rate_limits_default ?m]
  show ?thesis by (simp add: Let_def MAX_WINDOW_MS_def)
qed

end
