(* ===== verification/Gate.thy ===== *)
theory Gate
  imports Subjects
begin

text \<open>
  The string-level gates of the hub (\<open>server.rs\<close>): the signed-challenge format, the constant-time
  comparison of the join secret, the normalisation of pasted invite codes, bearer tokens, the client
  address behind a proxy, and the sanitised names of downloads and waitlist addresses.
  \<open>content_id\<close> (SHA-256 in hexadecimal, of \<open>parler-auth\<close>) and the random parts are arguments.
  The lemmas show that a challenge validates at the hub that issued it until it expires and nowhere
  else, that the secret comparison is equality, that a pasted link yields its code, and that a
  download name cannot leave its directory or break the header it is put in.
\<close>

section \<open>Challenges\<close>

definition CHALLENGE_TTL_MS :: int where "CHALLENGE_TTL_MS = 60000"

definition hub_token :: "(string \<Rightarrow> string) \<Rightarrow> string \<Rightarrow> string" where
  "hub_token content_id public_url = take 12 (content_id public_url)"

definition issue_challenge :: "(string \<Rightarrow> string) \<Rightarrow> string \<Rightarrow> int \<Rightarrow> string \<Rightarrow> string" where
  "issue_challenge content_id public_url now uuid =
     ''parler-auth:v1:'' @ hub_token content_id public_url @ '':'' @ show_int (now + CHALLENGE_TTL_MS) @ '':'' @ uuid"

definition challenge_valid :: "(string \<Rightarrow> string) \<Rightarrow> string \<Rightarrow> string \<Rightarrow> int \<Rightarrow> bool" where
  "challenge_valid content_id nonce public_url now =
     (case split_on (CHR '':'') nonce of
        a # b # hub # ex # rest \<Rightarrow>
          a = ''parler-auth'' \<and> b = ''v1'' \<and>
          (case parse_i64 ex of None \<Rightarrow> False
           | Some e \<Rightarrow> hub = hub_token content_id public_url \<and> now \<le> e)
      | _ \<Rightarrow> False)"

section \<open>The join secret\<close>

definition byte_word :: "char \<Rightarrow> 8 word" where
  "byte_word c = of_nat (byte c)"

definition secret_matches :: "string \<Rightarrow> string option \<Rightarrow> bool" where
  "secret_matches expected got =
     (case got of None \<Rightarrow> False
      | Some g \<Rightarrow>
          if length expected \<noteq> length g then False
          else foldl (\<lambda>diff (x, y). diff OR (byte_word x XOR byte_word y)) 0 (zip expected g) = 0)"

section \<open>Codes and tokens\<close>

definition rfind :: "string \<Rightarrow> string \<Rightarrow> nat option" where
  "rfind pat s =
     (let hits = filter (\<lambda>i. take (length pat) (drop i s) = pat) [0..<Suc (length s)]
      in if hits = [] then None else Some (last hits))"

definition trim_end_char :: "char \<Rightarrow> string \<Rightarrow> string" where
  "trim_end_char c s = rev (dropWhile (\<lambda>x. x = c) (rev s))"

definition trim_matches_char :: "char \<Rightarrow> string \<Rightarrow> string" where
  "trim_matches_char c s = trim_end_char c (dropWhile (\<lambda>x. x = c) s)"

definition normalize_code :: "string \<Rightarrow> string" where
  "normalize_code s =
     (let s = trim s
      in case rfind ''/join/'' s of
           Some idx \<Rightarrow> trim_end_char (CHR ''/'') (trim (drop (idx + 6) s))
         | None \<Rightarrow> s)"

definition CODE_ALPHABET :: string where "CODE_ALPHABET = ''ABCDEFGHJKLMNPQRSTUVWXYZ23456789''"
definition SUFFIX_ALPHABET :: string where "SUFFIX_ALPHABET = ''abcdefghjkmnpqrstuvwxyz23456789''"

text \<open>The generators draw 8, 6 and 32 indices below the length of their alphabet.\<close>

definition gen_code :: "nat list \<Rightarrow> string" where
  "gen_code draws = map (\<lambda>i. CODE_ALPHABET ! (i mod length CODE_ALPHABET)) (take 8 draws)"

definition gen_suffix :: "nat list \<Rightarrow> string" where
  "gen_suffix draws = map (\<lambda>i. SUFFIX_ALPHABET ! (i mod length SUFFIX_ALPHABET)) (take 6 draws)"

definition gen_token :: "nat list \<Rightarrow> string" where
  "gen_token draws = map (\<lambda>i. CODE_ALPHABET ! (i mod length CODE_ALPHABET)) (take 32 draws)"

section \<open>Requests\<close>

text \<open>\<open>hdr\<close> is the text of a request header, \<open>None\<close> when absent or not visible ASCII.\<close>

definition bearer_token :: "(string \<Rightarrow> string option) \<Rightarrow> string option" where
  "bearer_token hdr = Option.bind (hdr ''authorization'') (\<lambda>h. map_option trim (strip_prefix ''Bearer '' h))"

text \<open>\<open>parse_ip\<close> is \<open>IpAddr::from_str\<close>.\<close>

definition client_ip ::
  "(string \<Rightarrow> 'ip option) \<Rightarrow> (string \<Rightarrow> string option) \<Rightarrow> 'ip option \<Rightarrow> bool \<Rightarrow> 'ip option" where
  "client_ip parse_ip hdr peer trust_proxy_headers =
     (if trust_proxy_headers then
        (case Option.bind (hdr ''fly-client-ip'') (\<lambda>v. parse_ip (trim v)) of
           Some ip \<Rightarrow> Some ip
         | None \<Rightarrow>
             (case Option.bind (hdr ''x-forwarded-for'') (\<lambda>v. parse_ip (trim (hd (split_on (CHR '','') v)))) of
                Some ip \<Rightarrow> Some ip
              | None \<Rightarrow> peer))
      else peer)"

definition ext_for_media :: "string option \<Rightarrow> string" where
  "ext_for_media mt =
     (if mt = Some ''application/x-git-bundle'' then ''.bundle''
      else if mt = Some ''application/pdf'' then ''.pdf''
      else if mt = Some ''application/zip'' then ''.zip''
      else if mt = Some ''image/png'' then ''.png''
      else if mt = Some ''image/jpeg'' then ''.jpg''
      else if mt = Some ''text/plain'' then ''.txt'' else ''.bin'')"

definition filename_char :: "char \<Rightarrow> bool" where
  "filename_char c = (is_ascii_alphanumeric c \<or> c = CHR ''.'' \<or> c = CHR ''-'' \<or> c = CHR ''_'' \<or> c = CHR '' '')"

text \<open>\<open>rsplit\<close> at either separator, then the last component.\<close>

definition path_base :: "string \<Rightarrow> string" where
  "path_base h = last (split_on (CHR ''/'') (map (\<lambda>c. if c = CHR 0x5C then CHR ''/'' else c) h))"

definition clean_filename :: "string \<Rightarrow> string" where
  "clean_filename h =
     (let kept = take 128 (filter filename_char (path_base h))
      in trim (trim_matches_char (CHR ''.'') (trim kept)))"

text \<open>\<open>str::get(..12)\<close> is \<open>None\<close> when 12 is no character boundary.\<close>

definition str_get_to :: "nat \<Rightarrow> string \<Rightarrow> string option" where
  "str_get_to n s =
     (if n = length s \<or> (n < length s \<and> \<not> is_cont_byte (s ! n)) then Some (take n s) else None)"

definition download_filename :: "string option \<Rightarrow> string \<Rightarrow> string option \<Rightarrow> string" where
  "download_filename hint bid media_type =
     (let fallback = ''parler-'' @ opt_or (str_get_to 12 bid) bid @ ext_for_media media_type
      in case hint of
           None \<Rightarrow> fallback
         | Some h \<Rightarrow> if clean_filename h \<noteq> [] then clean_filename h else fallback)"

definition normalize_email :: "string \<Rightarrow> string" where
  "normalize_email email = to_ascii_lowercase (trim email)"

text \<open>\<open>char::is_control\<close>: the C0 and C1 controls and DEL.\<close>

definition is_control :: "string \<Rightarrow> bool" where
  "is_control g =
     (case map byte g of [n] \<Rightarrow> n < 32 \<or> n = 127 | [m, n] \<Rightarrow> m = 194 \<and> 128 \<le> n \<and> n < 160 | _ \<Rightarrow> False)"

definition valid_email :: "string \<Rightarrow> bool" where
  "valid_email email =
     (let n = chars_count email
      in 3 \<le> n \<and> n \<le> 254
         \<and> \<not> (\<exists>g \<in> set (utf8_chars email). is_whitespace g \<or> is_control g)
         \<and> (case split_on (CHR ''@'') email of
              [local, domain] \<Rightarrow>
                local \<noteq> [] \<and> CHR ''.'' \<in> set domain \<and> take 1 domain \<noteq> ''.'' \<and> (domain = [] \<or> last domain \<noteq> CHR ''.'')
            | _ \<Rightarrow> False))"

section \<open>Facts\<close>

lemma challenge_split:
  assumes "CHR '':'' \<notin> set (hub_token cid url)" "i64_min \<le> e" "e \<le> i64_max"
  shows "challenge_valid cid (''parler-auth:v1:'' @ hub_token cid url @ '':'' @ show_int e @ '':'' @ uuid) url' now
    \<longleftrightarrow> hub_token cid url = hub_token cid url' \<and> now \<le> e"
proof -
  have e: "CHR '':'' \<notin> set (show_int e)"
    using show_int_chars [of "CHR '':''" e] by (auto simp: byte_def)
  have "split_on (CHR '':'') (''parler-auth:v1:'' @ hub_token cid url @ '':'' @ show_int e @ '':'' @ uuid)
    = ''parler-auth'' # ''v1'' # hub_token cid url # show_int e # split_on (CHR '':'') uuid"
    using split_on_append [of "CHR '':''" "''parler-auth''" "''v1:'' @ hub_token cid url @ '':'' @ show_int e @ '':'' @ uuid"]
      split_on_append [of "CHR '':''" "''v1''" "hub_token cid url @ '':'' @ show_int e @ '':'' @ uuid"]
      split_on_append [OF assms(1), of "show_int e @ '':'' @ uuid"] split_on_append [OF e, of uuid]
    by simp
  then show ?thesis using parse_show_int [OF assms(2,3)] by (auto simp: challenge_valid_def)
qed

lemma byte_word_inj: "byte_word x = byte_word y \<Longrightarrow> x = y"
proof -
  assume "byte_word x = byte_word y"
  then have "byte x mod 256 = byte y mod 256"
    by (simp add: byte_word_def word_of_nat_eq_iff take_bit_eq_mod)
  moreover have "byte x < 256" "byte y < 256" by (simp_all add: byte_def)
  ultimately show "x = y" by (simp add: byte_def)
qed

lemma xor_zero: "a XOR b = 0 \<longleftrightarrow> a = b" for a b :: "8 word"
  by (auto simp: bit_eq_iff bit_simps)

lemma or_fold_zero:
  "foldl (\<lambda>diff (x, y). diff OR (byte_word x XOR byte_word y)) d zs = 0
    \<longleftrightarrow> d = 0 \<and> (\<forall>(x, y) \<in> set zs. x = y)"
proof (induction zs arbitrary: d)
  case (Cons z zs)
  obtain x y where z: "z = (x, y)" by force
  have "d OR (byte_word x XOR byte_word y) = 0 \<longleftrightarrow> d = 0 \<and> byte_word x = byte_word y"
    by (auto simp: or_eq_0_iff xor_zero)
  with Cons z byte_word_inj show ?case by auto
qed simp

lemma zip_all_eq: "length a = length b \<Longrightarrow> (\<forall>(x, y) \<in> set (zip a b). x = y) \<longleftrightarrow> a = b"
  by (induction a b rule: list_induct2) auto

lemma rfind_last:
  assumes "pat \<noteq> []" "\<And>i. length pre < i \<Longrightarrow> take (length pat) (drop i (pre @ pat @ post)) \<noteq> pat"
  shows "rfind pat (pre @ pat @ post) = Some (length pre)"
proof -
  let ?s = "pre @ pat @ post"
  let ?P = "\<lambda>i. take (length pat) (drop i ?s) = pat"
  have split: "[0..<Suc (length ?s)] = [0..<Suc (length pre)] @ [Suc (length pre)..<Suc (length ?s)]"
    using upt_add_eq_append [of 0 "Suc (length pre)" "length ?s - length pre"] by (simp del: upt_Suc)
  have "filter ?P [Suc (length pre)..<Suc (length ?s)] = []"
    by (simp only: filter_empty_conv set_upt) (use assms(2) in auto)
  moreover have "filter ?P [0..<Suc (length pre)] = filter ?P [0..<length pre] @ [length pre]" by simp
  ultimately have "filter ?P [0..<Suc (length ?s)] = filter ?P [0..<length pre] @ [length pre]"
    unfolding split by (simp del: upt_Suc)
  then show ?thesis by (simp add: rfind_def Let_def)
qed

lemma rfind_none: "CHR ''/'' \<notin> set s \<Longrightarrow> rfind ''/join/'' s = None"
proof -
  assume n: "CHR ''/'' \<notin> set s"
  have "take 6 (drop i s) \<noteq> ''/join/''" for i
  proof
    assume "take 6 (drop i s) = ''/join/''"
    then have "CHR ''/'' \<in> set (take 6 (drop i s))" by simp
    with n show False by (meson in_set_dropD in_set_takeD)
  qed
  then have "filter (\<lambda>i. take 6 (drop i s) = ''/join/'') [0..<Suc (length s)] = []"
    by (simp only: filter_empty_conv) simp
  moreover have "length ''/join/'' = 6" by simp
  ultimately show ?thesis unfolding rfind_def Let_def by (simp only: if_True simp_thms)
qed

lemma join_link_last:
  assumes "CHR ''/'' \<notin> set code" "length pre < i"
  shows "take 6 (drop i (pre @ ''/join/'' @ code)) \<noteq> ''/join/''"
proof
  let ?s = "(pre @ ''/join/'') @ code"
  assume "take 6 (drop i (pre @ ''/join/'' @ code)) = ''/join/''"
  then have a: "take 6 (drop i ?s) = ''/join/''" by simp
  have "length (take 6 (drop i ?s)) = 6" unfolding a by simp
  then have len: "i + 6 \<le> length ?s" by simp
  have "CHR ''/'' = take 6 (drop i ?s) ! 5" unfolding a by simp
  also have "\<dots> = ?s ! (i + 5)"
  proof -
    have "i \<le> length ?s" using len by simp
    then have "take 6 (drop i ?s) ! 5 = ?s ! (i + 5)" by (subst nth_take) (simp, subst nth_drop, simp_all only:)
    then show ?thesis .
  qed
  also have "\<dots> = code ! (i + 5 - length (pre @ ''/join/''))"
    using assms(2) by (subst nth_append) simp
  finally have "CHR ''/'' = code ! (i + 5 - length (pre @ ''/join/''))" .
  moreover have "i + 5 - length (pre @ ''/join/'') < length code" using len assms(2) by simp
  ultimately show False using assms(1) by (metis nth_mem)
qed

lemma trim_end_nop: "s = [] \<or> last s \<noteq> c \<Longrightarrow> trim_end_char c s = s"
  by (cases s rule: rev_cases) (auto simp: trim_end_char_def)

lemma normalize_code_link:
  assumes "code \<noteq> []" "\<forall>c \<in> set code. token_char c" "\<forall>c \<in> set pre. is_ascii c \<and> 32 < byte c"
  shows "normalize_code (pre @ ''/join/'' @ code) = code"
proof -
  let ?s = "pre @ ''/join/'' @ code"
  have pc: "\<forall>c \<in> set code. is_ascii c \<and> 32 < byte c" using assms(2) token_char_ascii by blast
  have "\<forall>c \<in> set ''/join/''. is_ascii c \<and> 32 < byte c" by (simp add: is_ascii_def byte_def)
  then have t: "trim ?s = ?s" using pc assms(3) by (intro trim_printable) auto
  have ns: "CHR ''/'' \<notin> set code"
    using assms(2) by (auto simp: token_char_def is_ascii_alphanumeric_def byte_def)
  have l: "length ''/join/'' = 6" by simp
  have r: "rfind ''/join/'' ?s = Some (length pre)"
    by (rule rfind_last) (use join_link_last [OF ns] l in \<open>auto simp only: list.distinct\<close>)
  have "drop (length pre + 6) ?s = code" by simp
  moreover have "trim code = code" using pc by (rule trim_printable)
  moreover have "trim_end_char (CHR ''/'') code = code"
    by (rule trim_end_nop) (use ns assms(1) last_in_set in fastforce)
  ultimately show ?thesis unfolding normalize_code_def t Let_def r option.case by (simp only:)
qed

lemma normalize_code_bare:
  assumes "\<forall>c \<in> set code. token_char c"
  shows "normalize_code code = code"
proof -
  have "trim code = code" using assms token_char_ascii by (intro trim_printable) blast
  moreover have "CHR ''/'' \<notin> set code"
    using assms by (auto simp: token_char_def is_ascii_alphanumeric_def byte_def)
  ultimately show ?thesis by (simp add: normalize_code_def rfind_none)
qed

lemma set_trim: "set (trim s) \<subseteq> set s"
  by (simp add: trim_def set_trim_chars)

lemma set_trim_matches: "set (trim_matches_char c s) \<subseteq> set s"
  by (auto simp: trim_matches_char_def trim_end_char_def dest!: set_dropWhileD)

lemma clean_filename_chars: "\<forall>c \<in> set (clean_filename h). filename_char c"
  using set_trim set_trim_matches
  by (fastforce simp: clean_filename_def Let_def dest!: set_trim [THEN subsetD] set_trim_matches [THEN subsetD] in_set_takeD)

lemma alphabet_token: "c \<in> set CODE_ALPHABET \<Longrightarrow> token_char c"
  by (auto simp: CODE_ALPHABET_def token_char_def is_ascii_alphanumeric_def byte_def)

lemma gen_code_token: "\<forall>c \<in> set (gen_code draws). token_char c"
proof
  fix c
  assume "c \<in> set (gen_code draws)"
  then obtain i where "c = CODE_ALPHABET ! (i mod length CODE_ALPHABET)" by (auto simp: gen_code_def)
  moreover have "length CODE_ALPHABET = 32" by (simp add: CODE_ALPHABET_def)
  ultimately have "c \<in> set CODE_ALPHABET" using nth_mem [of "i mod length CODE_ALPHABET" CODE_ALPHABET] by simp
  then show "token_char c" by (rule alphabet_token)
qed

section \<open>Properties\<close>

text \<open>A challenge is bound to its hub and expires. What a hub issues validates at a hub if and
  only if that hub has the same hub token and at most 60 seconds have passed, whatever the random
  part; the format cannot be confused by the parts put into it.\<close>

theorem challenge_roundtrip:
  assumes "CHR '':'' \<notin> set (content_id url)" "i64_min \<le> now + CHALLENGE_TTL_MS" "now + CHALLENGE_TTL_MS \<le> i64_max"
  shows "challenge_valid content_id (issue_challenge content_id url now uuid) url' now'
    \<longleftrightarrow> hub_token content_id url = hub_token content_id url' \<and> now' \<le> now + CHALLENGE_TTL_MS"
proof -
  have "CHR '':'' \<notin> set (hub_token content_id url)"
    using assms(1) by (auto simp: hub_token_def dest: in_set_takeD)
  from challenge_split [OF this assms(2,3)] show ?thesis unfolding issue_challenge_def .
qed

theorem challenge_roundtrip_witness:
  "let cid = (\<lambda>u. if u = ''h1'' then ''0123456789abcdef'' else ''ffffffffffffffff'')
   in challenge_valid cid (issue_challenge cid ''h1'' 1000 ''uuid:x'') ''h1'' 61000
    \<and> \<not> challenge_valid cid (issue_challenge cid ''h1'' 1000 ''uuid:x'') ''h1'' 61001
    \<and> \<not> challenge_valid cid (issue_challenge cid ''h1'' 1000 ''uuid:x'') ''h2'' 1000"
proof -
  let ?cid = "\<lambda>u. if u = ''h1'' then ''0123456789abcdef'' else ''ffffffffffffffff''"
  have a: "CHR '':'' \<notin> set (?cid ''h1'')" "i64_min \<le> 1000 + CHALLENGE_TTL_MS" "1000 + CHALLENGE_TTL_MS \<le> i64_max"
    by (simp_all add: i64_min_def i64_max_def CHALLENGE_TTL_MS_def)
  have h: "hub_token ?cid ''h1'' \<noteq> hub_token ?cid ''h2''" by (simp add: hub_token_def)
  note r = challenge_roundtrip [of ?cid "''h1''" 1000, OF a]
  show ?thesis unfolding Let_def r using h by (simp add: CHALLENGE_TTL_MS_def)
qed

text \<open>The constant-time comparison of the join secret is equality: the accumulated exclusive-or
  of all byte pairs is zero exactly when the presented secret is the expected one.\<close>

theorem secret_matches_iff: "secret_matches expected got \<longleftrightarrow> got = Some expected"
proof (cases got)
  case (Some g)
  show ?thesis
  proof (cases "length expected = length g")
    case True
    then show ?thesis using Some zip_all_eq [OF True] by (auto simp: secret_matches_def or_fold_zero)
  next
    case False
    then show ?thesis using Some by (auto simp: secret_matches_def)
  qed
qed (simp add: secret_matches_def)

text \<open>Any generated invite code survives being pasted, bare or as the last segment of a link.\<close>

theorem invite_code_pasted:
  assumes "\<forall>c \<in> set base. is_ascii c \<and> 32 < byte c" "draws \<noteq> []"
  shows "normalize_code (gen_code draws) = gen_code draws
    \<and> normalize_code (base @ ''/join/'' @ gen_code draws) = gen_code draws"
proof -
  have "gen_code draws \<noteq> []" using assms(2) by (simp add: gen_code_def)
  from normalize_code_link [OF this gen_code_token assms(1)] normalize_code_bare [OF gen_code_token]
  show ?thesis by blast
qed

theorem invite_code_pasted_witness:
  "normalize_code (''parler://hub:7070'' @ ''/join/'' @ gen_code [0, 1, 2, 3, 4, 5, 6, 7]) = ''ABCDEFGH''"
proof -
  have "gen_code [0, 1, 2, 3, 4, 5, 6, 7] = ''ABCDEFGH''" by (simp add: gen_code_def CODE_ALPHABET_def)
  moreover have "\<forall>c \<in> set ''parler://hub:7070''. is_ascii c \<and> 32 < byte c" by (simp add: is_ascii_def byte_def)
  ultimately show ?thesis
    using invite_code_pasted [of "''parler://hub:7070''" "[0, 1, 2, 3, 4, 5, 6, 7]"] by simp
qed

text \<open>A download name is safe in its header. For a hexadecimal content id and any client hint, the
  name is not empty and holds only letters, digits, dots, dashes, underscores and spaces: no path
  separator, quote or control character.\<close>

theorem download_filename_safe:
  assumes "\<forall>c \<in> set bid. is_ascii_alphanumeric c"
  shows "download_filename hint bid mt \<noteq> [] \<and> (\<forall>c \<in> set (download_filename hint bid mt). filename_char c)"
proof -
  have "set (opt_or (str_get_to 12 bid) bid) \<subseteq> set bid"
    by (auto simp: str_get_to_def dest: in_set_takeD)
  then have "\<forall>c \<in> set (opt_or (str_get_to 12 bid) bid). filename_char c"
    using assms by (auto simp: filename_char_def)
  moreover have "\<forall>c \<in> set (ext_for_media mt). filename_char c" "\<forall>c \<in> set ''parler-''. filename_char c"
    by (auto simp: ext_for_media_def filename_char_def is_ascii_alphanumeric_def byte_def)
  ultimately have "\<forall>c \<in> set (''parler-'' @ opt_or (str_get_to 12 bid) bid @ ext_for_media mt). filename_char c"
    by (auto simp del: append_Cons)
  then show ?thesis using clean_filename_chars
    by (auto simp: download_filename_def Let_def split: option.splits)
qed

theorem download_filename_safe_witness:
  "download_filename (Some ''../../etc/pass wd.txt'') ''00ff'' None = ''pass wd.txt''
   \<and> set (download_filename (Some ''../../etc/pass wd.txt'') ''00ff'' None) \<subseteq> Collect filename_char"
proof -
  have "\<forall>c \<in> set ''00ff''. is_ascii_alphanumeric c" by (simp add: is_ascii_alphanumeric_def byte_def)
  moreover have "download_filename (Some ''../../etc/pass wd.txt'') ''00ff'' None = ''pass wd.txt''" by code_simp
  ultimately show ?thesis using download_filename_safe [of "''00ff''"] by blast
qed

text \<open>The three trims are applied once each, so a hint can still leave the name of the parent directory.\<close>

lemma download_filename_dots: "download_filename (Some ''. .. .'') ''00ff'' None = ''..''"
  by code_simp

end
