(* ===== verification/Hub_State.thy ===== *)
theory Hub_State
  imports Memory Rate Gate
begin

text \<open>
  The hub server (\<open>parler-hub/src/server.rs\<close>), first part: the frames of the wire protocol
  (\<open>parler-protocol/src/hub.rs\<close>), the shared state \<open>HubState\<close> and the state of a connection, the live
  push registry with its fan-out, the wake-ups of parked requests, and the bounds every frame is
  checked against.

  What the hub takes from elsewhere is the record \<open>lib\<close>: the content hash and the signature check of
  the identity crate, the JSON writer, the Unicode functions of the standard library, the two search
  indexes of SQLite and the order of a hash map. What differs from one frame to the next is the record
  \<open>env\<close>: the clock, which is read once per frame, the random draws, and for a file write that fails
  what it leaves behind. A \<open>tokio\<close> channel is a bounded
  queue of frames, absent once its receiver is dropped; a \<open>Notify\<close> is the number of times its waiters
  were woken; a semaphore is the number of free permits.
\<close>

section \<open>Frames\<close>

datatype client_frame =
    Hello string string "string option" "string option" "string option" "string option"
      \<comment> \<open>id, name, role, nonce, sig, secret\<close>
  | Invite room_kind "string option" "nat option" "nat option" bool
      \<comment> \<open>kind, room, ttl secs, max uses, require approval\<close>
  | Redeem string
  | JoinRequests string
  | ResolveJoin string string bool
  | Serve string
  | Claim string string "nat option"
  | Queue string string "nat option"
  | Complete string string task_status
  | Register agent_card visibility "string option"
  | Discover discover_scope "string option" "string option" "string option" "string option" "nat option"
  | Lookup string
  | MintDirectoryToken "nat option"
  | MintWatch string "nat option"
  | Send target "part list" "string list option" "string option" "string option"
      \<comment> \<open>target, parts, mentions, reply to, client id\<close>
  | Pull string "int option" "nat option" "nat option" "int option"
      \<comment> \<open>room, since, limit, wait secs, ack\<close>
  | Remember fact "embedding option" "string option"
  | Recall string "string option" "nat option" "embedding option" "string option"
      \<comment> \<open>query, room, limit, embedding, key\<close>
  | Rooms
  | DeleteRoom string
  | Roster string
  | Presence string "string option" "attention option"
  | SetAttention attention
  | PutBlob target string nat "string option"
  | GetBlob string
  | Subscribe
  | Ping

datatype server_frame =
    Challenge string "string option"
  | Welcome string string
  | Invited string string string room_kind ms
  | Joined string room_kind
  | Claimed_frame string string bool "ms option"
  | Queued string "stored_message list"
  | Completed_frame string string bool
  | JoinPending string
  | JoinRequests_frame string "join_request list"
  | JoinResolved string string bool
  | Registered string visibility bool
  | Directory "directory_entry list"
  | Card_frame "directory_entry option"
  | DirectoryToken string ms
  | Watch string string ms
  | Sent string int string
  | Pulled string "stored_message list" int
  | Remembered bool
  | Recalled "recall_hit list"
  | Rooms_frame "room_info list"
  | RoomDeleted string
  | Roster_frame string "roster_entry list"
  | PresenceOk
  | AttentionOk
  | BlobReady string
  | BlobStored string nat
  | BlobIncoming string nat "string option"
  | Subscribed
  | Delivery stored_message
  | Pong
  | Error_frame string "error_code option"

text \<open>\<open>error_coded\<close> and \<open>error_frame\<close>: an error as a frame, with its code if it has one.\<close>

fun error_frame :: "hub_error \<Rightarrow> server_frame" where
  "error_frame (Coded c m) = Error_frame m (Some c)"
| "error_frame (Uncoded m) = Error_frame m None"

definition error_coded :: "error_code \<Rightarrow> string \<Rightarrow> server_frame" where
  "error_coded c m = Error_frame m (Some c)"

definition PROTOCOL_VERSION :: string where "PROTOCOL_VERSION = ''0.2''"

section \<open>Surroundings\<close>

record lib =
  lb_content_id :: "string \<Rightarrow> string"
  lb_verify :: "string \<Rightarrow> string \<Rightarrow> string \<Rightarrow> bool"
  lb_to_vec :: "json \<Rightarrow> string"
  lb_frame_len :: "client_frame \<Rightarrow> nat"
  lb_lower :: "string \<Rightarrow> string"
  lb_alnum :: "string \<Rightarrow> bool"
  lb_fts :: fts_index
  lb_knn :: knn_index
  lb_hash_order :: hash_order
  lb_vec_dim :: nat

record env =
  ev_now :: ms
  ev_uuid :: string
  ev_suffix :: "nat list"
  ev_code :: "nat list"
  ev_token :: "nat list"
  ev_write_fails :: "string option option"

definition parts_len :: "lib \<Rightarrow> part list \<Rightarrow> nat" where
  "parts_len L parts = length (lb_to_vec L (JArr (map serialize_part parts)))"

section \<open>Limits\<close>

definition PUSH_BUFFER :: nat where "PUSH_BUFFER = 256"
definition DEFAULT_MAX_BLOB_BYTES :: nat where "DEFAULT_MAX_BLOB_BYTES = 25 * 1024 * 1024"
definition DEFAULT_MAX_BLOB_DIR_BYTES :: nat where "DEFAULT_MAX_BLOB_DIR_BYTES = 1024 * 1024 * 1024"
definition DEFAULT_MAX_MESSAGE_BYTES :: nat where "DEFAULT_MAX_MESSAGE_BYTES = 1024 * 1024"
definition DEFAULT_MAX_TEXT_FRAME_BYTES :: nat where "DEFAULT_MAX_TEXT_FRAME_BYTES = 2 * 1024 * 1024"
definition DEFAULT_MAX_INFLIGHT_BLOB_BYTES :: nat where "DEFAULT_MAX_INFLIGHT_BLOB_BYTES = 50 * 1024 * 1024"
definition DEFAULT_MAX_CONNECTIONS :: nat where "DEFAULT_MAX_CONNECTIONS = 1024"
definition DEFAULT_MAX_OWNED_ROOMS :: nat where "DEFAULT_MAX_OWNED_ROOMS = 1000"
definition DEFAULT_MAX_ACTIVE_TOKENS :: nat where "DEFAULT_MAX_ACTIVE_TOKENS = 1000"
definition DEFAULT_MAX_KEYED_FACTS :: nat where "DEFAULT_MAX_KEYED_FACTS = 10000"
definition DEFAULT_MAX_HTTP_PER_MIN :: nat where "DEFAULT_MAX_HTTP_PER_MIN = 600"
definition HANDSHAKE_TIMEOUT :: nat where "HANDSHAKE_TIMEOUT = 15"
definition DEFAULT_IDLE_TIMEOUT_SECS :: nat where "DEFAULT_IDLE_TIMEOUT_SECS = 1800"
definition MAX_TTL_SECS :: nat where "MAX_TTL_SECS = 365 * 24 * 3600"
definition MAX_WAIT_SECS :: nat where "MAX_WAIT_SECS = 60"
definition MAX_CONTROL_STRING_BYTES :: nat where "MAX_CONTROL_STRING_BYTES = 4 * 1024"
definition MAX_QUERY_BYTES :: nat where "MAX_QUERY_BYTES = 64 * 1024"

text \<open>Durations are milliseconds here.\<close>

record retention =
  rt_message_max_age :: "int option"
  rt_keep_messages_per_room :: int
  rt_keep_unkeyed_facts :: "int option"
  rt_blob_max_idle :: "int option"
  rt_interval :: int

definition retention_default :: retention where
  "retention_default =
     \<lparr>rt_message_max_age = Some (30 * 24 * 3600 * 1000), rt_keep_messages_per_room = 10000,
      rt_keep_unkeyed_facts = Some 500, rt_blob_max_idle = Some (14 * 24 * 3600 * 1000),
      rt_interval = 3600 * 1000\<rparr>"

section \<open>The shared state and the state of a connection\<close>

datatype hub_mode = PublicHub | PrivateHub

record metrics =
  mt_connections_total :: nat
  mt_messages_total :: nat
  mt_tokens_total :: nat
  mt_pushes_total :: nat

text \<open>A subscription is the connection's id and the channel it sends on, which is the connection's own.\<close>

record subscriber =
  sb_conn :: nat
  sb_tx :: nat

record hub =
  hb_store :: store
  hb_public_url :: string
  hb_name :: string
  hb_mode :: hub_mode
  hb_blob_dir :: "string \<Rightarrow> string option"
  hb_max_blob_bytes :: nat
  hb_max_blob_dir_bytes :: nat
  hb_max_message_bytes :: nat
  hb_max_text_frame_bytes :: nat
  hb_max_connections :: nat
  hb_inflight :: nat
  hb_max_owned_rooms :: nat
  hb_max_active_tokens :: nat
  hb_max_keyed_facts :: nat
  hb_idle_timeout :: "nat option"
  hb_join_secret :: "string option"
  hb_limits :: rate_limits
  hb_max_http_per_min :: nat
  hb_trust_proxy_headers :: bool
  hb_retention :: retention
  hb_rate :: rate_map
  hb_room_rate :: rate_map
  hb_http_rate :: ip_map
  hb_waitlist_rate :: ip_map
  hb_conn_count :: nat
  hb_subscribers :: "(string \<times> subscriber list) list"
  hb_notifiers :: "(string \<times> nat) list"
  hb_next_conn :: nat
  hb_metrics :: metrics
  hb_channels :: "nat \<Rightarrow> server_frame list option"

definition hub_new :: "store \<Rightarrow> string \<Rightarrow> string \<Rightarrow> hub_mode \<Rightarrow> hub" where
  "hub_new s public_url name mode =
     \<lparr>hb_store = s, hb_public_url = public_url, hb_name = name, hb_mode = mode, hb_blob_dir = Map.empty,
      hb_max_blob_bytes = DEFAULT_MAX_BLOB_BYTES, hb_max_blob_dir_bytes = DEFAULT_MAX_BLOB_DIR_BYTES,
      hb_max_message_bytes = DEFAULT_MAX_MESSAGE_BYTES, hb_max_text_frame_bytes = DEFAULT_MAX_TEXT_FRAME_BYTES,
      hb_max_connections = DEFAULT_MAX_CONNECTIONS, hb_inflight = DEFAULT_MAX_INFLIGHT_BLOB_BYTES,
      hb_max_owned_rooms = DEFAULT_MAX_OWNED_ROOMS, hb_max_active_tokens = DEFAULT_MAX_ACTIVE_TOKENS,
      hb_max_keyed_facts = DEFAULT_MAX_KEYED_FACTS, hb_idle_timeout = Some DEFAULT_IDLE_TIMEOUT_SECS,
      hb_join_secret = None, hb_limits = rate_limits_default, hb_max_http_per_min = DEFAULT_MAX_HTTP_PER_MIN,
      hb_trust_proxy_headers = False, hb_retention = retention_default, hb_rate = Map.empty,
      hb_room_rate = Map.empty, hb_http_rate = Map.empty, hb_waitlist_rate = Map.empty, hb_conn_count = 0,
      hb_subscribers = [], hb_notifiers = [], hb_next_conn = 1,
      hb_metrics = \<lparr>mt_connections_total = 0, mt_messages_total = 0, mt_tokens_total = 0, mt_pushes_total = 0\<rparr>,
      hb_channels = Map.empty\<rparr>"

definition set_max_inflight_blob_bytes :: "nat \<Rightarrow> hub \<Rightarrow> hub" where
  "set_max_inflight_blob_bytes bytes h = h\<lparr>hb_inflight := max bytes 1\<rparr>"

record authed =
  au_id :: string
  au_name :: string
  au_role :: "string option"

record pending_upload =
  pu_id :: string
  pu_room :: string
  pu_author :: string
  pu_size :: nat
  pu_media_type :: "string option"
  pu_permit :: nat

record conn_state =
  cn_nonce :: "string option"
  cn_authed :: "authed option"
  cn_pending :: "pending_upload option"
  cn_conn_id :: nat
  cn_push_tx :: "nat option"
  cn_hello_frames :: nat

text \<open>The reply of a handler; a file reply names the content id of the blob file to read.\<close>

datatype reply = Frame server_frame | FrameThenFile server_frame string

section \<open>Live pushes and wake-ups\<close>

definition next_conn_id :: "hub \<Rightarrow> nat \<times> hub" where
  "next_conn_id h = (hb_next_conn h, h\<lparr>hb_next_conn := hb_next_conn h + 1\<rparr>)"

text \<open>The entry of a key in a hash map kept as an association list, replaced in place or added.\<close>

fun map_put :: "'k \<Rightarrow> 'v \<Rightarrow> ('k \<times> 'v) list \<Rightarrow> ('k \<times> 'v) list" where
  "map_put k v [] = [(k, v)]"
| "map_put k v ((k', v') # m) = (if k = k' then (k, v) # m else (k', v') # map_put k v m)"

definition subscribe :: "string \<Rightarrow> nat \<Rightarrow> nat \<Rightarrow> hub \<Rightarrow> hub" where
  "subscribe agent conn tx h =
     (let v = opt_or (map_of (hb_subscribers h) agent) []
      in h\<lparr>hb_subscribers := map_put agent
             (filter (\<lambda>s. sb_conn s \<noteq> conn) v @ [\<lparr>sb_conn = conn, sb_tx = tx\<rparr>]) (hb_subscribers h)\<rparr>)"

definition unsubscribe :: "string \<Rightarrow> nat \<Rightarrow> hub \<Rightarrow> hub" where
  "unsubscribe agent conn h =
     (case map_of (hb_subscribers h) agent of
        None \<Rightarrow> h
      | Some v \<Rightarrow>
          let v' = filter (\<lambda>s. sb_conn s \<noteq> conn) v
          in if v' = [] then h\<lparr>hb_subscribers := filter (\<lambda>e. fst e \<noteq> agent) (hb_subscribers h)\<rparr>
             else h\<lparr>hb_subscribers := map_put agent v' (hb_subscribers h)\<rparr>)"

definition room_notify :: "string \<Rightarrow> hub \<Rightarrow> nat \<times> hub" where
  "room_notify room h =
     (case map_of (hb_notifiers h) room of
        Some n \<Rightarrow> (n, h)
      | None \<Rightarrow> (0, h\<lparr>hb_notifiers := map_put room 0 (hb_notifiers h)\<rparr>))"

definition notify_room :: "string \<Rightarrow> hub \<Rightarrow> hub" where
  "notify_room room h =
     (case map_of (hb_notifiers h) room of
        None \<Rightarrow> h
      | Some n \<Rightarrow> h\<lparr>hb_notifiers := map_put room (n + 1) (hb_notifiers h)\<rparr>)"

text \<open>
  \<open>try_send\<close> on the channel of each subscription of one member: a full channel drops the frame and
  keeps the subscription, a closed one drops the subscription.
\<close>

fun push_conns :: "server_frame \<Rightarrow> subscriber list \<Rightarrow> hub \<Rightarrow> subscriber list \<times> hub" where
  "push_conns frame [] h = ([], h)"
| "push_conns frame (s # ss) h =
     (case hb_channels h (sb_tx s) of
        None \<Rightarrow> push_conns frame ss h
      | Some q \<Rightarrow>
          let h1 = (if length q < PUSH_BUFFER
                    then h\<lparr>hb_channels := (hb_channels h)(sb_tx s \<mapsto> q @ [frame]),
                           hb_metrics := (hb_metrics h)\<lparr>mt_pushes_total := mt_pushes_total (hb_metrics h) + 1\<rparr>\<rparr>
                    else h);
              (kept, h2) = push_conns frame ss h1
          in (s # kept, h2))"

definition push_member :: "string \<Rightarrow> server_frame \<Rightarrow> hub \<Rightarrow> string \<Rightarrow> hub" where
  "push_member author frame h member =
     (if member = author then h
      else case map_of (hb_subscribers h) member of
             None \<Rightarrow> h
           | Some conns \<Rightarrow>
               let (kept, h') = push_conns frame conns h
               in h'\<lparr>hb_subscribers := map_put member kept (hb_subscribers h')\<rparr>)"

definition fanout :: "string \<Rightarrow> string \<Rightarrow> stored_message \<Rightarrow> hub \<Rightarrow> hub" where
  "fanout room author msg h =
     (let h1 = notify_room room h
      in if hb_subscribers h1 = [] then h1
         else foldl (push_member author (Delivery msg)) h1 (room_member_ids room (hb_store h1)))"

section \<open>Bounds on the fields of a frame\<close>

definition bounded_string :: "string \<Rightarrow> string \<Rightarrow> nat \<Rightarrow> hub_error option" where
  "bounded_string value label maxlen =
     (if maxlen < length value then Some (Coded TOO_LARGE (label @ '' too large'')) else None)"

definition bounded_opt :: "string option \<Rightarrow> string \<Rightarrow> nat \<Rightarrow> hub_error option" where
  "bounded_opt value label maxlen = (case value of None \<Rightarrow> None | Some v \<Rightarrow> bounded_string v label maxlen)"

text \<open>The first error of a sequence of checks, as the chain of \<open>?\<close> gives it.\<close>

fun first_error :: "hub_error option list \<Rightarrow> hub_error option" where
  "first_error [] = None"
| "first_error (Some e # cs) = Some e"
| "first_error (None # cs) = first_error cs"

fun bounded_target :: "target \<Rightarrow> hub_error option" where
  "bounded_target (TRoom room) = bounded_string room ''room'' MAX_CONTROL_STRING_BYTES"
| "bounded_target (TDm agent) = bounded_string agent ''agent id'' MAX_CONTROL_STRING_BYTES"
| "bounded_target (TService service) = bounded_string service ''service'' MAX_CONTROL_STRING_BYTES"

definition payload_bound :: "lib \<Rightarrow> hub \<Rightarrow> client_frame \<Rightarrow> hub_error option" where
  "payload_bound L h frame =
     (if hb_max_message_bytes h < lb_frame_len L frame
      then Some (Coded TOO_LARGE ''structured payload too large'') else None)"

fun validate_frame_bounds :: "lib \<Rightarrow> hub \<Rightarrow> client_frame \<Rightarrow> hub_error option" where
  "validate_frame_bounds L h (Hello _ _ _ _ _ _) = None"
| "validate_frame_bounds L h (Invite kind room ttl uses ra) = bounded_opt room ''room'' MAX_CONTROL_STRING_BYTES"
| "validate_frame_bounds L h (Redeem code) = bounded_string code ''invite code'' MAX_CONTROL_STRING_BYTES"
| "validate_frame_bounds L h (JoinRequests room) = bounded_string room ''room'' MAX_CONTROL_STRING_BYTES"
| "validate_frame_bounds L h (DeleteRoom room) = bounded_string room ''room'' MAX_CONTROL_STRING_BYTES"
| "validate_frame_bounds L h (Roster room) = bounded_string room ''room'' MAX_CONTROL_STRING_BYTES"
| "validate_frame_bounds L h (ResolveJoin room agent ap) =
     first_error [bounded_string room ''room'' MAX_CONTROL_STRING_BYTES,
                  bounded_string agent ''agent id'' MAX_CONTROL_STRING_BYTES]"
| "validate_frame_bounds L h (Serve service) = bounded_string service ''service'' MAX_CONTROL_STRING_BYTES"
| "validate_frame_bounds L h (Claim room message lease) =
     first_error [bounded_string room ''room'' MAX_CONTROL_STRING_BYTES,
                  bounded_string message ''message id'' MAX_CONTROL_STRING_BYTES]"
| "validate_frame_bounds L h (Complete room message status) =
     first_error [bounded_string room ''room'' MAX_CONTROL_STRING_BYTES,
                  bounded_string message ''message id'' MAX_CONTROL_STRING_BYTES]"
| "validate_frame_bounds L h (Queue room role limit) =
     first_error [bounded_string room ''room'' MAX_CONTROL_STRING_BYTES,
                  bounded_string role ''role'' MAX_CONTROL_STRING_BYTES]"
| "validate_frame_bounds L h (Register c vis sig) = payload_bound L h (Register c vis sig)"
| "validate_frame_bounds L h (Discover scope query tag skill status limit) =
     first_error [bounded_opt query ''directory query'' MAX_QUERY_BYTES,
                  bounded_opt tag ''tag'' MAX_CONTROL_STRING_BYTES,
                  bounded_opt skill ''skill'' MAX_CONTROL_STRING_BYTES,
                  bounded_opt status ''status'' MAX_CONTROL_STRING_BYTES]"
| "validate_frame_bounds L h (Lookup aid) = bounded_string aid ''agent id'' MAX_CONTROL_STRING_BYTES"
| "validate_frame_bounds L h (MintDirectoryToken ttl) = None"
| "validate_frame_bounds L h (MintWatch room ttl) = bounded_string room ''room'' MAX_CONTROL_STRING_BYTES"
| "validate_frame_bounds L h (Send tgt parts mentions reply_to client_id) =
     first_error ([bounded_target tgt,
                   if hb_max_message_bytes h < parts_len L parts then Some (Coded TOO_LARGE ''message too large'') else None]
       @ (case mentions of None \<Rightarrow> []
          | Some ms \<Rightarrow> (if 256 < length ms then Some (Coded TOO_LARGE ''too many mentions (limit 256)'') else None)
               # map (\<lambda>m. bounded_string m ''mention'' MAX_CONTROL_STRING_BYTES) ms)
       @ [bounded_opt reply_to ''reply id'' MAX_CONTROL_STRING_BYTES,
          bounded_opt client_id ''client id'' MAX_CONTROL_STRING_BYTES])"
| "validate_frame_bounds L h (Pull room since limit wait ack) = bounded_string room ''room'' MAX_CONTROL_STRING_BYTES"
| "validate_frame_bounds L h (Remember fct emb model) =
     first_error [payload_bound L h (Remember fct emb model),
                  bounded_string (fc_text fct) ''fact'' (hb_max_message_bytes h),
                  bounded_opt (fc_key fct) ''fact key'' MAX_CONTROL_STRING_BYTES,
                  bounded_opt (fc_room fct) ''room'' MAX_CONTROL_STRING_BYTES,
                  bounded_opt model ''embedding model'' MAX_CONTROL_STRING_BYTES]"
| "validate_frame_bounds L h (Recall query room limit emb key) =
     first_error [payload_bound L h (Recall query room limit emb key),
                  bounded_string query ''recall query'' MAX_QUERY_BYTES,
                  bounded_opt room ''room'' MAX_CONTROL_STRING_BYTES,
                  bounded_opt key ''fact key'' MAX_CONTROL_STRING_BYTES]"
| "validate_frame_bounds L h Rooms = None"
| "validate_frame_bounds L h (Presence status activity attn) =
     first_error [bounded_string status ''presence status'' MAX_CONTROL_STRING_BYTES,
                  bounded_opt activity ''presence activity'' MAX_CONTROL_STRING_BYTES]"
| "validate_frame_bounds L h (SetAttention attn) = None"
| "validate_frame_bounds L h (PutBlob tgt sha256 sz media_type) =
     first_error [bounded_target tgt, bounded_string sha256 ''content id'' 128,
                  bounded_opt media_type ''media type'' 256]"
| "validate_frame_bounds L h (GetBlob bid) = bounded_string bid ''content id'' 128"
| "validate_frame_bounds L h Subscribe = None"
| "validate_frame_bounds L h Ping = None"

end
