(* ===== verification/Hub.thy ===== *)
theory Hub
  imports Hub_State
begin

text \<open>
  The hub server, second part: the handlers of the frames, each one definition, and their composition
  in \<open>handle_authed\<close> and \<open>dispatch\<close>; uploads; the long poll; the connection loop \<open>handle_socket\<close> as
  one function per event; and the janitor. A handler takes and returns the shared state; its result is
  an error or a frame. A write that precedes a failing statement stays, as in the code.
\<close>

type_synonym result = "(hub_error + server_frame) \<times> hub"

section \<open>Targets\<close>

definition resolve_target :: "env \<Rightarrow> authed \<Rightarrow> target \<Rightarrow> store \<Rightarrow> (hub_error + string) \<times> store" where
  "resolve_target e me tgt s =
     (case tgt of
        TRoom room \<Rightarrow>
          if \<not> is_member room (au_id me) s then (Inl (Coded NOT_MEMBER ''not a member''), s) else (Inr room, s)
      | TDm agent \<Rightarrow>
          (case find_dm_room (au_id me) agent s of
             Some room \<Rightarrow> (Inr room, s)
           | None \<Rightarrow>
               (case directory_visibility agent s of
                  Some _ \<Rightarrow>
                    let room = ''dm.'' @ gen_suffix (ev_suffix e)
                    in (Inr room, add_member room agent (ev_now e)
                          (add_member room (au_id me) (ev_now e) (ensure_room room Dm None (ev_now e) s)))
                | None \<Rightarrow> (Inl (Uncoded ''not discoverable: pair first''), s)))
      | TService service \<Rightarrow>
          let room = ''svc.'' @ token service
          in if room_kind_of room s = None then (Inl (Coded UNKNOWN_SERVICE ''no such service''), s)
             else (Inr room, add_member room (au_id me) (ev_now e) s))"

section \<open>Directory and tokens\<close>

definition handle_register :: "lib \<Rightarrow> env \<Rightarrow> authed \<Rightarrow> agent_card \<Rightarrow> visibility \<Rightarrow> string option \<Rightarrow> hub \<Rightarrow> result" where
  "handle_register L e me c vis sig h =
     (if ac_id c \<noteq> au_id me then (Inl (Coded INVALID_CARD ''card id does not match your authenticated id''), h)
      else
        let verified = (case sig of None \<Rightarrow> False
              | Some sg \<Rightarrow> lb_verify L (ac_id c) (canonical_card_bytes (lb_to_vec L) c) sg)
        in if sig \<noteq> None \<and> \<not> verified then (Inl (Coded INVALID_CARD ''card signature verification failed''), h)
           else (Inr (Registered (ac_id c) vis verified),
                 h\<lparr>hb_store := register_card (lb_lower L) c sig verified vis (ev_now e) (hb_store h)\<rparr>))"

definition ttl_ms :: "nat option \<Rightarrow> nat \<Rightarrow> int" where
  "ttl_ms ttl_secs dflt = int (min (opt_or ttl_secs dflt) MAX_TTL_SECS) * 1000"

definition handle_mint_directory_token :: "env \<Rightarrow> authed \<Rightarrow> nat option \<Rightarrow> hub \<Rightarrow> result" where
  "handle_mint_directory_token e me ttl_secs h =
     (if hb_max_active_tokens h \<le> active_token_count (au_id me) (ev_now e) (hb_store h)
      then (Inl (Coded AT_CAPACITY ''active token quota reached''), h)
      else
        let expires = ev_now e + ttl_ms ttl_secs 3600; tok = gen_token (ev_token e)
        in case mint_directory_token tok ''hub'' expires (au_id me) (ev_now e) (hb_store h) of
             (Inl er, s) \<Rightarrow> (Inl er, h\<lparr>hb_store := s\<rparr>)
           | (Inr _, s) \<Rightarrow> (Inr (DirectoryToken tok expires), h\<lparr>hb_store := s\<rparr>))"

definition handle_mint_watch :: "env \<Rightarrow> authed \<Rightarrow> string \<Rightarrow> nat option \<Rightarrow> hub \<Rightarrow> result" where
  "handle_mint_watch e me room ttl_secs h =
     (if hb_max_active_tokens h \<le> active_token_count (au_id me) (ev_now e) (hb_store h)
      then (Inl (Coded AT_CAPACITY ''active token quota reached''), h)
      else
        let expires = ev_now e + ttl_ms ttl_secs 3600; tok = gen_token (ev_token e)
        in case mint_watch_token tok room (au_id me) expires (ev_now e) (hb_store h) of
             (Inl er, s) \<Rightarrow> (Inl er, h\<lparr>hb_store := s\<rparr>)
           | (Inr _, s) \<Rightarrow> (Inr (Watch tok room expires), h\<lparr>hb_store := s\<rparr>))"

section \<open>Invites and joins\<close>

definition invite_room :: "env \<Rightarrow> room_kind \<Rightarrow> string option \<Rightarrow> nat option \<Rightarrow> string \<times> nat" where
  "invite_room e kind room max_uses =
     (let suffix = gen_suffix (ev_suffix e)
      in case kind of
           Dm \<Rightarrow> (''dm.'' @ suffix, 1)
         | Channel \<Rightarrow> (case room of Some r \<Rightarrow> token r | None \<Rightarrow> ''room.'' @ suffix, opt_or max_uses 50)
         | Service \<Rightarrow> (''svc.'' @ (case room of Some r \<Rightarrow> token r | None \<Rightarrow> suffix), opt_or max_uses 50))"

definition handle_invite ::
  "env \<Rightarrow> authed \<Rightarrow> room_kind \<Rightarrow> string option \<Rightarrow> nat option \<Rightarrow> nat option \<Rightarrow> bool \<Rightarrow> hub \<Rightarrow> result" where
  "handle_invite e me kind room ttl_secs max_uses approval h =
     (let now = ev_now e; s = hb_store h;
          expires = now + ttl_ms ttl_secs (24 * 3600);
          (room_name, uses) = invite_room e kind room max_uses;
          require_approval = (approval \<and> kind = Channel);
          existing_kind = room_kind_of room_name s
      in if existing_kind \<noteq> None \<and> \<not> is_member room_name (au_id me) s
         then (Inl (Uncoded ''room already exists: only a member can mint an invite for it''), h)
         else if existing_kind = None \<and> hb_max_owned_rooms h \<le> owned_room_count (au_id me) s
         then (Inl (Coded AT_CAPACITY ''room quota reached''), h)
         else
           let s1 = set_room_owner room_name (au_id me)
                      (add_member room_name (au_id me) now (ensure_room room_name kind None now s));
               code = gen_code (ev_code e)
           in case create_invite code room_name kind None uses expires (au_id me) require_approval now s1 of
                (Inl er, s2) \<Rightarrow> (Inl er, h\<lparr>hb_store := s2\<rparr>)
              | (Inr _, s2) \<Rightarrow>
                  (Inr (Invited code (hb_public_url h @ ''/join/'' @ code) room_name kind expires), h\<lparr>hb_store := s2\<rparr>))"

definition handle_redeem :: "env \<Rightarrow> authed \<Rightarrow> string \<Rightarrow> hub \<Rightarrow> result" where
  "handle_redeem e me code h =
     (case redeem_invite (normalize_code code) (au_id me) (ev_now e) (hb_store h) of
        (Inl er, s) \<Rightarrow> (Inl er, h\<lparr>hb_store := s\<rparr>)
      | (Inr r, s) \<Rightarrow>
          (Inr (if rd_pending r then JoinPending (rd_room r) else Joined (rd_room r) (rd_kind r)), h\<lparr>hb_store := s\<rparr>))"

definition handle_join_requests :: "authed \<Rightarrow> string \<Rightarrow> hub \<Rightarrow> result" where
  "handle_join_requests me room h =
     (case pending_join_requests room (au_id me) (hb_store h) of
        Inl er \<Rightarrow> (Inl er, h) | Inr rs \<Rightarrow> (Inr (JoinRequests_frame room rs), h))"

definition handle_resolve_join :: "env \<Rightarrow> authed \<Rightarrow> string \<Rightarrow> string \<Rightarrow> bool \<Rightarrow> hub \<Rightarrow> result" where
  "handle_resolve_join e me room agent approve h =
     (case resolve_join room (au_id me) agent approve (ev_now e) (hb_store h) of
        (Inl er, s) \<Rightarrow> (Inl er, h\<lparr>hb_store := s\<rparr>)
      | (Inr approved, s) \<Rightarrow> (Inr (JoinResolved room agent approved), notify_room room (h\<lparr>hb_store := s\<rparr>)))"

section \<open>Services\<close>

definition handle_serve :: "env \<Rightarrow> authed \<Rightarrow> string \<Rightarrow> hub \<Rightarrow> result" where
  "handle_serve e me service h =
     (let room = ''svc.'' @ token service; now = ev_now e; s = hb_store h;
          is_new = (room_kind_of room s = None)
      in if is_new \<and> hb_max_owned_rooms h \<le> owned_room_count (au_id me) s
         then (Inl (Coded AT_CAPACITY ''room quota reached''), h)
         else
           let s1 = add_member room (au_id me) now (ensure_room room Service None now s);
               s2 = (if is_new then set_room_owner room (au_id me) s1 else s1)
           in (Inr (Joined room Service), h\<lparr>hb_store := serve_role room (au_id me) service now s2\<rparr>))"

definition service_guard :: "authed \<Rightarrow> string \<Rightarrow> store \<Rightarrow> hub_error option" where
  "service_guard me room s =
     (if \<not> is_member room (au_id me) s then Some (Coded NOT_MEMBER ''not a member'')
      else if room_kind_of room s \<noteq> Some Service then Some (Coded NOT_AUTHORIZED ''not a service room'')
      else None)"

definition clamp_lease :: "nat option \<Rightarrow> nat" where
  "clamp_lease lease_secs = max 15 (min 3600 (opt_or lease_secs 300))"

definition handle_claim :: "env \<Rightarrow> authed \<Rightarrow> string \<Rightarrow> string \<Rightarrow> nat option \<Rightarrow> hub \<Rightarrow> result" where
  "handle_claim e me room message lease_secs h =
     (case service_guard me room (hb_store h) of
        Some er \<Rightarrow> (Inl er, h)
      | None \<Rightarrow>
          let (lease_until, s) = claim_service_message room message (au_id me) (clamp_lease lease_secs) (ev_now e) (hb_store h)
          in (Inr (Claimed_frame room message (lease_until \<noteq> None) lease_until), h\<lparr>hb_store := s\<rparr>))"

definition handle_queue :: "env \<Rightarrow> authed \<Rightarrow> string \<Rightarrow> string \<Rightarrow> nat option \<Rightarrow> hub \<Rightarrow> result" where
  "handle_queue e me room role limit h =
     (case service_guard me room (hb_store h) of
        Some er \<Rightarrow> (Inl er, h)
      | None \<Rightarrow> (Inr (Queued room (queued_service_messages room (au_id me) role limit (ev_now e) (hb_store h))), h))"

definition handle_complete :: "env \<Rightarrow> authed \<Rightarrow> string \<Rightarrow> string \<Rightarrow> task_status \<Rightarrow> hub \<Rightarrow> result" where
  "handle_complete e me room message status h =
     (case service_guard me room (hb_store h) of
        Some er \<Rightarrow> (Inl er, h)
      | None \<Rightarrow>
          if \<not> is_terminal status then (Inl (Coded NOT_AUTHORIZED ''a claim can only be completed with a terminal status''), h)
          else case complete_service_message room message (au_id me) status (ev_now e) (hb_store h) of
                 (Inl er, s) \<Rightarrow> (Inl er, h\<lparr>hb_store := s\<rparr>)
               | (Inr completed, s) \<Rightarrow> (Inr (Completed_frame room message completed), h\<lparr>hb_store := s\<rparr>))"

section \<open>Messages and memory\<close>

definition charge_agent :: "string \<Rightarrow> rate_kind \<Rightarrow> ms \<Rightarrow> hub \<Rightarrow> bool \<times> hub" where
  "charge_agent agent kind now h =
     (let (ok, m) = rate_allows (hb_limits h) agent kind now (hb_rate h) in (ok, h\<lparr>hb_rate := m\<rparr>))"

definition charge_room :: "string \<Rightarrow> rate_kind \<Rightarrow> ms \<Rightarrow> hub \<Rightarrow> bool \<times> hub" where
  "charge_room room kind now h =
     (let (ok, m) = room_rate_allows (hb_limits h) room kind now (hb_room_rate h) in (ok, h\<lparr>hb_room_rate := m\<rparr>))"

definition endpoint_of :: "authed \<Rightarrow> endpoint_ref" where
  "endpoint_of me = \<lparr>ep_id = au_id me, ep_name = au_name me, ep_role = au_role me\<rparr>"

text \<open>What follows a successful append: the counters and the fan-out, both skipped for a duplicate.\<close>

definition announce ::
  "env \<Rightarrow> authed \<Rightarrow> string \<Rightarrow> part list \<Rightarrow> string list option \<Rightarrow> string option \<Rightarrow> append_outcome \<Rightarrow> hub \<Rightarrow> hub" where
  "announce e me room parts mentions reply_to out h =
     (if ao_deduped out then h
      else fanout room (au_id me)
             \<lparr>sm_seq = ao_seq out, sm_id = ao_id out, sm_room = room, sm_from = endpoint_of me,
              sm_parts = parts, sm_mentions = mentions, sm_reply_to = reply_to, sm_ts = ev_now e\<rparr>
             (h\<lparr>hb_metrics := (hb_metrics h)
                  \<lparr>mt_messages_total := mt_messages_total (hb_metrics h) + 1,
                   mt_tokens_total := mt_tokens_total (hb_metrics h) + nat (ao_tokens out)\<rparr>\<rparr>))"

definition handle_send ::
  "lib \<Rightarrow> env \<Rightarrow> authed \<Rightarrow> target \<Rightarrow> part list \<Rightarrow> string list option \<Rightarrow> string option \<Rightarrow> string option \<Rightarrow> hub \<Rightarrow> result" where
  "handle_send L e me tgt parts mentions reply_to client_id h =
     (let (ok, h1) = charge_agent (au_id me) Send_kind (ev_now e) h in
      if \<not> ok then (Inl (Coded RATE_LIMITED ''rate limit: too many messages''), h1)
      else if hb_max_message_bytes h1 < parts_len L parts then (Inl (Coded TOO_LARGE ''message too large''), h1)
      else case resolve_target e me tgt (hb_store h1) of
             (Inl er, s) \<Rightarrow> (Inl er, h1\<lparr>hb_store := s\<rparr>)
           | (Inr room, s) \<Rightarrow>
               let (ok2, h2) = charge_room room Send_kind (ev_now e) (h1\<lparr>hb_store := s\<rparr>) in
               if \<not> ok2 then (Inl (Coded RATE_LIMITED ''rate limit: room is too busy''), h2)
               else
                 let ms = Option.bind mentions (normalize_mentions (lb_lower L))
                 in case append_message (ev_uuid e) room (endpoint_of me) parts ms reply_to client_id (ev_now e) (hb_store h2) of
                      (Inl er, s') \<Rightarrow> (Inl er, h2\<lparr>hb_store := s'\<rparr>)
                    | (Inr out, s') \<Rightarrow>
                        (Inr (Sent (ao_id out) (ao_seq out) room),
                         announce e me room parts ms reply_to out (h2\<lparr>hb_store := s'\<rparr>)))"

definition not_member :: "authed \<Rightarrow> string option \<Rightarrow> store \<Rightarrow> bool" where
  "not_member me room s = (case room of None \<Rightarrow> False | Some r \<Rightarrow> \<not> is_member r (au_id me) s)"

definition handle_pull :: "authed \<Rightarrow> string \<Rightarrow> int option \<Rightarrow> nat option \<Rightarrow> int option \<Rightarrow> hub \<Rightarrow> result" where
  "handle_pull me room since limit ack h =
     (if \<not> is_member room (au_id me) (hb_store h) then (Inl (Coded NOT_MEMBER ''not a member''), h)
      else let ((messages, cursor), s) = pull room (au_id me) since limit ack (hb_store h)
           in (Inr (Pulled room messages cursor), h\<lparr>hb_store := s\<rparr>))"

definition handle_remember :: "lib \<Rightarrow> env \<Rightarrow> authed \<Rightarrow> fact \<Rightarrow> embedding option \<Rightarrow> string option \<Rightarrow> hub \<Rightarrow> result" where
  "handle_remember L e me fct emb model h =
     (let s = hb_store h in
      if not_member me (fc_room fct) s then (Inl (Coded NOT_MEMBER ''not a member''), h)
      else if (case fc_key fct of None \<Rightarrow> False
               | Some k \<Rightarrow> \<not> keyed_fact_within_quota (au_id me) k (fc_room fct) (hb_max_keyed_facts h) s)
      then (Inl (Coded AT_CAPACITY ''keyed fact quota reached''), h)
      else case remember (lb_vec_dim L) (au_id me) fct (ev_now e) emb model s of
             (Inl er, s') \<Rightarrow> (Inl er, h\<lparr>hb_store := s'\<rparr>)
           | (Inr _, s') \<Rightarrow> (Inr (Remembered True), h\<lparr>hb_store := s'\<rparr>))"

definition handle_recall ::
  "lib \<Rightarrow> authed \<Rightarrow> string \<Rightarrow> string option \<Rightarrow> nat option \<Rightarrow> embedding option \<Rightarrow> string option \<Rightarrow> hub \<Rightarrow> result" where
  "handle_recall L me query room limit emb key h =
     (let s = hb_store h in
      if not_member me room s then (Inl (Coded NOT_MEMBER ''not a member''), h)
      else case (case key of Some k \<Rightarrow> if k = [] then None else Some k | None \<Rightarrow> None) of
             Some k \<Rightarrow> (Inr (Recalled (recall_by_key (au_id me) k room limit s)), h)
           | None \<Rightarrow>
               (case recall (lb_alnum L) (lb_lower L) (lb_fts L) (lb_knn L) (lb_hash_order L) (lb_vec_dim L)
                       (au_id me) query room limit emb s of
                  Inl er \<Rightarrow> (Inl er, h) | Inr hits \<Rightarrow> (Inr (Recalled hits), h)))"

definition handle_delete_room :: "authed \<Rightarrow> string \<Rightarrow> hub \<Rightarrow> result" where
  "handle_delete_room me room h =
     (case delete_room room (au_id me) (hb_store h) of
        (Inl er, s) \<Rightarrow> (Inl er, h\<lparr>hb_store := s\<rparr>)
      | (Inr _, s) \<Rightarrow> (Inr (RoomDeleted room), notify_room room (h\<lparr>hb_store := s\<rparr>)))"

definition handle_roster :: "env \<Rightarrow> authed \<Rightarrow> string \<Rightarrow> hub \<Rightarrow> result" where
  "handle_roster e me room h =
     (if \<not> is_member room (au_id me) (hb_store h) then (Inl (Coded NOT_MEMBER ''not a member''), h)
      else (Inr (Roster_frame room (roster room (ev_now e) (hb_store h))), h))"

section \<open>The handler of authenticated frames\<close>

fun handle_authed :: "lib \<Rightarrow> env \<Rightarrow> authed \<Rightarrow> client_frame \<Rightarrow> hub \<Rightarrow> result" where
  "handle_authed L e me (Hello aid name role nonce sig secret) h = (Inl (Coded INTERNAL ''unreachable''), h)"
| "handle_authed L e me (Register c vis sig) h = handle_register L e me c vis sig h"
| "handle_authed L e me (Discover scope query tag skill status limit) h =
     (Inr (Directory (discover (lb_lower L) scope (hb_name h) query tag skill status limit (ev_now e) (hb_store h))), h)"
| "handle_authed L e me (Lookup aid) h =
     (Inr (Card_frame (lookup_card aid (hb_name h) True (ev_now e) (hb_store h))), h)"
| "handle_authed L e me (MintDirectoryToken ttl) h = handle_mint_directory_token e me ttl h"
| "handle_authed L e me (MintWatch room ttl) h = handle_mint_watch e me room ttl h"
| "handle_authed L e me (Invite kind room ttl uses approval) h = handle_invite e me kind room ttl uses approval h"
| "handle_authed L e me (Redeem code) h = handle_redeem e me code h"
| "handle_authed L e me (JoinRequests room) h = handle_join_requests me room h"
| "handle_authed L e me (ResolveJoin room agent approve) h = handle_resolve_join e me room agent approve h"
| "handle_authed L e me (Serve service) h = handle_serve e me service h"
| "handle_authed L e me (Claim room message lease) h = handle_claim e me room message lease h"
| "handle_authed L e me (Queue room role limit) h = handle_queue e me room role limit h"
| "handle_authed L e me (Complete room message status) h = handle_complete e me room message status h"
| "handle_authed L e me (Send tgt parts mentions reply_to client_id) h =
     handle_send L e me tgt parts mentions reply_to client_id h"
| "handle_authed L e me (Pull room since limit wait ack) h = handle_pull me room since limit ack h"
| "handle_authed L e me (Remember fct emb model) h = handle_remember L e me fct emb model h"
| "handle_authed L e me (Recall query room limit emb key) h = handle_recall L me query room limit emb key h"
| "handle_authed L e me Rooms h = (Inr (Rooms_frame (rooms_of (au_id me) (hb_store h))), h)"
| "handle_authed L e me (DeleteRoom room) h = handle_delete_room me room h"
| "handle_authed L e me (Roster room) h = handle_roster e me room h"
| "handle_authed L e me (Presence status activity attn) h =
     (Inr PresenceOk, h\<lparr>hb_store := touch_presence (au_id me) status activity attn (ev_now e) (hb_store h)\<rparr>)"
| "handle_authed L e me (SetAttention attn) h =
     (Inr AttentionOk, h\<lparr>hb_store := set_attention (au_id me) attn (ev_now e) (hb_store h)\<rparr>)"
| "handle_authed L e me Ping h = (Inr Pong, h\<lparr>hb_store := refresh_presence (au_id me) (ev_now e) (hb_store h)\<rparr>)"
| "handle_authed L e me (PutBlob tgt sha256 sz media_type) h = (Inl (Coded INTERNAL ''unreachable''), h)"
| "handle_authed L e me (GetBlob bid) h = (Inl (Coded INTERNAL ''unreachable''), h)"
| "handle_authed L e me Subscribe h = (Inl (Coded INTERNAL ''unreachable''), h)"

section \<open>Blobs\<close>

text \<open>
  A permit is returned to the semaphore when the upload that holds it is dropped: on every error after
  the acquisition, when a new reservation replaces it, and when the upload ends.
\<close>

definition release :: "pending_upload option \<Rightarrow> hub \<Rightarrow> hub" where
  "release p h = (case p of None \<Rightarrow> h | Some u \<Rightarrow> h\<lparr>hb_inflight := hb_inflight h + pu_permit u\<rparr>)"

definition u32_max :: nat where "u32_max = 4294967295"
definition u64_max :: nat where "u64_max = 18446744073709551615"

definition handle_put_blob ::
  "env \<Rightarrow> authed \<Rightarrow> target \<Rightarrow> string \<Rightarrow> nat \<Rightarrow> string option \<Rightarrow> conn_state \<Rightarrow> hub
    \<Rightarrow> (hub_error + reply) \<times> conn_state \<times> hub" where
  "handle_put_blob e me tgt sha256 sz media_type conn h =
     (let permits = max (hb_max_blob_bytes h) 1 in
      if hb_max_blob_bytes h < sz then (Inl (Coded TOO_LARGE ''blob too large''), conn, h)
      else if u32_max < permits then (Inl (Coded TOO_LARGE ''blob is too large for the in-flight upload budget''), conn, h)
      else if hb_inflight h < permits then (Inl (Coded AT_CAPACITY ''hub upload capacity is busy''), conn, h)
      else
        let h0 = h\<lparr>hb_inflight := hb_inflight h - permits\<rparr>;
            drop_permit = (\<lambda>g. g\<lparr>hb_inflight := hb_inflight g + permits\<rparr>);
            (ok, h1) = charge_agent (au_id me) Blob_kind (ev_now e) h0
        in if \<not> ok then (Inl (Coded RATE_LIMITED ''rate limit: too many blob uploads''), conn, drop_permit h1)
           else if hb_max_blob_dir_bytes h1 < min u64_max (nat (max (total_blob_bytes (hb_store h1)) 0) + sz)
           then (Inl (Coded STORAGE_FULL ''hub blob storage is full''), conn, drop_permit h1)
           else case resolve_target e me tgt (hb_store h1) of
                  (Inl er, s) \<Rightarrow> (Inl er, conn, drop_permit (h1\<lparr>hb_store := s\<rparr>))
                | (Inr room, s) \<Rightarrow>
                    let (ok2, h2) = charge_room room Blob_kind (ev_now e) (h1\<lparr>hb_store := s\<rparr>)
                    in if \<not> ok2 then (Inl (Coded RATE_LIMITED ''rate limit: room has too many uploads''), conn, drop_permit h2)
                       else (Inr (Frame (BlobReady sha256)),
                             conn\<lparr>cn_pending := Some \<lparr>pu_id = sha256, pu_room = room, pu_author = au_id me,
                                    pu_size = sz, pu_media_type = media_type, pu_permit = permits\<rparr>\<rparr>,
                             release (cn_pending conn) h2))"

definition handle_get_blob :: "env \<Rightarrow> authed \<Rightarrow> string \<Rightarrow> hub \<Rightarrow> (hub_error + reply) \<times> hub" where
  "handle_get_blob e me bid h =
     (case blob_meta bid (hb_store h) of
        None \<Rightarrow> (Inl (Coded UNKNOWN_BLOB ''no such blob''), h)
      | Some m \<Rightarrow>
          if \<not> blob_readable_by bid (au_id me) (hb_store h)
          then (Inl (Coded NOT_AUTHORIZED ''not authorized to fetch blob''), h)
          else (Inr (FrameThenFile (BlobIncoming bid (nat (bl_size m)) (bl_media_type m)) bid),
                h\<lparr>hb_store := touch_blob_fetched bid (ev_now e) (hb_store h)\<rparr>))"

definition finish_blob_upload :: "lib \<Rightarrow> env \<Rightarrow> pending_upload \<Rightarrow> string \<Rightarrow> hub \<Rightarrow> server_frame \<times> hub" where
  "finish_blob_upload L e p data h =
     (let bid = lb_content_id L data;
          done = (\<lambda>f g. (f, release (Some p) g)) in
      if length data \<noteq> pu_size p then done (error_coded PROTOCOL ''blob size mismatch'') h
      else if hb_max_blob_bytes h < length data then done (error_coded TOO_LARGE ''blob too large'') h
      else if bid \<noteq> pu_id p then done (error_coded PROTOCOL ''content id mismatch'') h
      else case ev_write_fails e of
             Some left \<Rightarrow> done (error_coded INTERNAL ''failed to store blob'') (h\<lparr>hb_blob_dir := (hb_blob_dir h)(bid := left)\<rparr>)
           | None \<Rightarrow>
               done (BlobStored bid (length data))
                 (h\<lparr>hb_blob_dir := (hb_blob_dir h)(bid \<mapsto> data),
                    hb_store := put_blob_meta bid (pu_room p) (pu_author p) (pu_media_type p)
                      (int (length data)) (ev_now e) (hb_store h)\<rparr>))"

section \<open>The handshake\<close>

definition verify_sig :: "lib \<Rightarrow> string \<Rightarrow> string \<Rightarrow> string \<Rightarrow> bool" where
  "verify_sig L aid nonce sig = lb_verify L aid nonce sig"

definition hello_bounds :: "string \<Rightarrow> string \<Rightarrow> string option \<Rightarrow> string option \<Rightarrow> string option \<Rightarrow> hub_error option" where
  "hello_bounds aid name role sig secret =
     first_error [bounded_string aid ''agent id'' 256, bounded_string name ''agent name'' 256,
                  bounded_opt role ''agent role'' 256, bounded_opt sig ''signature'' 512,
                  bounded_opt secret ''join secret'' MAX_CONTROL_STRING_BYTES]"

definition handle_hello ::
  "lib \<Rightarrow> env \<Rightarrow> string \<Rightarrow> string \<Rightarrow> string option \<Rightarrow> string option \<Rightarrow> string option \<Rightarrow> conn_state \<Rightarrow> hub
    \<Rightarrow> server_frame \<times> conn_state \<times> hub" where
  "handle_hello L e aid name role sig secret conn h =
     (case hello_bounds aid name role sig secret of
        Some er \<Rightarrow> (error_frame er, conn, h)
      | None \<Rightarrow>
          (case sig of
             None \<Rightarrow>
               let nonce = issue_challenge (lb_content_id L) (hb_public_url h) (ev_now e) (ev_uuid e)
               in (Challenge nonce (Some PROTOCOL_VERSION), conn\<lparr>cn_nonce := Some nonce\<rparr>, h)
           | Some sg \<Rightarrow>
               (case cn_nonce conn of
                  None \<Rightarrow> (error_coded PROTOCOL ''no challenge issued'', conn, h)
                | Some nonce \<Rightarrow>
                    if \<not> challenge_valid (lb_content_id L) nonce (hb_public_url h) (ev_now e)
                    then (error_coded UNAUTHENTICATED ''challenge expired'', conn, h)
                    else if \<not> verify_sig L aid nonce sg
                    then (error_coded UNAUTHENTICATED ''signature verification failed'', conn, h)
                    else if (case hb_join_secret h of None \<Rightarrow> False | Some expected \<Rightarrow> \<not> secret_matches expected secret)
                    then (error_coded NOT_AUTHORIZED ''this hub requires a join secret'', conn, h)
                    else (Welcome aid name,
                          conn\<lparr>cn_authed := Some \<lparr>au_id = aid, au_name = name, au_role = role\<rparr>\<rparr>,
                          h\<lparr>hb_store := touch_presence aid ''idle'' None None (ev_now e)
                               (upsert_agent aid name role (ev_now e) (hb_store h))\<rparr>))))"

section \<open>Dispatch\<close>

definition as_reply :: "hub_error + reply \<Rightarrow> reply" where
  "as_reply r = (case r of Inl er \<Rightarrow> Frame (error_frame er) | Inr f \<Rightarrow> f)"

definition dispatch_authed ::
  "lib \<Rightarrow> env \<Rightarrow> authed \<Rightarrow> client_frame \<Rightarrow> conn_state \<Rightarrow> hub \<Rightarrow> reply \<times> conn_state \<times> hub" where
  "dispatch_authed L e me frame conn h =
     (case frame of
        PutBlob tgt sha256 sz media_type \<Rightarrow>
          let (r, conn', h') = handle_put_blob e me tgt sha256 sz media_type conn h in (as_reply r, conn', h')
      | GetBlob bid \<Rightarrow> let (r, h') = handle_get_blob e me bid h in (as_reply r, conn, h')
      | Subscribe \<Rightarrow>
          (Frame Subscribed, conn,
           case cn_push_tx conn of None \<Rightarrow> h | Some tx \<Rightarrow> subscribe (au_id me) (cn_conn_id conn) tx h)
      | _ \<Rightarrow>
          let (r, h') = handle_authed L e me frame h
          in (as_reply (case r of Inl er \<Rightarrow> Inl er | Inr f \<Rightarrow> Inr (Frame f)), conn, h'))"

text \<open>The counter of hello frames is a saturating byte.\<close>

definition dispatch :: "lib \<Rightarrow> env \<Rightarrow> client_frame \<Rightarrow> conn_state \<Rightarrow> hub \<Rightarrow> reply \<times> conn_state \<times> hub" where
  "dispatch L e frame conn h =
     (case frame of
        Hello aid name role nonce sig secret \<Rightarrow>
          if cn_authed conn \<noteq> None
          then (Frame (error_coded PROTOCOL ''connection is already authenticated''), conn, h)
          else
            let conn1 = conn\<lparr>cn_hello_frames := min 255 (cn_hello_frames conn + 1)\<rparr>
            in if 4 < cn_hello_frames conn1
               then (Frame (error_coded RATE_LIMITED ''too many authentication attempts on this connection''), conn1, h)
               else let (f, conn2, h') = handle_hello L e aid name role sig secret conn1 h in (Frame f, conn2, h')
      | _ \<Rightarrow>
          (case cn_authed conn of
             None \<Rightarrow> (Frame (error_coded UNAUTHENTICATED ''not authenticated: send hello first''), conn, h)
           | Some me \<Rightarrow>
               let (ok, h1) = charge_agent (au_id me) Operation (ev_now e) h in
               if \<not> ok then (Frame (error_coded RATE_LIMITED ''rate limit: too many operations''), conn, h1)
               else case validate_frame_bounds L h1 frame of
                      Some er \<Rightarrow> (Frame (error_frame er), conn, h1)
                    | None \<Rightarrow> dispatch_authed L e me frame conn h1))"

section \<open>The long poll\<close>

text \<open>
  \<open>waited_pull\<close> up to its first park, and one turn of its loop. A parked request holds the number of
  wake-ups it has seen; it runs again when the number has changed or the deadline has passed.
\<close>

record parked =
  pk_room :: string
  pk_limit :: "nat option"
  pk_ack :: "int option"
  pk_seen :: nat
  pk_deadline :: ms

datatype waited = WDone server_frame | WParked parked

definition waited_poll :: "env \<Rightarrow> authed \<Rightarrow> parked \<Rightarrow> hub \<Rightarrow> waited \<times> hub" where
  "waited_poll e me p h =
     (let (seen, h1) = room_notify (pk_room p) h;
          ((messages, cursor), s) = pull (pk_room p) (au_id me) None (pk_limit p) (pk_ack p) (hb_store h1);
          h2 = h1\<lparr>hb_store := s\<rparr>
      in if messages \<noteq> [] \<or> pk_deadline p \<le> ev_now e
         then (WDone (Pulled (pk_room p) messages cursor), h2)
         else (WParked (p\<lparr>pk_seen := seen\<rparr>), h2))"

definition waited_pull ::
  "env \<Rightarrow> authed \<Rightarrow> string \<Rightarrow> int option \<Rightarrow> nat option \<Rightarrow> int option \<Rightarrow> nat \<Rightarrow> hub \<Rightarrow> waited \<times> hub" where
  "waited_pull e me room since limit ack wait_secs h =
     (if \<not> is_member room (au_id me) (hb_store h) then (WDone (error_frame (Coded NOT_MEMBER ''not a member'')), h)
      else
        let ((messages, cursor), s) = pull room (au_id me) since limit ack (hb_store h);
            h1 = h\<lparr>hb_store := s\<rparr>
        in if since \<noteq> None \<or> messages \<noteq> [] then (WDone (Pulled room messages cursor), h1)
           else waited_poll e me
                  \<lparr>pk_room = room, pk_limit = limit, pk_ack = ack, pk_seen = 0,
                   pk_deadline = ev_now e + int (min wait_secs MAX_WAIT_SECS) * 1000\<rparr> h1)"

section \<open>The connection loop\<close>

text \<open>
  What a socket delivers: a text frame of some length with its parse (none when malformed), a binary
  frame, a ping, a close, anything else. What is written back is a list of frames, blob bytes and
  pongs. A connection is its \<open>ConnState\<close> and, while a long poll is served, the parked request.
\<close>

datatype ws_message = WsText nat "client_frame option" | WsBinary string | WsPing string | WsClose | WsOther
datatype ws_out = OFrame server_frame | OBinary string | OPong string

record socket =
  sk_conn :: conn_state
  sk_parked :: "parked option"

definition send_reply :: "reply \<Rightarrow> hub \<Rightarrow> ws_out list" where
  "send_reply r h =
     (case r of
        Frame f \<Rightarrow> [OFrame f]
      | FrameThenFile f path \<Rightarrow>
          (case hb_blob_dir h path of
             Some bytes \<Rightarrow> [OFrame f, OBinary bytes]
           | None \<Rightarrow> [OFrame (error_coded INTERNAL ''blob bytes unavailable'')]))"

definition open_socket :: "hub \<Rightarrow> ws_out list \<times> socket option \<times> hub" where
  "open_socket h =
     (if hb_max_connections h \<le> hb_conn_count h
      then ([OFrame (error_coded AT_CAPACITY ''hub at capacity'')], None, h)
      else
        let (cid, h1) = next_conn_id h
        in ([], Some \<lparr>sk_conn = \<lparr>cn_nonce = None, cn_authed = None, cn_pending = None, cn_conn_id = cid,
                                 cn_push_tx = Some cid, cn_hello_frames = 0\<rparr>, sk_parked = None\<rparr>,
            h1\<lparr>hb_conn_count := hb_conn_count h + 1,
               hb_metrics := (hb_metrics h)\<lparr>mt_connections_total := mt_connections_total (hb_metrics h) + 1\<rparr>,
               hb_channels := (hb_channels h)(cid \<mapsto> [])\<rparr>))"

definition close_socket :: "socket \<Rightarrow> hub \<Rightarrow> hub" where
  "close_socket k h =
     (let conn = sk_conn k;
          h1 = (case cn_authed conn of None \<Rightarrow> h | Some me \<Rightarrow> unsubscribe (au_id me) (cn_conn_id conn) h);
          h2 = release (cn_pending conn) h1
      in h2\<lparr>hb_conn_count := hb_conn_count h2 - 1,
            hb_channels := (case cn_push_tx conn of None \<Rightarrow> hb_channels h2 | Some tx \<Rightarrow> (hb_channels h2)(tx := None))\<rparr>)"

definition of_waited :: "waited \<times> hub \<Rightarrow> conn_state \<Rightarrow> ws_out list \<times> socket option \<times> hub" where
  "of_waited r conn =
     (case r of
        (WDone f, h) \<Rightarrow> ([OFrame f], Some \<lparr>sk_conn = conn, sk_parked = None\<rparr>, h)
      | (WParked p, h) \<Rightarrow> ([], Some \<lparr>sk_conn = conn, sk_parked = Some p\<rparr>, h))"

text \<open>One received message. No socket in the result means that the loop was left.\<close>

fun on_message :: "lib \<Rightarrow> env \<Rightarrow> ws_message \<Rightarrow> conn_state \<Rightarrow> hub \<Rightarrow> ws_out list \<times> socket option \<times> hub" where
  "on_message L e (WsText len parsed) conn h =
     (let keep = (\<lambda>c. Some \<lparr>sk_conn = c, sk_parked = None\<rparr>) in
      if hb_max_text_frame_bytes h < len
      then ([OFrame (error_coded TOO_LARGE ''structured frame too large'')], None, h)
      else case parsed of
             None \<Rightarrow> ([OFrame (error_coded BAD_FRAME ''malformed frame'')], keep conn, h)
           | Some frame \<Rightarrow>
               (case (frame, cn_authed conn) of
                  (Pull room since limit (Some secs) ack, Some me) \<Rightarrow>
                    of_waited (waited_pull e me room since limit ack secs h) conn
                | _ \<Rightarrow> let (r, conn', h') = dispatch L e frame conn h in (send_reply r h', keep conn', h')))"
| "on_message L e (WsBinary data) conn h =
     (case cn_pending conn of
        None \<Rightarrow> ([OFrame (error_coded PROTOCOL ''unexpected binary frame (no PutBlob in flight)'')], None, h)
      | Some p \<Rightarrow>
          let (f, h') = finish_blob_upload L e p data h
          in ([OFrame f], Some \<lparr>sk_conn = conn\<lparr>cn_pending := None\<rparr>, sk_parked = None\<rparr>, h'))"
| "on_message L e (WsPing p) conn h = ([OPong p], Some \<lparr>sk_conn = conn, sk_parked = None\<rparr>, h)"
| "on_message L e WsClose conn h = ([], None, h)"
| "on_message L e WsOther conn h = ([], Some \<lparr>sk_conn = conn, sk_parked = None\<rparr>, h)"

definition idle_bound :: "conn_state \<Rightarrow> hub \<Rightarrow> nat option" where
  "idle_bound conn h = (if cn_authed conn \<noteq> None then hb_idle_timeout h else Some HANDSHAKE_TIMEOUT)"

definition on_idle :: "conn_state \<Rightarrow> ws_out list" where
  "on_idle conn = (if cn_authed conn \<noteq> None then [] else [OFrame (error_coded TIMEOUT ''handshake timed out'')])"

section \<open>The janitor\<close>

definition prune_rate_windows :: "ms \<Rightarrow> hub \<Rightarrow> hub" where
  "prune_rate_windows now h =
     h\<lparr>hb_rate := prune_agent_windows now (hb_rate h), hb_room_rate := prune_room_windows now (hb_room_rate h),
       hb_http_rate := prune_ip_windows now (hb_http_rate h),
       hb_waitlist_rate := prune_ip_windows now (hb_waitlist_rate h)\<rparr>"

definition janitor_pass :: "retention \<Rightarrow> ms \<Rightarrow> store \<Rightarrow> string list \<times> store" where
  "janitor_pass r now s =
     (let s1 = snd (sweep_expired now s);
          s2 = (case rt_message_max_age r of None \<Rightarrow> s1
                | Some age \<Rightarrow> snd (prune_messages age (rt_keep_messages_per_room r) now s1));
          s3 = (case rt_keep_unkeyed_facts r of None \<Rightarrow> s2 | Some keep \<Rightarrow> snd (prune_facts keep s2))
      in case rt_blob_max_idle r of None \<Rightarrow> ([], s3) | Some idle \<Rightarrow> gc_blobs idle now s3)"

definition run_janitor :: "ms \<Rightarrow> hub \<Rightarrow> hub" where
  "run_janitor now h =
     (let (stale, s) = janitor_pass (hb_retention h) now (hb_store h)
      in prune_rate_windows now
           (h\<lparr>hb_store := s, hb_blob_dir := (\<lambda>f. if f \<in> set stale then None else hb_blob_dir h f)\<rparr>))"

end
