(* ===== verification/Hub_Monitor.thy ===== *)
theory Hub_Monitor
  imports Hub
begin

text \<open>
  The authorisation matrix of the hub and the refinement to it. \<open>store_op\<close> lists every write the hub
  makes to the store and \<open>apply_op\<close> runs one. \<open>authorised L me s q\<close> says when a connection that is
  authenticated as \<open>me\<close> may run \<open>q\<close> on the store \<open>s\<close>; this is the abstract specification of access
  control. The refinement lemmas show that whatever a frame does to the store is a sequence of
  authorised writes, and the invariant of the store is proved once per write.
\<close>

section \<open>The writes of the hub\<close>

datatype store_op =
    SUpsert string string "string option" ms
  | STouch string string "string option" "attention option" ms
  | SRefresh string ms
  | SAttention string attention ms
  | SEnsure string room_kind ms
  | SAddMember string string ms
  | SOwner string string
  | SInvite string string room_kind nat ms string bool ms
  | SRedeem string string ms
  | SResolve string string string bool ms
  | SServe string string string ms
  | SClaim string string string nat ms
  | SComplete string string string task_status ms
  | SSend string string endpoint_ref "part list" "string list option" "string option" "string option" ms
  | SPull string string "int option" "nat option" "int option"
  | SRemember string fact ms "embedding option" "string option"
  | SRegister agent_card "string option" bool visibility ms
  | SDirectoryToken string ms string ms
  | SWatchToken string string string ms ms
  | SDelete string string
  | SFetched string ms
  | SPutBlob string string string "string option" int ms
  | SSweep ms
  | SPruneMessages int int ms
  | SPruneFacts int
  | SGcBlobs int ms

fun apply_op :: "lib \<Rightarrow> store_op \<Rightarrow> store \<Rightarrow> store" where
  "apply_op L (SUpsert aid name role now) s = upsert_agent aid name role now s"
| "apply_op L (STouch aid status activity attn now) s = touch_presence aid status activity attn now s"
| "apply_op L (SRefresh aid now) s = refresh_presence aid now s"
| "apply_op L (SAttention aid attn now) s = set_attention aid attn now s"
| "apply_op L (SEnsure room kind now) s = ensure_room room kind None now s"
| "apply_op L (SAddMember room agent now) s = add_member room agent now s"
| "apply_op L (SOwner room owner) s = set_room_owner room owner s"
| "apply_op L (SInvite code room kind uses expires creator approval now) s =
     snd (create_invite code room kind None uses expires creator approval now s)"
| "apply_op L (SRedeem code agent now) s = snd (redeem_invite code agent now s)"
| "apply_op L (SResolve room owner agent approve now) s = snd (resolve_join room owner agent approve now s)"
| "apply_op L (SServe room agent role now) s = serve_role room agent role now s"
| "apply_op L (SClaim room msg worker lease now) s = snd (claim_service_message room msg worker lease now s)"
| "apply_op L (SComplete room msg worker status now) s = snd (complete_service_message room msg worker status now s)"
| "apply_op L (SSend mid room ep parts mentions reply_to client_id now) s =
     snd (append_message mid room ep parts mentions reply_to client_id now s)"
| "apply_op L (SPull room agent since limit ack) s = snd (pull room agent since limit ack s)"
| "apply_op L (SRemember author fct now emb model) s = snd (remember (lb_vec_dim L) author fct now emb model s)"
| "apply_op L (SRegister c sig verified vis now) s = register_card (lb_lower L) c sig verified vis now s"
| "apply_op L (SDirectoryToken tok expires creator now) s = snd (mint_directory_token tok ''hub'' expires creator now s)"
| "apply_op L (SWatchToken tok room owner expires now) s = snd (mint_watch_token tok room owner expires now s)"
| "apply_op L (SDelete room owner) s = snd (delete_room room owner s)"
| "apply_op L (SFetched bid now) s = touch_blob_fetched bid now s"
| "apply_op L (SPutBlob bid room author media_type sz now) s = put_blob_meta bid room author media_type sz now s"
| "apply_op L (SSweep now) s = snd (sweep_expired now s)"
| "apply_op L (SPruneMessages retain keep now) s = snd (prune_messages retain keep now s)"
| "apply_op L (SPruneFacts keep) s = snd (prune_facts keep s)"
| "apply_op L (SGcBlobs idle now) s = snd (gc_blobs idle now s)"

section \<open>Authorisation\<close>

definition room_empty :: "string \<Rightarrow> store \<Rightarrow> bool" where
  "room_empty room s = (room_member_ids room s = [])"

definition is_service_name :: "string \<Rightarrow> bool" where
  "is_service_name room = (take 4 room = ''svc.'')"

definition is_dm_name :: "string \<Rightarrow> bool" where
  "is_dm_name room = (take 3 room = ''dm.'')"

text \<open>
  Under its own id only; membership is gained by opening a room nobody is in, by entering a service,
  through a code, through the owner's approval, or by being the listed peer of a direct message.
  Sending, reading, claiming and remembering in a room need membership; a card is one's own and a
  signature on it has been verified; a blob is read through a room one is in. The janitor's writes
  and the one of an upload belong to no frame.
\<close>

fun authorised :: "lib \<Rightarrow> authed \<Rightarrow> store \<Rightarrow> store_op \<Rightarrow> bool" where
  "authorised L me s (STouch aid status activity attn now) = (aid = au_id me)"
| "authorised L me s (SRefresh aid now) = (aid = au_id me)"
| "authorised L me s (SAttention aid attn now) = (aid = au_id me)"
| "authorised L me s (SEnsure room kind now) = True"
| "authorised L me s (SAddMember room agent now) =
     (if agent = au_id me then is_member room agent s \<or> room_empty room s \<or> is_service_name room
      else is_dm_name room \<and> is_member room (au_id me) s \<and> directory_visibility agent s \<noteq> None)"
| "authorised L me s (SOwner room owner) = (owner = au_id me \<and> is_member room owner s)"
| "authorised L me s (SInvite code room kind uses expires creator approval now) =
     (creator = au_id me \<and> is_member room creator s \<and> expires \<le> now + int MAX_TTL_SECS * 1000)"
| "authorised L me s (SRedeem code agent now) = (agent = au_id me)"
| "authorised L me s (SResolve room owner agent approve now) = (owner = au_id me)"
| "authorised L me s (SServe room agent role now) = (agent = au_id me \<and> is_member room agent s)"
| "authorised L me s (SClaim room msg worker lease now) =
     (worker = au_id me \<and> is_member room worker s \<and> room_kind_of room s = Some Service \<and> 15 \<le> lease \<and> lease \<le> 3600)"
| "authorised L me s (SComplete room msg worker status now) =
     (worker = au_id me \<and> is_member room worker s \<and> room_kind_of room s = Some Service \<and> is_terminal status)"
| "authorised L me s (SSend mid room ep parts mentions reply_to client_id now) =
     (ep = endpoint_of me \<and> is_member room (au_id me) s)"
| "authorised L me s (SPull room agent since limit ack) = (agent = au_id me \<and> is_member room agent s)"
| "authorised L me s (SRemember author fct now emb model) =
     (author = au_id me \<and> (case fc_room fct of None \<Rightarrow> True | Some r \<Rightarrow> is_member r author s))"
| "authorised L me s (SRegister c sig verified vis now) =
     (ac_id c = au_id me \<and> verified = (sig \<noteq> None)
      \<and> (case sig of None \<Rightarrow> True | Some sg \<Rightarrow> lb_verify L (ac_id c) (canonical_card_bytes (lb_to_vec L) c) sg))"
| "authorised L me s (SDirectoryToken tok expires creator now) =
     (creator = au_id me \<and> expires \<le> now + int MAX_TTL_SECS * 1000)"
| "authorised L me s (SWatchToken tok room owner expires now) =
     (owner = au_id me \<and> expires \<le> now + int MAX_TTL_SECS * 1000)"
| "authorised L me s (SDelete room owner) = (owner = au_id me)"
| "authorised L me s (SFetched bid now) = blob_readable_by bid (au_id me) s"
| "authorised L me s q = False"

section \<open>The invariant of the store\<close>

definition rooms_ok :: "store \<Rightarrow> bool" where
  "rooms_ok s =
     (keys_ok rm_name (st_rooms s) \<and> (\<forall>r \<in> set (st_rooms s). room_kind_parse (rm_kind r) \<noteq> None)
      \<and> mb_room ` set (st_members s) \<subseteq> rm_name ` set (st_rooms s)
      \<and> iv_room ` set (st_invites s) \<subseteq> rm_name ` set (st_rooms s))"

definition keyed_ok :: "store \<Rightarrow> bool" where
  "keyed_ok s =
     (keys_ok ag_id (st_agents s) \<and> keys_ok pr_agent (st_presence s) \<and> keys_ok member_key_of (st_members s)
      \<and> keys_ok iv_code (st_invites s) \<and> keys_ok dt_token (st_tokens s) \<and> keys_ok bl_id (st_blobs s))"

definition store_ok :: "store \<Rightarrow> bool" where
  "store_ok s =
     (log_ok s \<and> client_ids_ok s \<and> claims_ok s \<and> dispatch_ok s \<and> facts_ok s \<and> blob_refs_ok s \<and> rooms_ok s \<and> keyed_ok s)"

text \<open>
  What a write relies on: the id drawn for a message is not in the dispatch table, and a member or an
  invite is added to a room that exists.
\<close>

fun op_ok :: "store \<Rightarrow> store_op \<Rightarrow> bool" where
  "op_ok s (SSend mid room ep parts mentions reply_to client_id now) = (mid \<notin> sd_message ` set (st_dispatches s))"
| "op_ok s (SAddMember room agent now) = (room \<in> rm_name ` set (st_rooms s))"
| "op_ok s (SInvite code room kind uses expires creator approval now) = (room \<in> rm_name ` set (st_rooms s))"
| "op_ok s q = True"

lemmas op_defs = upsert_agent_def touch_presence_def refresh_presence_def set_attention_def ensure_room_def
  add_member_def set_room_owner_def create_invite_def redeem_invite_def charge_use_def resolve_join_def
  serve_role_def claim_service_message_def complete_service_message_def append_message_def pull_def set_cursor_def
  remember_def insert_fact_def register_card_def mint_directory_token_def mint_watch_token_def delete_room_def
  touch_blob_fetched_def put_blob_meta_def sweep_expired_def prune_messages_def prune_facts_def gc_blobs_def

lemma image_update_where: "(\<And>r. key (f r) = key r) \<Longrightarrow> key ` set (update_where p f rows) = key ` set rows"
  unfolding update_where_def set_map image_image by (rule image_cong) auto

lemma apply_op_messages:
  "(case q of SSend _ _ _ _ _ _ _ _ \<Rightarrow> False | SDelete _ _ \<Rightarrow> False | SPruneMessages _ _ _ \<Rightarrow> False | _ \<Rightarrow> True)
   \<Longrightarrow> st_messages (apply_op L q s) = st_messages s \<and> st_next_seq (apply_op L q s) = st_next_seq s
     \<and> st_dispatches (apply_op L q s) = st_dispatches s"
  by (cases q) (simp_all add: op_defs Let_def split: option.splits if_splits prod.splits)

lemma apply_op_claims:
  "(case q of SClaim _ _ _ _ _ \<Rightarrow> False | SComplete _ _ _ _ _ \<Rightarrow> False | _ \<Rightarrow> True)
   \<Longrightarrow> st_claims (apply_op L q s) = st_claims s"
  by (cases q) (simp_all add: op_defs Let_def split: option.splits if_splits prod.splits)

lemma apply_op_facts:
  "(case q of SRemember _ _ _ _ _ \<Rightarrow> False | SDelete _ _ \<Rightarrow> False | SPruneFacts _ \<Rightarrow> False | _ \<Rightarrow> True)
   \<Longrightarrow> st_facts (apply_op L q s) = st_facts s \<and> st_next_fact (apply_op L q s) = st_next_fact s"
  by (cases q) (simp_all add: op_defs Let_def split: option.splits if_splits prod.splits)

lemma apply_op_blobs:
  "(case q of SFetched _ _ \<Rightarrow> False | SPutBlob _ _ _ _ _ _ \<Rightarrow> False | SDelete _ _ \<Rightarrow> False | SGcBlobs _ _ \<Rightarrow> False | _ \<Rightarrow> True)
   \<Longrightarrow> st_blobs (apply_op L q s) = st_blobs s \<and> st_blob_rooms (apply_op L q s) = st_blob_rooms s"
  by (cases q) (simp_all add: op_defs Let_def split: option.splits if_splits prod.splits)

lemma log_ok_sub:
  assumes "log_ok s" "st_messages t = filter p (st_messages s)" "st_next_seq t = st_next_seq s"
  shows "log_ok t"
  using assms by (auto simp: log_ok_def sorted_wrt_map sorted_wrt_filter distinct_map_filter)

lemma log_ok_op:
  assumes "log_ok s"
  shows "log_ok (apply_op L q s)"
proof (cases q)
  case (SSend mid room ep parts mentions reply_to client_id now)
  with append_log_ok [OF assms] show ?thesis by simp
next
  case (SDelete room owner)
  then show ?thesis
    using assms log_ok_sub [OF assms, of "apply_op L q s" "\<lambda>g. mg_room g \<noteq> room"]
    by (auto simp: delete_room_def delete_where_def)
next
  case (SPruneMessages retain keep now)
  then show ?thesis
    by (intro log_ok_sub [OF assms]) (auto simp: prune_messages_def delete_where_def Let_def)
qed (use assms apply_op_messages [of q L s] in \<open>simp_all add: log_ok_def\<close>)

lemma client_ids_op:
  assumes "client_ids_ok s"
  shows "client_ids_ok (apply_op L q s)"
proof (cases q)
  case (SSend mid room ep parts mentions reply_to client_id now)
  with append_client_ids [OF assms] show ?thesis by simp
next
  case (SDelete room owner)
  with assms show ?thesis by (auto simp: delete_room_def delete_where_def client_ids_ok_def)
next
  case (SPruneMessages retain keep now)
  with assms show ?thesis by (auto simp: prune_messages_def delete_where_def client_ids_ok_def Let_def)
qed (use assms apply_op_messages [of q L s] in \<open>simp_all add: client_ids_ok_def\<close>)

lemma dispatch_ok_op:
  assumes "dispatch_ok s" "op_ok s q"
  shows "dispatch_ok (apply_op L q s)"
proof (cases q)
  case (SSend mid room ep parts mentions reply_to client_id now)
  with append_dispatch_ok [OF assms(1)] assms(2) show ?thesis by simp
next
  case (SDelete room owner)
  with assms(1) show ?thesis by (auto simp: delete_room_def delete_where_def dispatch_ok_def)
next
  case (SPruneMessages retain keep now)
  with assms(1) show ?thesis by (auto simp: prune_messages_def delete_where_def dispatch_ok_def Let_def)
qed (use assms apply_op_messages [of q L s] in \<open>simp_all add: dispatch_ok_def\<close>)

lemma claims_ok_op:
  assumes "claims_ok s"
  shows "claims_ok (apply_op L q s)"
proof (cases q)
  case (SClaim room msg worker lease now)
  with run_op_claims_ok [OF assms, of "QClaim room msg worker lease now"] show ?thesis
    by (simp split: prod.splits option.splits)
next
  case (SComplete room msg worker status now)
  with run_op_claims_ok [OF assms, of "QComplete room msg worker status now"] show ?thesis
    by (simp split: prod.splits option.splits sum.splits bool.splits)
qed (use assms apply_op_claims [of q L s] in \<open>simp_all add: claims_ok_def\<close>)

lemma facts_ok_sub:
  assumes "facts_ok s" "st_facts t = filter p (st_facts s)" "st_next_fact t = st_next_fact s"
  shows "facts_ok t"
proof -
  have "length (filter (same_fact author room key) (filter p (st_facts s))) \<le> 1" for author room key
    using assms(1) length_filter_le [of p "filter (same_fact author room key) (st_facts s)"]
    by (auto simp: facts_ok_def filter_filter conj_commute intro: order_trans)
  with assms show ?thesis by (auto simp: facts_ok_def sorted_wrt_map sorted_wrt_filter)
qed

lemma facts_ok_op:
  assumes "facts_ok s"
  shows "facts_ok (apply_op L q s)"
proof (cases q)
  case (SRemember author fct now emb model)
  with remember_ok [OF assms] show ?thesis by simp
next
  case (SDelete room owner)
  then show ?thesis
    using assms facts_ok_sub [OF assms, of "apply_op L q s" "\<lambda>f. fa_room f \<noteq> Some room"]
    by (auto simp: delete_room_def delete_where_def)
next
  case (SPruneFacts keep)
  then show ?thesis
    by (intro facts_ok_sub [OF assms]) (auto simp: prune_facts_def delete_where_def Let_def)
qed (use assms apply_op_facts [of q L s] in \<open>simp_all add: facts_ok_def\<close>)

lemma blob_refs_op:
  assumes "blob_refs_ok s" "keys_ok bl_id (st_blobs s)"
  shows "blob_refs_ok (apply_op L q s)"
proof (cases q)
  case (SGcBlobs idle now)
  with gc_blobs_props(3) [OF assms(2,1)] show ?thesis by (metis apply_op.simps(26) prod.collapse)
next
  case (SFetched bid now)
  with assms(1) show ?thesis by (simp add: touch_blob_fetched_def blob_refs_ok_def image_update_where)
next
  case (SPutBlob bid room author media_type sz now)
  with assms(1) show ?thesis
    by (auto simp: put_blob_meta_def blob_refs_ok_def set_insert_or_ignore split: if_splits)
next
  case (SDelete room owner)
  with assms(1) show ?thesis by (auto simp: delete_room_def blob_refs_ok_def delete_where_def)
qed (use assms apply_op_blobs [of q L s] in \<open>simp_all add: blob_refs_ok_def\<close>)

text \<open>The tables of rooms, members and invites: what each write does to the room names in them.\<close>

lemma rooms_of_op:
  assumes "keys_ok rm_name (st_rooms s)" "\<forall>r \<in> set (st_rooms s). room_kind_parse (rm_kind r) \<noteq> None"
  shows "keys_ok rm_name (st_rooms (apply_op L q s))
    \<and> (\<forall>r \<in> set (st_rooms (apply_op L q s)). room_kind_parse (rm_kind r) \<noteq> None)"
proof (cases q)
  case (SEnsure room kind now)
  with assms show ?thesis
    by (cases kind) (auto simp: ensure_room_def set_insert_or_ignore room_kind_parse_def split: if_splits)
next
  case (SOwner room owner)
  with assms show ?thesis by (auto simp: set_room_owner_def keys_ok_update) (auto simp: update_where_def)
next
  case (SDelete room owner)
  with assms show ?thesis by (auto simp: delete_room_def keys_ok_delete set_delete_where)
qed (use assms in \<open>auto simp: op_defs Let_def split: option.splits if_splits prod.splits\<close>)

abbreviation room_names :: "store \<Rightarrow> string set" where
  "room_names s \<equiv> rm_name ` set (st_rooms s)"

lemma room_names_op: "(\<And>room owner. q \<noteq> SDelete room owner) \<Longrightarrow> room_names s \<subseteq> room_names (apply_op L q s)"
  by (cases q) (auto simp: op_defs Let_def set_insert_or_ignore image_update_where
      split: option.splits if_splits prod.splits)

lemma room_owned_name: "room_owned_by room owner s \<Longrightarrow> room \<in> room_names s"
  by (auto simp: room_owned_by_def filter_empty_conv)

lemma member_rooms_op:
  assumes "mb_room ` set (st_members s) \<subseteq> room_names s" "iv_room ` set (st_invites s) \<subseteq> room_names s" "op_ok s q"
    and "\<And>room owner. q \<noteq> SDelete room owner"
  shows "mb_room ` set (st_members (apply_op L q s)) \<subseteq> room_names s \<and> iv_room ` set (st_invites (apply_op L q s)) \<subseteq> room_names s"
proof (cases q)
  case (SRedeem code agent now)
  have "lookup_key iv_code code (st_invites s) = Some i \<Longrightarrow> iv_room i \<in> room_names s" for i
    using assms(2) lookup_key_in [of iv_code code "st_invites s" i] by auto
  with assms SRedeem show ?thesis
    by (auto simp: redeem_invite_def charge_use_def add_member_def Let_def set_insert_or_ignore image_update_where
        split: option.splits if_splits)
next
  case (SResolve room owner agent approve now)
  with assms show ?thesis
    by (auto simp: resolve_join_def add_member_def Let_def set_insert_or_ignore dest: room_owned_name split: if_splits)
next
  case (SSweep now)
  with assms show ?thesis by (auto simp: sweep_expired_def delete_where_def)
next
  case (SPull room agent since limit ack)
  have "mb_room ` set (st_members (snd (pull room agent since limit ack s))) = mb_room ` set (st_members s)"
    by (auto simp: pull_def set_cursor_def Let_def image_update_where split: option.splits if_splits)
  moreover have "st_invites (snd (pull room agent since limit ack s)) = st_invites s"
    by (auto simp: pull_def set_cursor_def Let_def split: option.splits if_splits)
  ultimately show ?thesis using assms SPull by simp
qed (use assms in \<open>auto simp: op_defs Let_def set_insert_or_ignore split: option.splits if_splits prod.splits\<close>)

lemma rooms_ok_op:
  assumes "rooms_ok s" "op_ok s q"
  shows "rooms_ok (apply_op L q s)"
proof (cases "\<exists>room owner. q = SDelete room owner")
  case True
  then obtain room owner where "q = SDelete room owner" by blast
  with assms(1) show ?thesis
    by (cases "room_owned_by room owner s")
      (auto simp: rooms_ok_def delete_room_def keys_ok_delete set_delete_where split: if_splits)
next
  case False
  then have nd: "\<And>room owner. q \<noteq> SDelete room owner" by blast
  have "mb_room ` set (st_members (apply_op L q s)) \<subseteq> room_names s \<and> iv_room ` set (st_invites (apply_op L q s)) \<subseteq> room_names s"
    by (rule member_rooms_op) (use assms nd in \<open>simp_all add: rooms_ok_def\<close>)
  with room_names_op [OF nd, of s L] rooms_of_op [of s L q] assms(1) show ?thesis
    unfolding rooms_ok_def by (meson subset_trans)
qed

lemma keyed_ok_op:
  assumes "keyed_ok s"
  shows "keyed_ok (apply_op L q s)"
proof (cases q)
  case (SInvite code room kind uses expires creator approval now)
  with assms show ?thesis
    by (auto simp: create_invite_def keyed_ok_def keys_ok_snoc split: if_splits)
next
  case (SDirectoryToken tok expires creator now)
  with assms show ?thesis
    by (auto simp: mint_directory_token_def keyed_ok_def keys_ok_snoc split: if_splits)
next
  case (SWatchToken tok room owner expires now)
  with assms show ?thesis
    by (auto simp: mint_watch_token_def mint_directory_token_def keyed_ok_def keys_ok_snoc split: if_splits)
qed (use assms in \<open>auto simp: op_defs keyed_ok_def Let_def keys_ok_update keys_ok_delete keys_ok_upsert
    split: option.splits if_splits prod.splits\<close>)

theorem store_ok_op:
  assumes "store_ok s" "op_ok s q"
  shows "store_ok (apply_op L q s)"
  using assms log_ok_op client_ids_op claims_ok_op dispatch_ok_op facts_ok_op blob_refs_op rooms_ok_op keyed_ok_op
  unfolding store_ok_def keyed_ok_def by meson

section \<open>Runs of authorised writes\<close>

inductive monitored :: "lib \<Rightarrow> authed \<Rightarrow> store \<Rightarrow> store_op list \<Rightarrow> store \<Rightarrow> bool" for L me where
  monitored_done: "monitored L me s [] s"
| monitored_op: "authorised L me s q \<Longrightarrow> op_ok s q \<Longrightarrow> monitored L me (apply_op L q s) qs s' \<Longrightarrow> monitored L me s (q # qs) s'"

inductive_simps monitored_Nil [simp]: "monitored L me s [] s'"
inductive_simps monitored_Cons [simp]: "monitored L me s (q # qs) s'"

lemma monitored_append: "monitored L me s (qs @ rs) s' \<longleftrightarrow> (\<exists>t. monitored L me s qs t \<and> monitored L me t rs s')"
  by (induction qs arbitrary: s) auto

lemma monitored_store_ok: "monitored L me s qs s' \<Longrightarrow> store_ok s \<Longrightarrow> store_ok s'"
  by (induction rule: monitored.induct) (auto intro: store_ok_op)

text \<open>
  The draws of a frame: the message id is not in the dispatch table and the name of a direct message
  room that would be opened is not in use.
\<close>

definition fresh_env :: "env \<Rightarrow> store \<Rightarrow> bool" where
  "fresh_env e s =
     (ev_uuid e \<notin> sd_message ` set (st_dispatches s) \<and> room_kind_of (''dm.'' @ gen_suffix (ev_suffix e)) s = None)"

definition refines :: "lib \<Rightarrow> authed \<Rightarrow> store \<Rightarrow> store \<Rightarrow> bool" where
  "refines L me s s' = (\<exists>qs. monitored L me s qs s')"

lemma refines_refl [simp, intro]: "refines L me s s"
  unfolding refines_def by (rule exI [of _ "[]"]) simp

lemma refines_op: "authorised L me s q \<Longrightarrow> op_ok s q \<Longrightarrow> refines L me s (apply_op L q s)"
  unfolding refines_def by (rule exI [of _ "[q]"]) simp

lemma refines_trans [trans]: "refines L me s t \<Longrightarrow> refines L me t u \<Longrightarrow> refines L me s u"
  unfolding refines_def using monitored_append by metis

lemma refines_store_ok: "refines L me s s' \<Longrightarrow> store_ok s \<Longrightarrow> store_ok s'"
  by (auto simp: refines_def dest: monitored_store_ok)

lemma room_kind_None: "rooms_ok s \<Longrightarrow> room_kind_of room s = None \<longleftrightarrow> room \<notin> room_names s"
  unfolding room_kind_of_def rooms_ok_def
  by (auto split: option.splits simp: find_None_iff dest!: find_SomeD)

lemma is_member_name: "rooms_ok s \<Longrightarrow> is_member room agent s \<Longrightarrow> room \<in> room_names s"
  by (auto simp: rooms_ok_def is_member_iff)

lemma unnamed_empty: "rooms_ok s \<Longrightarrow> room \<notin> room_names s \<Longrightarrow> room_empty room s"
  by (auto simp: rooms_ok_def room_empty_def room_member_ids_def filter_empty_conv)

lemma is_member_ensure [simp]: "is_member r a (ensure_room room kind d now s) = is_member r a s"
  and is_member_owner [simp]: "is_member r a (set_room_owner room owner s) = is_member r a s"
  by (simp_all add: is_member_iff ensure_room_def set_room_owner_def)

lemma room_empty_ensure [simp]: "room_empty room (ensure_room r kind d now s) = room_empty room s"
  by (simp add: room_empty_def room_member_ids_def ensure_room_def)

lemma dispatches_room [simp]:
  "st_dispatches (ensure_room room kind d now s) = st_dispatches s"
  "st_dispatches (add_member room agent now s) = st_dispatches s"
  "st_dispatches (set_room_owner room owner s) = st_dispatches s"
  by (simp_all add: ensure_room_def add_member_def set_room_owner_def)

lemma directory_room [simp]:
  "directory_visibility a (ensure_room room kind d now s) = directory_visibility a s"
  "directory_visibility a (add_member room agent now s) = directory_visibility a s"
  by (simp_all add: ensure_room_def add_member_def directory_visibility_def)

lemma room_names_ensure [simp]: "room_names (ensure_room r kind d now s) = insert r (room_names s)"
  by (auto simp: ensure_room_def set_insert_or_ignore)

lemma room_names_add [simp]: "room_names (add_member room agent now s) = room_names s"
  by (simp add: add_member_def)

lemma room_names_owner [simp]: "room_names (set_room_owner room owner s) = room_names s"
  by (simp add: set_room_owner_def image_update_where)

text \<open>Entering a room that one opens, is in, or that is a service.\<close>

lemma refines_enter:
  assumes "rooms_ok s" "is_member room (au_id me) s \<or> room \<notin> room_names s \<or> is_service_name room"
  shows "refines L me s (add_member room (au_id me) now (ensure_room room kind None now s))"
proof -
  have "refines L me s (ensure_room room kind None now s)"
    using refines_op [of L me s "SEnsure room kind now"] by simp
  also have "refines L me (ensure_room room kind None now s) (add_member room (au_id me) now (ensure_room room kind None now s))"
    using refines_op [of L me "ensure_room room kind None now s" "SAddMember room (au_id me) now"] assms
    by (auto simp: unnamed_empty)
  finally show ?thesis .
qed

lemma refines_resolve_target:
  assumes "fresh_env e s" "store_ok s" "resolve_target e me tgt s = (r, s')"
  shows "refines L me s s'" and "r = Inr room \<Longrightarrow> is_member room (au_id me) s'"
    and "st_dispatches s' = st_dispatches s"
proof -
  have ok: "rooms_ok s" using assms(2) by (simp add: store_ok_def)
  have "refines L me s s' \<and> (\<forall>room. r = Inr room \<longrightarrow> is_member room (au_id me) s') \<and> st_dispatches s' = st_dispatches s"
  proof (cases tgt)
    case (TRoom room)
    with assms(3) show ?thesis by (auto simp: resolve_target_def split: if_splits)
  next
    case (TService service)
    let ?room = "''svc.'' @ token service"
    have "refines L me s (add_member ?room (au_id me) (ev_now e) s)" if "room_kind_of ?room s \<noteq> None"
      using refines_op [of L me s "SAddMember ?room (au_id me) (ev_now e)"] that room_kind_None [OF ok]
      by (auto simp: is_service_name_def)
    with TService assms(3) show ?thesis
      by (auto simp: resolve_target_def Let_def is_member_add split: if_splits)
  next
    case (TDm agent)
    let ?room = "''dm.'' @ gen_suffix (ev_suffix e)"
    let ?s1 = "add_member ?room (au_id me) (ev_now e) (ensure_room ?room Dm None (ev_now e) s)"
    show ?thesis
    proof (cases "find_dm_room (au_id me) agent s")
      case (Some room)
      then have "is_member room (au_id me) s"
        by (auto simp: find_dm_room_def is_member_iff dest!: find_SomeD)
      with Some TDm assms(3) show ?thesis by (auto simp: resolve_target_def)
    next
      case None
      have new: "?room \<notin> room_names s" using assms(1) room_kind_None [OF ok] by (simp add: fresh_env_def)
      have "refines L me s ?s1" by (rule refines_enter [OF ok]) (use new in blast)
      also have "refines L me ?s1 (add_member ?room agent (ev_now e) ?s1)" if "directory_visibility agent s \<noteq> None"
        using refines_op [of L me ?s1 "SAddMember ?room agent (ev_now e)"] that
        by (auto simp: is_member_add is_dm_name_def)
      finally show ?thesis using TDm None assms(3)
        by (auto simp: resolve_target_def Let_def is_member_add split: option.splits)
    qed
  qed
  then show "refines L me s s'" "r = Inr room \<Longrightarrow> is_member room (au_id me) s'" "st_dispatches s' = st_dispatches s"
    by blast+
qed

section \<open>The handlers refine the matrix\<close>

abbreviation refined :: "lib \<Rightarrow> authed \<Rightarrow> hub \<Rightarrow> hub \<Rightarrow> bool" where
  "refined L me h h' \<equiv> refines L me (hb_store h) (hb_store h')"

lemma store_notify [simp]: "hb_store (notify_room room h) = hb_store h"
  by (simp add: notify_room_def split: option.splits)

lemma store_push_conns [simp]: "hb_store (snd (push_conns f ss h)) = hb_store h"
  by (induction ss arbitrary: h) (auto simp: Let_def case_prod_beta split: option.splits)

lemma store_push_member [simp]: "hb_store (push_member author f h member) = hb_store h"
  by (simp add: push_member_def Let_def case_prod_beta split: option.splits)

lemma store_push_members [simp]: "hb_store (foldl (push_member author f) h ms) = hb_store h"
  by (induction ms arbitrary: h) simp_all

lemma store_fanout [simp]: "hb_store (fanout room author msg h) = hb_store h"
  by (simp add: fanout_def Let_def)

lemma store_announce [simp]: "hb_store (announce e me room parts men rep out h) = hb_store h"
  by (simp add: announce_def)

lemma charge_agent_store: "charge_agent agent kind now h = (ok, h') \<Longrightarrow> hb_store h' = hb_store h"
  by (auto simp: charge_agent_def split: prod.splits)

lemma charge_room_store: "charge_room room kind now h = (ok, h') \<Longrightarrow> hb_store h' = hb_store h"
  by (auto simp: charge_room_def split: prod.splits)

lemma ttl_bound: "ttl_ms ttl d \<le> int MAX_TTL_SECS * 1000"
  by (simp add: ttl_ms_def)

lemma refined_register: "refined L me h (snd (handle_register L e me c vis sig h))"
  using refines_op [of L me "hb_store h" "SRegister c sig True vis (ev_now e)"]
    refines_op [of L me "hb_store h" "SRegister c sig False vis (ev_now e)"]
  by (auto simp: handle_register_def Let_def split: option.splits)

lemma refined_mint_directory_token: "refined L me h (snd (handle_mint_directory_token e me ttl h))"
  using refines_op [of L me "hb_store h" "SDirectoryToken (gen_token (ev_token e)) (ev_now e + ttl_ms ttl 3600) (au_id me) (ev_now e)"]
  by (auto simp: handle_mint_directory_token_def Let_def ttl_bound split: prod.splits sum.splits)

lemma refined_mint_watch: "refined L me h (snd (handle_mint_watch e me room ttl h))"
  using refines_op [of L me "hb_store h" "SWatchToken (gen_token (ev_token e)) room (au_id me) (ev_now e + ttl_ms ttl 3600) (ev_now e)"]
  by (auto simp: handle_mint_watch_def Let_def ttl_bound split: prod.splits sum.splits)

lemma refined_redeem: "refined L me h (snd (handle_redeem e me code h))"
  using refines_op [of L me "hb_store h" "SRedeem (normalize_code code) (au_id me) (ev_now e)"]
  by (auto simp: handle_redeem_def split: prod.splits sum.splits)

lemma refined_resolve_join: "refined L me h (snd (handle_resolve_join e me room agent approve h))"
  using refines_op [of L me "hb_store h" "SResolve room (au_id me) agent approve (ev_now e)"]
  by (auto simp: handle_resolve_join_def split: prod.splits sum.splits)

lemma clamp_bounds: "15 \<le> clamp_lease l" "clamp_lease l \<le> 3600"
  by (simp_all add: clamp_lease_def)

lemma service_guard_None:
  "service_guard me room s = None \<longleftrightarrow> is_member room (au_id me) s \<and> room_kind_of room s = Some Service"
  by (simp add: service_guard_def)

lemma refined_claim: "refined L me h (snd (handle_claim e me room message lease h))"
  using refines_op [of L me "hb_store h" "SClaim room message (au_id me) (clamp_lease lease) (ev_now e)"]
  by (auto simp: handle_claim_def service_guard_None clamp_bounds Let_def split: prod.splits option.splits)

lemma refined_complete: "refined L me h (snd (handle_complete e me room message status h))"
  using refines_op [of L me "hb_store h" "SComplete room message (au_id me) status (ev_now e)"]
  by (auto simp: handle_complete_def service_guard_None split: prod.splits option.splits sum.splits)

lemma refined_pull: "refined L me h (snd (handle_pull me room since limit ack h))"
  using refines_op [of L me "hb_store h" "SPull room (au_id me) since limit ack"]
  by (auto simp: handle_pull_def Let_def split: prod.splits)

lemma refined_remember: "refined L me h (snd (handle_remember L e me fct emb model h))"
  using refines_op [of L me "hb_store h" "SRemember (au_id me) fct (ev_now e) emb model"]
  by (auto simp: handle_remember_def not_member_def Let_def split: prod.splits option.splits sum.splits if_splits)

lemma refined_delete_room: "refined L me h (snd (handle_delete_room me room h))"
  using refines_op [of L me "hb_store h" "SDelete room (au_id me)"]
  by (auto simp: handle_delete_room_def split: prod.splits sum.splits)

lemma refined_get_blob: "refined L me h (snd (handle_get_blob e me bid h))"
  using refines_op [of L me "hb_store h" "SFetched bid (ev_now e)"]
  by (auto simp: handle_get_blob_def split: option.splits)

lemma refined_invite:
  assumes "store_ok (hb_store h)"
  shows "refined L me h (snd (handle_invite e me kind room ttl uses approval h))"
proof -
  let ?s = "hb_store h" and ?now = "ev_now e"
  obtain r n where rn: "invite_room e kind room uses = (r, n)" by (cases "invite_room e kind room uses")
  let ?s1 = "add_member r (au_id me) ?now (ensure_room r kind None ?now ?s)"
  let ?s2 = "set_room_owner r (au_id me) ?s1"
  let ?q = "SInvite (gen_code (ev_code e)) r kind n (?now + ttl_ms ttl (24 * 3600)) (au_id me) (approval \<and> kind = Channel) ?now"
  have ok: "rooms_ok ?s" using assms by (simp add: store_ok_def)
  have "refines L me ?s (apply_op L ?q ?s2)" if "room_kind_of r ?s = None \<or> is_member r (au_id me) ?s"
  proof -
    have "refines L me ?s ?s1"
      by (rule refines_enter [OF ok]) (use that room_kind_None [OF ok] in blast)
    also have "refines L me ?s1 ?s2"
      using refines_op [of L me ?s1 "SOwner r (au_id me)"] by (simp add: is_member_add)
    also have "refines L me ?s2 (apply_op L ?q ?s2)"
      by (rule refines_op) (auto simp: is_member_add ttl_bound)
    finally show ?thesis .
  qed
  then show ?thesis
    by (auto simp: handle_invite_def rn Let_def split: prod.splits sum.splits)
qed

lemma refined_serve:
  assumes "store_ok (hb_store h)"
  shows "refined L me h (snd (handle_serve e me service h))"
proof -
  let ?s = "hb_store h" and ?now = "ev_now e" and ?r = "''svc.'' @ token service"
  let ?s1 = "add_member ?r (au_id me) ?now (ensure_room ?r Service None ?now ?s)"
  let ?s2 = "if room_kind_of ?r ?s = None then set_room_owner ?r (au_id me) ?s1 else ?s1"
  have ok: "rooms_ok ?s" using assms by (simp add: store_ok_def)
  have "refines L me ?s ?s1" by (rule refines_enter [OF ok]) (simp add: is_service_name_def)
  also have "refines L me ?s1 ?s2"
    using refines_op [of L me ?s1 "SOwner ?r (au_id me)"] by (simp add: is_member_add)
  also have "refines L me ?s2 (serve_role ?r (au_id me) service ?now ?s2)"
    using refines_op [of L me ?s2 "SServe ?r (au_id me) service ?now"] by (simp add: is_member_add)
  finally show ?thesis by (auto simp: handle_serve_def Let_def)
qed

lemma refined_send:
  assumes "store_ok (hb_store h)" "fresh_env e (hb_store h)"
  shows "refined L me h (snd (handle_send L e me tgt parts mentions reply_to client_id h))"
proof -
  obtain ok h1 where c1: "charge_agent (au_id me) Send_kind (ev_now e) h = (ok, h1)" by fastforce
  obtain r s1 where rt: "resolve_target e me tgt (hb_store h) = (r, s1)" by fastforce
  note h1 = charge_agent_store [OF c1]
  note res = refines_resolve_target [OF assms(2,1) rt]
  show ?thesis
  proof (cases r)
    case (Inl er)
    with c1 rt h1 res(1) show ?thesis by (auto simp: handle_send_def Let_def)
  next
    case (Inr room)
    obtain ok2 h2 where c2: "charge_room room Send_kind (ev_now e) (h1\<lparr>hb_store := s1\<rparr>) = (ok2, h2)" by fastforce
    have h2: "hb_store h2 = s1" using charge_room_store [OF c2] by simp
    let ?q = "SSend (ev_uuid e) room (endpoint_of me) parts (Option.bind mentions (normalize_mentions (lb_lower L)))
        reply_to client_id (ev_now e)"
    have "refines L me s1 (apply_op L ?q s1)"
      by (rule refines_op) (use res(2) Inr res(3) assms(2) in \<open>auto simp: fresh_env_def\<close>)
    then have "refines L me (hb_store h) (apply_op L ?q s1)" by (rule refines_trans [OF res(1)])
    with c1 c2 rt h1 h2 Inr res(1) show ?thesis
      by (auto simp: handle_send_def Let_def split: prod.splits sum.splits)
  qed
qed

lemma store_release [simp]: "hb_store (release p h) = hb_store h"
  by (simp add: release_def split: option.splits)

lemma refined_put_blob:
  assumes "store_ok (hb_store h)" "fresh_env e (hb_store h)"
  shows "refined L me h (snd (snd (handle_put_blob e me tgt sha256 sz mt conn h)))"
proof -
  let ?h0 = "h\<lparr>hb_inflight := hb_inflight h - max (hb_max_blob_bytes h) 1\<rparr>"
  obtain ok h1 where c1: "charge_agent (au_id me) Blob_kind (ev_now e) ?h0 = (ok, h1)" by fastforce
  obtain r s1 where rt: "resolve_target e me tgt (hb_store h) = (r, s1)" by fastforce
  have h1: "hb_store h1 = hb_store h" using charge_agent_store [OF c1] by simp
  note res = refines_resolve_target [OF assms(2,1) rt]
  have c2: "charge_room room Blob_kind (ev_now e) (h1\<lparr>hb_store := s1\<rparr>) = (b, h2) \<Longrightarrow> hb_store h2 = s1" for room b h2
    by (drule charge_room_store) simp
  show ?thesis
    using c1 rt h1 res(1) by (cases r) (auto simp: handle_put_blob_def Let_def split: prod.splits dest!: c2)
qed

lemma refined_authed:
  assumes "store_ok (hb_store h)" "fresh_env e (hb_store h)"
  shows "refined L me h (snd (handle_authed L e me frame h))"
proof (cases frame)
  case (Presence status activity attn)
  then show ?thesis using refines_op [of L me "hb_store h" "STouch (au_id me) status activity attn (ev_now e)"] by simp
next
  case (SetAttention attn)
  then show ?thesis using refines_op [of L me "hb_store h" "SAttention (au_id me) attn (ev_now e)"] by simp
next
  case Ping
  then show ?thesis using refines_op [of L me "hb_store h" "SRefresh (au_id me) (ev_now e)"] by simp
next
  case (JoinRequests room)
  then show ?thesis by (simp add: handle_join_requests_def split: sum.splits)
next
  case (Queue room role limit)
  then show ?thesis by (simp add: handle_queue_def split: option.splits)
next
  case (Recall query room limit emb key)
  then show ?thesis by (simp add: handle_recall_def Let_def split: sum.splits option.splits)
next
  case (Roster room)
  then show ?thesis by (simp add: handle_roster_def)
qed (simp_all add: assms refined_register refined_mint_directory_token refined_mint_watch refined_redeem
    refined_resolve_join refined_claim refined_complete refined_pull refined_remember refined_delete_room
    refined_invite refined_serve refined_send)

lemma store_subscribe [simp]: "hb_store (subscribe a c tx h) = hb_store h"
  by (simp add: subscribe_def Let_def)

lemma refined_dispatch_authed:
  assumes "store_ok (hb_store h)" "fresh_env e (hb_store h)"
  shows "refined L me h (snd (snd (dispatch_authed L e me frame conn h)))"
  using refined_authed [OF assms, of L me frame] refined_get_blob refined_put_blob [OF assms]
  by (cases frame) (simp_all add: dispatch_authed_def case_prod_beta Let_def split: option.splits)

text \<open>Every frame of an authenticated connection.\<close>

lemma refined_dispatch:
  assumes "store_ok (hb_store h)" "fresh_env e (hb_store h)" "cn_authed conn = Some me"
  shows "refined L me h (snd (snd (dispatch L e frame conn h)))"
proof -
  obtain ok h1 where c: "charge_agent (au_id me) Operation (ev_now e) h = (ok, h1)" by fastforce
  have h1: "hb_store h1 = hb_store h" by (rule charge_agent_store [OF c])
  have "refined L me h1 (snd (snd (dispatch_authed L e me frame conn h1)))"
    by (rule refined_dispatch_authed) (use assms h1 in simp_all)
  with c h1 assms(3) show ?thesis by (cases "validate_frame_bounds L h1 frame"; cases frame)
      (simp_all add: dispatch_def del: validate_frame_bounds.simps)
qed

end
