(* ===== verification/Transition.thy ===== *)
theory Transition
  imports Main
begin

text \<open>
  Transition systems: the reachable states of a step relation, and the two contracts by which an
  invariant is established, as locales. A system interprets \<open>invariant\<close> once per invariant it keeps by
  itself, and \<open>relative_invariant\<close> for one whose preservation needs another.
\<close>

inductive reachable :: "('s \<Rightarrow> bool) \<Rightarrow> ('s \<Rightarrow> 's \<Rightarrow> bool) \<Rightarrow> 's \<Rightarrow> bool" for init step where
  reachable_init: "init s \<Longrightarrow> reachable init step s"
| reachable_step: "reachable init step s \<Longrightarrow> step s t \<Longrightarrow> reachable init step t"

locale invariant =
  fixes init :: "'s \<Rightarrow> bool" and step :: "'s \<Rightarrow> 's \<Rightarrow> bool" and inv :: "'s \<Rightarrow> bool"
  assumes inv_init: "init s \<Longrightarrow> inv s"
    and inv_step: "inv s \<Longrightarrow> step s t \<Longrightarrow> inv t"
begin

lemma holds: "reachable init step s \<Longrightarrow> inv s"
  by (induction rule: reachable.induct) (auto intro: inv_init inv_step)

lemma holds_run: "step\<^sup>*\<^sup>* s t \<Longrightarrow> inv s \<Longrightarrow> inv t"
  by (induction rule: rtranclp_induct) (auto intro: inv_step)

end

locale relative_invariant = base: invariant init step base
  for init :: "'s \<Rightarrow> bool" and step :: "'s \<Rightarrow> 's \<Rightarrow> bool" and base :: "'s \<Rightarrow> bool" +
  fixes rel :: "'s \<Rightarrow> bool"
  assumes rel_init: "init s \<Longrightarrow> rel s"
    and rel_step: "base s \<Longrightarrow> rel s \<Longrightarrow> step s t \<Longrightarrow> rel t"

sublocale relative_invariant \<subseteq> both: invariant init step "\<lambda>s. base s \<and> rel s"
  by unfold_locales (auto intro: base.inv_init base.inv_step rel_init rel_step)

end
