(* ===== verification/Hub_System.thy ===== *)
theory Hub_System
  imports Hub_Monitor Transition
begin

text \<open>
  The running hub as a transition system: any number of connections, each at its own pace, over one
  shared state. A step accepts or closes a connection, handles one received message, polls a parked
  request again, hands a queued push to its socket, or runs the janitor. The code serialises its
  steps by the locks it takes; a step here is one of these units. Invariants are proved by
  interpreting the contracts of the theory of transition systems.
\<close>

section \<open>The step relation\<close>

record sys =
  sy_hub :: hub
  sy_socks :: "nat \<Rightarrow> socket option"

abbreviation sys_store :: "sys \<Rightarrow> store" where
  "sys_store y \<equiv> hb_store (sy_hub y)"

text \<open>Any configuration, with \<open>budget\<close> permits in the semaphore and nothing stored or connected.\<close>

definition hub_init :: "nat \<Rightarrow> sys \<Rightarrow> bool" where
  "hub_init budget y =
     (hb_inflight (sy_hub y) = budget \<and> sys_store y = empty_store \<and> sy_socks y = Map.empty \<and> hb_blob_dir (sy_hub y) = Map.empty
      \<and> hb_subscribers (sy_hub y) = [] \<and> hb_channels (sy_hub y) = Map.empty \<and> hb_conn_count (sy_hub y) = 0)"

text \<open>
  A message is taken from a socket only when no request is parked on it. The parked request runs when
  its room was notified since it last looked, or past its deadline.
\<close>

definition woken :: "ms \<Rightarrow> parked \<Rightarrow> hub \<Rightarrow> bool" where
  "woken now p h = (map_of (hb_notifiers h) (pk_room p) \<noteq> Some (pk_seen p) \<or> pk_deadline p \<le> now)"

definition pop_push :: "nat \<Rightarrow> server_frame list \<Rightarrow> hub \<Rightarrow> hub" where
  "pop_push c q h = h\<lparr>hb_channels := (hb_channels h)(c \<mapsto> q)\<rparr>"

inductive hub_step :: "lib \<Rightarrow> sys \<Rightarrow> sys \<Rightarrow> bool" for L where
  accept: "open_socket (sy_hub y) = (outs, Some k, h') \<Longrightarrow>
     hub_step L y (y\<lparr>sy_hub := h', sy_socks := (sy_socks y)(cn_conn_id (sk_conn k) \<mapsto> k)\<rparr>)"
| receive: "sy_socks y c = Some k \<Longrightarrow> sk_parked k = None \<Longrightarrow> fresh_env e (sys_store y) \<Longrightarrow>
     on_message L e m (sk_conn k) (sy_hub y) = (outs, Some k', h') \<Longrightarrow>
     hub_step L y (y\<lparr>sy_hub := h', sy_socks := (sy_socks y)(c \<mapsto> k')\<rparr>)"
| leave: "sy_socks y c = Some k \<Longrightarrow> sk_parked k = None \<Longrightarrow> on_message L e m (sk_conn k) (sy_hub y) = (outs, None, h') \<Longrightarrow>
     hub_step L y (y\<lparr>sy_hub := close_socket k h', sy_socks := (sy_socks y)(c := None)\<rparr>)"
| drop: "sy_socks y c = Some k \<Longrightarrow>
     hub_step L y (y\<lparr>sy_hub := close_socket k (sy_hub y), sy_socks := (sy_socks y)(c := None)\<rparr>)"
| wake: "sy_socks y c = Some k \<Longrightarrow> sk_parked k = Some p \<Longrightarrow> cn_authed (sk_conn k) = Some me \<Longrightarrow>
     woken (ev_now e) p (sy_hub y) \<Longrightarrow>
     of_waited (waited_poll e me p (sy_hub y)) (sk_conn k) = (outs, Some k', h') \<Longrightarrow>
     hub_step L y (y\<lparr>sy_hub := h', sy_socks := (sy_socks y)(c \<mapsto> k')\<rparr>)"
| push: "sy_socks y c = Some k \<Longrightarrow> hb_channels (sy_hub y) c = Some (f # q) \<Longrightarrow>
     hub_step L y (y\<lparr>sy_hub := pop_push c q (sy_hub y)\<rparr>)"
| janitor: "hub_step L y (y\<lparr>sy_hub := run_janitor now (sy_hub y)\<rparr>)"

section \<open>Frames\<close>

text \<open>The fields that only opening, closing and uploading change.\<close>

definition conn_view :: "hub \<Rightarrow> nat \<times> (string \<Rightarrow> string option) \<times> nat \<times> nat \<times> nat \<times> string \<times> string option \<times> nat" where
  "conn_view h = (hb_inflight h, hb_blob_dir h, hb_next_conn h, hb_conn_count h, hb_max_connections h,
     hb_public_url h, hb_join_secret h, hb_max_blob_bytes h)"

lemma view_notify [simp]: "conn_view (notify_room room h) = conn_view h"
  by (simp add: notify_room_def conn_view_def split: option.splits)

lemma view_store [simp]: "conn_view (h\<lparr>hb_store := s\<rparr>) = conn_view h"
  by (simp add: conn_view_def)

lemma view_push_conns [simp]: "conn_view (snd (push_conns f ss h)) = conn_view h"
  by (induction ss arbitrary: h) (auto simp: Let_def case_prod_beta conn_view_def split: option.splits)

lemma view_push_member [simp]: "conn_view (push_member author f h member) = conn_view h"
  using view_push_conns [of f _ h]
  by (simp add: push_member_def Let_def case_prod_beta conn_view_def split: option.splits)

lemma view_push_members [simp]: "conn_view (foldl (push_member author f) h ms) = conn_view h"
  by (induction ms arbitrary: h) simp_all

lemma view_announce [simp]: "conn_view (announce e me room parts men rep out h) = conn_view h"
  by (simp add: announce_def fanout_def Let_def) (simp add: conn_view_def)

lemma view_charge: "charge_agent agent kind now h = (ok, h') \<Longrightarrow> conn_view h' = conn_view h"
    "charge_room room kind now h = (ok, h') \<Longrightarrow> conn_view h' = conn_view h"
  by (auto simp: charge_agent_def charge_room_def conn_view_def split: prod.splits)

lemmas handler_defs = handle_register_def handle_mint_directory_token_def handle_mint_watch_def handle_invite_def
  handle_redeem_def handle_join_requests_def handle_resolve_join_def handle_serve_def handle_claim_def handle_queue_def
  handle_complete_def handle_pull_def handle_remember_def handle_recall_def handle_delete_room_def handle_roster_def

lemma view_send [simp]: "conn_view (snd (handle_send L e me tgt parts mentions reply_to client_id h)) = conn_view h"
  by (auto simp: handle_send_def Let_def split: prod.splits sum.splits dest!: view_charge)

lemma view_authed [simp]: "conn_view (snd (handle_authed L e me frame h)) = conn_view h"
  by (cases frame) (auto simp: handler_defs Let_def split: prod.splits sum.splits option.splits)

section \<open>What a step writes to the store\<close>

text \<open>
  Either a run of writes authorised for the identity of the connection, or writes of the handshake, of
  an upload or of the janitor.
\<close>

fun background :: "store_op \<Rightarrow> bool" where
  "background (SUpsert _ _ _ _) = True"
| "background (STouch _ _ _ _ _) = True"
| "background (SPutBlob _ _ _ _ _ _) = True"
| "background (SSweep _) = True"
| "background (SPruneMessages _ _ _) = True"
| "background (SPruneFacts _) = True"
| "background (SGcBlobs _ _) = True"
| "background q = False"

definition bg_step :: "lib \<Rightarrow> store \<Rightarrow> store \<Rightarrow> bool" where
  "bg_step L s s' = (\<exists>q. background q \<and> s' = apply_op L q s)"

abbreviation bg_run :: "lib \<Rightarrow> store \<Rightarrow> store \<Rightarrow> bool" where
  "bg_run L \<equiv> (bg_step L)\<^sup>*\<^sup>*"

lemma bg_op: "background q \<Longrightarrow> bg_run L s t \<Longrightarrow> bg_run L s (apply_op L q t)"
  by (rule rtranclp.rtrancl_into_rtrancl) (auto simp: bg_step_def)

lemma bg_store_ok: "bg_run L s s' \<Longrightarrow> store_ok s \<Longrightarrow> store_ok s'"
proof (induction rule: rtranclp_induct)
  case (step t u)
  then obtain q where "background q" "u = apply_op L q t" by (auto simp: bg_step_def)
  moreover have "op_ok t q" using \<open>background q\<close> by (cases q) simp_all
  ultimately show ?case using step store_ok_op by simp
qed

lemma refined_room_notify [simp]: "hb_store (snd (room_notify room h)) = hb_store h"
  by (simp add: room_notify_def split: option.splits)

lemma poll_store:
  "hb_store (snd (waited_poll e me p h)) = snd (pull (pk_room p) (au_id me) None (pk_limit p) (pk_ack p) (hb_store h))"
  by (simp add: waited_poll_def Let_def case_prod_beta)

lemma refines_pull: "is_member room (au_id me) s \<Longrightarrow> refines L me s (snd (pull room (au_id me) since limit ack s))"
  using refines_op [of L me s "SPull room (au_id me) since limit ack"] by simp

lemma refined_waited_pull: "refined L me h (snd (waited_pull e me room since limit ack secs h))"
proof (cases "is_member room (au_id me) (hb_store h)")
  case True
  let ?s1 = "snd (pull room (au_id me) since limit ack (hb_store h))"
  have "refines L me (hb_store h) (snd (pull room (au_id me) None limit ack ?s1))"
    using True by (intro refines_trans [OF refines_pull refines_pull]) (simp_all add: pull_member)
  with True refines_pull [OF True] show ?thesis
    by (cases since) (simp_all add: pull_member waited_pull_def Let_def case_prod_beta poll_store)
qed (simp add: waited_pull_def)

lemma bg_hello: "bg_run L (hb_store h) (hb_store (snd (snd (handle_hello L e aid name role sig secret conn h))))"
proof -
  have "bg_run L (hb_store h) (apply_op L (STouch aid ''idle'' None None (ev_now e))
      (apply_op L (SUpsert aid name role (ev_now e)) (hb_store h)))"
    by (intro bg_op) simp_all
  then show ?thesis by (auto simp: handle_hello_def Let_def split: option.splits)
qed

lemma bg_upload: "bg_run L (hb_store h) (hb_store (snd (finish_blob_upload L e p data h)))"
proof -
  have "bg_run L (hb_store h) (apply_op L (SPutBlob (lb_content_id L data) (pu_room p) (pu_author p)
      (pu_media_type p) (int (length data)) (ev_now e)) (hb_store h))"
    by (intro bg_op) simp_all
  then show ?thesis by (auto simp: finish_blob_upload_def Let_def split: option.splits)
qed

lemma bg_janitor: "bg_run L (hb_store h) (hb_store (run_janitor now h))"
proof -
  have sweep: "bg_run L s (snd (sweep_expired now s))" for s
    using bg_op [of "SSweep now" L s s] by simp
  have msgs: "bg_run L s t \<Longrightarrow> bg_run L s (snd (prune_messages a k now t))" for s t a k
    using bg_op [of "SPruneMessages a k now" L s t] by simp
  have facts: "bg_run L s t \<Longrightarrow> bg_run L s (snd (prune_facts k t))" for s t k
    using bg_op [of "SPruneFacts k" L s t] by simp
  have blobs: "bg_run L s t \<Longrightarrow> bg_run L s (snd (gc_blobs i now t))" for s t i
    using bg_op [of "SGcBlobs i now" L s t] by simp
  have "bg_run L (hb_store h) (snd (janitor_pass (hb_retention h) now (hb_store h)))"
    unfolding janitor_pass_def Let_def
    by (auto split: option.splits intro!: blobs facts msgs sweep)
  then show ?thesis by (simp add: run_janitor_def prune_rate_windows_def Let_def case_prod_beta)
qed

lemma dispatch_unauthed_store:
  "cn_authed conn = None \<Longrightarrow> bg_run L (hb_store h) (hb_store (snd (snd (dispatch L e frame conn h))))"
  using bg_hello by (cases frame) (simp_all add: dispatch_def Let_def case_prod_beta)

lemma of_waited_store: "of_waited r conn = (outs, k, h') \<Longrightarrow> h' = snd r"
  by (auto simp: of_waited_def split: prod.splits waited.splits)

lemma on_message_text:
  assumes "on_message L e (WsText len parsed) conn h = (outs, k, h')" "h' \<noteq> h"
  obtains (waited) me room since limit secs ack where "cn_authed conn = Some me"
      "of_waited (waited_pull e me room since limit ack secs h) conn = (outs, k, h')"
  | (dispatched) frame r conn' where "dispatch L e frame conn h = (r, conn', h')" "outs = send_reply r h'"
      "k = Some \<lparr>sk_conn = conn', sk_parked = None\<rparr>" "parsed = Some frame"
  using assms
  by (auto simp: Let_def split: if_splits option.splits client_frame.splits prod.splits)

lemma on_message_writes:
  assumes "store_ok (hb_store h)" "fresh_env e (hb_store h)" "on_message L e m conn h = (outs, k, h')"
  shows "bg_run L (hb_store h) (hb_store h') \<or> (\<exists>me. cn_authed conn = Some me \<and> refined L me h h')"
proof (cases m)
  case (WsText len parsed)
  show ?thesis
  proof (cases "h' = h")
    case False
    from assms(3) [unfolded WsText] this show ?thesis
    proof (cases rule: on_message_text)
      case (waited me room since limit secs ack)
      with of_waited_store [of _ conn outs k h'] refined_waited_pull [of L me h e room since limit ack secs]
      show ?thesis by metis
    next
      case (dispatched frame r conn')
      with refined_dispatch [OF assms(1,2), of conn _ L frame] dispatch_unauthed_store [of conn L h e frame]
      show ?thesis by (cases "cn_authed conn") auto
    qed
  qed simp
next
  case (WsBinary data)
  with assms(3) bg_upload [of L h e _ data] show ?thesis
    by (auto simp: case_prod_beta split: option.splits)
qed (use assms(3) in auto)

lemma store_unsubscribe [simp]: "hb_store (unsubscribe a c h) = hb_store h"
  by (simp add: unsubscribe_def Let_def split: option.splits)

lemma close_store [simp]: "hb_store (close_socket k h) = hb_store h"
  by (simp add: close_socket_def Let_def split: option.splits)

lemma leave_store: "on_message L e m conn h = (outs, None, h') \<Longrightarrow> h' = h"
  by (cases m) (auto simp: Let_def of_waited_def case_prod_beta split: if_splits option.splits client_frame.splits prod.splits waited.splits)

section \<open>What a step does to the connection\<close>

definition permit_of :: "conn_state \<Rightarrow> nat" where
  "permit_of conn = (case cn_pending conn of None \<Rightarrow> 0 | Some u \<Rightarrow> pu_permit u)"

definition same_conn :: "conn_state \<Rightarrow> conn_state \<Rightarrow> bool" where
  "same_conn c c' = (cn_conn_id c' = cn_conn_id c \<and> cn_push_tx c' = cn_push_tx c)"

text \<open>The permits held by a connection and those left in the semaphore, in balance.\<close>

definition balanced :: "conn_state \<times> hub \<Rightarrow> conn_state \<times> hub \<Rightarrow> bool" where
  "balanced x x' = (hb_inflight (snd x') + permit_of (fst x') = hb_inflight (snd x) + permit_of (fst x))"

lemma put_blob_conn:
  assumes "handle_put_blob e me tgt sha256 sz mt conn h = (r, conn', h')"
  shows "same_conn conn conn' \<and> cn_authed conn' = cn_authed conn \<and> cn_nonce conn' = cn_nonce conn
    \<and> balanced (conn, h) (conn', h') \<and> snd (conn_view h') = snd (conn_view h)"
proof (cases "hb_max_blob_bytes h < sz \<or> u32_max < max (hb_max_blob_bytes h) 1 \<or> hb_inflight h < max (hb_max_blob_bytes h) 1")
  case True
  with assms show ?thesis
    by (auto simp: handle_put_blob_def Let_def same_conn_def balanced_def split: if_splits)
next
  case False
  let ?p = "max (hb_max_blob_bytes h) 1"
  let ?h0 = "h\<lparr>hb_inflight := hb_inflight h - ?p\<rparr>"
  obtain ok h1 where c1: "charge_agent (au_id me) Blob_kind (ev_now e) ?h0 = (ok, h1)" by fastforce
  obtain rt s1 where rt: "resolve_target e me tgt (hb_store h1) = (rt, s1)" by fastforce
  obtain ok2 h2 where c2: "charge_room (projr rt) Blob_kind (ev_now e) (h1\<lparr>hb_store := s1\<rparr>) = (ok2, h2)" by fastforce
  have v1: "conn_view h1 = conn_view ?h0" by (rule view_charge(1) [OF c1])
  have v2: "conn_view h2 = conn_view ?h0" using view_charge(2) [OF c2] v1 by simp
  have "(conn', h') \<in> {(conn, h1\<lparr>hb_inflight := hb_inflight h1 + ?p\<rparr>), (conn, h1\<lparr>hb_store := s1, hb_inflight := hb_inflight h1 + ?p\<rparr>),
      (conn, h2\<lparr>hb_inflight := hb_inflight h2 + ?p\<rparr>)}
    \<or> (\<exists>u. (conn', h') = (conn\<lparr>cn_pending := Some u\<rparr>, release (cn_pending conn) h2) \<and> pu_permit u = ?p)"
    using assms False c2 by (cases rt) (auto simp add: handle_put_blob_def Let_def c1 rt simp del: One_nat_def split: if_splits)
  then show ?thesis
    using v1 v2 False
    by (elim disjE insertE exE) (auto simp: same_conn_def balanced_def permit_of_def release_def conn_view_def split: option.splits)
qed

lemma hello_conn:
  assumes "handle_hello L e aid name role sig secret conn h = (f, conn', h')"
  shows "same_conn conn conn' \<and> cn_pending conn' = cn_pending conn \<and> conn_view h' = conn_view h"
  using assms by (auto simp: handle_hello_def Let_def same_conn_def split: option.splits if_splits)

lemma view_subscribe [simp]: "conn_view (subscribe a c tx h) = conn_view h"
  by (simp add: subscribe_def Let_def conn_view_def)

lemma get_blob_view [simp]: "conn_view (snd (handle_get_blob e me bid h)) = conn_view h"
  by (simp add: handle_get_blob_def split: option.splits)

lemma view_eqD: "conn_view h' = conn_view h \<Longrightarrow> hb_inflight h' = hb_inflight h \<and> snd (conn_view h') = snd (conn_view h)"
  by (simp add: conn_view_def)

lemma dispatch_authed_conn:
  assumes "dispatch_authed L e me frame conn h = (r, conn', h')"
  shows "same_conn conn conn' \<and> cn_authed conn' = cn_authed conn \<and> cn_nonce conn' = cn_nonce conn
    \<and> balanced (conn, h) (conn', h') \<and> snd (conn_view h') = snd (conn_view h)"
proof (cases "\<exists>tgt sha256 sz mt. frame = PutBlob tgt sha256 sz mt")
  case True
  then obtain tgt sha256 sz mt where f: "frame = PutBlob tgt sha256 sz mt" by blast
  obtain r0 c0 h0 where "handle_put_blob e me tgt sha256 sz mt conn h = (r0, c0, h0)" by (metis prod_cases3)
  with put_blob_conn [OF this] assms f show ?thesis by (auto simp: dispatch_authed_def)
next
  case False
  have "conn' = conn \<and> conn_view h' = conn_view h"
    using assms False view_authed [of L e me frame h]
    by (cases frame) (auto simp: dispatch_authed_def case_prod_beta Let_def
        simp del: handle_authed.simps view_authed split: option.splits)
  then show ?thesis using view_eqD [of h' h] by (simp add: same_conn_def balanced_def)
qed

lemma dispatch_conn:
  assumes "dispatch L e frame conn h = (r, conn', h')"
  shows "same_conn conn conn' \<and> balanced (conn, h) (conn', h') \<and> snd (conn_view h') = snd (conn_view h)
    \<and> (cn_authed conn \<noteq> None \<longrightarrow> cn_authed conn' = cn_authed conn)"
proof (cases "\<exists>aid name role nonce sig secret. frame = Hello aid name role nonce sig secret")
  case True
  then obtain aid name role nonce sig secret where f: "frame = Hello aid name role nonce sig secret" by blast
  let ?c = "conn\<lparr>cn_hello_frames := min 255 (cn_hello_frames conn + 1)\<rparr>"
  obtain r0 c0 h0 where hh: "handle_hello L e aid name role sig secret ?c h = (r0, c0, h0)" by (metis prod_cases3)
  from hello_conn [OF hh] have "same_conn conn c0" "balanced (conn, h) (c0, h0)" "snd (conn_view h0) = snd (conn_view h)"
    using view_eqD [of h0 h] by (auto simp: same_conn_def balanced_def permit_of_def)
  with f hh assms show ?thesis
    by (auto simp: dispatch_def Let_def same_conn_def balanced_def permit_of_def split: if_splits)
next
  case False
  show ?thesis
  proof (cases "cn_authed conn")
    case None
    with False assms show ?thesis by (cases frame) (auto simp: dispatch_def same_conn_def balanced_def)
  next
    case (Some me)
    obtain ok h1 where c: "charge_agent (au_id me) Operation (ev_now e) h = (ok, h1)" by fastforce
    have v: "conn_view h1 = conn_view h" by (rule view_charge(1) [OF c])
    have "(conn', h') = (conn, h1) \<or> dispatch_authed L e me frame conn h1 = (r, conn', h')"
      using False Some c assms by (cases "validate_frame_bounds L h1 frame"; cases frame)
        (auto simp: dispatch_def split: if_splits simp del: validate_frame_bounds.simps)
    then show ?thesis
      using dispatch_authed_conn [of L e me frame conn h1 r conn' h'] view_eqD [OF v]
      by (auto simp: same_conn_def balanced_def)
  qed
qed

definition slot_view :: "hub \<Rightarrow> nat \<times> nat \<times> nat \<times> string" where
  "slot_view h = (hb_next_conn h, hb_conn_count h, hb_max_connections h, hb_public_url h)"

lemma slot_of_view: "snd (conn_view h') = snd (conn_view h) \<Longrightarrow> slot_view h' = slot_view h"
  by (simp add: conn_view_def slot_view_def)

lemma view_room_notify [simp]: "conn_view (snd (room_notify room h)) = conn_view h"
  by (simp add: room_notify_def conn_view_def split: option.splits)

lemma view_poll [simp]: "conn_view (snd (waited_poll e me p h)) = conn_view h"
  by (simp add: waited_poll_def Let_def case_prod_beta)

lemma view_waited_pull [simp]: "conn_view (snd (waited_pull e me room since limit ack secs h)) = conn_view h"
  by (simp add: waited_pull_def Let_def case_prod_beta)

lemma of_waited_conn:
  assumes "of_waited r conn = (outs, k, h')"
  shows "h' = snd r \<and> (\<exists>p. k = Some \<lparr>sk_conn = conn, sk_parked = p\<rparr>)"
  using assms by (auto simp: of_waited_def split: prod.splits waited.splits)

lemma upload_conn:
  assumes "finish_blob_upload L e p data h = (f, h')"
  shows "hb_inflight h' = hb_inflight h + pu_permit p \<and> slot_view h' = slot_view h"
  using assms by (auto simp: finish_blob_upload_def release_def slot_view_def Let_def split: if_splits option.splits)

lemma on_message_conn:
  assumes "on_message L e m conn h = (outs, Some k', h')"
  shows "same_conn conn (sk_conn k') \<and> balanced (conn, h) (sk_conn k', h') \<and> slot_view h' = slot_view h
    \<and> (cn_authed conn \<noteq> None \<longrightarrow> cn_authed (sk_conn k') = cn_authed conn)
    \<and> (sk_parked k' \<noteq> None \<longrightarrow> cn_authed (sk_conn k') \<noteq> None)"
proof (cases m)
  case (WsText len parsed)
  show ?thesis
  proof (cases "parsed")
    case None
    with WsText assms show ?thesis by (auto simp: same_conn_def balanced_def split: if_splits)
  next
    case (Some frame)
    consider (w) me room since limit secs ack where "cn_authed conn = Some me"
        "of_waited (waited_pull e me room since limit ack secs h) conn = (outs, Some k', h')"
      | (d) r conn' where "dispatch L e frame conn h = (r, conn', h')" "k' = \<lparr>sk_conn = conn', sk_parked = None\<rparr>"
      using assms WsText Some by (auto simp: Let_def split: if_splits option.splits client_frame.splits prod.splits)
    then show ?thesis
    proof cases
      case w
      from of_waited_conn [OF w(2)] view_waited_pull [of e me room since limit ack secs h] w(1) show ?thesis
        by (auto simp: same_conn_def balanced_def conn_view_def slot_view_def)
    next
      case d
      with dispatch_conn [OF d(1)] slot_of_view [of h' h] show ?thesis by auto
    qed
  qed
next
  case (WsBinary data)
  then obtain p f where p: "cn_pending conn = Some p" and f: "finish_blob_upload L e p data h = (f, h')"
    and k: "k' = \<lparr>sk_conn = conn\<lparr>cn_pending := None\<rparr>, sk_parked = None\<rparr>"
    using assms by (auto split: option.splits prod.splits)
  with upload_conn [OF f] show ?thesis by (auto simp: same_conn_def balanced_def permit_of_def)
qed (use assms in \<open>auto simp: same_conn_def balanced_def\<close>)

section \<open>Invariants\<close>

definition socks_ok :: "sys \<Rightarrow> bool" where
  "socks_ok y =
     (\<forall>c k. sy_socks y c = Some k \<longrightarrow>
        cn_conn_id (sk_conn k) = c \<and> cn_push_tx (sk_conn k) = Some c \<and> c < hb_next_conn (sy_hub y)
        \<and> (sk_parked k \<noteq> None \<longrightarrow> cn_authed (sk_conn k) \<noteq> None))"

lemma slot_close: "slot_view (close_socket k h) =
    (hb_next_conn h, hb_conn_count h - 1, hb_max_connections h, hb_public_url h)"
  by (simp add: close_socket_def slot_view_def Let_def unsubscribe_def release_def split: option.splits)

lemma slot_janitor: "slot_view (run_janitor now h) = slot_view h"
  by (simp add: run_janitor_def slot_view_def prune_rate_windows_def Let_def case_prod_beta)

lemma slot_pop: "slot_view (pop_push c q h) = slot_view h"
  by (simp add: pop_push_def slot_view_def)

lemma open_slot:
  assumes "open_socket h = (outs, Some k, h')"
  shows "k = \<lparr>sk_conn = \<lparr>cn_nonce = None, cn_authed = None, cn_pending = None, cn_conn_id = hb_next_conn h,
      cn_push_tx = Some (hb_next_conn h), cn_hello_frames = 0\<rparr>, sk_parked = None\<rparr>"
    and "slot_view h' = (hb_next_conn h + 1, hb_conn_count h + 1, hb_max_connections h, hb_public_url h)"
    and "hb_conn_count h < hb_max_connections h" "hb_inflight h' = hb_inflight h"
  using assms by (auto simp: open_socket_def next_conn_id_def slot_view_def Let_def split: if_splits)

interpretation sockets: invariant "hub_init budget" "hub_step L" socks_ok for budget L
proof
  fix y assume "hub_init budget y"
  then show "socks_ok y" by (simp add: hub_init_def socks_ok_def)
next
  fix y y' assume inv: "socks_ok y" and st: "hub_step L y y'"
  from st show "socks_ok y'"
  proof cases
    case (accept outs k h')
    from open_slot [OF accept(2)] inv show ?thesis
      unfolding accept(1) by (auto simp: socks_ok_def slot_view_def less_Suc_eq)
  next
    case (receive c k e m outs k' h')
    from on_message_conn [OF receive(5)] inv receive(2) show ?thesis
      unfolding receive(1) by (auto simp: socks_ok_def slot_view_def same_conn_def)
  next
    case (leave c k e m outs h')
    with inv leave_store [OF leave(4)] slot_close [of k h'] show ?thesis
      by (auto simp: socks_ok_def slot_view_def)
  next
    case (drop c k)
    with inv slot_close [of k "sy_hub y"] show ?thesis by (auto simp: socks_ok_def slot_view_def)
  next
    case (wake c k p me e outs k' h')
    from of_waited_conn [OF wake(6)] view_poll [of e me p "sy_hub y"] inv wake show ?thesis
      by (auto simp: socks_ok_def conn_view_def)
  next
    case (push c k f q)
    with inv slot_pop [of c q "sy_hub y"] show ?thesis by (auto simp: socks_ok_def slot_view_def)
  next
    case (janitor now)
    with inv slot_janitor [of now "sy_hub y"] show ?thesis by (auto simp: socks_ok_def slot_view_def)
  qed
qed

lemma step_writes:
  assumes "hub_step L y y'" "store_ok (sys_store y)"
  obtains (bg) "bg_run L (sys_store y) (sys_store y')"
  | (authed) c k me where "sy_socks y c = Some k" "cn_authed (sk_conn k) = Some me"
      "refines L me (sys_store y) (sys_store y')"
  | (polled) room agent limit ack where "sys_store y' = snd (pull room agent None limit ack (sys_store y))"
  using assms(1)
proof cases
  case (accept outs k h')
  then show ?thesis by (intro bg) (auto simp: open_socket_def next_conn_id_def Let_def split: if_splits)
next
  case (receive c k e m outs k' h')
  with on_message_writes [OF assms(2) receive(4,5)] bg authed show ?thesis by auto
next
  case (leave c k e m outs h')
  with leave_store [OF leave(4)] show ?thesis by (intro bg) simp
next
  case (wake c k p me e outs k' h')
  with of_waited_store [OF wake(6)] poll_store [of e me p "sy_hub y"] show ?thesis by (intro polled) simp
next
  case (push c k f q)
  then show ?thesis by (intro bg) (simp add: pop_push_def)
next
  case (janitor now)
  with bg_janitor show ?thesis by (intro bg) simp
qed (auto intro: bg)

lemma empty_store_ok: "store_ok empty_store"
  by (simp add: store_ok_def empty_store_def log_ok_def client_ids_ok_def claims_ok_def dispatch_ok_def facts_ok_def
      blob_refs_ok_def rooms_ok_def keyed_ok_def keys_ok_def)

interpretation durable: invariant "hub_init budget" "hub_step L" "\<lambda>y. store_ok (sys_store y)" for budget L
proof
  fix y assume "hub_init budget y"
  then show "store_ok (sys_store y)" by (simp add: hub_init_def empty_store_ok)
next
  fix y y' assume ok: "store_ok (sys_store y)" and st: "hub_step L y y'"
  from st ok show "store_ok (sys_store y')"
  proof (cases rule: step_writes)
    case (polled room agent limit ack)
    with store_ok_op [OF ok, of "SPull room agent None limit ack" L] show ?thesis by simp
  qed (use ok in \<open>auto intro: bg_store_ok refines_store_ok\<close>)
qed

text \<open>Connection slots.\<close>

definition slots_ok :: "sys \<Rightarrow> bool" where
  "slots_ok y =
     (finite (dom (sy_socks y)) \<and> hb_conn_count (sy_hub y) = card (dom (sy_socks y))
      \<and> hb_conn_count (sy_hub y) \<le> hb_max_connections (sy_hub y))"

interpretation slots: relative_invariant "hub_init budget" "hub_step L" socks_ok slots_ok for budget L
proof
  fix y assume "hub_init budget y"
  then show "slots_ok y" by (simp add: hub_init_def slots_ok_def)
next
  fix y y' assume base: "socks_ok y" and inv: "slots_ok y" and st: "hub_step L y y'"
  have gone: "slots_ok (y\<lparr>sy_hub := close_socket k h', sy_socks := (sy_socks y)(c := None)\<rparr>)"
    if "sy_socks y c = Some k" "slot_view h' = slot_view (sy_hub y)" for c k h'
  proof -
    have "c \<in> dom (sy_socks y)" using that(1) by blast
    with inv that(2) slot_close [of k h'] show ?thesis
      by (auto simp: slots_ok_def slot_view_def dom_minus card_Diff_singleton)
  qed
  from st show "slots_ok y'"
  proof cases
    case (accept outs k h')
    note o = open_slot [OF accept(2)]
    have "hb_next_conn (sy_hub y) \<notin> dom (sy_socks y)" using base by (auto simp: socks_ok_def)
    with o inv show ?thesis unfolding accept(1) by (auto simp: slots_ok_def slot_view_def)
  next
    case (receive c k e m outs k' h')
    then have "insert c (dom (sy_socks y)) = dom (sy_socks y)" by blast
    with on_message_conn [OF receive(5)] inv show ?thesis
      unfolding receive(1) by (auto simp: slots_ok_def slot_view_def)
  next
    case (leave c k e m outs h')
    with gone [of c k h'] leave_store [OF leave(4)] show ?thesis by simp
  next
    case (drop c k)
    with gone show ?thesis by simp
  next
    case (wake c k p me e outs k' h')
    then have "insert c (dom (sy_socks y)) = dom (sy_socks y)" by blast
    with of_waited_conn [OF wake(6)] view_poll [of e me p "sy_hub y"] inv show ?thesis
      unfolding wake(1) by (auto simp: slots_ok_def conn_view_def)
  next
    case (push c k f q)
    with inv slot_pop [of c q "sy_hub y"] show ?thesis by (auto simp: slots_ok_def slot_view_def)
  next
    case (janitor now)
    with inv slot_janitor [of now "sy_hub y"] show ?thesis by (auto simp: slots_ok_def slot_view_def)
  qed
qed

text \<open>Upload permits.\<close>

definition permit_at :: "(nat \<Rightarrow> socket option) \<Rightarrow> nat \<Rightarrow> nat" where
  "permit_at socks c = (case socks c of None \<Rightarrow> 0 | Some k \<Rightarrow> permit_of (sk_conn k))"

definition permits_ok :: "nat \<Rightarrow> sys \<Rightarrow> bool" where
  "permits_ok budget y =
     (hb_inflight (sy_hub y) + (\<Sum>c < hb_next_conn (sy_hub y). permit_at (sy_socks y) c) = budget)"

lemma permit_update: "permit_at (socks(c := k)) = (permit_at socks)(c := (case k of None \<Rightarrow> 0 | Some k \<Rightarrow> permit_of (sk_conn k)))"
  by (rule ext) (simp add: permit_at_def)

lemma sum_fun_upd_nat: "c < n \<Longrightarrow> (\<Sum>i < n. (f(c := v)) i) + f c = (\<Sum>i < n. f i) + (v :: nat)" for n :: nat
  by (simp add: sum.remove [of "{..<n}" c])

lemma permits_exchange:
  assumes "permits_ok budget y" "sy_socks y c = Some k" "c < hb_next_conn (sy_hub y)"
    and "hb_next_conn h' = hb_next_conn (sy_hub y)"
    and "hb_inflight h' + (case k' of None \<Rightarrow> 0 | Some k' \<Rightarrow> permit_of (sk_conn k')) = hb_inflight (sy_hub y) + permit_of (sk_conn k)"
  shows "permits_ok budget (y\<lparr>sy_hub := h', sy_socks := (sy_socks y)(c := k')\<rparr>)"
proof -
  let ?v = "case k' of None \<Rightarrow> 0 | Some k' \<Rightarrow> permit_of (sk_conn k')"
  have "permit_at (sy_socks y) c = permit_of (sk_conn k)" using assms(2) by (simp add: permit_at_def)
  with assms(1,4,5) sum_fun_upd_nat [OF assms(3), of "permit_at (sy_socks y)" ?v] show ?thesis
    by (simp add: permits_ok_def permit_update)
qed

lemma close_inflight: "hb_inflight (close_socket k h) = hb_inflight h + permit_of (sk_conn k)"
  by (simp add: close_socket_def Let_def unsubscribe_def release_def permit_of_def split: option.splits)

interpretation permits: relative_invariant "hub_init budget" "hub_step L" socks_ok "permits_ok budget" for budget L
proof
  fix y assume "hub_init budget y"
  then show "permits_ok budget y" by (simp add: hub_init_def permits_ok_def permit_at_def)
next
  fix y y' assume base: "socks_ok y" and inv: "permits_ok budget y" and st: "hub_step L y y'"
  have lt: "sy_socks y c = Some k \<Longrightarrow> c < hb_next_conn (sy_hub y)" for c k
    using base by (auto simp: socks_ok_def)
  from st show "permits_ok budget y'"
  proof cases
    case (accept outs k h')
    note o = open_slot [OF accept(2)]
    have "permit_at ((sy_socks y)(hb_next_conn (sy_hub y) \<mapsto> k)) = permit_at (sy_socks y)"
      using lt o(1) by (auto simp: permit_update permit_at_def permit_of_def fun_eq_iff split: option.splits)
    moreover have "permit_at (sy_socks y) (hb_next_conn (sy_hub y)) = 0"
      using lt by (auto simp: permit_at_def split: option.splits)
    ultimately show ?thesis using o inv unfolding accept(1) by (simp add: permits_ok_def slot_view_def)
  next
    case (receive c k e m outs k' h')
    from on_message_conn [OF receive(5)] show ?thesis
      unfolding receive(1) by (intro permits_exchange [OF inv receive(2) lt [OF receive(2)]])
        (simp_all add: balanced_def slot_view_def)
  next
    case (leave c k e m outs h')
    with leave_store [OF leave(4)] slot_close [of k h'] show ?thesis
      by (auto intro!: permits_exchange [OF inv leave(2) lt [OF leave(2)]] simp: close_inflight slot_view_def)
  next
    case (drop c k)
    with slot_close [of k "sy_hub y"] show ?thesis
      by (auto intro!: permits_exchange [OF inv drop(2) lt [OF drop(2)]] simp: close_inflight slot_view_def)
  next
    case (wake c k p me e outs k' h')
    from of_waited_conn [OF wake(6)] view_poll [of e me p "sy_hub y"] show ?thesis
      unfolding wake(1) by (intro permits_exchange [OF inv wake(2) lt [OF wake(2)]]) (auto simp: conn_view_def)
  next
    case (push c k f q)
    with inv show ?thesis by (simp add: permits_ok_def pop_push_def)
  next
    case (janitor now)
    with inv show ?thesis
      by (simp add: permits_ok_def run_janitor_def prune_rate_windows_def Let_def case_prod_beta)
  qed
qed

section \<open>Authentication\<close>

text \<open>An id whose owner signed a challenge of this hub.\<close>

definition own_challenge :: "lib \<Rightarrow> string \<Rightarrow> string \<Rightarrow> bool" where
  "own_challenge L url n = (\<exists>t uuid. n = issue_challenge (lb_content_id L) url t uuid)"

definition proven :: "lib \<Rightarrow> string \<Rightarrow> string \<Rightarrow> bool" where
  "proven L url aid = (\<exists>n sig. own_challenge L url n \<and> lb_verify L aid n sig)"

definition issued :: "lib \<Rightarrow> string \<Rightarrow> string option \<Rightarrow> bool" where
  "issued L url nonce = (case nonce of None \<Rightarrow> True | Some n \<Rightarrow> own_challenge L url n)"

lemma own_challengeI [simp]: "own_challenge L url (issue_challenge (lb_content_id L) url t uuid)"
  by (auto simp: own_challenge_def)

lemma provenI: "lb_verify L aid n sig \<Longrightarrow> own_challenge L url n \<Longrightarrow> proven L url aid"
  by (auto simp: proven_def)

definition conn_proven :: "lib \<Rightarrow> string \<Rightarrow> conn_state \<Rightarrow> bool" where
  "conn_proven L url conn =
     (issued L url (cn_nonce conn) \<and> (case cn_authed conn of None \<Rightarrow> True | Some me \<Rightarrow> proven L url (au_id me)))"

lemma hello_proven:
  assumes "handle_hello L e aid name role sig secret conn h = (f, conn', h')" "conn_proven L (hb_public_url h) conn"
  shows "conn_proven L (hb_public_url h) conn'"
  using assms
  by (auto simp: handle_hello_def Let_def conn_proven_def issued_def verify_sig_def split: option.splits if_splits)
    (metis provenI)+

lemma dispatch_proven:
  assumes "dispatch L e frame conn h = (r, conn', h')" "conn_proven L (hb_public_url h) conn"
  shows "conn_proven L (hb_public_url h) conn'"
proof (cases "cn_authed conn")
  case None
  show ?thesis
  proof (cases "\<exists>aid name role nonce sig secret. frame = Hello aid name role nonce sig secret")
    case True
    then obtain aid name role nonce sig secret where f: "frame = Hello aid name role nonce sig secret" by blast
    let ?c = "conn\<lparr>cn_hello_frames := min 255 (cn_hello_frames conn + 1)\<rparr>"
    obtain r0 c0 h0 where hh: "handle_hello L e aid name role sig secret ?c h = (r0, c0, h0)" by (metis prod_cases3)
    have "conn_proven L (hb_public_url h) ?c" using assms(2) by (simp add: conn_proven_def)
    from this hello_proven [OF hh this] f hh assms None show ?thesis
      by (auto simp: dispatch_def Let_def split: if_splits)
  next
    case False
    with None assms show ?thesis by (cases frame) (auto simp: dispatch_def)
  qed
next
  case (Some me)
  obtain ok h1 where c: "charge_agent (au_id me) Operation (ev_now e) h = (ok, h1)" by fastforce
  have "conn' = conn \<or> dispatch_authed L e me frame conn h1 = (r, conn', h')"
    using Some c assms(1) by (cases "validate_frame_bounds L h1 frame"; cases frame)
      (auto simp: dispatch_def split: if_splits simp del: validate_frame_bounds.simps)
  with dispatch_authed_conn [of L e me frame conn h1 r conn' h'] assms(2) show ?thesis
    by (auto simp: conn_proven_def)
qed

lemma on_message_proven:
  assumes "on_message L e m conn h = (outs, Some k', h')" "conn_proven L (hb_public_url h) conn"
  shows "conn_proven L (hb_public_url h) (sk_conn k')"
proof (cases m)
  case (WsText len parsed)
  show ?thesis
  proof (cases parsed)
    case None
    with WsText assms show ?thesis by (auto split: if_splits)
  next
    case (Some frame)
    then consider me room since limit secs ack where
        "of_waited (waited_pull e me room since limit ack secs h) conn = (outs, Some k', h')"
      | r conn' where "dispatch L e frame conn h = (r, conn', h')" "k' = \<lparr>sk_conn = conn', sk_parked = None\<rparr>"
      using assms WsText by (auto simp: Let_def split: if_splits option.splits client_frame.splits prod.splits)
    then show ?thesis
    proof cases
      case 1
      from of_waited_conn [OF this] assms(2) show ?thesis by auto
    next
      case 2
      with dispatch_proven [OF 2(1) assms(2)] show ?thesis by simp
    qed
  qed
next
  case (WsBinary data)
  with assms show ?thesis by (auto simp: conn_proven_def split: option.splits prod.splits)
qed (use assms in auto)

definition auth_ok :: "lib \<Rightarrow> sys \<Rightarrow> bool" where
  "auth_ok L y = (\<forall>c k. sy_socks y c = Some k \<longrightarrow> conn_proven L (hb_public_url (sy_hub y)) (sk_conn k))"

lemma auth_exchange:
  assumes "auth_ok L y" "hb_public_url h' = hb_public_url (sy_hub y)"
    and "\<And>k'. k = Some k' \<Longrightarrow> conn_proven L (hb_public_url (sy_hub y)) (sk_conn k')"
  shows "auth_ok L (y\<lparr>sy_hub := h', sy_socks := (sy_socks y)(c := k)\<rparr>)"
  using assms by (auto simp: auth_ok_def)

interpretation authentic: invariant "hub_init budget" "hub_step L" "auth_ok L" for budget L
proof
  fix y assume "hub_init budget y"
  then show "auth_ok L y" by (simp add: hub_init_def auth_ok_def)
next
  fix y y' assume inv: "auth_ok L y" and st: "hub_step L y y'"
  from st show "auth_ok L y'"
  proof cases
    case (accept outs k h')
    with open_slot [OF accept(2)] show ?thesis
      by (auto intro!: auth_exchange [OF inv] simp: slot_view_def conn_proven_def issued_def)
  next
    case (receive c k e m outs k' h')
    have "conn_proven L (hb_public_url (sy_hub y)) (sk_conn k)" using inv receive(2) by (simp add: auth_ok_def)
    from on_message_proven [OF receive(5) this] on_message_conn [OF receive(5)] show ?thesis
      unfolding receive(1) by (intro auth_exchange [OF inv]) (auto simp: slot_view_def)
  next
    case (leave c k e m outs h')
    with slot_close [of k h'] leave_store [OF leave(4)] show ?thesis
      by (auto intro!: auth_exchange [OF inv] simp: slot_view_def)
  next
    case (drop c k)
    with slot_close [of k "sy_hub y"] show ?thesis by (auto intro!: auth_exchange [OF inv] simp: slot_view_def)
  next
    case (wake c k p me e outs k' h')
    from of_waited_conn [OF wake(6)] view_poll [of e me p "sy_hub y"] inv wake(2) show ?thesis
      unfolding wake(1) by (intro auth_exchange [OF inv]) (auto simp: conn_view_def auth_ok_def)
  next
    case (push c k f q)
    with inv show ?thesis by (auto simp: auth_ok_def pop_push_def)
  next
    case (janitor now)
    with inv slot_janitor [of now "sy_hub y"] show ?thesis by (auto simp: auth_ok_def slot_view_def)
  qed
qed

text \<open>Who wrote what is in the store.\<close>

definition authors_in :: "(string \<Rightarrow> bool) \<Rightarrow> store \<Rightarrow> bool" where
  "authors_in P s = ((\<forall>g \<in> set (st_messages s). P (mg_author g)) \<and> (\<forall>f \<in> set (st_facts s). P (fa_author f)))"

lemma append_authors: "authors_in P s \<Longrightarrow> P (ep_id ep) \<Longrightarrow> authors_in P (snd (append_message mid room ep parts men rep cid ts s))"
  by (cases rule: append_cases [of mid room ep parts men rep cid ts s])
    (auto simp: authors_in_def append_message_def Let_def split: option.splits if_splits)

lemma remember_authors: "authors_in P s \<Longrightarrow> P author \<Longrightarrow> authors_in P (snd (remember vd author fct ts emb model s))"
  by (auto simp: authors_in_def remember_def insert_fact_def update_where_def Let_def split: option.splits if_splits prod.splits)

lemma authors_op:
  assumes "authors_in P s" and "\<And>mid room ep parts men rep cid now. q = SSend mid room ep parts men rep cid now \<Longrightarrow> P (ep_id ep)"
    and "\<And>author fct now emb model. q = SRemember author fct now emb model \<Longrightarrow> P author"
  shows "authors_in P (apply_op L q s)"
proof (cases q)
  case (SSend mid room ep parts mentions reply_to client_id now)
  with assms append_authors show ?thesis by simp
next
  case (SRemember author fct now emb model)
  with assms remember_authors show ?thesis by simp
qed (use assms(1) apply_op_messages [of q L s] apply_op_facts [of q L s] in
    \<open>auto simp: authors_in_def delete_room_def prune_messages_def prune_facts_def set_delete_where Let_def split: if_splits\<close>)

lemma refines_authors: "refines L me s s' \<Longrightarrow> authors_in P s \<Longrightarrow> P (au_id me) \<Longrightarrow> authors_in P s'"
proof -
  have "monitored L me s qs s' \<Longrightarrow> authors_in P s \<Longrightarrow> P (au_id me) \<Longrightarrow> authors_in P s'" for qs
  proof (induction rule: monitored.induct)
    case (monitored_op s q qs s')
    have "authors_in P (apply_op L q s)"
      by (rule authors_op [OF monitored_op.prems(1)]) (use monitored_op in \<open>auto simp: endpoint_of_def\<close>)
    with monitored_op show ?case by blast
  qed simp
  then show "refines L me s s' \<Longrightarrow> authors_in P s \<Longrightarrow> P (au_id me) \<Longrightarrow> authors_in P s'" by (auto simp: refines_def)
qed

lemma bg_authors: "bg_run L s s' \<Longrightarrow> authors_in P s \<Longrightarrow> authors_in P s'"
proof (induction rule: rtranclp_induct)
  case (step t u)
  then obtain q where "background q" "u = apply_op L q t" by (auto simp: bg_step_def)
  with step show ?case by (auto intro!: authors_op)
qed

lemma step_url: "hub_step L y y' \<Longrightarrow> hb_public_url (sy_hub y') = hb_public_url (sy_hub y)"
proof (induction rule: hub_step.induct)
  case (accept y outs k h')
  with open_slot [OF accept] show ?case by (simp add: slot_view_def)
next
  case (receive y c k e m outs k' h')
  with on_message_conn [OF receive(4)] show ?case by (simp add: slot_view_def)
next
  case (leave y c k e m outs h')
  with leave_store [OF leave(3)] slot_close [of k h'] show ?case by (simp add: slot_view_def)
next
  case (drop y c k)
  then show ?case using slot_close [of k "sy_hub y"] by (simp add: slot_view_def)
next
  case (wake y c k p me e outs k' h')
  with of_waited_conn [OF wake(5)] view_poll [of e me p "sy_hub y"] show ?case by (auto simp: conn_view_def)
next
  case (janitor y now)
  then show ?case using slot_janitor [of now "sy_hub y"] by (simp add: slot_view_def)
qed (simp add: pop_push_def)

interpretation checked: relative_invariant "hub_init budget" "hub_step L" "\<lambda>y. store_ok (sys_store y)" "auth_ok L" for budget L
  by unfold_locales (auto intro: authentic.inv_init authentic.inv_step)

definition authored_ok :: "lib \<Rightarrow> sys \<Rightarrow> bool" where
  "authored_ok L y = authors_in (proven L (hb_public_url (sy_hub y))) (sys_store y)"

interpretation authored: relative_invariant "hub_init budget" "hub_step L"
  "\<lambda>y. store_ok (sys_store y) \<and> auth_ok L y" "authored_ok L" for budget L
proof
  fix y assume "hub_init budget y"
  then show "authored_ok L y" by (simp add: hub_init_def authored_ok_def authors_in_def empty_store_def)
next
  fix y y' assume base: "store_ok (sys_store y) \<and> auth_ok L y" and inv: "authored_ok L y" and st: "hub_step L y y'"
  let ?P = "proven L (hb_public_url (sy_hub y))"
  have "authors_in ?P (sys_store y')"
    using st conjunct1 [OF base]
  proof (cases rule: step_writes)
    case bg
    with inv show ?thesis by (auto simp: authored_ok_def intro: bg_authors)
  next
    case (authed c k me)
    with base have "?P (au_id me)" by (auto simp: auth_ok_def conn_proven_def split: option.splits)
    with authed inv show ?thesis by (auto simp: authored_ok_def intro: refines_authors)
  next
    case (polled room agent limit ack)
    have "authors_in ?P (apply_op L (SPull room agent None limit ack) (sys_store y))"
      using inv by (intro authors_op) (simp_all add: authored_ok_def)
    with polled show ?thesis by simp
  qed
  with step_url [OF st] show "authored_ok L y'" by (simp add: authored_ok_def)
qed

section \<open>Live pushes\<close>

definition subscribed :: "string \<Rightarrow> hub \<Rightarrow> nat set" where
  "subscribed agent h = sb_tx ` set (opt_or (map_of (hb_subscribers h) agent) [])"

text \<open>No channel is registered twice, neither for one agent nor for two.\<close>

definition registry_ok :: "hub \<Rightarrow> bool" where
  "registry_ok h =
     ((\<forall>a v. map_of (hb_subscribers h) a = Some v \<longrightarrow> distinct (map sb_tx v))
      \<and> (\<forall>a b. a \<noteq> b \<longrightarrow> subscribed a h \<inter> subscribed b h = {}))"

definition pushed :: "server_frame \<Rightarrow> server_frame list \<Rightarrow> server_frame list" where
  "pushed f q = (if length q < PUSH_BUFFER then q @ [f] else q)"

lemma push_conns_channels:
  assumes "distinct (map sb_tx ss)"
  shows "hb_channels (snd (push_conns f ss h)) c =
    (if c \<in> sb_tx ` set ss then map_option (pushed f) (hb_channels h c) else hb_channels h c)"
  using assms
  by (induction ss arbitrary: h)
    (auto simp: Let_def case_prod_beta pushed_def split: option.splits if_splits)

lemma push_conns_kept:
  "fst (push_conns f ss h) = filter (\<lambda>s. hb_channels h (sb_tx s) \<noteq> None) ss"
  by (induction ss arbitrary: h) (auto simp: Let_def case_prod_beta split: option.splits intro!: filter_cong)

lemma push_conns_registry [simp]: "hb_subscribers (snd (push_conns f ss h)) = hb_subscribers h"
  by (induction ss arbitrary: h) (auto simp: Let_def case_prod_beta split: option.splits)

lemma map_of_put [simp]: "map_of (map_put k v m) a = (if a = k then Some v else map_of m a)"
  by (induction m) auto

lemma map_of_filter_key: "map_of (filter (\<lambda>e. fst e \<noteq> k) m) a = (if a = k then None else map_of m a)"
  by (induction m) auto

lemma push_member_registry:
  "map_of (hb_subscribers (push_member author f h m)) a =
     (if a = m \<and> m \<noteq> author then map_option (filter (\<lambda>s. hb_channels h (sb_tx s) \<noteq> None)) (map_of (hb_subscribers h) m)
      else map_of (hb_subscribers h) a)"
  by (auto simp: push_member_def Let_def case_prod_beta push_conns_kept split: option.splits)

lemma subscribed_push:
  "subscribed a (push_member author f h m) \<subseteq> subscribed a h"
  "a \<noteq> m \<Longrightarrow> subscribed a (push_member author f h m) = subscribed a h"
  by (cases "map_of (hb_subscribers h) m"; auto simp: subscribed_def push_member_registry opt_or_def)+

lemma registry_push: "registry_ok h \<Longrightarrow> registry_ok (push_member author f h m)"
proof -
  assume ok: "registry_ok h"
  have "subscribed a (push_member author f h m) \<inter> subscribed b (push_member author f h m) = {}" if "a \<noteq> b" for a b
    using ok that subscribed_push(1) [of a author f h m] subscribed_push(1) [of b author f h m]
    unfolding registry_ok_def by blast
  moreover have "distinct (map sb_tx v)" if "map_of (hb_subscribers (push_member author f h m)) a = Some v" for a v
    using ok that by (auto simp: registry_ok_def push_member_registry distinct_map_filter split: if_splits)
  ultimately show ?thesis by (auto simp: registry_ok_def)
qed

lemma push_member_channels:
  assumes "registry_ok h"
  shows "hb_channels (push_member author f h m) c =
    (if m \<noteq> author \<and> c \<in> subscribed m h then map_option (pushed f) (hb_channels h c) else hb_channels h c)"
proof (cases "map_of (hb_subscribers h) m")
  case None
  then show ?thesis by (simp add: push_member_def subscribed_def opt_or_def)
next
  case (Some v)
  with assms have "distinct (map sb_tx v)" by (simp add: registry_ok_def)
  from push_conns_channels [OF this] Some show ?thesis
    by (simp add: push_member_def subscribed_def opt_or_def Let_def case_prod_beta)
qed

lemma push_members_channels:
  assumes "registry_ok h" "distinct ms"
  shows "hb_channels (foldl (push_member author f) h ms) c =
    (if \<exists>m \<in> set ms. m \<noteq> author \<and> c \<in> subscribed m h then map_option (pushed f) (hb_channels h c) else hb_channels h c)"
  using assms
proof (induction ms arbitrary: h)
  case (Cons m ms)
  let ?h1 = "push_member author f h m"
  have other: "subscribed x ?h1 = subscribed x h" if "x \<in> set ms" for x
    using that Cons.prems(2) by (intro subscribed_push(2)) auto
  have disj: "\<not> (c \<in> subscribed m h \<and> (\<exists>x \<in> set ms. c \<in> subscribed x h))"
    using Cons.prems unfolding registry_ok_def by (metis disjoint_iff distinct.simps(2))
  have "hb_channels (foldl (push_member author f) ?h1 ms) c =
    (if \<exists>x \<in> set ms. x \<noteq> author \<and> c \<in> subscribed x h then map_option (pushed f) (hb_channels ?h1 c) else hb_channels ?h1 c)"
    using Cons.IH [OF registry_push [OF Cons.prems(1)]] Cons.prems(2) other by (metis distinct.simps(2))
  with disj push_member_channels [OF Cons.prems(1)] show ?case by auto
qed simp

lemma notify_fields [simp]:
  "hb_channels (notify_room room h) = hb_channels h" "hb_subscribers (notify_room room h) = hb_subscribers h"
  by (simp_all add: notify_room_def split: option.splits)

lemma members_distinct: "keyed_ok s \<Longrightarrow> distinct (room_member_ids room s)"
  by (auto simp: keyed_ok_def keys_ok_def room_member_ids_def distinct_map inj_on_def)

lemma member_ids: "a \<in> set (room_member_ids room s) \<longleftrightarrow> is_member room a s"
  by (auto simp: room_member_ids_def is_member_iff)

lemma fanout_channels:
  assumes "registry_ok h" "keyed_ok (hb_store h)"
  shows "hb_channels (fanout room author msg h) c =
    (if \<exists>a. is_member room a (hb_store h) \<and> a \<noteq> author \<and> c \<in> subscribed a h
     then map_option (pushed (Delivery msg)) (hb_channels h c) else hb_channels h c)"
proof -
  have r: "registry_ok (notify_room room h)" using assms(1) by (simp add: registry_ok_def subscribed_def)
  have eq: "subscribed a (notify_room room h) = subscribed a h" for a by (simp add: subscribed_def)
  have none: "hb_subscribers h = [] \<Longrightarrow> subscribed a h = {}" for a by (simp add: subscribed_def opt_or_def)
  show ?thesis
    using push_members_channels [OF r members_distinct [OF assms(2)], of author "Delivery msg" room c]
    by (cases "hb_subscribers h = []") (auto simp: fanout_def Let_def eq none member_ids)
qed

text \<open>The registry in the running hub: each entry is a live connection authenticated as its agent.\<close>

definition shrunk :: "hub \<Rightarrow> hub \<Rightarrow> bool" where
  "shrunk h h' = (\<forall>a v'. map_of (hb_subscribers h') a = Some v' \<longrightarrow>
     (\<exists>v P. map_of (hb_subscribers h) a = Some v \<and> v' = filter P v))"

lemma filter_self: "\<exists>P. v = filter P v"
  by (rule exI [of _ "\<lambda>_. True"]) simp

lemma shrunk_same: "hb_subscribers h' = hb_subscribers h \<Longrightarrow> shrunk h h'"
  by (simp add: shrunk_def filter_self)

lemma shrunk_trans: "shrunk h h1 \<Longrightarrow> shrunk h1 h2 \<Longrightarrow> shrunk h h2"
  unfolding shrunk_def by (metis filter_filter)

lemma shrunk_push: "shrunk h (push_member author f h m)"
  by (auto simp: shrunk_def push_member_registry filter_self split: if_splits)

lemma shrunk_pushes: "shrunk h (foldl (push_member author f) h ms)"
proof (induction ms arbitrary: h)
  case (Cons m ms)
  show ?case using shrunk_trans [OF shrunk_push Cons.IH] by simp
qed (simp add: shrunk_same)

lemma shrunk_fanout: "shrunk h (fanout room author msg h)"
  unfolding fanout_def Let_def
  by (auto intro: shrunk_same shrunk_trans [OF shrunk_same shrunk_pushes])

lemma subs_charge: "charge_agent agent kind now h = (ok, h') \<Longrightarrow> hb_subscribers h' = hb_subscribers h"
    "charge_room room kind now h = (ok, h') \<Longrightarrow> hb_subscribers h' = hb_subscribers h"
  by (auto simp: charge_agent_def charge_room_def split: prod.splits)

lemma shrunk_send: "shrunk h (snd (handle_send L e me tgt parts mentions reply_to client_id h))"
proof -
  have ann: "shrunk h (announce e me room parts men rep out h')" if "hb_subscribers h' = hb_subscribers h" for room parts men rep out h'
    unfolding announce_def using that by (auto intro!: shrunk_same shrunk_trans [OF shrunk_same shrunk_fanout])
  show ?thesis
    by (auto simp: handle_send_def Let_def split: prod.splits sum.splits intro!: shrunk_same ann dest!: subs_charge)
qed

lemma shrunk_authed: "shrunk h (snd (handle_authed L e me frame h))"
proof (cases frame)
  case (Send tgt parts mentions reply_to client_id)
  then show ?thesis by (simp add: shrunk_send)
qed (auto intro!: shrunk_same simp: handler_defs Let_def split: prod.splits sum.splits option.splits)

definition registered :: "sys \<Rightarrow> bool" where
  "registered y =
     (\<forall>a v. map_of (hb_subscribers (sy_hub y)) a = Some v \<longrightarrow> distinct (map sb_tx v) \<and>
        (\<forall>s \<in> set v. sb_tx s = sb_conn s \<and>
           (\<exists>k me. sy_socks y (sb_tx s) = Some k \<and> cn_authed (sk_conn k) = Some me \<and> au_id me = a)))"

lemma registeredD:
  assumes "registered y" "map_of (hb_subscribers (sy_hub y)) a = Some v" "s \<in> set v"
  shows "sb_tx s = sb_conn s" "\<exists>k me. sy_socks y (sb_tx s) = Some k \<and> cn_authed (sk_conn k) = Some me \<and> au_id me = a"
  using assms unfolding registered_def by blast+

lemma registered_same:
  "hb_subscribers h' = hb_subscribers (sy_hub y) \<Longrightarrow> registered (y\<lparr>sy_hub := h'\<rparr>) = registered y"
  by (simp add: registered_def)

lemma registered_ok: "registered y \<Longrightarrow> registry_ok (sy_hub y)"
proof -
  assume r: "registered y"
  have "a = b" if "c \<in> subscribed a (sy_hub y)" "c \<in> subscribed b (sy_hub y)" for a b c
    using r that
    by (cases "map_of (hb_subscribers (sy_hub y)) a"; cases "map_of (hb_subscribers (sy_hub y)) b")
      (fastforce simp: registered_def subscribed_def opt_or_def)+
  then show ?thesis using r by (auto simp: registry_ok_def registered_def)
qed

lemma registered_exchange:
  assumes "registered y" "sy_socks y c = Some k" "shrunk (sy_hub y) h'"
    and "cn_authed (sk_conn k) \<noteq> None \<longrightarrow> cn_authed (sk_conn k') = cn_authed (sk_conn k)"
  shows "registered (y\<lparr>sy_hub := h', sy_socks := (sy_socks y)(c \<mapsto> k')\<rparr>)"
  unfolding registered_def
proof (intro allI impI)
  fix a v' assume "map_of (hb_subscribers (sy_hub (y\<lparr>sy_hub := h', sy_socks := (sy_socks y)(c \<mapsto> k')\<rparr>))) a = Some v'"
  then obtain v P where v: "map_of (hb_subscribers (sy_hub y)) a = Some v" "v' = filter P v"
    using assms(3) unfolding shrunk_def by fastforce
  then show "distinct (map sb_tx v') \<and> (\<forall>s \<in> set v'. sb_tx s = sb_conn s \<and>
      (\<exists>k'' me. sy_socks (y\<lparr>sy_hub := h', sy_socks := (sy_socks y)(c \<mapsto> k')\<rparr>) (sb_tx s) = Some k'' \<and>
        cn_authed (sk_conn k'') = Some me \<and> au_id me = a))"
    using assms(1,2,4) by (fastforce simp: registered_def distinct_map_filter)
qed

lemma registered_subscribe:
  assumes "registered y" "sy_socks y c = Some k" "cn_authed (sk_conn k) = Some me"
  shows "registered (y\<lparr>sy_hub := subscribe (au_id me) c c (sy_hub y)\<rparr>)"
proof -
  let ?v = "opt_or (map_of (hb_subscribers (sy_hub y)) (au_id me)) []"
  have v: "distinct (map sb_tx ?v)" "\<forall>s \<in> set ?v. sb_tx s = sb_conn s \<and>
      (\<exists>k me'. sy_socks y (sb_tx s) = Some k \<and> cn_authed (sk_conn k) = Some me' \<and> au_id me' = au_id me)"
    using assms(1)
    by (cases "map_of (hb_subscribers (sy_hub y)) (au_id me)"; auto simp: registered_def opt_or_def)+
  then have "distinct (map sb_tx (filter (\<lambda>s. sb_conn s \<noteq> c) ?v @ [\<lparr>sb_conn = c, sb_tx = c\<rparr>]))"
    by (auto simp: distinct_map_filter)
  with v assms show ?thesis by (auto simp: registered_def subscribe_def Let_def) metis
qed

lemma subs_put_blob: "hb_subscribers (snd (snd (handle_put_blob e me tgt sha256 sz mt conn h))) = hb_subscribers h"
proof -
  let ?h0 = "h\<lparr>hb_inflight := hb_inflight h - max (hb_max_blob_bytes h) 1\<rparr>"
  obtain ok h1 where c1: "charge_agent (au_id me) Blob_kind (ev_now e) ?h0 = (ok, h1)" by fastforce
  have h1: "hb_subscribers h1 = hb_subscribers h" using subs_charge(1) [OF c1] by simp
  have c2: "charge_room room Blob_kind (ev_now e) (h1\<lparr>hb_store := s1\<rparr>) = (b, h2) \<Longrightarrow> hb_subscribers h2 = hb_subscribers h" for room s1 b h2
    by (drule subs_charge(2)) (simp add: h1)
  show ?thesis
    using c1 h1 by (auto simp: handle_put_blob_def Let_def release_def split: prod.splits sum.splits option.splits dest!: c2)
qed

lemma subs_hello: "handle_hello L e aid name role sig secret conn h = (f, conn', h') \<Longrightarrow> hb_subscribers h' = hb_subscribers h"
  by (auto simp: handle_hello_def Let_def split: option.splits if_splits)

lemma subs_get_blob: "hb_subscribers (snd (handle_get_blob e me bid h)) = hb_subscribers h"
  by (simp add: handle_get_blob_def split: option.splits)

lemma dispatch_subs:
  assumes "dispatch L e frame conn h = (r, conn', h')"
  shows "shrunk h h' \<or> (\<exists>me tx. cn_authed conn = Some me \<and> cn_push_tx conn = Some tx
    \<and> hb_subscribers h' = hb_subscribers (subscribe (au_id me) (cn_conn_id conn) tx h))"
proof (cases "cn_authed conn")
  case None
  have "hb_subscribers h' = hb_subscribers h"
    using assms None
    by (cases frame) (auto simp: dispatch_def Let_def split: if_splits prod.splits dest!: subs_hello)
  then show ?thesis using shrunk_same by blast
next
  case (Some me)
  obtain ok h1 where c: "charge_agent (au_id me) Operation (ev_now e) h = (ok, h1)" by fastforce
  note h1 = subs_charge(1) [OF c]
  have "h' \<in> {h, h1} \<or> dispatch_authed L e me frame conn h1 = (r, conn', h')"
    using Some c assms by (cases "validate_frame_bounds L h1 frame"; cases frame)
      (auto simp: dispatch_def split: if_splits simp del: validate_frame_bounds.simps)
  then consider "hb_subscribers h' = hb_subscribers h" | "dispatch_authed L e me frame conn h1 = (r, conn', h')"
    using h1 by auto
  then show ?thesis
  proof cases
    case 1
    then show ?thesis using shrunk_same by blast
  next
    case 2
    have "shrunk h1 h' \<or> (\<exists>tx. cn_push_tx conn = Some tx \<and> h' = subscribe (au_id me) (cn_conn_id conn) tx h1)"
      using 2 shrunk_authed [of h1 L e me frame] subs_get_blob
      by (cases frame) (auto simp: dispatch_authed_def case_prod_beta Let_def simp del: handle_authed.simps
          split: option.splits intro!: shrunk_same, metis snd_conv subs_put_blob)
    then show ?thesis
      using shrunk_trans [OF shrunk_same [OF h1]] h1 Some by (auto simp: subscribe_def Let_def)
  qed
qed

lemma subs_waited:
  "hb_subscribers (snd (waited_poll e me p h)) = hb_subscribers h"
  "hb_subscribers (snd (waited_pull e me room since limit ack secs h)) = hb_subscribers h"
proof -
  have "hb_subscribers (snd (room_notify r h)) = hb_subscribers h" for r h
    by (simp add: room_notify_def split: option.splits)
  then have "hb_subscribers (snd (waited_poll e me p h)) = hb_subscribers h" for p h
    by (simp add: waited_poll_def Let_def case_prod_beta)
  then show "hb_subscribers (snd (waited_poll e me p h)) = hb_subscribers h"
    "hb_subscribers (snd (waited_pull e me room since limit ack secs h)) = hb_subscribers h"
    by (simp_all add: waited_pull_def Let_def case_prod_beta)
qed

lemma on_message_subs:
  assumes "on_message L e m conn h = (outs, Some k', h')"
  shows "shrunk h h' \<or> (\<exists>me tx. cn_authed conn = Some me \<and> cn_push_tx conn = Some tx
    \<and> hb_subscribers h' = hb_subscribers (subscribe (au_id me) (cn_conn_id conn) tx h))"
proof (cases m)
  case (WsText len parsed)
  show ?thesis
  proof (cases "h' = h")
    case False
    from assms [unfolded WsText] this show ?thesis
    proof (cases rule: on_message_text)
      case (waited me room since limit secs ack)
      with of_waited_conn [OF waited(2)] subs_waited(2) show ?thesis using shrunk_same by metis
    next
      case (dispatched frame r conn')
      with dispatch_subs show ?thesis by blast
    qed
  qed (simp add: shrunk_same)
next
  case (WsBinary data)
  with assms show ?thesis
    by (auto simp: finish_blob_upload_def release_def Let_def intro!: shrunk_same
        split: option.splits prod.splits if_splits)
qed (use assms in \<open>auto intro: shrunk_same\<close>)

lemma unsubscribe_registry:
  "map_of (hb_subscribers (unsubscribe a c h)) b = Some v \<Longrightarrow>
     \<exists>w P. map_of (hb_subscribers h) b = Some w \<and> v = filter P w \<and> (b = a \<longrightarrow> P = (\<lambda>s. sb_conn s \<noteq> c))"
  by (cases "b = a") (auto simp: unsubscribe_def Let_def map_of_filter_key filter_self split: option.splits if_splits)

lemma registered_close:
  assumes "registered y" "sy_socks y c = Some k" "cn_conn_id (sk_conn k) = c" "hb_subscribers h' = hb_subscribers (sy_hub y)"
  shows "registered (y\<lparr>sy_hub := close_socket k h', sy_socks := (sy_socks y)(c := None)\<rparr>)"
proof -
  have cs: "hb_subscribers (close_socket k h') = hb_subscribers
      (case cn_authed (sk_conn k) of None \<Rightarrow> h' | Some me \<Rightarrow> unsubscribe (au_id me) c h')"
    using assms(3) by (simp add: close_socket_def release_def Let_def split: option.splits)
  have "\<exists>w P. map_of (hb_subscribers (sy_hub y)) a = Some w \<and> v = filter P w \<and> (\<forall>s \<in> set v. sb_tx s \<noteq> c)"
    if v: "map_of (hb_subscribers (close_socket k h')) a = Some v" for a v
  proof (cases "cn_authed (sk_conn k)")
    case None
    with v cs assms(4) have w: "map_of (hb_subscribers (sy_hub y)) a = Some v" by simp
    moreover have "\<forall>s \<in> set v. sb_tx s \<noteq> c" using registeredD(2) [OF assms(1) w] assms(2) None by fastforce
    ultimately show ?thesis using filter_self by blast
  next
    case (Some me)
    then obtain w P where w: "map_of (hb_subscribers (sy_hub y)) a = Some w" "v = filter P w"
        "a = au_id me \<longrightarrow> P = (\<lambda>s. sb_conn s \<noteq> c)"
      using v cs assms(4) unsubscribe_registry [of "au_id me" c h' a v] by auto
    moreover have "\<forall>s \<in> set v. sb_tx s \<noteq> c"
      using registeredD [OF assms(1) w(1)] assms(2) Some w(2,3) by fastforce
    ultimately show ?thesis by blast
  qed
  then show ?thesis using assms(1) by (fastforce simp: registered_def distinct_map_filter)
qed

interpretation registry: relative_invariant "hub_init budget" "hub_step L" socks_ok registered for budget L
proof
  fix y assume "hub_init budget y"
  then show "registered y" by (simp add: hub_init_def registered_def)
next
  fix y y' assume base: "socks_ok y" and inv: "registered y" and st: "hub_step L y y'"
  have ids: "sy_socks y c = Some k \<Longrightarrow> cn_conn_id (sk_conn k) = c \<and> cn_push_tx (sk_conn k) = Some c" for c k
    using base by (simp add: socks_ok_def)
  from st show "registered y'"
  proof cases
    case (accept outs k h')
    note o = open_slot [OF accept(2)]
    have "sy_socks y (hb_next_conn (sy_hub y)) = None"
      using base by (cases "sy_socks y (hb_next_conn (sy_hub y))") (auto simp: socks_ok_def)
    moreover have "hb_subscribers h' = hb_subscribers (sy_hub y)"
      using accept(2) by (auto simp: open_socket_def next_conn_id_def Let_def split: if_splits)
    ultimately show ?thesis using inv o(1) unfolding accept(1) by (fastforce simp: registered_def)
  next
    case (receive c k e m outs k' h')
    note mc = on_message_conn [OF receive(5)]
    from on_message_subs [OF receive(5)] show ?thesis
    proof
      assume "shrunk (sy_hub y) h'"
      from registered_exchange [OF inv receive(2) this] mc show ?thesis unfolding receive(1) by blast
    next
      assume "\<exists>me tx. cn_authed (sk_conn k) = Some me \<and> cn_push_tx (sk_conn k) = Some tx
        \<and> hb_subscribers h' = hb_subscribers (subscribe (au_id me) (cn_conn_id (sk_conn k)) tx (sy_hub y))"
      then obtain me where me: "cn_authed (sk_conn k) = Some me"
        "hb_subscribers h' = hb_subscribers (subscribe (au_id me) c c (sy_hub y))"
        using ids [OF receive(2)] by auto
      let ?y = "y\<lparr>sy_hub := subscribe (au_id me) c c (sy_hub y)\<rparr>"
      have "registered (?y\<lparr>sy_hub := h', sy_socks := (sy_socks ?y)(c \<mapsto> k')\<rparr>)"
        by (rule registered_exchange [OF registered_subscribe [OF inv receive(2) me(1)]])
          (use receive(2) me mc in \<open>auto intro: shrunk_same\<close>)
      then show ?thesis unfolding receive(1) by simp
    qed
  next
    case (leave c k e m outs h')
    with registered_close [OF inv leave(2)] ids [OF leave(2)] leave_store [OF leave(4)] show ?thesis by simp
  next
    case (drop c k)
    with registered_close [OF inv drop(2)] ids [OF drop(2)] show ?thesis by simp
  next
    case (wake c k p me e outs k' h')
    from of_waited_conn [OF wake(6)] have "h' = snd (waited_poll e me p (sy_hub y))" "sk_conn k' = sk_conn k" by auto
    then show ?thesis unfolding wake(1)
      by (intro registered_exchange [OF inv wake(2)]) (simp_all add: shrunk_same subs_waited)
  next
    case (push c k f q)
    with inv show ?thesis by (simp add: registered_same pop_push_def)
  next
    case (janitor now)
    with inv show ?thesis
      by (simp add: registered_same run_janitor_def prune_rate_windows_def Let_def case_prod_beta)
  qed
qed

end
