(* ===== verification/Hub_Access.thy ===== *)
theory Hub_Access
  imports Hub_System "HOL-Library.Code_Target_Nat"
begin

text \<open>
  Consequences of the handlers for a client: how an identity is established, how a membership can come
  about through a frame, what a reply may contain, when a long poll answers, and that an uploaded blob
  comes back unchanged.
\<close>

section \<open>Membership\<close>

definition joins :: "string \<Rightarrow> string \<Rightarrow> store \<Rightarrow> store \<Rightarrow> bool" where
  "joins r a s s' = (\<not> is_member r a s \<and> is_member r a s')"

text \<open>The writes that leave the members alone, or only remove some.\<close>

lemma is_member_quiet [simp]:
  "is_member r a (register_card lw c sig v vis now s) = is_member r a s"
  "is_member r a (snd (mint_directory_token tok sc ex cr now s)) = is_member r a s"
  "is_member r a (snd (mint_watch_token tok room owner ex now s)) = is_member r a s"
  "is_member r a (snd (create_invite code room kind role uses ex cr ap now s)) = is_member r a s"
  "is_member r a (serve_role room agent rl now s) = is_member r a s"
  "is_member r a (snd (claim_service_message room msg w lease now s)) = is_member r a s"
  "is_member r a (snd (complete_service_message room msg w st now s)) = is_member r a s"
  "is_member r a (snd (append_message mid room ep parts men rep cid now s)) = is_member r a s"
  "is_member r a (snd (remember vd author fct now emb model s)) = is_member r a s"
  "is_member r a (touch_presence aid stt act attn now s) = is_member r a s"
  "is_member r a (refresh_presence aid now s) = is_member r a s"
  "is_member r a (set_attention aid att now s) = is_member r a s"
  "is_member r a (upsert_agent aid nm role now s) = is_member r a s"
  "is_member r a (touch_blob_fetched bid now s) = is_member r a s"
  "is_member r a (charge_use code s) = is_member r a s"
  by (auto simp: is_member_iff register_card_def mint_directory_token_def mint_watch_token_def create_invite_def
      serve_role_def claim_service_message_def complete_service_message_def remember_def insert_fact_def
      touch_presence_def refresh_presence_def set_attention_def upsert_agent_def touch_blob_fetched_def charge_use_def
      Let_def split: option.splits if_splits prod.splits)

lemma redeem_joins:
  assumes "joins r a s (snd (redeem_invite code agent now s))"
  shows "a = agent \<and> (\<exists>i. lookup_key iv_code code (st_invites s) = Some i \<and> iv_room i = r
    \<and> \<not> iv_require_approval i \<and> now \<le> iv_expires i \<and> iv_uses i < iv_max_uses i)"
proof -
  have eq: "is_member r a (s\<lparr>st_invites := x, st_join_requests := z\<rparr>) = is_member r a s"
    "is_member r a (charge_use code s\<lparr>st_join_requests := z\<rparr>) = is_member r a s" for x z
    using is_member_quiet(15) [of r a code s] by (simp_all add: is_member_iff)
  from assms show ?thesis
    by (auto simp: joins_def redeem_invite_def is_member_add eq Let_def split: option.splits if_splits)
qed

lemma resolve_joins:
  assumes "joins r a s (snd (resolve_join room owner agent approve now s))"
  shows "r = room \<and> a = agent \<and> approve \<and> room_owned_by room owner s \<and> join_status room agent s \<noteq> None"
proof -
  have eq: "is_member r a (s\<lparr>st_join_requests := z\<rparr>) = is_member r a s" for z by (simp add: is_member_iff)
  from assms have "r = room \<and> a = agent \<and> approve \<and> room_owned_by room owner s
      \<and> filter (\<lambda>j. jr_room j = room \<and> jr_agent j = agent) (st_join_requests s) \<noteq> []"
    by (auto simp: joins_def resolve_join_def is_member_add eq Let_def split: if_splits)
  then show ?thesis by (auto simp: join_status_def filter_empty_conv lookup_key_def find_None_iff)
qed

lemma target_joins:
  assumes "joins r a s (snd (resolve_target e me tgt s))"
  shows "is_service_name r \<and> a = au_id me \<or> is_dm_name r"
  using assms
  by (auto simp: joins_def resolve_target_def is_member_add is_service_name_def is_dm_name_def Let_def
      split: target.splits option.splits if_splits)

lemma delete_joins [simp]: "\<not> joins r a s (snd (delete_room room owner s))"
  by (auto simp: joins_def delete_room_def is_member_iff set_delete_where)

text \<open>
  The ways into a room by one frame of \<open>me\<close>: a service is open to everybody, a direct message room to
  its two ends, an empty room to whoever opens it; any other room needs an open code or its owner.
\<close>

definition admitted :: "ms \<Rightarrow> authed \<Rightarrow> client_frame \<Rightarrow> store \<Rightarrow> string \<Rightarrow> string \<Rightarrow> bool" where
  "admitted now me frame s r a =
     (is_service_name r \<and> a = au_id me \<or> is_dm_name r \<or> room_empty r s \<and> a = au_id me
      \<or> (\<exists>code i. frame = Redeem code \<and> a = au_id me \<and> lookup_key iv_code (normalize_code code) (st_invites s) = Some i
           \<and> iv_room i = r \<and> \<not> iv_require_approval i \<and> now \<le> iv_expires i \<and> iv_uses i < iv_max_uses i)
      \<or> frame = ResolveJoin r a True \<and> room_owned_by r (au_id me) s \<and> join_status r a s \<noteq> None)"

lemma invite_joins:
  assumes "store_ok (hb_store h)" "joins r a (hb_store h) (hb_store (snd (handle_invite e me kind room ttl uses approval h)))"
  shows "room_empty r (hb_store h) \<and> a = au_id me"
proof -
  obtain rn n where rn: "invite_room e kind room uses = (rn, n)" by (cases "invite_room e kind room uses")
  have ok: "rooms_ok (hb_store h)" using assms(1) by (simp add: store_ok_def)
  have "\<not> is_member r a (hb_store h) \<and> r = rn \<and> a = au_id me
      \<and> (room_kind_of rn (hb_store h) = None \<or> is_member rn (au_id me) (hb_store h))"
    using assms(2) by (auto simp: joins_def handle_invite_def rn Let_def case_prod_beta is_member_add split: sum.splits if_splits)
  with room_kind_None [OF ok] unnamed_empty [OF ok] show ?thesis by blast
qed

lemma send_joins:
  assumes "joins r a (hb_store h) (hb_store (snd (handle_send L e me tgt parts mentions reply_to client_id h)))"
  shows "is_service_name r \<and> a = au_id me \<or> is_dm_name r"
proof (rule target_joins)
  obtain ok h1 where c1: "charge_agent (au_id me) Send_kind (ev_now e) h = (ok, h1)" by fastforce
  obtain rt s1 where rt: "resolve_target e me tgt (hb_store h) = (rt, s1)" by fastforce
  have h1: "hb_store h1 = hb_store h" by (rule charge_agent_store [OF c1])
  have c2: "charge_room room Send_kind (ev_now e) (h1\<lparr>hb_store := s1\<rparr>) = (b, h2) \<Longrightarrow> hb_store h2 = s1" for room b h2
    by (drule charge_room_store) simp
  have app: "append_message mid room ep ps men rep cid now s = (x, s') \<Longrightarrow> is_member r a s' = is_member r a s"
    for mid room ep ps men rep cid now s x s'
    using is_member_quiet(8) [of r a mid room ep ps men rep cid now s] by simp
  show "joins r a (hb_store h) (snd (resolve_target e me tgt (hb_store h)))"
    using assms c1 rt h1
    by (cases rt) (auto simp: joins_def handle_send_def Let_def split: prod.splits sum.splits if_splits dest!: c2 app)
qed

lemma put_blob_joins:
  assumes "joins r a (hb_store h) (hb_store (snd (snd (handle_put_blob e me tgt sha256 sz mt conn h))))"
  shows "is_service_name r \<and> a = au_id me \<or> is_dm_name r"
proof (rule target_joins)
  let ?h0 = "h\<lparr>hb_inflight := hb_inflight h - max (hb_max_blob_bytes h) 1\<rparr>"
  obtain ok h1 where c1: "charge_agent (au_id me) Blob_kind (ev_now e) ?h0 = (ok, h1)" by fastforce
  obtain rt s1 where rt: "resolve_target e me tgt (hb_store h) = (rt, s1)" by fastforce
  have h1: "hb_store h1 = hb_store h" using charge_agent_store [OF c1] by simp
  have c2: "charge_room room Blob_kind (ev_now e) (h1\<lparr>hb_store := s1\<rparr>) = (b, h2) \<Longrightarrow> hb_store h2 = s1" for room b h2
    by (drule charge_room_store) simp
  show "joins r a (hb_store h) (snd (resolve_target e me tgt (hb_store h)))"
    using assms c1 rt h1
    by (cases rt) (auto simp: joins_def handle_put_blob_def Let_def split: prod.splits sum.splits if_splits dest!: c2)
qed

lemma authed_joins:
  assumes "store_ok (hb_store h)" "joins r a (hb_store h) (hb_store (snd (handle_authed L e me frame h)))"
  shows "admitted (ev_now e) me frame (hb_store h) r a"
proof (cases frame)
  case (Invite kind room ttl uses approval)
  with invite_joins [OF assms(1)] assms(2) show ?thesis by (simp add: admitted_def)
next
  case (Send tgt parts mentions reply_to client_id)
  with send_joins [of r a h L e me tgt parts mentions reply_to client_id] assms(2) show ?thesis by (auto simp: admitted_def)
next
  case (Redeem code)
  have "joins r a (hb_store h) (snd (redeem_invite (normalize_code code) (au_id me) (ev_now e) (hb_store h)))"
    using assms(2) Redeem by (simp add: handle_redeem_def case_prod_beta split: sum.splits)
  from redeem_joins [OF this] Redeem show ?thesis by (auto simp: admitted_def)
next
  case (ResolveJoin room agent approve)
  have "joins r a (hb_store h) (snd (resolve_join room (au_id me) agent approve (ev_now e) (hb_store h)))"
    using assms(2) ResolveJoin by (simp add: handle_resolve_join_def case_prod_beta split: sum.splits)
  from resolve_joins [OF this] ResolveJoin show ?thesis by (auto simp: admitted_def)
next
  case (Serve service)
  with assms(2) show ?thesis
    by (auto simp: admitted_def joins_def handle_serve_def Let_def is_member_add is_service_name_def split: if_splits)
next
  case (DeleteRoom room)
  with assms(2) show ?thesis by (simp add: handle_delete_room_def case_prod_beta split: sum.splits)
qed (use assms(2) in \<open>simp_all add: joins_def handler_defs pull_member Let_def case_prod_beta
    split: if_splits option.splits sum.splits\<close>)

lemma dispatch_joins:
  assumes "store_ok (hb_store h)" "dispatch L e frame conn h = (reply, conn', h')"
    and "joins r a (hb_store h) (hb_store h')"
  shows "\<exists>me. cn_authed conn = Some me \<and> admitted (ev_now e) me frame (hb_store h) r a"
proof (cases "cn_authed conn")
  case None
  have "is_member r a (hb_store h') = is_member r a (hb_store h)"
    using assms(2) None by (cases frame) (auto simp: dispatch_def Let_def handle_hello_def split: if_splits option.splits)
  with assms(3) show ?thesis by (auto simp: joins_def)
next
  case (Some me)
  obtain ok h1 where c: "charge_agent (au_id me) Operation (ev_now e) h = (ok, h1)" by fastforce
  note h1 = charge_agent_store [OF c]
  have "hb_store h' = hb_store h \<or> dispatch_authed L e me frame conn h1 = (reply, conn', h')"
    using Some c assms(2) h1 by (cases "validate_frame_bounds L h1 frame"; cases frame)
      (auto simp: dispatch_def split: if_splits simp del: validate_frame_bounds.simps)
  with assms(3) have d: "dispatch_authed L e me frame conn h1 = (reply, conn', h')" by (auto simp: joins_def)
  have ok1: "store_ok (hb_store h1)" using assms(1) h1 by simp
  have "admitted (ev_now e) me frame (hb_store h1) r a"
  proof (cases "\<exists>tgt sha sz mt. frame = PutBlob tgt sha sz mt")
    case True
    then obtain tgt sha sz mt where f: "frame = PutBlob tgt sha sz mt" by blast
    have "snd (snd (handle_put_blob e me tgt sha sz mt conn h1)) = h'"
      using d f by (auto simp: dispatch_authed_def split: prod.splits)
    with put_blob_joins [of r a h1 e me tgt sha sz mt conn] assms(3) h1 show ?thesis by (auto simp: admitted_def)
  next
    case False
    have "hb_store h' = hb_store (snd (handle_authed L e me frame h1)) \<or> \<not> joins r a (hb_store h1) (hb_store h')"
      using d False by (cases frame) (auto simp: dispatch_authed_def joins_def case_prod_beta handle_get_blob_def Let_def
          simp del: handle_authed.simps split: option.splits if_splits)
    with authed_joins [OF ok1, of r a L e me frame] assms(3) h1 show ?thesis by auto
  qed
  with Some h1 show ?thesis by simp
qed

section \<open>What a reply may contain\<close>

text \<open>
  The standing \<open>me\<close> must have in the store for a reply: membership for the messages, the queue and the
  roster of a room, ownership for its join requests and watch links and for decisions on it, a shared
  room for a blob, and for every remembered fact its room or its authorship.
\<close>

fun entitled :: "authed \<Rightarrow> store \<Rightarrow> reply \<Rightarrow> bool" where
  "entitled me s (Frame (Pulled room messages cursor)) = is_member room (au_id me) s"
| "entitled me s (Frame (Queued room messages)) = (is_member room (au_id me) s \<and> room_kind_of room s = Some Service)"
| "entitled me s (Frame (Claimed_frame room message claimed lease)) = is_member room (au_id me) s"
| "entitled me s (Frame (Completed_frame room message completed)) = is_member room (au_id me) s"
| "entitled me s (Frame (Roster_frame room entries)) = is_member room (au_id me) s"
| "entitled me s (Frame (JoinRequests_frame room requests)) = room_owned_by room (au_id me) s"
| "entitled me s (Frame (JoinResolved room agent approved)) = room_owned_by room (au_id me) s"
| "entitled me s (Frame (Watch tok room expires)) = room_owned_by room (au_id me) s"
| "entitled me s (Frame (RoomDeleted room)) = room_owned_by room (au_id me) s"
| "entitled me s (Frame (Recalled hits)) =
     (\<forall>x \<in> set hits. case rh_room x of None \<Rightarrow> rh_author x = au_id me | Some r \<Rightarrow> is_member r (au_id me) s)"
| "entitled me s (FrameThenFile (BlobIncoming bid sz media_type) path) = (path = bid \<and> blob_readable_by bid (au_id me) s)"
| "entitled me s (FrameThenFile f path) = False"
| "entitled me s (Frame f) = True"

lemma entitled_error [simp]: "entitled me s (Frame (error_frame er))" "entitled me s (Frame (error_coded c m))"
  by (cases er) (simp_all add: error_coded_def)

lemma scoped_entitled:
  assumes "scoped_hit (au_id me) room s x" "\<not> not_member me room s"
  shows "case rh_room x of None \<Rightarrow> rh_author x = au_id me | Some r \<Rightarrow> is_member r (au_id me) s"
proof -
  obtain f where "in_scope (au_id me) room s f" "rh_room x = fa_room f" "rh_author x = fa_author f"
    using assms(1) by (auto simp: scoped_hit_def)
  with assms(2) show ?thesis
    by (cases room; cases "fa_room f") (auto simp: in_scope_def not_member_def is_member_iff)
qed

lemma recall_entitled:
  assumes "\<forall>xs. mset (lb_hash_order L xs) = mset xs" "handle_recall L me query room limit emb key h = (Inr f, h')"
  shows "entitled me (hb_store h) (Frame f)"
proof -
  have nm: "\<not> not_member me room (hb_store h)" using assms(2) by (auto simp: handle_recall_def Let_def split: if_splits)
  obtain hits where f: "f = Recalled hits" and "(\<exists>k. recall_by_key (au_id me) k room limit (hb_store h) = hits)
      \<or> recall (lb_alnum L) (lb_lower L) (lb_fts L) (lb_knn L) (lb_hash_order L) (lb_vec_dim L) (au_id me) query room limit emb
          (hb_store h) = Inr hits"
    using assms(2) by (auto simp: handle_recall_def Let_def split: if_splits option.splits sum.splits)
  then have "\<forall>x \<in> set hits. scoped_hit (au_id me) room (hb_store h) x"
    by (elim disjE exE) (auto intro: recall_by_key_scoped recall_scoped simp: assms(1))
  with scoped_entitled [OF _ nm] f show ?thesis by simp
qed

lemma authed_entitled:
  assumes "\<forall>xs. mset (lb_hash_order L xs) = mset xs" "handle_authed L e me frame h = (Inr f, h')"
  shows "entitled me (hb_store h) (Frame f)"
proof (cases frame)
  case (Recall query room limit emb key)
  with assms(2) recall_entitled [OF assms(1)] show ?thesis by simp
qed (use assms(2) in \<open>auto simp: handler_defs handle_send_def service_guard_None pending_join_requests_def resolve_join_def
    mint_watch_token_def delete_room_def Let_def split: if_splits option.splits sum.splits prod.splits\<close>)

lemma dispatch_authed_entitled:
  assumes "\<forall>xs. mset (lb_hash_order L xs) = mset xs" "dispatch_authed L e me frame conn h = (r, conn', h')"
  shows "entitled me (hb_store h) r"
proof -
  obtain res g where res: "handle_authed L e me frame h = (res, g)" by fastforce
  have "\<And>f. res = Inr f \<Longrightarrow> entitled me (hb_store h) (Frame f)" using authed_entitled [OF assms(1)] res by blast
  then have "entitled me (hb_store h) (as_reply (case res of Inl er \<Rightarrow> Inl er | Inr f \<Rightarrow> Inr (Frame f)))"
    by (cases res) (simp_all add: as_reply_def)
  moreover have "entitled me (hb_store h) (as_reply (fst (handle_get_blob e me bid h)))" for bid
    by (simp add: handle_get_blob_def as_reply_def del: error_frame.simps split: option.splits)
  moreover have "entitled me (hb_store h) (as_reply (fst (handle_put_blob e me tgt sha sz mt conn h)))" for tgt sha sz mt
    by (auto simp: handle_put_blob_def as_reply_def Let_def case_prod_beta split: sum.splits)
  ultimately show ?thesis
    using assms(2) res by (cases frame) (auto simp: dispatch_authed_def case_prod_beta Let_def simp del: handle_authed.simps)
qed

lemma dispatch_entitled:
  assumes "\<forall>xs. mset (lb_hash_order L xs) = mset xs" "cn_authed conn = Some me" "dispatch L e frame conn h = (r, conn', h')"
  shows "entitled me (hb_store h) r"
proof -
  obtain ok h1 where c: "charge_agent (au_id me) Operation (ev_now e) h = (ok, h1)" by fastforce
  have "(\<exists>er. r = Frame (error_frame er)) \<or> (\<exists>c m. r = Frame (error_coded c m)) \<or> dispatch_authed L e me frame conn h1 = (r, conn', h')"
    using assms(2,3) c by (cases "validate_frame_bounds L h1 frame"; cases frame)
      (auto simp: dispatch_def split: if_splits simp del: validate_frame_bounds.simps)
  with dispatch_authed_entitled [OF assms(1), of e me frame conn h1 r conn' h'] charge_agent_store [OF c]
  show ?thesis by auto
qed

section \<open>The handshake\<close>

text \<open>When exactly a connection becomes authenticated.\<close>

definition good_hello :: "lib \<Rightarrow> env \<Rightarrow> conn_state \<Rightarrow> hub \<Rightarrow> string \<Rightarrow> string \<Rightarrow> string option \<Rightarrow> string option \<Rightarrow> string option \<Rightarrow> bool" where
  "good_hello L e conn h aid name role sig secret =
     (cn_hello_frames conn < 4 \<and> hello_bounds aid name role sig secret = None
      \<and> (\<exists>sg nonce. sig = Some sg \<and> cn_nonce conn = Some nonce
           \<and> challenge_valid (lb_content_id L) nonce (hb_public_url h) (ev_now e) \<and> lb_verify L aid nonce sg)
      \<and> (case hb_join_secret h of None \<Rightarrow> True | Some expected \<Rightarrow> secret_matches expected secret))"

lemma hello_authenticates:
  assumes "cn_authed conn = None" "dispatch L e frame conn h = (r, conn', h')"
  shows "cn_authed conn' = Some me \<longleftrightarrow>
    (\<exists>aid name role nonce sig secret. frame = Hello aid name role nonce sig secret
       \<and> good_hello L e conn h aid name role sig secret \<and> me = \<lparr>au_id = aid, au_name = name, au_role = role\<rparr>)"
  using assms
  by (cases frame) (auto simp: dispatch_def good_hello_def handle_hello_def verify_sig_def Let_def
      split: if_splits option.splits)

section \<open>The long poll\<close>

text \<open>Polling a parked request again and again, with whatever happens to the hub in between.\<close>

fun poll_run :: "authed \<Rightarrow> (env \<times> (hub \<Rightarrow> hub)) list \<Rightarrow> parked \<Rightarrow> hub \<Rightarrow> (env \<times> hub \<times> server_frame \<times> hub) option" where
  "poll_run me [] p h = None"
| "poll_run me ((e, others) # turns) p h =
     (case waited_poll e me p (others h) of
        (WDone f, h') \<Rightarrow> Some (e, others h, f, h')
      | (WParked p', h') \<Rightarrow> poll_run me turns p' h')"

lemma waited_poll_parked:
  "waited_poll e me p h = (WParked p', h') \<Longrightarrow> p' = p\<lparr>pk_seen := pk_seen p'\<rparr> \<and> \<not> pk_deadline p \<le> ev_now e"
  by (auto simp: waited_poll_def Let_def case_prod_beta split: if_splits)

lemma poll_run_returns:
  assumes "(e, others) \<in> set turns" "pk_deadline p \<le> ev_now e"
  shows "\<exists>x. poll_run me turns p h = Some x"
  using assms
proof (induction turns arbitrary: p h)
  case (Cons t turns)
  obtain e1 o1 where t: "t = (e1, o1)" by (cases t)
  show ?case
  proof (cases "waited_poll e1 me p (o1 h)")
    case (Pair w h')
    show ?thesis
    proof (cases w)
      case (WParked p')
      with Pair waited_poll_parked [of e1 me p "o1 h" p' h']
      have w: "waited_poll e1 me p (o1 h) = (WParked p', h')" "p' = p\<lparr>pk_seen := pk_seen p'\<rparr>" "\<not> pk_deadline p \<le> ev_now e1"
        by auto
      then have "pk_deadline p' = pk_deadline p" by (metis parked.select_convs(5) parked.surjective parked.update_convs(4))
      with w Cons t show ?thesis by auto
    qed (use Pair t in simp)
  qed
qed simp

lemma poll_run_pull:
  assumes "poll_run me turns p h = Some (e, h1, f, h2)"
  shows "\<exists>ms c. pull (pk_room p) (au_id me) None (pk_limit p) (pk_ack p) (hb_store h1) = ((ms, c), hb_store h2)
    \<and> f = Pulled (pk_room p) ms c \<and> (ms \<noteq> [] \<or> pk_deadline p \<le> ev_now e)"
  using assms
proof (induction turns arbitrary: p h)
  case (Cons t turns)
  obtain e1 o1 where t: "t = (e1, o1)" by (cases t)
  obtain w h' where w: "waited_poll e1 me p (o1 h) = (w, h')" by fastforce
  show ?case
  proof (cases w)
    case (WDone g)
    with w t Cons.prems have "e = e1" "h1 = o1 h" "f = g" "h2 = h'" by auto
    with w WDone show ?thesis
      by (auto simp: waited_poll_def Let_def case_prod_beta split: if_splits)
  next
    case (WParked p')
    with waited_poll_parked w have p': "p' = p\<lparr>pk_seen := pk_seen p'\<rparr>" by blast
    have "pk_room p' = pk_room p" "pk_limit p' = pk_limit p" "pk_ack p' = pk_ack p" "pk_deadline p' = pk_deadline p"
      by (subst p', simp)+
    with Cons.IH [of p' h'] Cons.prems w WParked t show ?thesis by auto
  qed
qed simp

section \<open>Blobs\<close>

lemma upload_stored:
  assumes "finish_blob_upload L e p data h = (BlobStored bid n, h')"
  shows "bid = lb_content_id L data" "bid = pu_id p" "n = length data" "n = pu_size p" "n \<le> hb_max_blob_bytes h"
    and "hb_blob_dir h' = (hb_blob_dir h)(bid \<mapsto> data)"
    and "hb_store h' = put_blob_meta bid (pu_room p) (pu_author p) (pu_media_type p) (int (length data)) (ev_now e) (hb_store h)"
  using assms by (auto simp: finish_blob_upload_def error_coded_def release_def Let_def split: if_splits option.splits)

lemma upload_refused:
  assumes "lb_content_id L data \<noteq> pu_id p \<or> length data \<noteq> pu_size p \<or> hb_max_blob_bytes h < length data"
  shows "\<exists>m c. finish_blob_upload L e p data h = (Error_frame m (Some c), release (Some p) h)"
  using assms by (auto simp: finish_blob_upload_def error_coded_def Let_def)

lemma put_blob_meta_present: "blob_meta bid (put_blob_meta bid room author mt sz now s) \<noteq> None"
  by (simp add: blob_meta_def put_blob_meta_def lookup_key_ignore)

lemma put_blob_readable:
  "is_member room agent s \<Longrightarrow> blob_readable_by bid agent (put_blob_meta bid room author mt sz now s)"
  by (auto simp: blob_readable_by_def put_blob_meta_def is_member_iff filter_empty_conv set_insert_or_ignore split: if_splits)

lemma get_blob_sends:
  assumes "blob_meta bid (hb_store h) \<noteq> None" "blob_readable_by bid (au_id me) (hb_store h)" "hb_blob_dir h bid = Some data"
  shows "\<exists>f h'. handle_get_blob e me bid h = (Inr (FrameThenFile f bid), h') \<and> hb_blob_dir h' = hb_blob_dir h
    \<and> send_reply (FrameThenFile f bid) h' = [OFrame f, OBinary data] \<and> (\<exists>sz mt. f = BlobIncoming bid sz mt)"
  using assms by (auto simp: handle_get_blob_def send_reply_def)

section \<open>Sending\<close>

lemma chan_charge: "charge_agent agent kind now h = (ok, h') \<Longrightarrow> hb_channels h' = hb_channels h"
    "charge_room room kind now h = (ok, h') \<Longrightarrow> hb_channels h' = hb_channels h"
  by (auto simp: charge_agent_def charge_room_def split: prod.splits)

text \<open>A send that is not a duplicate appends one row and announces exactly that row.\<close>

lemma send_appends:
  assumes "handle_send L e me tgt parts mentions reply_to client_id h = (Inr f, h')"
    and "st_messages (hb_store h') \<noteq> st_messages (hb_store h)"
  obtains room s1 h2 g where "f = Sent (mg_id g) (mg_seq g) room" "mg_room g = room" "mg_author g = au_id me"
    "st_messages (hb_store h') = st_messages (hb_store h) @ [g]" "st_members (hb_store h') = st_members s1"
    "fst (resolve_target e me tgt (hb_store h)) = Inr room" "s1 = snd (resolve_target e me tgt (hb_store h))"
    "hb_store h2 = hb_store h'" "h' = fanout room (au_id me) (to_stored g) h2"
    "hb_subscribers h2 = hb_subscribers h" "hb_channels h2 = hb_channels h"
proof -
  obtain ok h1 where c1: "charge_agent (au_id me) Send_kind (ev_now e) h = (ok, h1)" by fastforce
  obtain rt s1 where rt: "resolve_target e me tgt (hb_store h) = (rt, s1)" by fastforce
  note h1 = charge_agent_store [OF c1] subs_charge(1) [OF c1] chan_charge(1) [OF c1]
  have msgs: "st_messages s1 = st_messages (hb_store h)"
    using rt by (auto simp: resolve_target_def Let_def add_member_def ensure_room_def split: target.splits option.splits if_splits)
  from assms(1) c1 rt h1 obtain room where room: "rt = Inr room"
    by (cases rt) (auto simp: handle_send_def Let_def split: if_splits)
  obtain ok2 h2 where c2: "charge_room room Send_kind (ev_now e) (h1\<lparr>hb_store := s1\<rparr>) = (ok2, h2)" by fastforce
  have h2: "hb_store h2 = s1" "hb_subscribers h2 = hb_subscribers h" "hb_channels h2 = hb_channels h"
    using charge_room_store [OF c2] subs_charge(2) [OF c2] chan_charge(2) [OF c2] h1 by simp_all
  let ?men = "Option.bind mentions (normalize_mentions (lb_lower L))"
  obtain res s2 where ap: "append_message (ev_uuid e) room (endpoint_of me) parts ?men reply_to client_id (ev_now e) s1 = (res, s2)"
    by fastforce
  from assms(1) c1 rt room c2 ap h1 h2 obtain out where out: "res = Inr out" "f = Sent (ao_id out) (ao_seq out) room"
      "h' = announce e me room parts ?men reply_to out (h2\<lparr>hb_store := s2\<rparr>)"
    by (cases res) (auto simp: handle_send_def Let_def split: if_splits)
  have s2: "hb_store h' = s2" using out by simp
  have nodup: "find (client_conflict room (ep_id (endpoint_of me)) client_id) (st_messages s1) = None"
    "\<forall>g \<in> set (st_messages s1). mg_id g \<noteq> ev_uuid e"
    using ap out(1) assms(2) s2 msgs by (auto simp: append_message_def Let_def split: option.splits if_splits)
  note new = append_new [OF nodup, of parts ?men reply_to "ev_now e", unfolded ap]
  let ?g = "last (st_messages s2)"
  show thesis
  proof (rule that [of ?g room s1 "(h2\<lparr>hb_store := s2, hb_metrics := (hb_metrics h2)
        \<lparr>mt_messages_total := mt_messages_total (hb_metrics h2) + 1,
         mt_tokens_total := mt_tokens_total (hb_metrics h2) + nat (ao_tokens out)\<rparr>\<rparr>)"])
  qed (use new out msgs rt room s2 h2 in \<open>auto simp: endpoint_of_def announce_def to_stored_def\<close>)
qed

section \<open>Concrete runs\<close>

text \<open>One accepted connection and one delivered message as functions on the running hub, for evaluation.\<close>

definition connect :: "sys \<Rightarrow> sys" where
  "connect y =
     (case open_socket (sy_hub y) of
        (outs, Some k, h') \<Rightarrow> y\<lparr>sy_hub := h', sy_socks := (sy_socks y)(cn_conn_id (sk_conn k) \<mapsto> k)\<rparr>
      | _ \<Rightarrow> y)"

definition deliver :: "lib \<Rightarrow> env \<Rightarrow> nat \<Rightarrow> ws_message \<Rightarrow> sys \<Rightarrow> sys" where
  "deliver L e c m y =
     (case sy_socks y c of
        None \<Rightarrow> y
      | Some k \<Rightarrow>
          (case on_message L e m (sk_conn k) (sy_hub y) of
             (outs, Some k', h') \<Rightarrow> y\<lparr>sy_hub := h', sy_socks := (sy_socks y)(c \<mapsto> k')\<rparr>
           | _ \<Rightarrow> y))"

definition ready :: "env \<Rightarrow> nat \<Rightarrow> sys \<Rightarrow> bool" where
  "ready e c y =
     (fresh_env e (sys_store y) \<and> (case sy_socks y c of None \<Rightarrow> True | Some k \<Rightarrow> sk_parked k = None))"

lemma connect_reachable: "reachable init (hub_step L) y \<Longrightarrow> reachable init (hub_step L) (connect y)"
  by (auto simp: connect_def split: prod.splits option.splits intro: reachable_step hub_step.accept)

lemma deliver_reachable:
  "reachable init (hub_step L) y \<Longrightarrow> ready e c y \<Longrightarrow> reachable init (hub_step L) (deliver L e c m y)"
  by (auto simp: deliver_def ready_def split: prod.splits option.splits intro: reachable_step hub_step.receive)

definition demo_lib :: lib where
  "demo_lib = \<lparr>lb_content_id = (\<lambda>d. ''00112233aabb''), lb_verify = (\<lambda>aid n sg. sg = aid), lb_to_vec = (\<lambda>j. []),
     lb_frame_len = (\<lambda>f. 0), lb_lower = (\<lambda>s. s), lb_alnum = (\<lambda>s. True), lb_fts = (\<lambda>q rows. []),
     lb_knn = (\<lambda>v n rows. []), lb_hash_order = (\<lambda>xs. xs), lb_vec_dim = 3\<rparr>"

definition demo_env :: "nat \<Rightarrow> env" where
  "demo_env n = \<lparr>ev_now = int n, ev_uuid = ''u'' @ show_nat n, ev_suffix = [n, 1, 2, 3, 4, 5],
     ev_code = [n, 1, 2, 3, 4, 5, 6, 7], ev_token = [n], ev_write_fails = None\<rparr>"

definition demo_start :: sys where
  "demo_start = \<lparr>sy_hub = hub_new empty_store ''parler://h'' ''h'' PublicHub, sy_socks = Map.empty\<rparr>"

text \<open>Two agents connect and authenticate; the first opens a room and writes to it, the second joins and subscribes.\<close>

definition demo_talk :: "(nat \<times> nat \<times> client_frame) list" where
  "demo_talk =
     [(1, 1, Hello ''al'' ''Al'' None None None None), (2, 1, Hello ''al'' ''Al'' None None (Some ''al'') None),
      (3, 2, Hello ''bo'' ''Bo'' None None None None), (4, 2, Hello ''bo'' ''Bo'' None None (Some ''bo'') None),
      (5, 2, Subscribe), (6, 1, Invite Channel (Some ''lab'') None None False), (7, 2, Redeem ''GBCDEFGH''),
      (8, 1, Send (TRoom ''lab'') [Text ''hi''] None None None)]"

fun run_talk :: "lib \<Rightarrow> (nat \<times> nat \<times> client_frame) list \<Rightarrow> sys \<Rightarrow> sys" where
  "run_talk L [] y = y"
| "run_talk L ((n, c, f) # fs) y = run_talk L fs (deliver L (demo_env n) c (WsText 0 (Some f)) y)"

fun talk_ready :: "lib \<Rightarrow> (nat \<times> nat \<times> client_frame) list \<Rightarrow> sys \<Rightarrow> bool" where
  "talk_ready L [] y = True"
| "talk_ready L ((n, c, f) # fs) y =
     (ready (demo_env n) c y \<and> talk_ready L fs (deliver L (demo_env n) c (WsText 0 (Some f)) y))"

lemma talk_reachable:
  "reachable init (hub_step L) y \<Longrightarrow> talk_ready L fs y \<Longrightarrow> reachable init (hub_step L) (run_talk L fs y)"
  by (induction L fs y rule: run_talk.induct) (auto intro: deliver_reachable)

definition demo_sys :: sys where
  "demo_sys = run_talk demo_lib demo_talk (connect (connect demo_start))"

lemma demo_start_init: "hub_init DEFAULT_MAX_INFLIGHT_BLOB_BYTES demo_start"
  by (simp add: hub_init_def demo_start_def hub_new_def)

lemma demo_reachable: "reachable (hub_init DEFAULT_MAX_INFLIGHT_BLOB_BYTES) (hub_step demo_lib) demo_sys"
proof -
  have "talk_ready demo_lib demo_talk (connect (connect demo_start))" by code_simp
  then show ?thesis
    unfolding demo_sys_def by (intro talk_reachable connect_reachable reachable_init demo_start_init)
qed

lemma demo_messages: "map mg_author (st_messages (sys_store demo_sys)) = [''al'']"
  by code_simp

end
