(* ===== verification/Hub_Guard.thy ===== *)
theory Hub_Guard
  imports Hub_Access
begin

text \<open>
  The guards before a frame is handled, and the kind of frame each request is answered with.
\<close>

section \<open>Refusals\<close>

text \<open>The three guards before a frame other than hello is handled.\<close>

definition refused :: "lib \<Rightarrow> env \<Rightarrow> client_frame \<Rightarrow> conn_state \<Rightarrow> hub \<Rightarrow> bool" where
  "refused L e frame conn h =
     ((case frame of Hello aid name role nonce sig secret \<Rightarrow> False | _ \<Rightarrow> True)
      \<and> (case cn_authed conn of
           None \<Rightarrow> True
         | Some me \<Rightarrow> \<not> fst (charge_agent (au_id me) Operation (ev_now e) h) \<or> validate_frame_bounds L h frame \<noteq> None))"

lemma bound_coded:
  "bounded_string s label n = Some er \<Longrightarrow> \<exists>c m. er = Coded c m" "bounded_opt v label n = Some er \<Longrightarrow> \<exists>c m. er = Coded c m"
  "bounded_target tgt = Some er \<Longrightarrow> \<exists>c m. er = Coded c m" "payload_bound L h frame = Some er \<Longrightarrow> \<exists>c m. er = Coded c m"
  by (cases tgt; auto simp: bounded_string_def bounded_opt_def payload_bound_def split: if_splits option.splits)+

lemma first_error_in: "first_error rs = Some er \<Longrightarrow> Some er \<in> set rs"
  by (induction rs rule: first_error.induct) auto

lemma bounds_coded: "validate_frame_bounds L h frame = Some er \<Longrightarrow> \<exists>c m. er = Coded c m"
  by (cases frame) (auto dest!: first_error_in dest: bound_coded bound_coded [OF sym] split: if_splits option.splits)

lemma bounds_rate [simp]: "validate_frame_bounds L (h\<lparr>hb_rate := m\<rparr>) frame = validate_frame_bounds L h frame"
  by (cases frame) (simp_all add: payload_bound_def)

lemma refused_dispatch:
  assumes "dispatch L e frame conn h = (r, conn', h')" "refused L e frame conn h"
  shows "(\<exists>m c. r = Frame (Error_frame m (Some c))) \<and> conn' = conn \<and> h' = h\<lparr>hb_rate := hb_rate h'\<rparr>"
proof (cases "cn_authed conn")
  case None
  with assms show ?thesis by (cases frame) (auto simp: dispatch_def refused_def error_coded_def)
next
  case (Some me)
  obtain ok m where "rate_allows (hb_limits h) (au_id me) Operation (ev_now e) (hb_rate h) = (ok, m)" by fastforce
  then have c: "charge_agent (au_id me) Operation (ev_now e) h = (ok, h\<lparr>hb_rate := m\<rparr>)" by (simp add: charge_agent_def)
  from assms(2) Some c have "\<not> ok \<or> (\<exists>code msg. validate_frame_bounds L h frame = Some (Coded code msg))"
    by (auto simp: refused_def dest: bounds_coded)
  moreover from assms(2) have "\<forall>aid name role nonce sig secret. frame \<noteq> Hello aid name role nonce sig secret"
    by (auto simp: refused_def)
  ultimately show ?thesis
    using assms(1) Some c
    by (cases frame; cases ok) (auto simp: dispatch_def error_coded_def simp del: validate_frame_bounds.simps)
qed


section \<open>The kind of the reply\<close>

text \<open>
  The frame a request is answered with, an error apart, and what it repeats of the request. The
  connector matches on these.
\<close>

definition answers :: "client_frame \<Rightarrow> server_frame \<Rightarrow> bool" where
  "answers f r =
     (case r of
        Error_frame m c \<Rightarrow> True
      | Challenge n v \<Rightarrow> (case f of Hello aid name role nonce sig secret \<Rightarrow> (sig = None) | _ \<Rightarrow> False)
      | Welcome a n \<Rightarrow> (case f of Hello aid name role nonce sig secret \<Rightarrow> (sig \<noteq> None \<and> a = aid \<and> n = name) | _ \<Rightarrow> False)
      | Invited code url r k expires \<Rightarrow> (case f of Invite kind room ttl uses approval \<Rightarrow> (k = kind) | _ \<Rightarrow> False)
      | Joined room kind \<Rightarrow> (case f of Redeem code \<Rightarrow> True | Serve service \<Rightarrow> (room = ''svc.'' @ token service \<and> kind = Service) | _ \<Rightarrow> False)
      | JoinPending room \<Rightarrow> (case f of Redeem code \<Rightarrow> True | _ \<Rightarrow> False)
      | JoinRequests_frame r requests \<Rightarrow> (case f of JoinRequests room \<Rightarrow> (r = room) | _ \<Rightarrow> False)
      | JoinResolved r a approved \<Rightarrow> (case f of ResolveJoin room agent approve \<Rightarrow> (r = room \<and> a = agent \<and> approved = approve) | _ \<Rightarrow> False)
      | Claimed_frame r m claimed until \<Rightarrow> (case f of Claim room message lease \<Rightarrow> (r = room \<and> m = message \<and> claimed = (until \<noteq> None)) | _ \<Rightarrow> False)
      | Queued r messages \<Rightarrow> (case f of Queue room role limit \<Rightarrow> (r = room) | _ \<Rightarrow> False)
      | Completed_frame r m completed \<Rightarrow> (case f of Complete room message status \<Rightarrow> (r = room \<and> m = message) | _ \<Rightarrow> False)
      | Registered aid v verified \<Rightarrow> (case f of Register c vis sig \<Rightarrow> (aid = ac_id c \<and> v = vis \<and> verified = (sig \<noteq> None)) | _ \<Rightarrow> False)
      | Directory entries \<Rightarrow> (case f of Discover scope query tag skill status limit \<Rightarrow> True | _ \<Rightarrow> False)
      | Card_frame entry \<Rightarrow> (case f of Lookup aid \<Rightarrow> True | _ \<Rightarrow> False)
      | DirectoryToken tok expires \<Rightarrow> (case f of MintDirectoryToken ttl \<Rightarrow> True | _ \<Rightarrow> False)
      | Watch tok r expires \<Rightarrow> (case f of MintWatch room ttl \<Rightarrow> (r = room) | _ \<Rightarrow> False)
      | Sent mid seq room \<Rightarrow> (case f of Send tgt parts mentions reply_to client_id \<Rightarrow> True | _ \<Rightarrow> False)
      | Pulled r messages cursor \<Rightarrow> (case f of Pull room since limit wait ack \<Rightarrow> (r = room) | _ \<Rightarrow> False)
      | Remembered ok \<Rightarrow> (case f of Remember fct emb model \<Rightarrow> ok | _ \<Rightarrow> False)
      | Recalled hits \<Rightarrow> (case f of Recall query room limit emb key \<Rightarrow> True | _ \<Rightarrow> False)
      | Rooms_frame rooms \<Rightarrow> (case f of Rooms \<Rightarrow> True | _ \<Rightarrow> False)
      | RoomDeleted r \<Rightarrow> (case f of DeleteRoom room \<Rightarrow> (r = room) | _ \<Rightarrow> False)
      | Roster_frame r entries \<Rightarrow> (case f of Roster room \<Rightarrow> (r = room) | _ \<Rightarrow> False)
      | PresenceOk \<Rightarrow> (case f of Presence status activity attn \<Rightarrow> True | _ \<Rightarrow> False)
      | AttentionOk \<Rightarrow> (case f of SetAttention attn \<Rightarrow> True | _ \<Rightarrow> False)
      | BlobReady bid \<Rightarrow> (case f of PutBlob tgt sha sz mt \<Rightarrow> (bid = sha) | _ \<Rightarrow> False)
      | BlobIncoming b sz mt \<Rightarrow> (case f of GetBlob bid \<Rightarrow> (b = bid) | _ \<Rightarrow> False)
      | Subscribed \<Rightarrow> (case f of Subscribe \<Rightarrow> True | _ \<Rightarrow> False)
      | Pong \<Rightarrow> (case f of Ping \<Rightarrow> True | _ \<Rightarrow> False)
      | Delivery m \<Rightarrow> False | BlobStored b n \<Rightarrow> False)"

fun frame_of :: "reply \<Rightarrow> server_frame" where
  "frame_of (Frame f) = f"
| "frame_of (FrameThenFile f path) = f"

lemma answers_error [simp]: "answers f (error_frame er)" "answers f (error_coded c m)"
  by (cases er; simp add: answers_def) (simp add: error_coded_def answers_def)

lemma resolve_join_echo: "fst (resolve_join room owner agent approve now s) = Inr b \<Longrightarrow> b = approve"
  by (auto simp: resolve_join_def Let_def split: if_splits option.splits)

lemma authed_answers:
  assumes "handle_authed L e me frame h = (Inr f, h')"
  shows "answers frame f"
proof (cases frame)
  case (ResolveJoin room agent approve)
  with assms resolve_join_echo [of room "au_id me" agent approve "ev_now e" "hb_store h"] show ?thesis
    by (auto simp: answers_def handle_resolve_join_def split: prod.splits sum.splits)
next
  case (Register c vis sig)
  with assms show ?thesis by (auto simp: answers_def handle_register_def Let_def split: if_splits option.splits)
next
  case (Send tgt parts mentions reply_to client_id)
  with assms show ?thesis by (auto simp: answers_def handle_send_def Let_def case_prod_beta split: if_splits sum.splits prod.splits)
qed (use assms in \<open>auto simp: answers_def handler_defs Let_def case_prod_beta split: if_splits option.splits sum.splits prod.splits\<close>)

lemma put_blob_reply: "fst (handle_put_blob e me tgt sha sz mt conn h) = Inr r \<Longrightarrow> r = Frame (BlobReady sha)"
  by (auto simp: handle_put_blob_def Let_def case_prod_beta split: if_splits sum.splits)

lemma get_blob_reply: "fst (handle_get_blob e me bid h) = Inr r \<Longrightarrow> \<exists>sz mt. r = FrameThenFile (BlobIncoming bid sz mt) bid"
  by (auto simp: handle_get_blob_def split: if_splits option.splits)

lemma answers_as_reply: "(\<And>r. x = Inr r \<Longrightarrow> answers f (frame_of r)) \<Longrightarrow> answers f (frame_of (as_reply x))"
  by (cases x) (auto simp: as_reply_def)

lemma dispatch_answers:
  assumes "dispatch L e frame conn h = (r, conn', h')"
  shows "answers frame (frame_of r)"
proof -
  have a: "answers frame (frame_of (as_reply (case fst (handle_authed L e me frame g) of Inl er \<Rightarrow> Inl er | Inr f \<Rightarrow> Inr (Frame f))))" for me g
    using authed_answers [of L e me frame g] by (cases "handle_authed L e me frame g"; cases "fst (handle_authed L e me frame g)")
      (auto simp: as_reply_def simp del: handle_authed.simps)
  have b: "answers frame (frame_of (fst (dispatch_authed L e me frame c g)))" for me c g
  proof (cases frame)
    case (PutBlob tgt sha sz mt)
    have "answers frame (frame_of (as_reply (fst (handle_put_blob e me tgt sha sz mt c g))))"
      by (rule answers_as_reply) (auto dest!: put_blob_reply simp: PutBlob answers_def)
    with PutBlob show ?thesis by (simp add: dispatch_authed_def case_prod_beta)
  next
    case (GetBlob bid)
    have "answers frame (frame_of (as_reply (fst (handle_get_blob e me bid g))))"
      by (rule answers_as_reply) (auto dest!: get_blob_reply simp: GetBlob answers_def)
    with GetBlob show ?thesis by (simp add: dispatch_authed_def case_prod_beta)
  next
    case Subscribe
    then show ?thesis by (simp add: dispatch_authed_def answers_def)
  qed (use a [of me g] in \<open>simp_all add: dispatch_authed_def case_prod_beta del: handle_authed.simps\<close>)
  show ?thesis
  proof (cases "\<exists>aid name role nonce sig secret. frame = Hello aid name role nonce sig secret")
    case True
    with assms show ?thesis by (auto simp: dispatch_def handle_hello_def Let_def split: if_splits option.splits) (simp_all add: answers_def)
  next
    case False
    with assms have "(\<exists>er. r = Frame (error_frame er)) \<or> (\<exists>c m. r = Frame (error_coded c m)) \<or> (\<exists>me g. r = fst (dispatch_authed L e me frame conn g))"
      by (cases frame) (auto simp: dispatch_def case_prod_beta split: if_splits option.splits
          simp del: validate_frame_bounds.simps; metis fst_conv)+
    with b show ?thesis by auto
  qed
qed

end
