(* ===== verification/Client.thy ===== *)
theory Client
  imports Hub_Guard
begin

text \<open>
  The WebSocket client of the connector (\<open>parler-connector/src/client.rs\<close>, \<open>lib.rs\<close>): reading a
  reply while pushes arrive, the handshake, uploads and downloads, the address of a hub.

  The socket is what has arrived and has not been read, a list of events in order, together with the
  peer, a parameter: what it lets arrive when something is written, or that the write fails. When the
  list is exhausted the stream has ended, or the caller's timeout has passed, for the two calls that
  have one; a call without a timeout that would wait forever has no counterpart here.
\<close>

section \<open>Errors\<close>

text \<open>The lost-connection marker, the hub's own errors with their code, and plain messages.\<close>

datatype client_error = Disconnected | HubError "error_code option" string | Plain string

definition unexpected_reply :: "string \<Rightarrow> server_frame \<Rightarrow> client_error" where
  "unexpected_reply action f =
     (case f of
        Error_frame m code \<Rightarrow> Plain (''couldn't '' @ action @ '': '' @ m)
      | _ \<Rightarrow> Plain (''couldn't '' @ action @ '': the hub sent an unexpected reply''))"

fun hub_error_code :: "client_error \<Rightarrow> error_code option" where
  "hub_error_code (HubError c m) = c"
| "hub_error_code e = None"

section \<open>The socket\<close>

datatype ws_event = EvText "server_frame option" | EvBinary string | EvClose | EvError | EvOther
datatype client_msg = CText client_frame | CBinary string

type_synonym 'p peer = "client_msg \<Rightarrow> 'p \<Rightarrow> ws_event list option \<times> 'p"

record 'p hub_client =
  hc_peer :: 'p
  hc_arrived :: "ws_event list"
  hc_inbox :: "stored_message list"
  hc_subscribed :: bool

definition INBOX_CAP :: nat where "INBOX_CAP = 1024"

definition buffer_push :: "stored_message \<Rightarrow> stored_message list \<Rightarrow> stored_message list" where
  "buffer_push m inbox = (if INBOX_CAP \<le> length inbox then tl inbox else inbox) @ [m]"

text \<open>A write: on failure the connection counts as lost.\<close>

definition ws_send :: "'p peer \<Rightarrow> client_msg \<Rightarrow> 'p hub_client \<Rightarrow> bool \<times> 'p hub_client" where
  "ws_send peer m c =
     (case peer m (hc_peer c) of
        (None, p) \<Rightarrow> (False, c\<lparr>hc_peer := p\<rparr>)
      | (Some evs, p) \<Rightarrow> (True, c\<lparr>hc_peer := p, hc_arrived := hc_arrived c @ evs\<rparr>))"

text \<open>\<open>recv\<close>: the next frame that is not a push; pushes on the way go to the inbox.\<close>

fun recv_events :: "ws_event list \<Rightarrow> stored_message list \<Rightarrow> (client_error + server_frame) \<times> ws_event list \<times> stored_message list" where
  "recv_events [] inbox = (Inl Disconnected, [], inbox)"
| "recv_events (EvError # evs) inbox = (Inl Disconnected, evs, inbox)"
| "recv_events (EvClose # evs) inbox = (Inl Disconnected, evs, inbox)"
| "recv_events (EvText None # evs) inbox = (Inl (Plain ''malformed frame''), evs, inbox)"
| "recv_events (EvText (Some f) # evs) inbox =
     (case f of Delivery m \<Rightarrow> recv_events evs (buffer_push m inbox) | _ \<Rightarrow> (Inr f, evs, inbox))"
| "recv_events (_ # evs) inbox = recv_events evs inbox"

definition recv :: "'p hub_client \<Rightarrow> (client_error + server_frame) \<times> 'p hub_client" where
  "recv c =
     (case recv_events (hc_arrived c) (hc_inbox c) of
        (r, evs, inbox) \<Rightarrow> (r, c\<lparr>hc_arrived := evs, hc_inbox := inbox\<rparr>))"

text \<open>\<open>recv_binary\<close>: the next binary frame.\<close>

fun binary_events :: "ws_event list \<Rightarrow> stored_message list \<Rightarrow> (client_error + string) \<times> ws_event list \<times> stored_message list" where
  "binary_events [] inbox = (Inl Disconnected, [], inbox)"
| "binary_events (EvError # evs) inbox = (Inl Disconnected, evs, inbox)"
| "binary_events (EvClose # evs) inbox = (Inl Disconnected, evs, inbox)"
| "binary_events (EvBinary b # evs) inbox = (Inr b, evs, inbox)"
| "binary_events (EvText (Some f) # evs) inbox =
     (case f of
        Delivery m \<Rightarrow> binary_events evs (buffer_push m inbox)
      | Error_frame m code \<Rightarrow> (Inl (HubError code m), evs, inbox)
      | _ \<Rightarrow> (Inl (Plain ''expected a binary blob, got a text frame''), evs, inbox))"
| "binary_events (EvText None # evs) inbox = (Inl (Plain ''expected a binary blob, got a text frame''), evs, inbox)"
| "binary_events (EvOther # evs) inbox = binary_events evs inbox"

definition recv_binary :: "'p hub_client \<Rightarrow> (client_error + string) \<times> 'p hub_client" where
  "recv_binary c =
     (case binary_events (hc_arrived c) (hc_inbox c) of
        (r, evs, inbox) \<Rightarrow> (r, c\<lparr>hc_arrived := evs, hc_inbox := inbox\<rparr>))"

text \<open>\<open>recv_push\<close>: the next push; a closed stream is no error here, other frames are skipped.\<close>

fun push_events :: "ws_event list \<Rightarrow> (client_error + stored_message option) \<times> ws_event list" where
  "push_events [] = (Inr None, [])"
| "push_events (EvError # evs) = (Inl Disconnected, evs)"
| "push_events (EvClose # evs) = (Inr None, evs)"
| "push_events (EvText None # evs) = (Inl (Plain ''malformed frame''), evs)"
| "push_events (EvText (Some f) # evs) =
     (case f of
        Delivery m \<Rightarrow> (Inr (Some m), evs)
      | Error_frame m code \<Rightarrow> (Inl (HubError code m), evs)
      | _ \<Rightarrow> push_events evs)"
| "push_events (_ # evs) = push_events evs"

section \<open>The transport\<close>

definition client_request :: "'p peer \<Rightarrow> client_frame \<Rightarrow> 'p hub_client \<Rightarrow> (client_error + server_frame) \<times> 'p hub_client" where
  "client_request peer f c =
     (case ws_send peer (CText f) c of
        (False, c1) \<Rightarrow> (Inl Disconnected, c1)
      | (True, c1) \<Rightarrow>
          (case recv c1 of
             (Inr (Error_frame m code), c2) \<Rightarrow> (Inl (HubError code m), c2)
           | (r, c2) \<Rightarrow> (r, c2)))"

definition client_subscribe :: "'p peer \<Rightarrow> 'p hub_client \<Rightarrow> (client_error + bool) \<times> 'p hub_client" where
  "client_subscribe peer c =
     (case ws_send peer (CText Subscribe) c of
        (False, c1) \<Rightarrow> (Inl Disconnected, c1)
      | (True, c1) \<Rightarrow>
          (case recv c1 of
             (Inl er, c2) \<Rightarrow> (Inl er, c2)
           | (Inr Subscribed, c2) \<Rightarrow> (Inr True, c2\<lparr>hc_subscribed := True\<rparr>)
           | (Inr (Error_frame m code), c2) \<Rightarrow> (Inr False, c2)
           | (Inr f, c2) \<Rightarrow> (Inl (unexpected_reply ''subscribe for live updates'' f), c2)))"

text \<open>The wait is over when what has arrived is exhausted.\<close>

definition client_next_delivery :: "'p hub_client \<Rightarrow> (client_error + stored_message option) \<times> 'p hub_client" where
  "client_next_delivery c =
     (case hc_inbox c of
        m # inbox \<Rightarrow> (Inr (Some m), c\<lparr>hc_inbox := inbox\<rparr>)
      | [] \<Rightarrow>
          if \<not> hc_subscribed c then (Inr None, c)
          else case push_events (hc_arrived c) of (r, evs) \<Rightarrow> (r, c\<lparr>hc_arrived := evs\<rparr>))"

definition client_upload :: "'p peer \<Rightarrow> client_frame \<Rightarrow> string \<Rightarrow> 'p hub_client \<Rightarrow> (client_error + server_frame) \<times> 'p hub_client" where
  "client_upload peer put bytes c =
     (case ws_send peer (CText put) c of
        (False, c1) \<Rightarrow> (Inl Disconnected, c1)
      | (True, c1) \<Rightarrow>
          (case recv c1 of
             (Inl er, c2) \<Rightarrow> (Inl er, c2)
           | (Inr (BlobReady bid), c2) \<Rightarrow>
               (case ws_send peer (CBinary bytes) c2 of
                  (False, c3) \<Rightarrow> (Inl (Plain ''connection closed''), c3)
                | (True, c3) \<Rightarrow>
                    (case recv c3 of
                       (Inl er, c4) \<Rightarrow> (Inl er, c4)
                     | (Inr (BlobStored bid' n), c4) \<Rightarrow> (Inr (BlobStored bid' n), c4)
                     | (Inr f, c4) \<Rightarrow> (Inl (unexpected_reply ''finish the upload'' f), c4)))
           | (Inr f, c2) \<Rightarrow> (Inl (unexpected_reply ''start the upload'' f), c2)))"

definition client_download :: "'p peer \<Rightarrow> client_frame \<Rightarrow> 'p hub_client \<Rightarrow> (client_error + string) \<times> 'p hub_client" where
  "client_download peer get c =
     (case ws_send peer (CText get) c of
        (False, c1) \<Rightarrow> (Inl Disconnected, c1)
      | (True, c1) \<Rightarrow>
          (case recv c1 of
             (Inl er, c2) \<Rightarrow> (Inl er, c2)
           | (Inr (BlobIncoming bid sz mt), c2) \<Rightarrow> recv_binary c2
           | (Inr f, c2) \<Rightarrow> (Inl (unexpected_reply ''start the download'' f), c2)))"

section \<open>The handshake\<close>

text \<open>The signer of the local identity may fail; the join secret comes from the environment, an empty one counts as absent.\<close>

definition handshake ::
  "'p peer \<Rightarrow> (string \<Rightarrow> string option) \<Rightarrow> string option \<Rightarrow> string \<Rightarrow> string \<Rightarrow> string option \<Rightarrow> 'p hub_client
    \<Rightarrow> (client_error + unit) \<times> 'p hub_client" where
  "handshake peer sign secret aid name role c =
     (case ws_send peer (CText (Hello aid name role None None None)) c of
        (False, c1) \<Rightarrow> (Inl Disconnected, c1)
      | (True, c1) \<Rightarrow>
          (case recv c1 of
             (Inl er, c2) \<Rightarrow> (Inl er, c2)
           | (Inr (Challenge nonce version), c2) \<Rightarrow>
               (case sign nonce of
                  None \<Rightarrow> (Inl (Plain ''signing challenge''), c2)
                | Some sig \<Rightarrow>
                    (case ws_send peer (CText (Hello aid name role (Some nonce) (Some sig)
                              (case secret of Some s \<Rightarrow> if s = [] then None else Some s | None \<Rightarrow> None))) c2 of
                       (False, c3) \<Rightarrow> (Inl Disconnected, c3)
                     | (True, c3) \<Rightarrow>
                         (case recv c3 of
                            (Inl er, c4) \<Rightarrow> (Inl er, c4)
                          | (Inr (Welcome a n), c4) \<Rightarrow> (Inr (), c4)
                          | (Inr (Error_frame m code), c4) \<Rightarrow> (Inl (Plain (''authentication failed: '' @ m)), c4)
                          | (Inr f, c4) \<Rightarrow> (Inl (unexpected_reply ''complete the handshake'' f), c4))))
           | (Inr (Error_frame m code), c2) \<Rightarrow> (Inl (Plain (''hub rejected hello: '' @ m)), c2)
           | (Inr f, c2) \<Rightarrow> (Inl (unexpected_reply ''complete the handshake'' f), c2)))"

section \<open>Addresses\<close>

definition ends_with :: "string \<Rightarrow> string \<Rightarrow> bool" where
  "ends_with sfx s = (length sfx \<le> length s \<and> drop (length s - length sfx) s = sfx)"

definition with_ws_path :: "string \<Rightarrow> string" where
  "with_ws_path host_and_path =
     (let h = trim_end_char (CHR ''/'') host_and_path
      in if ends_with ''/ws'' h then h else h @ ''/ws'')"

definition to_ws_url :: "string \<Rightarrow> string" where
  "to_ws_url hub_url =
     (let u = trim hub_url
      in case strip_prefix ''wss://'' u of Some rest \<Rightarrow> ''wss://'' @ with_ws_path rest
       | None \<Rightarrow> (case strip_prefix ''ws://'' u of Some rest \<Rightarrow> ''ws://'' @ with_ws_path rest
       | None \<Rightarrow> (case strip_prefix ''https://'' u of Some rest \<Rightarrow> ''wss://'' @ with_ws_path rest
       | None \<Rightarrow> (case strip_prefix ''http://'' u of Some rest \<Rightarrow> ''ws://'' @ with_ws_path rest
       | None \<Rightarrow> (case strip_prefix ''parler://'' u of Some rest \<Rightarrow> ''ws://'' @ with_ws_path rest
       | None \<Rightarrow> ''ws://'' @ with_ws_path u)))))"

section \<open>Replies among pushes\<close>

text \<open>What a read skips before its reply, and the pushes among it.\<close>

fun skipped :: "ws_event \<Rightarrow> bool" where
  "skipped (EvText (Some f)) = (case f of Delivery m \<Rightarrow> True | _ \<Rightarrow> False)"
| "skipped (EvBinary b) = True"
| "skipped EvOther = True"
| "skipped _ = False"

fun push_of :: "ws_event \<Rightarrow> stored_message option" where
  "push_of (EvText (Some f)) = (case f of Delivery m \<Rightarrow> Some m | _ \<Rightarrow> None)"
| "push_of _ = None"

lemma recv_events_skip:
  "\<forall>x \<in> set pre. skipped x \<Longrightarrow>
   recv_events (pre @ evs) inbox = recv_events evs (fold buffer_push (filter_map push_of pre) inbox)"
proof (induction pre arbitrary: inbox)
  case (Cons x pre)
  then show ?case by (cases x rule: skipped.cases) (auto split: server_frame.splits)
qed simp

lemma recv_events_reply:
  assumes "recv_events evs inbox = (Inr f, rest, inbox')"
  shows "\<exists>pre. evs = pre @ EvText (Some f) # rest \<and> (\<forall>x \<in> set pre. skipped x)
    \<and> inbox' = fold buffer_push (filter_map push_of pre) inbox \<and> (\<forall>m. f \<noteq> Delivery m)"
  using assms
proof (induction evs arbitrary: inbox)
  case (Cons x evs)
  show ?case
  proof (cases "skipped x")
    case True
    let ?inbox = "fold buffer_push (filter_map push_of [x]) inbox"
    have "recv_events evs ?inbox = (Inr f, rest, inbox')" using Cons.prems recv_events_skip [of "[x]" evs inbox] True by simp
    from Cons.IH [OF this] obtain pre where "evs = pre @ EvText (Some f) # rest" "\<forall>x \<in> set pre. skipped x"
      "inbox' = fold buffer_push (filter_map push_of pre) ?inbox" "\<forall>m. f \<noteq> Delivery m" by blast
    with True show ?thesis by (intro exI [of _ "x # pre"]) (simp split: option.splits)
  next
    case False
    then have "x = EvText (Some f) \<and> rest = evs \<and> inbox' = inbox \<and> (\<forall>m. f \<noteq> Delivery m)"
      using Cons.prems by (cases x rule: skipped.cases) (auto split: server_frame.splits)
    then show ?thesis by (intro exI [of _ "[]"]) simp
  qed
qed simp

lemma buffer_push_length: "length inbox \<le> INBOX_CAP \<Longrightarrow> length (buffer_push m inbox) \<le> INBOX_CAP"
  by (auto simp: buffer_push_def INBOX_CAP_def)

text \<open>The buffer keeps the newest pushes.\<close>

lemma buffer_push_drop: "length inbox \<le> INBOX_CAP \<Longrightarrow> buffer_push m inbox = drop (Suc (length inbox) - INBOX_CAP) (inbox @ [m])"
  by (cases inbox) (auto simp: buffer_push_def INBOX_CAP_def)

lemma fold_buffer_push:
  "length inbox \<le> INBOX_CAP \<Longrightarrow> fold buffer_push ms inbox = drop (length inbox + length ms - INBOX_CAP) (inbox @ ms)"
proof (induction ms arbitrary: inbox)
  case (Cons m ms)
  show ?case
  proof (cases "length inbox < INBOX_CAP")
    case True
    then have "buffer_push m inbox = inbox @ [m]" by (simp add: buffer_push_def)
    with Cons.IH [of "inbox @ [m]"] True show ?thesis by (simp del: drop_append)
  next
    case False
    with Cons.prems have l: "length inbox = INBOX_CAP" "inbox \<noteq> []" by (auto simp: INBOX_CAP_def)
    then have b: "buffer_push m inbox = tl inbox @ [m]" by (simp add: buffer_push_def)
    have "fold buffer_push ms (tl inbox @ [m]) = drop (length ms) (tl inbox @ [m] @ ms)"
      using Cons.IH [of "tl inbox @ [m]"] l by (simp add: INBOX_CAP_def del: drop_append)
    also have "\<dots> = drop (Suc (length ms)) (inbox @ [m] @ ms)" using l(2) by (cases inbox) auto
    finally show ?thesis using b l by (simp del: drop_append)
  qed
qed simp

section \<open>Addresses, normalised\<close>

lemma ends_with_append [simp]: "ends_with sfx (s @ sfx)"
  by (simp add: ends_with_def)

lemma ends_withD: "ends_with sfx s \<Longrightarrow> \<exists>p. s = p @ sfx"
  by (metis append_take_drop_id ends_with_def)

lemma with_ws_path_ends: "\<exists>p. with_ws_path h = p @ ''/ws''"
  by (auto simp: with_ws_path_def Let_def dest: ends_withD)

lemma with_ws_path_idem: "with_ws_path (with_ws_path h) = with_ws_path h"
proof -
  obtain p where p: "with_ws_path h = p @ ''/ws''" using with_ws_path_ends by blast
  have "trim_end_char (CHR ''/'') (p @ ''/ws'') = p @ ''/ws''" by (rule trim_end_nop) simp
  with p show ?thesis by (simp add: with_ws_path_def)
qed

end
