(* ===== verification/Agent.thy ===== *)
theory Agent
  imports Client
begin

text \<open>
  The connector's agent (\<open>parler-connector/src/agent.rs\<close>): every method of \<open>MeshAgent\<close> over the transport
  it is given. The trait \<open>MeshTransport\<close> is a record of functions on a state of any type, together with
  the dialling of a fresh connection that replaces the transport on a reconnect. A call whose timeout
  passes is a failed call. The signer of the identity, the draws and the clock are arguments.
\<close>

section \<open>State\<close>

record identity =
  idn_id :: string
  idn_seed :: string

record 'w transport =
  tr_request :: "client_frame \<Rightarrow> 'w \<Rightarrow> (client_error + server_frame) \<times> 'w"
  tr_subscribe :: "'w \<Rightarrow> (client_error + bool) \<times> 'w"
  tr_next_delivery :: "nat \<Rightarrow> 'w \<Rightarrow> (client_error + stored_message option) \<times> 'w"
  tr_upload :: "client_frame \<Rightarrow> string \<Rightarrow> 'w \<Rightarrow> (client_error + server_frame) \<times> 'w"
  tr_download :: "client_frame \<Rightarrow> 'w \<Rightarrow> (client_error + string) \<times> 'w"
  tr_connect :: "string \<Rightarrow> identity \<Rightarrow> string \<Rightarrow> string option \<Rightarrow> 'w \<Rightarrow> (client_error + unit) \<times> 'w"

text \<open>The deferred acknowledgements are hash maps, kept as association lists.\<close>

record 'w mesh_agent =
  ma_transport :: 'w
  ma_id :: string
  ma_name :: string
  ma_role :: "string option"
  ma_hub_url :: string
  ma_identity :: "identity option"
  ma_subscribed :: bool
  ma_pending_ack :: "(string \<times> int) list"
  ma_committed_ack :: "(string \<times> int) list"
  ma_held_reads :: "string set"

type_synonym ('w, 'a) outcome = "(client_error + 'a) \<times> 'w mesh_agent"

definition with_transport :: "'w \<Rightarrow> string \<Rightarrow> string \<Rightarrow> string option \<Rightarrow> string \<Rightarrow> 'w mesh_agent" where
  "with_transport w aid name role hub_url =
     \<lparr>ma_transport = w, ma_id = aid, ma_name = name, ma_role = role, ma_hub_url = hub_url, ma_identity = None,
      ma_subscribed = False, ma_pending_ack = [], ma_committed_ack = [], ma_held_reads = {}\<rparr>"

definition with_transport_and_identity :: "'w \<Rightarrow> identity \<Rightarrow> string \<Rightarrow> string option \<Rightarrow> string \<Rightarrow> 'w mesh_agent" where
  "with_transport_and_identity w idn name role hub_url =
     (with_transport w (idn_id idn) name role hub_url)\<lparr>ma_identity := Some idn\<rparr>"

section \<open>Requests and reconnects\<close>

definition reconnectable :: "'w mesh_agent \<Rightarrow> client_error \<Rightarrow> bool" where
  "reconnectable a er = (ma_identity a \<noteq> None \<and> er = Disconnected)"

definition reconnect :: "'w transport \<Rightarrow> 'w mesh_agent \<Rightarrow> ('w, unit) outcome" where
  "reconnect T a =
     (case ma_identity a of
        None \<Rightarrow> (Inl (Plain ''cannot reconnect without a local identity''), a)
      | Some idn \<Rightarrow>
          (case tr_connect T (ma_hub_url a) idn (ma_name a) (ma_role a) (ma_transport a) of
             (Inl er, w) \<Rightarrow> (Inl er, a\<lparr>ma_transport := w\<rparr>)
           | (Inr _, w) \<Rightarrow>
               if ma_subscribed a
               then let (r, w') = tr_subscribe T w
                    in (Inr (), a\<lparr>ma_transport := w', ma_subscribed := (case r of Inr b \<Rightarrow> b | Inl _ \<Rightarrow> False)\<rparr>)
               else (Inr (), a\<lparr>ma_transport := w\<rparr>)))"

text \<open>One attempt on the transport, and a second one on a fresh connection if the first was lost.\<close>

definition on_transport :: "('w \<Rightarrow> (client_error + 'a) \<times> 'w) \<Rightarrow> 'w mesh_agent \<Rightarrow> ('w, 'a) outcome" where
  "on_transport op a = (let (r, w) = op (ma_transport a) in (r, a\<lparr>ma_transport := w\<rparr>))"

definition retry_once :: "'w transport \<Rightarrow> ('w \<Rightarrow> (client_error + 'a) \<times> 'w) \<Rightarrow> 'w mesh_agent \<Rightarrow> ('w, 'a) outcome" where
  "retry_once T op a =
     (case on_transport op a of
        (Inl er, a1) \<Rightarrow>
          if reconnectable a1 er
          then (case reconnect T a1 of
                  (Inl er', a2) \<Rightarrow> (Inl er', a2)
                | (Inr _, a2) \<Rightarrow> on_transport op a2)
          else (Inl er, a1)
      | (Inr r, a1) \<Rightarrow> (Inr r, a1))"

definition agent_request :: "'w transport \<Rightarrow> client_frame \<Rightarrow> 'w mesh_agent \<Rightarrow> ('w, server_frame) outcome" where
  "agent_request T f a = retry_once T (tr_request T f) a"

text \<open>The match every method makes on its reply: the expected frame, or an unexpected one.\<close>

definition expect :: "'w transport \<Rightarrow> client_frame \<Rightarrow> string \<Rightarrow> (server_frame \<Rightarrow> 'a option) \<Rightarrow> 'w mesh_agent \<Rightarrow> ('w, 'a) outcome" where
  "expect T f action sel a =
     (case agent_request T f a of
        (Inl er, a') \<Rightarrow> (Inl er, a')
      | (Inr r, a') \<Rightarrow> (case sel r of Some x \<Rightarrow> (Inr x, a') | None \<Rightarrow> (Inl (unexpected_reply action r), a')))"

section \<open>Rooms and invites\<close>

record invite =
  in_code :: string
  in_url :: string
  in_room :: string
  in_kind :: room_kind
  in_expires_at :: ms

datatype join_outcome = OJoined string room_kind | OPending string

definition invite_with_approval ::
  "'w transport \<Rightarrow> room_kind \<Rightarrow> string option \<Rightarrow> nat option \<Rightarrow> nat option \<Rightarrow> bool \<Rightarrow> 'w mesh_agent \<Rightarrow> ('w, invite) outcome" where
  "invite_with_approval T kind room ttl uses approval =
     expect T (Invite kind room ttl uses approval) ''create the invite''
       (\<lambda>r. case r of Invited code url rm k expires \<Rightarrow>
                Some \<lparr>in_code = code, in_url = url, in_room = rm, in_kind = k, in_expires_at = expires\<rparr> | _ \<Rightarrow> None)"

definition agent_invite ::
  "'w transport \<Rightarrow> room_kind \<Rightarrow> string option \<Rightarrow> nat option \<Rightarrow> nat option \<Rightarrow> 'w mesh_agent \<Rightarrow> ('w, invite) outcome" where
  "agent_invite T kind room ttl uses = invite_with_approval T kind room ttl uses False"

definition agent_redeem :: "'w transport \<Rightarrow> string \<Rightarrow> 'w mesh_agent \<Rightarrow> ('w, join_outcome) outcome" where
  "agent_redeem T code =
     expect T (Redeem code) ''redeem the code''
       (\<lambda>r. case r of Joined room kind \<Rightarrow> Some (OJoined room kind) | JoinPending room \<Rightarrow> Some (OPending room) | _ \<Rightarrow> None)"

definition agent_join :: "'w transport \<Rightarrow> string \<Rightarrow> 'w mesh_agent \<Rightarrow> ('w, string \<times> room_kind) outcome" where
  "agent_join T code a =
     (case agent_redeem T code a of
        (Inl er, a') \<Rightarrow> (Inl er, a')
      | (Inr (OJoined room kind), a') \<Rightarrow> (Inr (room, kind), a')
      | (Inr (OPending room), a') \<Rightarrow> (Inl (Plain ''pending the host's approval''), a'))"

definition agent_join_requests :: "'w transport \<Rightarrow> string \<Rightarrow> 'w mesh_agent \<Rightarrow> ('w, join_request list) outcome" where
  "agent_join_requests T room =
     expect T (JoinRequests room) ''list join requests'' (\<lambda>r. case r of JoinRequests_frame rm rs \<Rightarrow> Some rs | _ \<Rightarrow> None)"

definition agent_resolve_join :: "'w transport \<Rightarrow> string \<Rightarrow> string \<Rightarrow> bool \<Rightarrow> 'w mesh_agent \<Rightarrow> ('w, bool) outcome" where
  "agent_resolve_join T room agent approve =
     expect T (ResolveJoin room agent approve) ''resolve the join request''
       (\<lambda>r. case r of JoinResolved rm ag approved \<Rightarrow> Some approved | _ \<Rightarrow> None)"

definition agent_rooms :: "'w transport \<Rightarrow> 'w mesh_agent \<Rightarrow> ('w, room_info list) outcome" where
  "agent_rooms T = expect T Rooms ''list your rooms'' (\<lambda>r. case r of Rooms_frame rs \<Rightarrow> Some rs | _ \<Rightarrow> None)"

definition agent_delete_room :: "'w transport \<Rightarrow> string \<Rightarrow> 'w mesh_agent \<Rightarrow> ('w, unit) outcome" where
  "agent_delete_room T room =
     expect T (DeleteRoom room) ''delete the room'' (\<lambda>r. case r of RoomDeleted rm \<Rightarrow> Some () | _ \<Rightarrow> None)"

definition agent_roster :: "'w transport \<Rightarrow> string \<Rightarrow> 'w mesh_agent \<Rightarrow> ('w, roster_entry list) outcome" where
  "agent_roster T room =
     expect T (Roster room) ''read the roster'' (\<lambda>r. case r of Roster_frame rm es \<Rightarrow> Some es | _ \<Rightarrow> None)"

definition agent_presence_with_attention ::
  "'w transport \<Rightarrow> string \<Rightarrow> string option \<Rightarrow> attention option \<Rightarrow> 'w mesh_agent \<Rightarrow> ('w, unit) outcome" where
  "agent_presence_with_attention T status activity attn =
     expect T (Presence status activity attn) ''update presence'' (\<lambda>r. case r of PresenceOk \<Rightarrow> Some () | _ \<Rightarrow> None)"

definition agent_presence :: "'w transport \<Rightarrow> string \<Rightarrow> string option \<Rightarrow> 'w mesh_agent \<Rightarrow> ('w, unit) outcome" where
  "agent_presence T status activity = agent_presence_with_attention T status activity None"

definition agent_set_attention :: "'w transport \<Rightarrow> attention \<Rightarrow> 'w mesh_agent \<Rightarrow> ('w, unit) outcome" where
  "agent_set_attention T attn =
     expect T (SetAttention attn) ''update attention'' (\<lambda>r. case r of AttentionOk \<Rightarrow> Some () | _ \<Rightarrow> None)"

section \<open>Services\<close>

definition agent_serve :: "'w transport \<Rightarrow> string \<Rightarrow> 'w mesh_agent \<Rightarrow> ('w, string) outcome" where
  "agent_serve T service =
     expect T (Serve service) ''register as a worker'' (\<lambda>r. case r of Joined room kind \<Rightarrow> Some room | _ \<Rightarrow> None)"

definition agent_claim :: "'w transport \<Rightarrow> string \<Rightarrow> string \<Rightarrow> nat option \<Rightarrow> 'w mesh_agent \<Rightarrow> ('w, ms option) outcome" where
  "agent_claim T room message lease =
     expect T (Claim room message lease) ''claim the role task''
       (\<lambda>r. case r of Claimed_frame rm m claimed until \<Rightarrow> Some (if claimed then until else None) | _ \<Rightarrow> None)"

definition agent_queue :: "'w transport \<Rightarrow> string \<Rightarrow> string \<Rightarrow> nat option \<Rightarrow> 'w mesh_agent \<Rightarrow> ('w, stored_message list) outcome" where
  "agent_queue T room role limit =
     expect T (Queue room role limit) ''read the role queue'' (\<lambda>r. case r of Queued rm ms \<Rightarrow> Some ms | _ \<Rightarrow> None)"

definition complete_claim :: "'w transport \<Rightarrow> string \<Rightarrow> string \<Rightarrow> task_status \<Rightarrow> 'w mesh_agent \<Rightarrow> ('w, bool) outcome" where
  "complete_claim T room message status =
     expect T (Complete room message status) ''complete the role task''
       (\<lambda>r. case r of Completed_frame rm m completed \<Rightarrow> Some completed | _ \<Rightarrow> None)"

section \<open>Memory and directory\<close>

definition agent_remember ::
  "'w transport \<Rightarrow> string \<Rightarrow> string option \<Rightarrow> string option \<Rightarrow> embedding option \<Rightarrow> string option \<Rightarrow> 'w mesh_agent \<Rightarrow> ('w, unit) outcome" where
  "agent_remember T text key room emb model =
     expect T (Remember \<lparr>fc_text = text, fc_key = key, fc_room = room\<rparr> emb model) ''save the fact''
       (\<lambda>r. case r of Remembered ok \<Rightarrow> Some () | _ \<Rightarrow> None)"

definition agent_recall ::
  "'w transport \<Rightarrow> string \<Rightarrow> string option \<Rightarrow> nat option \<Rightarrow> embedding option \<Rightarrow> 'w mesh_agent \<Rightarrow> ('w, recall_hit list) outcome" where
  "agent_recall T query room limit emb =
     expect T (Recall query room limit emb None) ''search memory'' (\<lambda>r. case r of Recalled hits \<Rightarrow> Some hits | _ \<Rightarrow> None)"

definition agent_recall_keyed ::
  "'w transport \<Rightarrow> string \<Rightarrow> string \<Rightarrow> string option \<Rightarrow> nat option \<Rightarrow> 'w mesh_agent \<Rightarrow> ('w, recall_hit list) outcome" where
  "agent_recall_keyed T key fallback room limit =
     expect T (Recall fallback room limit None (Some key)) ''search memory'' (\<lambda>r. case r of Recalled hits \<Rightarrow> Some hits | _ \<Rightarrow> None)"

definition agent_register ::
  "lib \<Rightarrow> (string \<Rightarrow> string \<Rightarrow> string option) \<Rightarrow> 'w transport \<Rightarrow> visibility \<Rightarrow> string list \<Rightarrow> agent_skill list \<Rightarrow> string option
    \<Rightarrow> 'w mesh_agent \<Rightarrow> ('w, visibility \<times> bool) outcome" where
  "agent_register L sign T vis tags skills descr a =
     (case ma_identity a of
        None \<Rightarrow> (Inl (Plain ''no local identity to sign the card''), a)
      | Some idn \<Rightarrow>
          let c = \<lparr>ac_id = ma_id a, ac_name = ma_name a, ac_kind = KAgent, ac_role = ma_role a, ac_description = descr,
                   ac_tags = (if tags = [] then None else Some tags), ac_skills = (if skills = [] then None else Some skills),
                   ac_meta = None, ac_protocol_version = Some PROTOCOL_VERSION\<rparr>
          in case sign (idn_seed idn) (canonical_card_bytes (lb_to_vec L) c) of
               None \<Rightarrow> (Inl (Plain ''signing failed''), a)
             | Some sg \<Rightarrow>
                 expect T (Register c vis (Some sg)) ''publish your card''
                   (\<lambda>r. case r of Registered aid v verified \<Rightarrow> Some (v, verified) | _ \<Rightarrow> None) a)"

definition agent_discover ::
  "'w transport \<Rightarrow> discover_scope \<Rightarrow> string option \<Rightarrow> string option \<Rightarrow> string option \<Rightarrow> string option \<Rightarrow> nat option
    \<Rightarrow> 'w mesh_agent \<Rightarrow> ('w, directory_entry list) outcome" where
  "agent_discover T scope query tag skill status limit =
     expect T (Discover scope query tag skill status limit) ''search the directory''
       (\<lambda>r. case r of Directory es \<Rightarrow> Some es | _ \<Rightarrow> None)"

definition agent_lookup :: "'w transport \<Rightarrow> string \<Rightarrow> 'w mesh_agent \<Rightarrow> ('w, directory_entry option) outcome" where
  "agent_lookup T aid = expect T (Lookup aid) ''look up the agent'' (\<lambda>r. case r of Card_frame e \<Rightarrow> Some e | _ \<Rightarrow> None)"

definition agent_mint_directory_token :: "'w transport \<Rightarrow> nat option \<Rightarrow> 'w mesh_agent \<Rightarrow> ('w, string \<times> ms) outcome" where
  "agent_mint_directory_token T ttl =
     expect T (MintDirectoryToken ttl) ''mint the directory token''
       (\<lambda>r. case r of DirectoryToken tok expires \<Rightarrow> Some (tok, expires) | _ \<Rightarrow> None)"

definition agent_mint_watch_token :: "'w transport \<Rightarrow> string \<Rightarrow> nat option \<Rightarrow> 'w mesh_agent \<Rightarrow> ('w, string \<times> ms) outcome" where
  "agent_mint_watch_token T room ttl =
     expect T (MintWatch room ttl) ''mint the watch code''
       (\<lambda>r. case r of Watch tok rm expires \<Rightarrow> Some (tok, expires) | _ \<Rightarrow> None)"

section \<open>Messages\<close>

text \<open>The clock, the signed uid and the idempotency key a send draws.\<close>

record send_draw =
  sd_ts :: ms
  sd_uid :: string
  sd_client_id :: string

definition signed_parts ::
  "lib \<Rightarrow> (string \<Rightarrow> string \<Rightarrow> string option) \<Rightarrow> identity option \<Rightarrow> string \<Rightarrow> target \<Rightarrow> part list \<Rightarrow> string option \<Rightarrow> send_draw \<Rightarrow> part list option" where
  "signed_parts L sign identity aid tgt parts reply_to d =
     (case identity of
        None \<Rightarrow> Some parts
      | Some idn \<Rightarrow>
          let ps = filter (\<lambda>p. \<not> is_message_sig_part p) parts
          in case sign (idn_seed idn) (canonical_message_bytes (lb_to_vec L) aid tgt ps reply_to (sd_ts d) (sd_uid d)) of
               None \<Rightarrow> None
             | Some sg \<Rightarrow> Some (ps @ [sig_to_part \<lparr>ms_sig = sg, ms_ts = sd_ts d, ms_uid = sd_uid d, ms_target = tgt\<rparr>]))"

definition agent_send ::
  "lib \<Rightarrow> (string \<Rightarrow> string \<Rightarrow> string option) \<Rightarrow> 'w transport \<Rightarrow> send_draw \<Rightarrow> target \<Rightarrow> part list \<Rightarrow> string list option \<Rightarrow> string option
    \<Rightarrow> 'w mesh_agent \<Rightarrow> ('w, string \<times> int \<times> string) outcome" where
  "agent_send L sign T d tgt parts mentions reply_to a =
     (case signed_parts L sign (ma_identity a) (ma_id a) tgt parts reply_to d of
        None \<Rightarrow> (Inl (Plain ''signing failed''), a)
      | Some ps \<Rightarrow>
          expect T (Send tgt ps mentions reply_to (Some (sd_client_id d))) ''send the message''
            (\<lambda>r. case r of Sent mid seq room \<Rightarrow> Some (mid, seq, room) | _ \<Rightarrow> None) a)"

definition send_text where
  "send_text L sign T d tgt text = agent_send L sign T d tgt [Text text] None None"

section \<open>Blobs\<close>

record bundle_meta =
  bm_vcs :: string
  bm_tip :: "string option"
  bm_base :: "string option"
  bm_summary :: "string option"
  bm_media_type :: "string option"

record push_receipt =
  rc_msg_id :: string
  rc_blob_id :: string
  rc_room :: string
  rc_seq :: int

definition agent_put_blob :: "lib \<Rightarrow> 'w transport \<Rightarrow> target \<Rightarrow> string \<Rightarrow> string option \<Rightarrow> 'w mesh_agent \<Rightarrow> ('w, string) outcome" where
  "agent_put_blob L T tgt bytes media_type a =
     (let bid = lb_content_id L bytes
      in case retry_once T (tr_upload T (PutBlob tgt bid (length bytes) media_type) bytes) a of
           (Inl er, a') \<Rightarrow> (Inl er, a')
         | (Inr (BlobStored i n), a') \<Rightarrow>
             if i = bid then (Inr bid, a') else (Inl (Plain (''hub stored a different blob id: '' @ i)), a')
         | (Inr f, a') \<Rightarrow> (Inl (unexpected_reply ''upload the data'' f), a'))"

definition fetch_blob :: "'w transport \<Rightarrow> string \<Rightarrow> 'w mesh_agent \<Rightarrow> ('w, string) outcome" where
  "fetch_blob T bid = retry_once T (tr_download T (GetBlob bid))"

definition note_parts :: "string option \<Rightarrow> part list" where
  "note_parts note = (case note of Some n \<Rightarrow> if n = [] then [] else [Text n] | None \<Rightarrow> [])"

text \<open>The common end of the two transfers: upload, then post the part that refers to the blob.\<close>

definition post_reference ::
  "lib \<Rightarrow> (string \<Rightarrow> string \<Rightarrow> string option) \<Rightarrow> 'w transport \<Rightarrow> send_draw \<Rightarrow> target \<Rightarrow> string \<Rightarrow> string option \<Rightarrow> string option
    \<Rightarrow> (string \<Rightarrow> part) \<Rightarrow> 'w mesh_agent \<Rightarrow> ('w, push_receipt) outcome" where
  "post_reference L sign T d tgt bytes media_type note ref a =
     (case agent_put_blob L T tgt bytes media_type a of
        (Inl er, a1) \<Rightarrow> (Inl er, a1)
      | (Inr bid, a1) \<Rightarrow>
          (case agent_send L sign T d tgt (note_parts note @ [ref bid]) None None a1 of
             (Inl er, a2) \<Rightarrow> (Inl er, a2)
           | (Inr (mid, seq, room), a2) \<Rightarrow>
               (Inr \<lparr>rc_msg_id = mid, rc_blob_id = bid, rc_room = room, rc_seq = seq\<rparr>, a2)))"

definition agent_push where
  "agent_push L sign T d tgt bundle meta note =
     post_reference L sign T d tgt bundle (bm_media_type meta) note
       (\<lambda>bid. bundle_to_part \<lparr>br_blob = bid, br_vcs = bm_vcs meta, br_tip = bm_tip meta, br_base = bm_base meta,
                br_summary = bm_summary meta, br_size = length bundle, br_media_type = bm_media_type meta\<rparr>)"

definition basename :: "string \<Rightarrow> string" where
  "basename name =
     (let b = rev (takeWhile (\<lambda>c. c \<noteq> CHR ''/'' \<and> c \<noteq> CHR 0x5C) (rev name))
      in if b = [] then name else b)"

definition send_file where
  "send_file L sign T d tgt name bytes media_type note =
     post_reference L sign T d tgt bytes media_type note
       (\<lambda>bid. file_to_part \<lparr>fr_blob = bid, fr_name = basename name, fr_size = length bytes,
                fr_media_type = media_type, fr_summary = None\<rparr>)"

section \<open>Reads and acknowledgements\<close>

definition pending_of :: "string \<Rightarrow> 'w mesh_agent \<Rightarrow> int" where
  "pending_of room a = opt_or (map_of (ma_pending_ack a) room) 0"

definition committed_of :: "string \<Rightarrow> 'w mesh_agent \<Rightarrow> int" where
  "committed_of room a = opt_or (map_of (ma_committed_ack a) room) 0"

definition ack_for :: "string \<Rightarrow> 'w mesh_agent \<Rightarrow> int option" where
  "ack_for room a = Some (if room \<in> ma_held_reads a then 0 else pending_of room a)"

definition record_ack :: "string \<Rightarrow> int \<Rightarrow> 'w mesh_agent \<Rightarrow> 'w mesh_agent" where
  "record_ack room cursor a = a\<lparr>ma_pending_ack := map_put room cursor (ma_pending_ack a)\<rparr>"

definition pulled :: "server_frame \<Rightarrow> (stored_message list \<times> int) option" where
  "pulled r = (case r of Pulled room ms c \<Rightarrow> Some (ms, c) | _ \<Rightarrow> None)"

definition agent_pull :: "'w transport \<Rightarrow> string \<Rightarrow> int option \<Rightarrow> nat option \<Rightarrow> 'w mesh_agent \<Rightarrow> ('w, stored_message list \<times> int) outcome" where
  "agent_pull T room since limit a =
     (let ack = (if since = None then ack_for room a else None)
      in case expect T (Pull room since limit None ack) ''pull messages'' pulled a of
           (Inl er, a') \<Rightarrow> (Inl er, a')
         | (Inr (ms, c), a') \<Rightarrow> (Inr (ms, c), if since = None then record_ack room c a' else a'))"

definition commit_reads_through :: "'w transport \<Rightarrow> string \<Rightarrow> int \<Rightarrow> 'w mesh_agent \<Rightarrow> ('w, unit) outcome" where
  "commit_reads_through T room cursor a =
     (let unhold = (\<lambda>b. b\<lparr>ma_held_reads := ma_held_reads b - {room}\<rparr>)
      in if cursor \<le> 0 \<or> cursor \<le> committed_of room a then (Inr (), unhold a)
         else case expect T (Pull room None (Some 0) None (Some cursor)) ''commit reads'' pulled a of
                (Inl er, a') \<Rightarrow> (Inl er, a')
              | (Inr _, a') \<Rightarrow>
                  (Inr (), unhold (a'\<lparr>
                     ma_pending_ack := map_put room
                       (case map_of (ma_pending_ack a') room of Some p \<Rightarrow> max p cursor | None \<Rightarrow> cursor) (ma_pending_ack a'),
                     ma_committed_ack := map_put room cursor (ma_committed_ack a')\<rparr>)))"

definition commit_reads :: "'w transport \<Rightarrow> string \<Rightarrow> 'w mesh_agent \<Rightarrow> ('w, unit) outcome" where
  "commit_reads T room a = commit_reads_through T room (pending_of room a) a"

definition defer_reads :: "string \<Rightarrow> 'w mesh_agent \<Rightarrow> 'w mesh_agent" where
  "defer_reads room a = a\<lparr>ma_held_reads := insert room (ma_held_reads a)\<rparr>"

text \<open>The rooms in the order in which the hash map yields its keys.\<close>

definition flush_acks :: "'w transport \<Rightarrow> (string list \<Rightarrow> string list) \<Rightarrow> 'w mesh_agent \<Rightarrow> 'w mesh_agent" where
  "flush_acks T order a =
     fold (\<lambda>room b. snd (commit_reads T room b))
       (filter (\<lambda>room. room \<notin> ma_held_reads a) (order (map fst (ma_pending_ack a)))) a"

section \<open>Waiting\<close>

definition HEARTBEAT_INTERVAL :: nat where "HEARTBEAT_INTERVAL = 25000"

definition heartbeat_jitter :: "nat \<Rightarrow> nat" where
  "heartbeat_jitter b = b * 5000 div 255"

definition heartbeat :: "'w transport \<Rightarrow> 'w mesh_agent \<Rightarrow> 'w mesh_agent" where
  "heartbeat T a =
     (case on_transport (tr_request T Ping) a of
        (Inr _, a1) \<Rightarrow> a1
      | (Inl _, a1) \<Rightarrow> snd (reconnect T a1))"

definition pull_parked :: "'w transport \<Rightarrow> string \<Rightarrow> nat option \<Rightarrow> nat \<Rightarrow> 'w mesh_agent \<Rightarrow> ('w, stored_message list \<times> int) outcome" where
  "pull_parked T room limit wait_secs a =
     (case expect T (Pull room None limit (Some wait_secs) (ack_for room a)) ''parked pull'' pulled a of
        (Inl er, a') \<Rightarrow> (Inl er, a')
      | (Inr (ms, c), a') \<Rightarrow> (Inr (ms, c), record_ack room c a'))"

text \<open>
  One turn of the loop of \<open>pull_wait\<close> per entry: the time left, the byte drawn for the jitter and the
  time the parked request took, in milliseconds. None is a loop that has not come to an end.
\<close>

fun pull_wait ::
  "'w transport \<Rightarrow> string \<Rightarrow> nat option \<Rightarrow> (nat \<times> nat \<times> nat) list \<Rightarrow> bool \<Rightarrow> 'w mesh_agent
    \<Rightarrow> ('w, stored_message list \<times> int \<times> bool) outcome option" where
  "pull_wait T room limit [] waited a = None"
| "pull_wait T room limit ((remaining, b, elapsed) # turns) waited a =
     (case agent_pull T room None limit (heartbeat T a) of
        (Inl er, a1) \<Rightarrow> Some (Inl er, a1)
      | (Inr (ms, c), a1) \<Rightarrow>
          if ms \<noteq> [] \<or> remaining = 0 then Some (Inr (ms, c, waited), a1)
          else
            let chunk = min remaining (HEARTBEAT_INTERVAL - heartbeat_jitter b)
            in case pull_parked T room limit (max (chunk div 1000) 1) a1 of
                 (Inl er, a2) \<Rightarrow> Some (Inl er, a2)
               | (Inr (m, c'), a2) \<Rightarrow>
                   if m \<noteq> [] then Some (Inr (m, c', True), a2)
                   else pull_wait T room limit turns (waited \<or> chunk \<le> 2 * elapsed) a2)"

section \<open>Pushes\<close>

definition agent_subscribe :: "'w transport \<Rightarrow> 'w mesh_agent \<Rightarrow> ('w, bool) outcome" where
  "agent_subscribe T a =
     (case on_transport (tr_subscribe T) a of
        (Inl er, a') \<Rightarrow> (Inl er, a')
      | (Inr ok, a') \<Rightarrow> (Inr ok, a'\<lparr>ma_subscribed := ok\<rparr>))"

definition resubscribe_if_needed :: "'w transport \<Rightarrow> 'w mesh_agent \<Rightarrow> bool \<times> 'w mesh_agent" where
  "resubscribe_if_needed T a =
     (let a' = (if ma_subscribed a then a else snd (agent_subscribe T a)) in (ma_subscribed a', a'))"

definition agent_next_delivery :: "'w transport \<Rightarrow> nat \<Rightarrow> 'w mesh_agent \<Rightarrow> ('w, stored_message option) outcome" where
  "agent_next_delivery T max_wait a =
     (case on_transport (tr_next_delivery T max_wait) a of
        (Inl er, a1) \<Rightarrow>
          if reconnectable a1 er
          then (case reconnect T a1 of (Inl er', a2) \<Rightarrow> (Inl er', a2) | (Inr _, a2) \<Rightarrow> (Inr None, a2))
          else (Inl er, a1)
      | (Inr m, a1) \<Rightarrow> (Inr m, a1))"

section \<open>Signatures\<close>

datatype sig_status = Unsigned | Valid | Invalid

definition verify_message :: "lib \<Rightarrow> string \<Rightarrow> part list \<Rightarrow> string option \<Rightarrow> sig_status" where
  "verify_message L from_id parts reply_to =
     (case sig_from_parts parts of
        None \<Rightarrow> Unsigned
      | Some s \<Rightarrow>
          if lb_verify L from_id (canonical_message_bytes (lb_to_vec L) from_id (ms_target s) parts reply_to (ms_ts s) (ms_uid s)) (ms_sig s)
          then Valid else Invalid)"

definition routed_here :: "target \<Rightarrow> string \<Rightarrow> string \<Rightarrow> bool" where
  "routed_here tgt room recipient =
     (case tgt of
        TRoom r \<Rightarrow> r = room
      | TService service \<Rightarrow> room = ''svc.'' @ token service
      | TDm agent \<Rightarrow> agent = recipient \<and> strip_prefix ''dm.'' room \<noteq> None)"

definition verify_message_for_room :: "lib \<Rightarrow> stored_message \<Rightarrow> string \<Rightarrow> sig_status" where
  "verify_message_for_room L m recipient =
     (let status = verify_message L (ep_id (sm_from m)) (sm_parts m) (sm_reply_to m)
      in if status \<noteq> Valid then status
         else case sig_from_parts (sm_parts m) of
                None \<Rightarrow> Invalid
              | Some s \<Rightarrow> if routed_here (ms_target s) (sm_room m) recipient then Valid else Invalid)"

end
