(* ===== verification/Mailbox.thy ===== *)
theory Mailbox
  imports Agent
begin

text \<open>
  The reading side of an agent against what it relies on: a transport whose requests change the log and
  the agent's cursors in a bounded way. The contract is a locale; the agent's methods are proved once
  inside it, and the connection of the development provides it.
\<close>

section \<open>How a store may move\<close>

text \<open>New messages get new sequence numbers; old ones may go.\<close>

definition grows :: "store \<Rightarrow> store \<Rightarrow> bool" where
  "grows s s' =
     (st_next_seq s \<le> st_next_seq s'
      \<and> (\<forall>g \<in> set (st_messages s'). g \<in> set (st_messages s) \<or> st_next_seq s \<le> mg_seq g))"

text \<open>Also, a cursor of the agent advances no further than an acknowledgement in force.\<close>

definition moves :: "string \<Rightarrow> (string \<Rightarrow> int) \<Rightarrow> store \<Rightarrow> store \<Rightarrow> bool" where
  "moves me acks s s' = (grows s s' \<and> (\<forall>r. get_cursor r me s' \<le> max (get_cursor r me s) (acks r)))"

abbreviation no_acks :: "string \<Rightarrow> int" where
  "no_acks \<equiv> (\<lambda>r. 0)"

lemma grows_refl [simp, intro]: "grows s s"
  by (simp add: grows_def)

lemma grows_trans: "grows s t \<Longrightarrow> grows t u \<Longrightarrow> grows s u"
  unfolding grows_def by (meson order.trans)

lemma moves_refl [simp, intro]: "moves me acks s s"
  by (simp add: moves_def)

lemma moves_mono: "moves me acks s t \<Longrightarrow> (\<And>r. acks r \<le> acks' r) \<Longrightarrow> moves me acks' s t"
  unfolding moves_def by (meson max.mono order.refl order.trans)

lemma moves_trans: "moves me acks s t \<Longrightarrow> moves me acks t u \<Longrightarrow> moves me acks s u"
proof -
  assume a: "moves me acks s t" "moves me acks t u"
  have "get_cursor r me u \<le> max (get_cursor r me s) (acks r)" for r
  proof -
    have "get_cursor r me t \<le> max (get_cursor r me s) (acks r)" "get_cursor r me u \<le> max (get_cursor r me t) (acks r)"
      using a by (auto simp: moves_def)
    then show ?thesis by linarith
  qed
  with a show ?thesis by (auto simp: moves_def intro: grows_trans)
qed

section \<open>What has been delivered\<close>

text \<open>
  Every message of the log past \<open>base\<close> and up to the agent's cursor or the cursor it will acknowledge
  next has been returned to it, and neither cursor is ahead of the log.
\<close>

definition covered :: "string \<Rightarrow> (string \<Rightarrow> int) \<Rightarrow> stored_message set \<Rightarrow> (string \<Rightarrow> int) \<Rightarrow> store \<Rightarrow> bool" where
  "covered me base R pend s =
     ((\<forall>g \<in> set (st_messages s). base (mg_room g) < mg_seq g
         \<and> mg_seq g \<le> max (get_cursor (mg_room g) me s) (pend (mg_room g)) \<longrightarrow> to_stored g \<in> R)
      \<and> (\<forall>r. max (get_cursor r me s) (pend r) < st_next_seq s))"

lemma covered_mono: "covered me base R pend s \<Longrightarrow> R \<subseteq> R' \<Longrightarrow> covered me base R' pend s"
  unfolding covered_def by blast

lemma covered_moves:
  assumes "covered me base R pend s" "moves me acks s s'" "log_ok s" "log_ok s'"
    and "\<And>r. acks r \<le> max 0 (max (get_cursor r me s) (pend r))"
  shows "covered me base R pend s'"
proof -
  have c: "get_cursor r me s' \<le> max 0 (max (get_cursor r me s) (pend r))" for r
  proof -
    have "get_cursor r me s' \<le> max (get_cursor r me s) (acks r)" using assms(2) by (auto simp: moves_def)
    with assms(5) [of r] show ?thesis by linarith
  qed
  have n: "1 \<le> st_next_seq s" "st_next_seq s \<le> st_next_seq s'"
    using assms(2,3) by (auto simp: moves_def grows_def log_ok_def)
  have "to_stored g \<in> R"
    if g: "g \<in> set (st_messages s')" "base (mg_room g) < mg_seq g" "mg_seq g \<le> max (get_cursor (mg_room g) me s') (pend (mg_room g))" for g
  proof -
    have pos: "1 \<le> mg_seq g" using g(1) assms(4) by (auto simp: log_ok_def)
    with g(3) c [of "mg_room g"] have le: "mg_seq g \<le> max (get_cursor (mg_room g) me s) (pend (mg_room g))" by linarith
    with assms(1) have "mg_seq g < st_next_seq s" unfolding covered_def by (meson le_less_trans)
    with g(1) assms(2) have "g \<in> set (st_messages s)" by (auto simp: moves_def grows_def)
    with g(2) le assms(1) show ?thesis by (auto simp: covered_def)
  qed
  moreover have "max (get_cursor r me s') (pend r) < st_next_seq s'" for r
  proof -
    have "max (get_cursor r me s) (pend r) < st_next_seq s" using assms(1) by (simp add: covered_def)
    with c [of r] n show ?thesis by linarith
  qed
  ultimately show ?thesis by (simp add: covered_def)
qed

text \<open>A page read with an acknowledgement that was itself covered.\<close>

lemma pull_page:
  assumes "log_ok s" "fst (pull room me None limit (Some a) s) = (ms, c)"
  shows "ms = map to_stored (take (pull_limit limit) (unread room (max (get_cursor room me s) a) s))"
    and "c = last_seq (take (pull_limit limit) (unread room (max (get_cursor room me s) a) s)) (max (get_cursor room me s) a)"
  using assms by (auto simp: pull_def Let_def read_log_unread max_def split: if_splits)

lemma covered_page:
  assumes cov: "covered me base R pend s" and ok: "log_ok s" and pg: "fst (pull room me None limit (Some a) s) = (ms, c)"
    and a: "a \<le> max 0 (max (get_cursor room me s) (pend room))"
  shows "covered me base (R \<union> set ms) (pend(room := c)) s" "a \<le> max 0 c"
proof -
  let ?cur = "max (get_cursor room me s) a"
  let ?b = "take (pull_limit limit) (unread room ?cur s)"
  note page = pull_page [OF ok pg]
  have ge: "?cur \<le> c" unfolding page(2) by (rule last_seq_ge [OF ok])
  then show "a \<le> max 0 c" by linarith
  have split: "unread room ?cur s = ?b @ unread room c s"
    unfolding page(2) by (rule unread_after_batch [OF ok, symmetric])
  have lt: "c < st_next_seq s"
  proof (cases "?b = []")
    case True
    then have "c = ?cur" by (simp add: page(2) last_seq_def)
    moreover have "max (get_cursor room me s) (pend room) < st_next_seq s" "1 \<le> st_next_seq s"
      using cov ok by (auto simp: covered_def log_ok_def)
    ultimately show ?thesis using a by linarith
  next
    case False
    then have "last ?b \<in> set (unread room ?cur s)" by (meson in_set_takeD last_in_set)
    then show ?thesis using False ok by (auto simp: page(2) last_seq_def unread_def log_ok_def)
  qed
  have "to_stored g \<in> R \<union> set ms"
    if g: "g \<in> set (st_messages s)" "base (mg_room g) < mg_seq g"
      "mg_seq g \<le> max (get_cursor (mg_room g) me s) ((pend(room := c)) (mg_room g))" for g
  proof (cases "mg_room g = room \<and> ?cur < mg_seq g")
    case True
    then have "g \<in> set (unread room ?cur s)" using g by (simp add: unread_def)
    moreover have "g \<notin> set (unread room c s)" using True g(3) ge by (auto simp: unread_def)
    ultimately have "g \<in> set ?b" using split by (metis Un_iff set_append)
    then show ?thesis by (simp add: page(1))
  next
    case False
    have "1 \<le> mg_seq g" using g(1) ok by (auto simp: log_ok_def)
    then have "mg_seq g \<le> max (get_cursor (mg_room g) me s) (pend (mg_room g))"
      using False g(3) a by (auto split: if_splits)
    with g cov show ?thesis by (auto simp: covered_def)
  qed
  moreover have "max (get_cursor r me s) ((pend(room := c)) r) < st_next_seq s" for r
    using cov lt by (auto simp: covered_def)
  ultimately show "covered me base (R \<union> set ms) (pend(room := c)) s" by (simp add: covered_def)
qed

section \<open>The contract of a transport\<close>

abbreviation ack_at :: "string \<Rightarrow> int \<Rightarrow> string \<Rightarrow> int" where
  "ack_at room k \<equiv> (\<lambda>r. if r = room then max 0 k else 0)"

text \<open>The acknowledgement a frame carries; a cursor read without one advances on its own and is not used by the agent.\<close>

fun acks :: "client_frame \<Rightarrow> string \<Rightarrow> int" where
  "acks (Pull room None limit wait (Some a)) = ack_at room a"
| "acks _ = no_acks"

fun ack_aware :: "client_frame \<Rightarrow> bool" where
  "ack_aware (Pull room None limit wait None) = False"
| "ack_aware _ = True"

text \<open>The fields of an agent that only its reads change.\<close>

definition same_reads :: "'w mesh_agent \<Rightarrow> 'w mesh_agent \<Rightarrow> bool" where
  "same_reads a b =
     (ma_pending_ack b = ma_pending_ack a \<and> ma_committed_ack b = ma_committed_ack a \<and> ma_held_reads b = ma_held_reads a
      \<and> ma_id b = ma_id a \<and> ma_identity b = ma_identity a)"

lemma same_reads_refl [simp]: "same_reads a a"
  by (simp add: same_reads_def)

lemma same_reads_trans: "same_reads a b \<Longrightarrow> same_reads b c \<Longrightarrow> same_reads a c"
  by (simp add: same_reads_def)

lemma same_pending: "same_reads a b \<Longrightarrow> pending_of r b = pending_of r a"
  by (simp add: same_reads_def pending_of_def)

lemma on_transport_same: "on_transport op a = (r, a') \<Longrightarrow> same_reads a a'"
  by (auto simp: on_transport_def same_reads_def split: prod.splits)

lemma reconnect_same: "reconnect T a = (r, a') \<Longrightarrow> same_reads a a'"
  by (auto simp: reconnect_def same_reads_def Let_def split: prod.splits option.splits sum.splits if_splits)

lemma retry_cases:
  assumes "retry_once T op a = (r, a')"
  obtains (first) "on_transport op a = (r, a')"
  | (dead) a1 er b where "on_transport op a = (Inl er, a1)" "reconnect T a1 = (Inl b, a')" "r = Inl b"
  | (second) a1 a2 er where "on_transport op a = (Inl er, a1)" "reconnect T a1 = (Inr (), a2)" "on_transport op a2 = (r, a')"
  using assms by (auto simp: retry_once_def split: prod.splits sum.splits if_splits)

lemma pending_put: "(\<lambda>r. pending_of r (record_ack room c a)) = (\<lambda>r. pending_of r a)(room := c)"
  by (rule ext) (simp add: record_ack_def pending_of_def)

text \<open>The calls an agent's owner may make, with the messages each returns.\<close>

datatype read_op =
    RPull string "int option" "nat option"
  | RWait string "nat option" "(nat \<times> nat \<times> nat) list"
  | RCommit string
  | RDefer string
  | RFlush "string list \<Rightarrow> string list"
  | RSubscribe
  | RNext nat
  | ROther client_frame

definition is_pull :: "client_frame \<Rightarrow> bool" where
  "is_pull f = (case f of Pull room since limit wait ack \<Rightarrow> True | _ \<Rightarrow> False)"

text \<open>Every method that does not read is one request of a frame that is no pull.\<close>

fun read_step :: "'w transport \<Rightarrow> read_op \<Rightarrow> 'w mesh_agent \<Rightarrow> stored_message list \<times> 'w mesh_agent" where
  "read_step T (RPull room since limit) a =
     (case agent_pull T room since limit a of (Inr (ms, c), a') \<Rightarrow> (ms, a') | (Inl er, a') \<Rightarrow> ([], a'))"
| "read_step T (RWait room limit turns) a =
     (case pull_wait T room limit turns False a of
        Some (Inr (ms, c, waited), a') \<Rightarrow> (ms, a') | Some (Inl er, a') \<Rightarrow> ([], a') | None \<Rightarrow> ([], a))"
| "read_step T (RCommit room) a = ([], snd (commit_reads T room a))"
| "read_step T (RDefer room) a = ([], defer_reads room a)"
| "read_step T (RFlush order) a = ([], flush_acks T order a)"
| "read_step T RSubscribe a = ([], snd (agent_subscribe T a))"
| "read_step T (RNext n) a = ([], snd (agent_next_delivery T n a))"
| "read_step T (ROther f) a = ([], if is_pull f then a else snd (agent_request T f a))"

fun run_reads :: "'w transport \<Rightarrow> read_op list \<Rightarrow> 'w mesh_agent \<Rightarrow> stored_message list \<times> 'w mesh_agent" where
  "run_reads T [] a = ([], a)"
| "run_reads T (op # ops) a =
     (let (ms, a1) = read_step T op a; (rest, a2) = run_reads T ops a1 in (ms @ rest, a2))"

locale mailbox =
  fixes T :: "'w transport" and st :: "'w \<Rightarrow> store" and me :: string and ok :: "'w \<Rightarrow> bool"
  assumes ok_log: "ok w \<Longrightarrow> log_ok (st w)"
    and request_moves: "ok w \<Longrightarrow> ack_aware f \<Longrightarrow> tr_request T f w = (r, w') \<Longrightarrow> ok w' \<and> moves me (acks f) (st w) (st w')"
    and request_page: "ok w \<Longrightarrow> tr_request T (Pull room None limit wait (Some a)) w = (Inr (Pulled room' ms c), w') \<Longrightarrow>
      \<exists>s. log_ok s \<and> moves me (ack_at room a) (st w) s \<and> moves me (ack_at room a) s (st w')
        \<and> fst (pull room me None limit (Some a) s) = (ms, c)"
    and subscribe_moves: "ok w \<Longrightarrow> tr_subscribe T w = (b, w') \<Longrightarrow> ok w' \<and> moves me no_acks (st w) (st w')"
    and delivery_moves: "ok w \<Longrightarrow> tr_next_delivery T n w = (m, w') \<Longrightarrow> ok w' \<and> moves me no_acks (st w) (st w')"
    and connect_moves: "ok w \<Longrightarrow> idn_id idn = me \<Longrightarrow> tr_connect T url idn name role w = (u, w') \<Longrightarrow>
      ok w' \<and> moves me no_acks (st w) (st w')"
begin

definition good :: "(string \<Rightarrow> int) \<Rightarrow> stored_message set \<Rightarrow> 'w mesh_agent \<Rightarrow> bool" where
  "good base R a =
     (ok (ma_transport a) \<and> (\<forall>idn. ma_identity a = Some idn \<longrightarrow> idn_id idn = me)
      \<and> covered me base R (\<lambda>r. pending_of r a) (st (ma_transport a)))"

lemma good_covered: "good base R a \<Longrightarrow> covered me base R (\<lambda>r. pending_of r a) (st (ma_transport a))"
  by (simp add: good_def)

lemma good_mono: "good base R a \<Longrightarrow> R \<subseteq> R' \<Longrightarrow> good base R' a"
  by (auto simp: good_def intro: covered_mono)

lemma good_move:
  assumes "good base R a" "same_reads a a'" "ok (ma_transport a')" "moves me A (st (ma_transport a)) (st (ma_transport a'))"
    and "\<And>r. A r \<le> max 0 (pending_of r a)"
  shows "good base R a'"
proof -
  have "covered me base R (\<lambda>r. pending_of r a) (st (ma_transport a'))"
  proof (rule covered_moves [OF good_covered [OF assms(1)] assms(4)])
    show "log_ok (st (ma_transport a))" using assms(1) by (simp add: good_def ok_log)
    show "log_ok (st (ma_transport a'))" using assms(3) by (rule ok_log)
    show "A r \<le> max 0 (max (get_cursor r me (st (ma_transport a))) (pending_of r a))" for r
      using assms(5) [of r] by linarith
  qed
  moreover have "ma_identity a' = ma_identity a" using assms(2) by (simp add: same_reads_def)
  ultimately show ?thesis using assms(1,3) by (simp add: good_def same_pending [OF assms(2)])
qed

lemma transport_good:
  assumes "good base R a" "on_transport op a = (r, a')"
    and "\<And>w x w'. ok w \<Longrightarrow> op w = (x, w') \<Longrightarrow> ok w' \<and> moves me A (st w) (st w')"
    and "\<And>r. A r \<le> max 0 (pending_of r a)"
  shows "good base R a'"
proof -
  obtain w where w: "op (ma_transport a) = (r, w)" "a' = a\<lparr>ma_transport := w\<rparr>"
    using assms(2) by (auto simp: on_transport_def split: prod.splits)
  have "ok (ma_transport a)" using assms(1) by (simp add: good_def)
  from assms(3) [OF this w(1)] show ?thesis
    by (intro good_move [OF assms(1) on_transport_same [OF assms(2)], of A]) (simp_all add: w assms(4))
qed

lemma reconnect_good:
  assumes "good base R a" "reconnect T a = (r, a')"
  shows "good base R a'"
proof (cases "ma_identity a")
  case None
  with assms show ?thesis by (simp add: reconnect_def)
next
  case (Some idn)
  have idn: "idn_id idn = me" "ok (ma_transport a)" using assms(1) Some by (auto simp: good_def)
  obtain u w where c: "tr_connect T (ma_hub_url a) idn (ma_name a) (ma_role a) (ma_transport a) = (u, w)" by fastforce
  note w = connect_moves [OF idn(2,1) c]
  obtain b w2 where sub: "tr_subscribe T w = (b, w2)" by fastforce
  note w2 = subscribe_moves [OF conjunct1 [OF w] sub]
  have "ma_transport a' = w \<or> ma_transport a' = w2"
    using assms(2) Some c sub by (auto simp: reconnect_def Let_def split: sum.splits if_splits)
  moreover have "moves me no_acks (st (ma_transport a)) (st w2)" using w w2 by (blast intro: moves_trans)
  ultimately show ?thesis
    using w w2 by (intro good_move [OF assms(1) reconnect_same [OF assms(2)], of no_acks]) auto
qed

text \<open>The request that produced the outcome ran on an agent as good as the first one.\<close>

lemma retry_last:
  assumes "good base R a" "retry_once T op a = (r, a')"
    and "\<And>w x w'. ok w \<Longrightarrow> op w = (x, w') \<Longrightarrow> ok w' \<and> moves me A (st w) (st w')"
    and "\<And>r. A r \<le> max 0 (pending_of r a)"
  shows "good base R a' \<and> same_reads a a' \<and>
    (\<forall>x. r = Inr x \<longrightarrow> (\<exists>b. good base R b \<and> same_reads a b \<and> on_transport op b = (Inr x, a')))"
  using assms(2)
proof (cases rule: retry_cases)
  case first
  with transport_good [OF assms(1) first assms(3,4)] assms(1) on_transport_same [OF first] show ?thesis by auto
next
  case (dead a1 er b)
  have "good base R a1" "same_reads a a1"
    using transport_good [OF assms(1) dead(1) assms(3,4)] on_transport_same [OF dead(1)] by simp_all
  with reconnect_good [OF _ dead(2)] reconnect_same [OF dead(2)] dead show ?thesis
    by (auto intro: same_reads_trans)
next
  case (second a1 a2 er)
  have g1: "good base R a1" "same_reads a a1"
    using transport_good [OF assms(1) second(1) assms(3,4)] on_transport_same [OF second(1)] by simp_all
  have g2: "good base R a2" "same_reads a a2"
    using reconnect_good [OF g1(1) second(2)] same_reads_trans [OF g1(2) reconnect_same [OF second(2)]] by simp_all
  have "good base R a'"
    by (rule transport_good [OF g2(1) second(3) assms(3)]) (simp_all add: same_pending [OF g2(2)] assms(4))
  with g2 second on_transport_same [OF second(3)] show ?thesis by (auto intro: same_reads_trans)
qed

lemma request_good:
  assumes "good base R a" "agent_request T f a = (r, a')" "ack_aware f" "\<And>r. acks f r \<le> max 0 (pending_of r a)"
  shows "good base R a'" "same_reads a a'"
  using retry_last [OF assms(1) assms(2) [unfolded agent_request_def] request_moves assms(4)] assms(3) by auto

lemma plain_request_good:
  assumes "good base R a" "agent_request T f a = (r, a')" "\<not> is_pull f"
  shows "good base R a'"
proof (rule request_good [OF assms(1,2)])
  show "ack_aware f" using assms(3) by (cases f rule: ack_aware.cases) (auto simp: is_pull_def)
  show "acks f r \<le> max 0 (pending_of r a)" for r using assms(3) by (cases f rule: acks.cases) (auto simp: is_pull_def)
qed

text \<open>A cursor read under an acknowledgement that is pending: its page joins what has been returned.\<close>

lemma expect_pulled:
  assumes "expect T (Pull room since limit wait ack) action pulled a = (Inr (ms, c), a')"
  shows "\<exists>room'. agent_request T (Pull room since limit wait ack) a = (Inr (Pulled room' ms c), a')"
  using assms by (auto simp: expect_def pulled_def split: prod.splits sum.splits option.splits server_frame.splits)

lemma expect_agent: "expect T f action sel a = (x, a') \<Longrightarrow> \<exists>r. agent_request T f a = (r, a')"
  by (auto simp: expect_def split: prod.splits sum.splits option.splits)

lemma page_good:
  assumes "good base R a" "expect T (Pull room None limit wait (Some k)) action pulled a = (Inr (ms, c), a')"
    and "k \<le> max 0 (pending_of room a)"
  shows "good base (R \<union> set ms) (record_ack room c a')"
proof -
  let ?A = "ack_at room k"
  from expect_pulled [OF assms(2)] obtain room' where
    r: "retry_once T (tr_request T (Pull room None limit wait (Some k))) a = (Inr (Pulled room' ms c), a')"
    by (auto simp: agent_request_def)
  have A: "?A r \<le> max 0 (pending_of r a)" for r using assms(3) by simp
  have mv: "ok w' \<and> moves me ?A (st w) (st w')" if "ok w" "tr_request T (Pull room None limit wait (Some k)) w = (x, w')" for w x w'
    using request_moves [OF that(1) _ that(2)] by simp
  have "\<exists>b. good base R b \<and> same_reads a b \<and>
      on_transport (tr_request T (Pull room None limit wait (Some k))) b = (Inr (Pulled room' ms c), a')"
    and ra: "same_reads a a'" "good base R a'"
    using retry_last [OF assms(1) r, where A = ?A] mv A by blast+
  then obtain b where b: "good base R b" "same_reads a b"
    "on_transport (tr_request T (Pull room None limit wait (Some k))) b = (Inr (Pulled room' ms c), a')"
    by blast
  from b(3) have w: "tr_request T (Pull room None limit wait (Some k)) (ma_transport b) = (Inr (Pulled room' ms c), ma_transport a')"
    by (auto simp: on_transport_def split: prod.splits)
  have okb: "ok (ma_transport b)" using b(1) by (simp add: good_def)
  from request_page [OF okb w] obtain s where s: "log_ok s" "moves me ?A (st (ma_transport b)) s"
    "moves me ?A s (st (ma_transport a'))" "fst (pull room me None limit (Some k) s) = (ms, c)" by blast
  let ?p = "\<lambda>r. pending_of r a"
  have kb: "?A r \<le> max 0 (max x (?p r))" for r x using A [of r] by linarith
  have "covered me base R ?p (st (ma_transport b))"
    using good_covered [OF b(1)] by (simp add: same_pending [OF b(2)])
  then have cs: "covered me base R ?p s" by (rule covered_moves [OF _ s(2) ok_log [OF okb] s(1) kb])
  have k: "k \<le> max 0 (max (get_cursor room me s) (?p room))" using kb [of room] by simp
  note pg = covered_page [OF cs s(1,4) k]
  have oka: "ok (ma_transport a')" using ra(2) by (simp add: good_def)
  have "covered me base (R \<union> set ms) (?p(room := c)) (st (ma_transport a'))"
    by (rule covered_moves [OF pg(1) s(3,1) ok_log [OF oka]]) (use pg(2) in auto)
  moreover have "ma_identity a' = ma_identity a" using ra(1) by (simp add: same_reads_def)
  ultimately show ?thesis
    using oka assms(1) pending_put [of room c a'] by (simp add: good_def same_pending [OF ra(1)] record_ack_def)
qed

lemma pull_good:
  assumes "good base R a" "agent_pull T room since limit a = (x, a')"
  shows "good base (R \<union> set (case x of Inr (ms, c) \<Rightarrow> ms | Inl er \<Rightarrow> [])) a'"
proof (cases since)
  case None
  let ?k = "if room \<in> ma_held_reads a then 0 else pending_of room a"
  have k: "?k \<le> max 0 (pending_of room a)" by simp
  obtain y b where y: "expect T (Pull room None limit None (Some ?k)) ''pull messages'' pulled a = (y, b)" by fastforce
  show ?thesis
  proof (cases y)
    case (Inl er)
    from expect_agent [OF y] obtain r where "agent_request T (Pull room None limit None (Some ?k)) a = (r, b)" by blast
    then have "good base R b" by (rule request_good [OF assms(1)]) (use k in auto)
    with assms(2) None y Inl show ?thesis by (auto simp: agent_pull_def ack_for_def)
  next
    case (Inr p)
    obtain ms c where p: "p = (ms, c)" by fastforce
    from page_good [OF assms(1) _ k] y Inr p have "good base (R \<union> set ms) (record_ack room c b)" by auto
    with assms(2) None y Inr p show ?thesis by (auto simp: agent_pull_def ack_for_def)
  qed
next
  case (Some q)
  obtain y b where y: "expect T (Pull room (Some q) limit None None) ''pull messages'' pulled a = (y, b)" by fastforce
  from expect_agent [OF y] obtain r where "agent_request T (Pull room (Some q) limit None None) a = (r, b)" by blast
  then have "good base R b" by (rule request_good [OF assms(1)]) auto
  moreover have "a' = b" using assms(2) Some y by (auto simp: agent_pull_def split: sum.splits)
  ultimately show ?thesis by (auto intro: good_mono)
qed

lemma parked_good:
  assumes "good base R a" "pull_parked T room limit secs a = (x, a')"
  shows "good base (R \<union> set (case x of Inr (ms, c) \<Rightarrow> ms | Inl er \<Rightarrow> [])) a'"
proof -
  let ?k = "if room \<in> ma_held_reads a then 0 else pending_of room a"
  have k: "?k \<le> max 0 (pending_of room a)" by simp
  obtain y b where y: "expect T (Pull room None limit (Some secs) (Some ?k)) ''parked pull'' pulled a = (y, b)" by fastforce
  show ?thesis
  proof (cases y)
    case (Inl er)
    from expect_agent [OF y] obtain r where "agent_request T (Pull room None limit (Some secs) (Some ?k)) a = (r, b)" by blast
    then have "good base R b" by (rule request_good [OF assms(1)]) (use k in auto)
    with assms(2) y Inl show ?thesis by (auto simp: pull_parked_def ack_for_def)
  next
    case (Inr p)
    obtain ms c where p: "p = (ms, c)" by fastforce
    from page_good [OF assms(1) _ k] y Inr p have "good base (R \<union> set ms) (record_ack room c b)" by auto
    with assms(2) y Inr p show ?thesis by (auto simp: pull_parked_def ack_for_def)
  qed
qed

lemma good_unhold: "good base R (a\<lparr>ma_held_reads := H\<rparr>) = good base R a"
  by (simp add: good_def pending_of_def)

lemma commit_good:
  assumes "good base R a" "commit_reads T room a = (x, a')"
  shows "good base R a'"
proof -
  let ?k = "pending_of room a"
  obtain y b where y: "expect T (Pull room None (Some 0) None (Some ?k)) ''commit reads'' pulled a = (y, b)" by fastforce
  from expect_agent [OF y] obtain r where r: "agent_request T (Pull room None (Some 0) None (Some ?k)) a = (r, b)" by blast
  have b: "good base R b" by (rule request_good [OF assms(1) r]) auto
  have same: "same_reads a b" by (rule request_good [OF assms(1) r]) auto
  have p: "map_of (ma_pending_ack b) room = Some q \<Longrightarrow> q = ?k" "map_of (ma_pending_ack b) room = None \<Longrightarrow> ?k = 0" for q
    using same by (auto simp: same_reads_def pending_of_def)
  let ?v = "case map_of (ma_pending_ack b) room of Some q \<Rightarrow> max q ?k | None \<Rightarrow> ?k"
  let ?b = "b\<lparr>ma_pending_ack := map_put room ?v (ma_pending_ack b), ma_committed_ack := map_put room ?k (ma_committed_ack b)\<rparr>"
  have "pending_of r ?b = pending_of r b" for r
    using p by (auto simp: pending_of_def split: option.splits)
  then have "good base R ?b" using b by (simp add: good_def)
  moreover have "a' = a\<lparr>ma_held_reads := ma_held_reads a - {room}\<rparr> \<or> a' = b \<or> a' = ?b\<lparr>ma_held_reads := ma_held_reads ?b - {room}\<rparr>"
    using assms(2) y by (auto simp: commit_reads_def commit_reads_through_def Let_def split: sum.splits if_splits)
  ultimately show ?thesis using assms(1) b good_unhold by metis
qed

lemma flush_good: "good base R a \<Longrightarrow> good base R (flush_acks T order a)"
proof -
  have "good base R b \<Longrightarrow> good base R (fold (\<lambda>room b. snd (commit_reads T room b)) rooms b)" for rooms b
    by (induction rooms arbitrary: b) (auto intro: commit_good [OF _ prod.collapse [symmetric]])
  then show "good base R a \<Longrightarrow> ?thesis" by (simp add: flush_acks_def)
qed

lemma heartbeat_good:
  assumes "good base R a"
  shows "good base R (heartbeat T a)"
proof -
  obtain r b where b: "on_transport (tr_request T Ping) a = (r, b)" by fastforce
  have mv: "ok w' \<and> moves me no_acks (st w) (st w')" if "ok w" "tr_request T Ping w = (x, w')" for w x w'
    using request_moves [OF that(1) _ that(2)] by simp
  have g: "good base R b" by (rule transport_good [OF assms b, where A = no_acks]) (use mv in auto)
  have "good base R (snd (reconnect T b))" by (rule reconnect_good [OF g prod.collapse [symmetric]])
  with b g show ?thesis by (auto simp: heartbeat_def split: sum.splits)
qed

lemma wait_good:
  "good base R a \<Longrightarrow> pull_wait T room limit turns waited a = Some (x, a') \<Longrightarrow>
   good base (R \<union> set (case x of Inr r \<Rightarrow> fst r | Inl er \<Rightarrow> [])) a'"
proof (induction turns arbitrary: a waited)
  case (Cons t turns)
  obtain remaining j elapsed where t: "t = (remaining, j, elapsed)" by (cases t)
  obtain y a1 where y: "agent_pull T room None limit (heartbeat T a) = (y, a1)" by fastforce
  note g1 = pull_good [OF heartbeat_good [OF Cons.prems(1)] y]
  show ?case
  proof (cases y)
    case (Inl er)
    with y g1 t Cons.prems(2) show ?thesis by auto
  next
    case (Inr p)
    obtain ms c where p: "p = (ms, c)" by fastforce
    show ?thesis
    proof (cases "ms \<noteq> [] \<or> remaining = 0")
      case True
      with y g1 t Inr p Cons.prems(2) show ?thesis by auto
    next
      case False
      let ?chunk = "min remaining (HEARTBEAT_INTERVAL - heartbeat_jitter j)"
      obtain z a2 where z: "pull_parked T room limit (max (?chunk div 1000) 1) a1 = (z, a2)" by fastforce
      have "good base R a1" using g1 False Inr p by simp
      note g2 = parked_good [OF this z]
      show ?thesis
      proof (cases z)
        case (Inl er)
        with y z g2 t Inr p False Cons.prems(2) show ?thesis by (auto simp: Let_def)
      next
        case (Inr q)
        obtain ms2 c2 where q: "q = (ms2, c2)" by fastforce
        show ?thesis
        proof (cases "ms2 = []")
          case True
          with g2 Inr q have "good base R a2" by simp
          moreover have "pull_wait T room limit turns (waited \<or> ?chunk \<le> 2 * elapsed) a2 = Some (x, a')"
            using Cons.prems(2) t y z \<open>y = Inr p\<close> p False Inr q True by (simp add: Let_def)
          ultimately show ?thesis by (rule Cons.IH)
        next
          case nonempty: False
          then have "x = Inr (ms2, c2, True)" "a' = a2"
            using Inr q Cons.prems(2) t y z \<open>y = Inr p\<close> p False by (simp_all add: Let_def)
          with g2 Inr q show ?thesis by simp
        qed
      qed
    qed
  qed
qed simp

lemma subscribe_good:
  assumes "good base R a"
  shows "good base R (snd (agent_subscribe T a))"
proof -
  obtain r b where b: "on_transport (tr_subscribe T) a = (r, b)" by fastforce
  have "good base R b" by (rule transport_good [OF assms b, where A = no_acks]) (use subscribe_moves in auto)
  moreover have "good base R (b\<lparr>ma_subscribed := v\<rparr>) = good base R b" for v by (simp add: good_def pending_of_def)
  ultimately show ?thesis using b by (auto simp: agent_subscribe_def split: sum.splits)
qed

lemma next_good:
  assumes "good base R a"
  shows "good base R (snd (agent_next_delivery T n a))"
proof -
  obtain r b where b: "on_transport (tr_next_delivery T n) a = (r, b)" by fastforce
  have g: "good base R b" by (rule transport_good [OF assms b, where A = no_acks]) (use delivery_moves in auto)
  obtain u c where c: "reconnect T b = (u, c)" by fastforce
  with reconnect_good [OF g] b g show ?thesis by (auto simp: agent_next_delivery_def split: sum.splits)
qed

lemma step_good:
  assumes "good base R a" "read_step T op a = (ms, a')"
  shows "good base (R \<union> set ms) a'"
proof (cases op)
  case (RPull room since limit)
  obtain x b where x: "agent_pull T room since limit a = (x, b)" by fastforce
  with pull_good [OF assms(1) x] assms(2) RPull show ?thesis by (auto split: sum.splits prod.splits)
next
  case (RWait room limit turns)
  show ?thesis
  proof (cases "pull_wait T room limit turns False a")
    case (Some p)
    obtain x b where p: "p = (x, b)" by fastforce
    with wait_good [OF assms(1)] Some have "good base (R \<union> set (case x of Inr r \<Rightarrow> fst r | Inl er \<Rightarrow> [])) b" by blast
    with assms(2) RWait Some p show ?thesis by (auto split: sum.splits prod.splits)
  qed (use assms RWait in auto)
next
  case (RCommit room)
  with commit_good [OF assms(1) prod.collapse [symmetric]] assms(2) show ?thesis by auto
next
  case (ROther f)
  show ?thesis
  proof (cases "is_pull f")
    case False
    with plain_request_good [OF assms(1) prod.collapse [symmetric] False] assms(2) ROther show ?thesis by auto
  qed (use assms ROther in auto)
qed (use assms in \<open>auto simp: defer_reads_def good_unhold intro: flush_good subscribe_good next_good\<close>)

lemma run_good:
  "good base R a \<Longrightarrow> run_reads T ops a = (ms, a') \<Longrightarrow> good base (R \<union> set ms) a'"
proof (induction ops arbitrary: R a ms a')
  case (Cons op ops)
  obtain m1 a1 where m1: "read_step T op a = (m1, a1)" by fastforce
  obtain m2 a2 where m2: "run_reads T ops a1 = (m2, a2)" by fastforce
  from Cons.IH [OF step_good [OF Cons.prems(1) m1] m2] Cons.prems(2) m1 m2 show ?case by (auto simp: Un_assoc)
qed simp

text \<open>From a fresh agent on, the cursor on the hub passes no message that was not returned.\<close>

lemma no_message_skipped:
  assumes "ok w" "\<And>r. get_cursor r (idn_id idn) (st w) < st_next_seq (st w)" "idn_id idn = me"
    and "run_reads T ops (with_transport_and_identity w idn name role url) = (ms, a')"
    and "g \<in> set (st_messages (st (ma_transport a')))"
    and "get_cursor (mg_room g) me (st w) < mg_seq g" "mg_seq g \<le> get_cursor (mg_room g) me (st (ma_transport a'))"
  shows "to_stored g \<in> set ms"
proof -
  let ?a = "with_transport_and_identity w idn name role url"
  have "good (\<lambda>r. get_cursor r me (st w)) {} ?a"
    using assms(1-3) ok_log [OF assms(1)]
    by (auto simp: good_def covered_def with_transport_and_identity_def with_transport_def pending_of_def log_ok_def opt_or_def)
  from good_covered [OF run_good [OF this assms(4)]] assms(5-7) show ?thesis by (auto simp: covered_def)
qed

end

end
