(* ===== verification/Link.thy ===== *)
theory Link
  imports Agent
begin

text \<open>
  An agent and a hub over a connection that may fail. What the network does to each message is scripted:
  it is delivered and answered, lost before it arrives, or handled with the answer lost; in the last two
  cases the connection is gone. Before a message is handled the rest of the world may act on the hub, and
  a parked request is polled at the scripted moments. The client reads what has arrived by the code of
  the connector, so that queued pushes interleave with replies.
\<close>

section \<open>The connection\<close>

datatype fate = Answered | RequestLost | AnswerLost

record turn =
  tn_fate :: fate
  tn_env :: env
  tn_others :: "hub \<Rightarrow> hub"
  tn_pushes :: nat
  tn_polls :: "(env \<times> (hub \<Rightarrow> hub)) list"

record net =
  nt_hub :: hub
  nt_sock :: "socket option"
  nt_turns :: "turn list"

text \<open>Pushes waiting in the channel of a connection, written to the socket.\<close>

definition drain :: "nat \<Rightarrow> conn_state \<Rightarrow> hub \<Rightarrow> ws_event list \<times> hub" where
  "drain n conn h =
     (case hb_channels h (cn_conn_id conn) of
        None \<Rightarrow> ([], h)
      | Some q \<Rightarrow> (map (\<lambda>f. EvText (Some f)) (take n q), pop_push (cn_conn_id conn) (drop n q) h))"

fun event_of :: "ws_out \<Rightarrow> ws_event" where
  "event_of (OFrame f) = EvText (Some f)"
| "event_of (OBinary b) = EvBinary b"
| "event_of (OPong p) = EvOther"

fun ws_of :: "client_msg \<Rightarrow> ws_message" where
  "ws_of (CText f) = WsText 0 (Some f)"
| "ws_of (CBinary b) = WsBinary b"

text \<open>One message at the hub, a parked request served to its end: what is written back and the connection after it.\<close>

definition serve_message :: "lib \<Rightarrow> turn \<Rightarrow> client_msg \<Rightarrow> socket \<Rightarrow> hub \<Rightarrow> ws_out list \<times> socket option \<times> hub" where
  "serve_message L t m k h =
     (case on_message L (tn_env t) (ws_of m) (sk_conn k) h of
        (outs, None, h') \<Rightarrow> (outs, None, h')
      | (outs, Some k', h') \<Rightarrow>
          (case (sk_parked k', cn_authed (sk_conn k')) of
             (Some p, Some me) \<Rightarrow>
               (case poll_run me (tn_polls t) p h' of
                  None \<Rightarrow> ([], None, h')
                | Some (e, h1, f, h2) \<Rightarrow> ([OFrame f], Some (k'\<lparr>sk_parked := None\<rparr>), h2))
           | _ \<Rightarrow> (outs, Some k', h')))"

text \<open>The hub as the peer of a client. Without a connection, or past the script, a write fails.\<close>

definition hub_peer :: "lib \<Rightarrow> net peer" where
  "hub_peer L m n =
     (case (nt_sock n, nt_turns n) of
        (Some k, t # ts) \<Rightarrow>
          let h = tn_others t (nt_hub n)
          in if tn_fate t = RequestLost
             then (None, n\<lparr>nt_hub := close_socket k h, nt_sock := None, nt_turns := ts\<rparr>)
             else
               let (outs, sock, h1) = serve_message L t m k h;
                   (pushes, h2) = drain (tn_pushes t) (sk_conn k) h1
               in case (if tn_fate t = AnswerLost then None else sock) of
                    None \<Rightarrow>
                      (Some (if tn_fate t = AnswerLost then [EvError] else map event_of outs @ [EvClose]),
                       n\<lparr>nt_hub := close_socket (opt_or sock k) h2, nt_sock := None, nt_turns := ts\<rparr>)
                  | Some k' \<Rightarrow>
                      (Some (pushes @ map event_of outs), n\<lparr>nt_hub := h2, nt_sock := Some k', nt_turns := ts\<rparr>)
      | _ \<Rightarrow> (None, n\<lparr>nt_sock := None, nt_turns := tl (nt_turns n)\<rparr>))"

section \<open>The transport of an agent\<close>

text \<open>
  Dialling opens a connection and performs the handshake on it. When both succeed the new connection
  replaces the old one, which is closed; otherwise the new one is closed and the old one kept.
\<close>

definition close_old :: "socket option \<Rightarrow> hub \<Rightarrow> hub" where
  "close_old k h = (case k of None \<Rightarrow> h | Some k \<Rightarrow> close_socket k h)"

definition dial ::
  "lib \<Rightarrow> (string \<Rightarrow> string \<Rightarrow> string option) \<Rightarrow> string option \<Rightarrow> identity \<Rightarrow> string \<Rightarrow> string option \<Rightarrow> net hub_client
    \<Rightarrow> (client_error + unit) \<times> net hub_client" where
  "dial L sign secret idn name role c =
     (let n = hc_peer c
      in case open_socket (nt_hub n) of
           (outs, None, h) \<Rightarrow> (Inl (Plain ''hub rejected hello: hub at capacity''), c\<lparr>hc_peer := n\<lparr>nt_hub := h\<rparr>\<rparr>)
         | (outs, Some k, h) \<Rightarrow>
             (case handshake (hub_peer L) (sign (idn_seed idn)) secret (idn_id idn) name role
                     \<lparr>hc_peer = n\<lparr>nt_hub := h, nt_sock := Some k\<rparr>, hc_arrived = [], hc_inbox = [], hc_subscribed = False\<rparr> of
                (Inl er, c') \<Rightarrow>
                  (Inl er, c\<lparr>hc_peer := (hc_peer c')\<lparr>nt_hub := close_old (nt_sock (hc_peer c')) (nt_hub (hc_peer c')), nt_sock := nt_sock n\<rparr>\<rparr>)
              | (Inr _, c') \<Rightarrow>
                  (Inr (), c'\<lparr>hc_peer := (hc_peer c')\<lparr>nt_hub := close_old (nt_sock n) (nt_hub (hc_peer c'))\<rparr>\<rparr>)))"

definition pump :: "nat \<Rightarrow> net hub_client \<Rightarrow> net hub_client" where
  "pump k c =
     (case nt_sock (hc_peer c) of
        None \<Rightarrow> c
      | Some s \<Rightarrow>
          let (evs, h) = drain k (sk_conn s) (nt_hub (hc_peer c))
          in c\<lparr>hc_peer := (hc_peer c)\<lparr>nt_hub := h\<rparr>, hc_arrived := hc_arrived c @ evs\<rparr>)"

definition hub_transport :: "lib \<Rightarrow> (string \<Rightarrow> string \<Rightarrow> string option) \<Rightarrow> string option \<Rightarrow> net hub_client transport" where
  "hub_transport L sign secret =
     \<lparr>tr_request = client_request (hub_peer L), tr_subscribe = client_subscribe (hub_peer L),
      tr_next_delivery = (\<lambda>w c. client_next_delivery (pump 1 c)), tr_upload = client_upload (hub_peer L),
      tr_download = client_download (hub_peer L),
      tr_connect = (\<lambda>url idn name role c. dial L sign secret idn name role c)\<rparr>"

end
