(* ===== verification/Hub_Reads.thy ===== *)
theory Hub_Reads
  imports Mailbox Link
begin

text \<open>
  What the hub does to the log and to the cursors when it handles a frame, and with it the proof that
  the connection of an agent to a hub meets the contract of a transport.
\<close>

section \<open>The log and the cursors\<close>

definition log_view :: "store \<Rightarrow> message_row list \<times> int \<times> (string \<Rightarrow> string \<Rightarrow> int)" where
  "log_view s = (st_messages s, st_next_seq s, (\<lambda>r a. get_cursor r a s))"

lemma cursor_members: "st_members s' = st_members s \<Longrightarrow> get_cursor r a s' = get_cursor r a s"
  by (simp add: get_cursor_def)

lemma find_snoc: "find P (xs @ [x]) = (case find P xs of None \<Rightarrow> if P x then Some x else None | Some y \<Rightarrow> Some y)"
  by (induction xs) auto

lemma cursor_add_member [simp]: "get_cursor r a (add_member room agent now s) = get_cursor r a s"
  by (auto simp: get_cursor_def add_member_def insert_or_ignore_def find_snoc split: option.splits)

lemma view_simple:
  "st_messages s' = st_messages s \<Longrightarrow> st_next_seq s' = st_next_seq s \<Longrightarrow> st_members s' = st_members s \<Longrightarrow> log_view s' = log_view s"
  by (simp add: log_view_def get_cursor_def)

lemma log_view_add [simp]: "log_view (add_member room agent now s) = log_view s"
  by (simp add: log_view_def) (simp add: add_member_def)

lemma log_view_quiet [simp]:
  "log_view (register_card lw c sig v vis now s) = log_view s"
  "log_view (snd (mint_directory_token tok sc ex cr now s)) = log_view s"
  "log_view (snd (mint_watch_token tok room owner ex now s)) = log_view s"
  "log_view (snd (create_invite code room kind role uses ex cr ap now s)) = log_view s"
  "log_view (serve_role room agent rl now s) = log_view s"
  "log_view (snd (claim_service_message room msg w lease now s)) = log_view s"
  "log_view (snd (complete_service_message room msg w tst now s)) = log_view s"
  "log_view (snd (remember vd author fct now emb model s)) = log_view s"
  "log_view (touch_presence aid stt act attn now s) = log_view s"
  "log_view (refresh_presence aid now s) = log_view s"
  "log_view (set_attention aid att now s) = log_view s"
  "log_view (upsert_agent aid nm role now s) = log_view s"
  "log_view (touch_blob_fetched bid now s) = log_view s"
  "log_view (put_blob_meta bid room author mt sz now s) = log_view s"
  "log_view (charge_use code s) = log_view s"
  "log_view (ensure_room room kind d now s) = log_view s"
  "log_view (set_room_owner room agent s) = log_view s"
  by (auto intro!: view_simple simp: register_card_def mint_directory_token_def mint_watch_token_def create_invite_def
      serve_role_def claim_service_message_def complete_service_message_def remember_def insert_fact_def
      touch_presence_def refresh_presence_def set_attention_def upsert_agent_def touch_blob_fetched_def charge_use_def
      put_blob_meta_def ensure_room_def set_room_owner_def Let_def split: option.splits if_splits prod.splits)

lemma log_view_requests: "log_view (s\<lparr>st_join_requests := z\<rparr>) = log_view s"
  by (rule view_simple) simp_all

lemma log_view_redeem [simp]: "log_view (snd (redeem_invite code agent now s)) = log_view s"
  by (cases rule: redeem_cases [of code agent now s]) (auto simp: log_view_requests)

lemma log_view_resolve [simp]: "log_view (snd (resolve_join room owner agent approve now s)) = log_view s"
  by (auto simp: resolve_join_def Let_def log_view_requests split: if_splits)

lemma log_view_target [simp]: "log_view (snd (resolve_target e me tgt s)) = log_view s"
  by (auto simp: resolve_target_def Let_def split: target.splits option.splits)

section \<open>Frames\<close>

definition quiet :: "store \<Rightarrow> store \<Rightarrow> bool" where
  "quiet s s' = (grows s s' \<and> (\<forall>r a. get_cursor r a s' \<le> max (get_cursor r a s) 0) \<and> (log_ok s \<longrightarrow> log_ok s'))"

lemma quiet_view: "log_view s' = log_view s \<Longrightarrow> quiet s s'"
proof -
  assume v: "log_view s' = log_view s"
  then have "get_cursor r a s' = get_cursor r a s" for r a by (metis log_view_def prod.inject)
  with v show ?thesis by (simp add: quiet_def grows_def log_ok_def log_view_def)
qed

lemma quiet_refl [simp, intro]: "quiet s s"
  by (simp add: quiet_view)

lemma quiet_trans: "quiet s t \<Longrightarrow> quiet t u \<Longrightarrow> quiet s u"
proof -
  assume q: "quiet s t" "quiet t u"
  have "get_cursor r a u \<le> max (get_cursor r a s) 0" for r a
  proof -
    have "get_cursor r a t \<le> max (get_cursor r a s) 0" "get_cursor r a u \<le> max (get_cursor r a t) 0" using q by (auto simp: quiet_def)
    then show ?thesis by linarith
  qed
  with q show ?thesis by (auto simp: quiet_def intro: grows_trans)
qed

lemma quiet_moves: "quiet s s' \<Longrightarrow> moves me no_acks s s'"
  by (simp add: quiet_def moves_def)

lemma quiet_append: "quiet s (snd (append_message mid room ep parts men rep cid ts s))"
proof -
  have "log_ok s \<Longrightarrow> log_ok (snd (append_message mid room ep parts men rep cid ts s))" by (rule append_log_ok)
  moreover have "get_cursor r a (snd (append_message mid room ep parts men rep cid ts s)) = get_cursor r a s" for r a
    by (rule cursor_members) simp
  ultimately show ?thesis
    by (cases rule: append_cases [of mid room ep parts men rep cid ts s]) (auto simp: quiet_def grows_def)
qed

lemma sorted_wrt_filter_log: "log_ok s \<Longrightarrow> st_messages s' = filter P (st_messages s) \<Longrightarrow> st_next_seq s' = st_next_seq s \<Longrightarrow> log_ok s'"
  by (auto simp: log_ok_def sorted_wrt_filter_map distinct_map_filter)

lemma find_filter_None: "find P xs = None \<Longrightarrow> find P (filter Q xs) = None"
  by (simp add: find_None_iff)

lemma find_filter_other: "(\<And>x. P x \<Longrightarrow> Q x) \<Longrightarrow> find P (filter Q xs) = find P xs"
  by (induction xs) auto

lemma quiet_delete: "quiet s (snd (delete_room room owner s))"
proof (cases "snd (delete_room room owner s) = s")
  case False
  let ?s = "snd (delete_room room owner s)"
  have s: "st_messages ?s = filter (\<lambda>g. mg_room g \<noteq> room) (st_messages s)" "st_next_seq ?s = st_next_seq s"
    "st_members ?s = filter (\<lambda>m. mb_room m \<noteq> room) (st_members s)"
    using False by (auto simp: delete_room_def delete_where_def split: if_splits)
  have "get_cursor r a ?s \<le> max (get_cursor r a s) 0" for r a
  proof (cases "r = room")
    case True
    then have "find (\<lambda>m. mb_room m = r \<and> mb_agent m = a) (st_members ?s) = None" by (auto simp: s find_None_iff)
    then show ?thesis by (simp add: get_cursor_def)
  next
    case False
    then have "find (\<lambda>m. mb_room m = r \<and> mb_agent m = a) (st_members ?s) = find (\<lambda>m. mb_room m = r \<and> mb_agent m = a) (st_members s)"
      unfolding s by (intro find_filter_other) auto
    then show ?thesis by (simp add: get_cursor_def)
  qed
  moreover have "log_ok s \<Longrightarrow> log_ok ?s" by (rule sorted_wrt_filter_log) (simp_all add: s)
  ultimately show ?thesis by (auto simp: quiet_def grows_def s)
qed simp

lemma quiet_send: "quiet (hb_store h) (hb_store (snd (handle_send L e me tgt parts mentions reply_to client_id h)))"
proof -
  obtain ok h1 where c1: "charge_agent (au_id me) Send_kind (ev_now e) h = (ok, h1)" by fastforce
  have h1: "hb_store h1 = hb_store h" by (rule charge_agent_store [OF c1])
  obtain rt s1 where rt: "resolve_target e me tgt (hb_store h) = (rt, s1)" by fastforce
  have s1: "quiet (hb_store h) s1" using log_view_target [of e me tgt "hb_store h"] rt by (intro quiet_view) simp
  show ?thesis
  proof (cases rt)
    case (Inl er)
    with c1 rt h1 s1 show ?thesis by (auto simp: handle_send_def)
  next
    case (Inr room)
    obtain ok2 h2 where c2: "charge_room room Send_kind (ev_now e) (h1\<lparr>hb_store := s1\<rparr>) = (ok2, h2)" by fastforce
    have h2: "hb_store h2 = s1" using charge_room_store [OF c2] by simp
    let ?men = "Option.bind mentions (normalize_mentions (lb_lower L))"
    obtain res s2 where ap: "append_message (ev_uuid e) room (endpoint_of me) parts ?men reply_to client_id (ev_now e) s1 = (res, s2)" by fastforce
    have "quiet s1 s2" using quiet_append [of s1 "ev_uuid e" room "endpoint_of me" parts ?men reply_to client_id "ev_now e"] ap by simp
    then have "quiet (hb_store h) s2" by (rule quiet_trans [OF s1])
    with c1 rt h1 s1 Inr c2 h2 ap show ?thesis by (auto simp: handle_send_def Let_def split: sum.splits)
  qed
qed

text \<open>Reads: with an acknowledgement the cursor moves up to it, and a read past a given number moves nothing.\<close>

lemma cursor_set: "get_cursor r a (set_cursor room agent c s) \<le> max (get_cursor r a s) (if r = room \<and> a = agent then c else get_cursor r a s)"
proof (cases "r = room \<and> a = agent")
  case True
  show ?thesis
  proof (cases "is_member room agent s")
    case member: True
    with True show ?thesis by (simp add: get_set_cursor)
  next
    case False
    then have "\<forall>m \<in> set (st_members s). \<not> (mb_room m = room \<and> mb_agent m = agent)" by (auto simp: is_member_iff)
    then have "st_members (set_cursor room agent c s) = st_members s" by (auto simp: set_cursor_def update_where_def intro!: map_idI)
    then show ?thesis by (simp add: get_cursor_def)
  qed
qed (simp add: get_set_cursor_other)

lemma pull_moves: "moves me (ack_at room k) s (snd (pull room agent None limit (Some k) s))"
proof -
  have "snd (pull room agent None limit (Some k) s) = s \<or> snd (pull room agent None limit (Some k) s) = set_cursor room agent k s"
    by (auto simp: pull_def Let_def)
  moreover have "moves me (ack_at room k) s (set_cursor room agent k s)"
  proof -
    have "get_cursor r me (set_cursor room agent k s) \<le> max (get_cursor r me s) (ack_at room k r)" for r
      using cursor_set [of r me room agent k s] by (auto split: if_splits)
    then show ?thesis unfolding moves_def grows_def by simp
  qed
  ultimately show ?thesis by (metis moves_refl)
qed

section \<open>Channels\<close>

text \<open>Only pushes are queued on a channel.\<close>

definition chans_ok :: "hub \<Rightarrow> bool" where
  "chans_ok h = (\<forall>c q. hb_channels h c = Some q \<longrightarrow> (\<forall>f \<in> set q. \<exists>m. f = Delivery m))"

lemma chans_same: "hb_channels h' = hb_channels h \<Longrightarrow> chans_ok h \<Longrightarrow> chans_ok h'"
  by (simp add: chans_ok_def)

lemma chans_push_conns: "chans_ok h \<Longrightarrow> chans_ok (snd (push_conns (Delivery m) ss h))"
proof (induction ss arbitrary: h)
  case (Cons x ss)
  have "chans_ok (h\<lparr>hb_channels := (hb_channels h)(sb_tx x \<mapsto> q @ [Delivery m]), hb_metrics := z\<rparr>)" if "hb_channels h (sb_tx x) = Some q" for q z
    using Cons.prems that by (auto simp: chans_ok_def split: if_splits)
  with Cons show ?case by (auto simp: Let_def case_prod_beta split: option.splits)
qed simp

lemma chans_push_members: "chans_ok h \<Longrightarrow> chans_ok (foldl (push_member author (Delivery m)) h ms)"
proof (induction ms arbitrary: h)
  case (Cons a ms)
  have "chans_ok (push_member author (Delivery m) h a)"
  proof -
    have "chans_ok ((snd (push_conns (Delivery m) ss h))\<lparr>hb_subscribers := x\<rparr>)" for ss x
      by (rule chans_same [OF _ chans_push_conns [OF Cons.prems]]) simp
    then show ?thesis by (auto simp: push_member_def Let_def case_prod_beta Cons.prems split: option.splits)
  qed
  with Cons.IH show ?case by simp
qed simp

lemma chans_fanout: "chans_ok h \<Longrightarrow> chans_ok (fanout room author m h)"
  using chans_same [OF notify_fields(1), of h room] by (auto simp: fanout_def Let_def intro: chans_push_members)

lemma chans_store [simp]: "chans_ok (h\<lparr>hb_store := s\<rparr>) = chans_ok h"
  by (simp add: chans_ok_def)

lemma chans_notify [simp]: "chans_ok (notify_room room h) = chans_ok h"
  by (simp add: chans_ok_def)

lemma chans_charge: "charge_agent agent kind now h = (ok, h') \<Longrightarrow> chans_ok h' = chans_ok h"
    "charge_room room kind now h = (ok, h') \<Longrightarrow> chans_ok h' = chans_ok h"
  using chan_charge by (auto simp: chans_ok_def)

lemma chans_announce: "chans_ok h \<Longrightarrow> chans_ok (announce e me room parts men rep out h)"
  by (auto simp: announce_def chans_ok_def intro!: chans_fanout [unfolded chans_ok_def])

lemma chans_send: "chans_ok h \<Longrightarrow> chans_ok (snd (handle_send L e me tgt parts mentions reply_to client_id h))"
  by (auto simp: handle_send_def Let_def chans_announce split: prod.splits sum.splits dest!: chans_charge)

lemma chans_authed: "chans_ok h \<Longrightarrow> chans_ok (snd (handle_authed L e me frame h))"
proof (cases frame)
  case (Send tgt parts mentions reply_to client_id)
  then show "chans_ok h \<Longrightarrow> ?thesis" by (simp add: chans_send)
qed (auto simp: handler_defs Let_def split: prod.splits sum.splits option.splits)

section \<open>What a frame does\<close>

definition advance :: "string \<Rightarrow> (string \<Rightarrow> int) \<Rightarrow> hub \<Rightarrow> hub \<Rightarrow> bool" where
  "advance me A h h' =
     (moves me A (hb_store h) (hb_store h') \<and> (log_ok (hb_store h) \<longrightarrow> log_ok (hb_store h')) \<and> (chans_ok h \<longrightarrow> chans_ok h'))"

lemma advance_refl [simp, intro]: "advance me A h h"
  by (simp add: advance_def)

lemma advance_trans: "advance me A h h1 \<Longrightarrow> advance me A h1 h2 \<Longrightarrow> advance me A h h2"
  by (auto simp: advance_def intro: moves_trans)

lemma advance_same: "hb_store h' = hb_store h \<Longrightarrow> hb_channels h' = hb_channels h \<Longrightarrow> advance me A h h'"
  by (auto simp: advance_def intro: chans_same)

lemma advance_quiet: "quiet (hb_store h) (hb_store h') \<Longrightarrow> (chans_ok h \<Longrightarrow> chans_ok h') \<Longrightarrow> advance me no_acks h h'"
  by (auto simp: advance_def quiet_moves) (simp add: quiet_def)

text \<open>Every handler but those of sends, reads and deletions leaves the log and the cursors alone.\<close>

lemma authed_quiet:
  assumes "\<not> is_pull frame"
  shows "quiet (hb_store h) (hb_store (snd (handle_authed L e me frame h)))"
proof (cases frame)
  case (Send tgt parts mentions reply_to client_id)
  then show ?thesis by (simp add: quiet_send)
next
  case (DeleteRoom room)
  then show ?thesis using quiet_delete [of "hb_store h" room "au_id me"]
    by (simp add: handle_delete_room_def case_prod_beta split: sum.splits)
qed (use assms in \<open>simp_all add: quiet_view is_pull_def handler_defs Let_def case_prod_beta split: sum.splits option.splits\<close>)

lemma put_blob_quiet: "quiet (hb_store h) (hb_store (snd (snd (handle_put_blob e me tgt sha sz mt conn h))))"
proof -
  obtain rt s1 where rt: "resolve_target e me tgt (hb_store h) = (rt, s1)" by fastforce
  have s1: "quiet (hb_store h) s1" using log_view_target [of e me tgt "hb_store h"] rt by (intro quiet_view) simp
  let ?h0 = "h\<lparr>hb_inflight := hb_inflight h - max (hb_max_blob_bytes h) 1\<rparr>"
  obtain ok h1 where c1: "charge_agent (au_id me) Blob_kind (ev_now e) ?h0 = (ok, h1)" by fastforce
  have h1: "hb_store h1 = hb_store h" using charge_agent_store [OF c1] by simp
  have "charge_room room Blob_kind (ev_now e) (h1\<lparr>hb_store := s1\<rparr>) = (b, h2) \<Longrightarrow> hb_store h2 = s1" for room b h2
    by (drule charge_room_store) simp
  then have "hb_store (snd (snd (handle_put_blob e me tgt sha sz mt conn h))) \<in> {hb_store h, s1}"
    using c1 rt h1 by (auto simp: handle_put_blob_def Let_def split: prod.splits sum.splits)
  with s1 show ?thesis by auto
qed

lemma put_blob_chans: "hb_channels (snd (snd (handle_put_blob e me tgt sha sz mt conn h))) = hb_channels h"
  by (auto simp: handle_put_blob_def Let_def release_def split: prod.splits sum.splits option.splits dest!: chan_charge)

lemma pull_authed:
  assumes "is_pull frame" "ack_aware frame" "au_id me = a"
  shows "advance a (acks frame) h (snd (handle_authed L e me frame h))"
proof -
  from assms(1) obtain room since limit wait ack where f: "frame = Pull room since limit wait ack"
    by (auto simp: is_pull_def split: client_frame.splits)
  show ?thesis
  proof (cases since)
    case None
    with assms(2) f obtain k where k: "ack = Some k" by (cases ack) auto
    with None f pull_moves [of a room k "hb_store h" "au_id me" limit] show ?thesis
      by (auto simp: advance_def handle_pull_def case_prod_beta pull_frame)
  next
    case (Some c)
    with f show ?thesis by (auto simp: handle_pull_def pull_since intro: advance_same)
  qed
qed

lemma acks_none: "\<not> is_pull f \<Longrightarrow> acks f = no_acks" "\<not> is_pull f \<Longrightarrow> ack_aware f"
  by (cases f rule: acks.cases; simp add: is_pull_def) (cases f rule: ack_aware.cases; simp add: is_pull_def)

lemma authed_advance:
  assumes "ack_aware frame" "au_id me = a"
  shows "advance a (acks frame) h (snd (handle_authed L e me frame h))"
proof (cases "is_pull frame")
  case True
  with pull_authed assms show ?thesis by blast
next
  case False
  then show ?thesis using acks_none [OF False] by (simp only:) (rule advance_quiet [OF authed_quiet [OF False] chans_authed])
qed

end
