(* ===== verification/Link_Laws.thy ===== *)
theory Link_Laws
  imports Hub_Reads
begin

text \<open>
  The connection of an agent to a hub meets the contract of a transport: whatever the script of the
  network, a request moves the log and the agent's cursors within what it acknowledges, and the page it
  returns is one the hub read in between. The contract is interpreted on the connection.
\<close>

section \<open>Messages at the hub\<close>

lemma get_blob_advance: "advance a no_acks h (snd (handle_get_blob e me bid h))"
  by (rule advance_quiet) (auto simp: handle_get_blob_def quiet_view chans_ok_def split: option.splits)

lemma put_blob_advance: "advance a no_acks h (snd (snd (handle_put_blob e me tgt sha sz mt conn h)))"
  by (rule advance_quiet [OF put_blob_quiet]) (auto intro: chans_same [OF put_blob_chans])

lemma subscribe_chans [simp]: "hb_channels (subscribe agent c tx h) = hb_channels h"
  by (simp add: subscribe_def Let_def)

lemma dispatch_authed_advance:
  assumes "dispatch_authed L e me frame conn h = (r, conn', h')" "ack_aware frame" "au_id me = a"
  shows "advance a (acks frame) h h'"
proof (cases frame)
  case (PutBlob tgt sha sz mt)
  with assms(1) put_blob_advance [of a h e me tgt sha sz mt conn] show ?thesis by (auto simp: dispatch_authed_def split: prod.splits)
next
  case (GetBlob bid)
  with assms(1) get_blob_advance [of a h e me bid] show ?thesis by (auto simp: dispatch_authed_def split: prod.splits)
next
  case Subscribe
  with assms(1) show ?thesis by (auto simp: dispatch_authed_def intro!: advance_same split: option.splits)
qed (use assms(1) authed_advance [OF assms(2,3), of h L e] in
    \<open>auto simp: dispatch_authed_def case_prod_beta simp del: handle_authed.simps acks.simps\<close>)

lemma charge_advance: "charge_agent agent kind now h = (ok, h') \<Longrightarrow> advance a A h h'"
  using charge_agent_store chan_charge(1) by (auto intro!: advance_same)

lemma hello_advance: "advance a no_acks h (snd (snd (handle_hello L e aid name role sig secret conn h)))"
  by (rule advance_quiet) (auto simp: handle_hello_def Let_def quiet_view chans_ok_def split: option.splits)

lemma dispatch_advance:
  assumes "dispatch L e frame conn h = (r, conn', h')" "ack_aware frame" "\<And>x. cn_authed conn = Some x \<Longrightarrow> au_id x = a"
  shows "advance a (acks frame) h h'"
proof (cases "\<exists>aid name role nonce sig secret. frame = Hello aid name role nonce sig secret")
  case True
  then obtain aid name role nonce sig secret where f: "frame = Hello aid name role nonce sig secret" by blast
  with assms(1) hello_advance [of a h L e aid name role sig secret "conn\<lparr>cn_hello_frames := min 255 (cn_hello_frames conn + 1)\<rparr>"]
  show ?thesis by (auto simp: dispatch_def Let_def case_prod_beta split: if_splits)
next
  case False
  show ?thesis
  proof (cases "cn_authed conn")
    case None
    with False assms(1) show ?thesis by (cases frame) (auto simp: dispatch_def)
  next
    case (Some me)
    obtain ok h1 where c: "charge_agent (au_id me) Operation (ev_now e) h = (ok, h1)" by fastforce
    have "h' = h1 \<or> dispatch_authed L e me frame conn h1 = (r, conn', h')"
      using False Some c assms(1) by (cases "validate_frame_bounds L h1 frame"; cases frame)
        (auto simp: dispatch_def split: if_splits simp del: validate_frame_bounds.simps)
    with charge_advance [OF c] dispatch_authed_advance [OF _ assms(2) assms(3) [OF Some], of L e conn h1 r conn' h'] show ?thesis
      by (blast intro: advance_trans)
  qed
qed

text \<open>A page: a pull the hub made on the way from one state to the other.\<close>

definition page_between :: "string \<Rightarrow> string \<Rightarrow> nat option \<Rightarrow> int \<Rightarrow> hub \<Rightarrow> hub \<Rightarrow> server_frame \<Rightarrow> bool" where
  "page_between a room limit k h h' f =
     (\<forall>room' ms c. f = Pulled room' ms c \<longrightarrow>
        (\<exists>h1. advance a (ack_at room k) h h1 \<and> advance a (ack_at room k) h1 h'
           \<and> fst (pull room a None limit (Some k) (hb_store h1)) = (ms, c)))"

lemma page_error [simp]: "page_between a room limit k h h' (Error_frame m c)"
  by (simp add: page_between_def)

lemma pageI:
  "advance a (ack_at room k) h h1 \<Longrightarrow> advance a (ack_at room k) h1 h' \<Longrightarrow>
   fst (pull room a None limit (Some k) (hb_store h1)) = (ms, c) \<Longrightarrow> page_between a room limit k h h' (Pulled room' ms c)"
  by (auto simp: page_between_def)

lemma error_frames: "\<exists>m c. error_frame er = Error_frame m c" "\<exists>m c. error_coded code msg = Error_frame m c"
  by (cases er) (auto simp: error_coded_def)

lemma page_later:
  assumes "advance a (ack_at room k) h h1" "page_between a room limit k h1 h2 f" "advance a (ack_at room k) h2 h3"
  shows "page_between a room limit k h h3 f"
  unfolding page_between_def
proof (intro allI impI)
  fix room' ms c
  assume "f = Pulled room' ms c"
  with assms(2) obtain g where "advance a (ack_at room k) h1 g" "advance a (ack_at room k) g h2"
    "fst (pull room a None limit (Some k) (hb_store g)) = (ms, c)" unfolding page_between_def by blast
  with assms(1,3) show "\<exists>g. advance a (ack_at room k) h g \<and> advance a (ack_at room k) g h3
      \<and> fst (pull room a None limit (Some k) (hb_store g)) = (ms, c)" by (blast intro: advance_trans)
qed

lemma pull_advance_hub: "advance a (ack_at room k) h (h\<lparr>hb_store := snd (pull room a None limit (Some k) (hb_store h))\<rparr>)"
  by (simp add: advance_def pull_moves pull_frame)

lemma dispatch_page:
  assumes "dispatch L e (Pull room None limit wait (Some k)) conn h = (r, conn', h')" "\<And>x. cn_authed conn = Some x \<Longrightarrow> au_id x = a"
  shows "page_between a room limit k h h' (frame_of r)"
proof (cases "cn_authed conn")
  case None
  with assms(1) show ?thesis by (auto simp: dispatch_def error_coded_def)
next
  case (Some me)
  obtain ok h1 where c: "charge_agent (au_id me) Operation (ev_now e) h = (ok, h1)" by fastforce
  have h1: "hb_store h1 = hb_store h" by (rule charge_agent_store [OF c])
  have id: "au_id me = a" by (rule assms(2) [OF Some])
  let ?p = "pull room a None limit (Some k) (hb_store h)"
  obtain ms c s where pl: "?p = ((ms, c), s)" by (metis prod.collapse)
  have "(\<exists>m c. frame_of r = Error_frame m c)
      \<or> frame_of r = Pulled room (fst (fst ?p)) (snd (fst ?p)) \<and> h' = h1\<lparr>hb_store := snd ?p\<rparr>"
  proof (cases "ok \<and> validate_frame_bounds L h1 (Pull room None limit wait (Some k)) = None \<and> is_member room a (hb_store h)")
    case True
    with assms(1) Some c h1 id pl show ?thesis
      by (simp add: dispatch_def dispatch_authed_def handle_pull_def as_reply_def) auto
  next
    case False
    then consider "\<not> ok" | er where "ok" "validate_frame_bounds L h1 (Pull room None limit wait (Some k)) = Some er"
      | "ok" "validate_frame_bounds L h1 (Pull room None limit wait (Some k)) = None" "\<not> is_member room a (hb_store h)" by (meson not_None_eq)
    then show ?thesis
      by cases (use assms(1) Some c h1 id error_frames in \<open>auto simp: dispatch_def dispatch_authed_def handle_pull_def as_reply_def
          simp del: validate_frame_bounds.simps\<close>)
  qed
  then show ?thesis
  proof (elim disjE exE conjE)
    assume p: "frame_of r = Pulled room (fst (fst ?p)) (snd (fst ?p))" "h' = h1\<lparr>hb_store := snd ?p\<rparr>"
    have "advance a (ack_at room k) h1 h'" using pull_advance_hub [of a room k h1 limit] p h1 by simp
    then have "advance a (ack_at room k) h h'" by (rule advance_trans [OF charge_advance [OF c]])
    with p(1) show ?thesis by (auto simp: page_between_def)
  qed auto
qed

section \<open>Long polls\<close>

lemma notify_advance: "advance a A h (snd (room_notify room h))"
  by (rule advance_same) (simp_all add: room_notify_def split: option.splits)

lemma poll_advance:
  assumes "waited_poll e me p h = (w, h')" "au_id me = a" "pk_ack p = Some k"
  shows "advance a (ack_at (pk_room p) k) h h'" "w = WDone f \<Longrightarrow> page_between a (pk_room p) (pk_limit p) k h h' f"
proof -
  obtain seen h1 where n: "room_notify (pk_room p) h = (seen, h1)" by fastforce
  note h1 = notify_advance [of a "ack_at (pk_room p) k" h "pk_room p", unfolded n, simplified]
  obtain ms c s where pl: "pull (pk_room p) a None (pk_limit p) (Some k) (hb_store h1) = ((ms, c), s)" by (metis prod.collapse)
  note h2 = pull_advance_hub [of a "pk_room p" k h1 "pk_limit p", unfolded pl, simplified]
  have h': "h' = h1\<lparr>hb_store := s\<rparr>" and w: "w = WDone f \<Longrightarrow> f = Pulled (pk_room p) ms c" for f
    using assms n pl by (auto simp: waited_poll_def Let_def split: if_splits)
  show "advance a (ack_at (pk_room p) k) h h'" unfolding h' by (rule advance_trans [OF h1 h2])
  show "w = WDone f \<Longrightarrow> page_between a (pk_room p) (pk_limit p) k h h' f"
    using h1 h2 pl w unfolding h' page_between_def by fastforce
qed

definition harmless :: "string \<Rightarrow> turn \<Rightarrow> bool" where
  "harmless a t =
     ((\<forall>h. advance a no_acks h (tn_others t h)) \<and> (\<forall>p \<in> set (tn_polls t). \<forall>h. advance a no_acks h (snd p h)))"

lemma advance_mono: "advance a A h h' \<Longrightarrow> (\<And>r. A r \<le> B r) \<Longrightarrow> advance a B h h'"
  by (auto simp: advance_def intro: moves_mono)

lemma poll_run_advance:
  assumes "poll_run me turns p h = Some (e, h1, f, h2)" "au_id me = a" "pk_ack p = Some k"
    and "\<forall>t \<in> set turns. \<forall>h. advance a no_acks h (snd t h)"
  shows "advance a (ack_at (pk_room p) k) h h2 \<and> page_between a (pk_room p) (pk_limit p) k h h2 f"
  using assms
proof (induction turns arbitrary: p h)
  case (Cons t turns)
  obtain e1 o1 where t: "t = (e1, o1)" by (cases t)
  have "advance a no_acks h (o1 h)" using Cons.prems(4) t by simp
  then have o1: "advance a (ack_at (pk_room p) k) h (o1 h)" by (rule advance_mono) simp
  obtain w h' where w: "waited_poll e1 me p (o1 h) = (w, h')" by fastforce
  note pw = poll_advance [OF w Cons.prems(2,3)]
  show ?case
  proof (cases w)
    case (WDone g)
    with w t Cons.prems(1) have "f = g" "h2 = h'" by auto
    with pw WDone show ?thesis
      using advance_trans [OF o1 pw(1)] page_later [OF o1 pw(2) advance_refl] by simp
  next
    case (WParked p')
    with waited_poll_parked w have p': "p' = p\<lparr>pk_seen := pk_seen p'\<rparr>" by blast
    have eq: "pk_room p' = pk_room p" "pk_limit p' = pk_limit p" "pk_ack p' = pk_ack p" by (subst p', simp)+
    have "poll_run me turns p' h' = Some (e, h1, f, h2)" using Cons.prems(1) w WParked t by simp
    from Cons.IH [OF this] Cons.prems eq have
      "advance a (ack_at (pk_room p) k) h' h2" "page_between a (pk_room p) (pk_limit p) k h' h2 f" by auto
    note rest = this
    show ?thesis
      using advance_trans [OF o1 advance_trans [OF pw(1) rest(1)]]
        page_later [OF advance_trans [OF o1 pw(1)] rest(2) advance_refl] by blast
  qed
qed simp

lemma waited_pull_advance:
  assumes "waited_pull e me room None limit (Some k) secs h = (w, h')" "au_id me = a"
  shows "advance a (ack_at room k) h h'"
    and "w = WDone f \<Longrightarrow> page_between a room limit k h h' f"
    and "w = WParked p \<Longrightarrow> pk_room p = room \<and> pk_limit p = limit \<and> pk_ack p = Some k"
proof -
  let ?p0 = "\<lparr>pk_room = room, pk_limit = limit, pk_ack = Some k, pk_seen = 0,
    pk_deadline = ev_now e + int (min secs MAX_WAIT_SECS) * 1000\<rparr>"
  obtain ms c s where pl: "pull room a None limit (Some k) (hb_store h) = ((ms, c), s)" by (metis prod.collapse)
  let ?h1 = "h\<lparr>hb_store := s\<rparr>"
  note h1 = pull_advance_hub [of a room k h limit, unfolded pl, simplified]
  obtain w2 h2 where w2: "waited_poll e me ?p0 ?h1 = (w2, h2)" by fastforce
  note pw = poll_advance [OF w2 assms(2), simplified]
  consider (no) "\<not> is_member room a (hb_store h)" "w = WDone (error_frame (Coded NOT_MEMBER ''not a member''))" "h' = h"
    | (now) "w = WDone (Pulled room ms c)" "h' = ?h1" | (poll) "w = w2" "h' = h2"
    using assms pl w2 by (auto simp: waited_pull_def Let_def split: if_splits)
  then have "advance a (ack_at room k) h h' \<and> (\<forall>f. w = WDone f \<longrightarrow> page_between a room limit k h h' f)
      \<and> (\<forall>p. w = WParked p \<longrightarrow> pk_room p = room \<and> pk_limit p = limit \<and> pk_ack p = Some k)"
  proof cases
    case now
    have "page_between a room limit k h h' (Pulled room ms c)"
      by (rule pageI [OF advance_refl]) (use h1 pl now(2) in simp_all)
    with now h1 show ?thesis by auto
  next
    case poll
    have "pk_room p = room \<and> pk_limit p = limit \<and> pk_ack p = Some k" if "w = WParked p" for p
    proof -
      from that poll w2 waited_poll_parked have p: "p = ?p0\<lparr>pk_seen := pk_seen p\<rparr>" by blast
      show ?thesis by (subst p, subst p, subst p) simp
    qed
    moreover have "page_between a room limit k h h' f" if "w = WDone f" for f
      using page_later [OF h1 pw(2) advance_refl] that poll by simp
    ultimately show ?thesis using advance_trans [OF h1 pw(1)] poll by blast
  qed simp
  then show "advance a (ack_at room k) h h'" "w = WDone f \<Longrightarrow> page_between a room limit k h h' f"
    "w = WParked p \<Longrightarrow> pk_room p = room \<and> pk_limit p = limit \<and> pk_ack p = Some k" by blast+
qed

section \<open>A served message\<close>

lemma waited_since:
  assumes "waited_pull e me room (Some c) limit ack secs h = (w, h')"
  shows "advance a A h h'" "\<exists>f. w = WDone f \<and> (\<forall>m. f \<noteq> Delivery m)"
  using assms by (auto simp: waited_pull_def pull_since Let_def intro: advance_same split: if_splits)

lemma text_cases:
  assumes "on_message L e (WsText 0 (Some f)) conn h = (outs, sock, h')"
  obtains (waited) me room since limit secs ack where "f = Pull room since limit (Some secs) ack" "cn_authed conn = Some me"
      "of_waited (waited_pull e me room since limit ack secs h) conn = (outs, sock, h')"
  | (plain) r conn' where "dispatch L e f conn h = (r, conn', h')" "outs = send_reply r h'"
      "sock = Some \<lparr>sk_conn = conn', sk_parked = None\<rparr>"
  using assms by (auto simp: Let_def split: client_frame.splits option.splits prod.splits)

definition single_reply :: "ws_out list \<Rightarrow> bool" where
  "single_reply outs = (\<exists>g rest. outs = OFrame g # rest \<and> (\<forall>m. g \<noteq> Delivery m) \<and> (rest = [] \<or> (\<exists>b. rest = [OBinary b])))"

lemma single_send_reply: "dispatch L e f conn h = (r, conn', h') \<Longrightarrow> single_reply (send_reply r h')"
  using dispatch_answers [of L e f conn h r conn' h']
  by (cases r) (auto simp: single_reply_def send_reply_def answers_def error_coded_def split: option.splits)

lemma poll_done: "waited_poll e me p h = (WDone f, h') \<Longrightarrow> \<exists>room ms c. f = Pulled room ms c"
  by (auto simp: waited_poll_def Let_def case_prod_beta split: if_splits)

lemma poll_run_done: "poll_run me turns p h = Some (e, h1, f, h2) \<Longrightarrow> \<exists>room ms c. f = Pulled room ms c"
  by (induction me turns p h rule: poll_run.induct) (auto dest: poll_done split: prod.splits waited.splits)

lemma waited_done: "waited_pull e me room since limit ack secs h = (WDone f, h') \<Longrightarrow> \<forall>m. f \<noteq> Delivery m"
  by (auto simp: waited_pull_def Let_def case_prod_beta dest!: poll_done split: if_splits)

text \<open>A long poll at the hub, to its answer.\<close>

lemma serve_waited:
  assumes "cn_authed (sk_conn k) = Some me" "au_id me = a" "harmless a t"
    and "of_waited (waited_pull (tn_env t) me room since limit ack secs h) (sk_conn k) = (outs0, sock0, h0)"
    and "serve_message L t (CText (Pull room since limit (Some secs) ack)) k h = (outs, sock, h')"
    and "ack_aware (Pull room since limit (Some secs) ack)"
  shows "advance a (acks (Pull room since limit (Some secs) ack)) h h' \<and>
    (\<forall>k'. sock = Some k' \<longrightarrow> sk_parked k' = None \<and> cn_authed (sk_conn k') = Some me \<and>
       (\<exists>g. outs = [OFrame g] \<and> (\<forall>m. g \<noteq> Delivery m) \<and> (\<forall>q. since = None \<and> ack = Some q \<longrightarrow> page_between a room limit q h h' g)))"
proof -
  obtain w hw where w: "waited_pull (tn_env t) me room since limit ack secs h = (w, hw)" by fastforce
  have om: "on_message L (tn_env t) (WsText 0 (Some (Pull room since limit (Some secs) ack))) (sk_conn k) h = of_waited (w, hw) (sk_conn k)"
    using assms(1) w by simp
  show ?thesis
  proof (cases since)
    case (Some c)
    with waited_since [of "tn_env t" me room c limit ack secs h w hw] w obtain f where
      "w = WDone f" "\<forall>m. f \<noteq> Delivery m" "advance a no_acks h hw" by blast
    with assms(1,5) om Some show ?thesis by (auto simp: serve_message_def of_waited_def)
  next
    case None
    with assms(6) obtain q where q: "ack = Some q" by (cases ack) auto
    note wp = waited_pull_advance [OF w [unfolded None q] assms(2)]
    show ?thesis
    proof (cases w)
      case (WDone f)
      have "\<forall>m. f \<noteq> Delivery m" using waited_done w WDone by blast
      with WDone assms(1,5) om None q wp(1) wp(2) [OF WDone] show ?thesis by (auto simp: serve_message_def of_waited_def)
    next
      case (WParked p)
      note p = wp(3) [OF WParked]
      show ?thesis
      proof (cases "poll_run me (tn_polls t) p hw")
        case no: None
        with WParked assms(1,5) om wp(1) None q show ?thesis by (auto simp: serve_message_def of_waited_def)
      next
        case (Some x)
        obtain e h1 f h2 where x: "x = (e, h1, f, h2)" by (cases x)
        have "\<forall>t \<in> set (tn_polls t). \<forall>h. advance a no_acks h (snd t h)" using assms(3) by (simp add: harmless_def)
        from poll_run_advance [OF Some [unfolded x] assms(2) _ this, of q] p
        have r: "advance a (ack_at room q) hw h2" "page_between a room limit q hw h2 f" by auto
        have "\<forall>m. f \<noteq> Delivery m" using poll_run_done [OF Some [unfolded x]] by auto
        with Some x WParked assms(1,5) om None q advance_trans [OF wp(1) r(1)] page_later [OF wp(1) r(2) advance_refl]
        show ?thesis by (auto simp: serve_message_def of_waited_def)
      qed
    qed
  qed
qed

lemma serve_text:
  assumes "serve_message L t (CText f) k h = (outs, sock, h')" "harmless a t" "ack_aware f"
    and "\<forall>x. cn_authed (sk_conn k) = Some x \<longrightarrow> au_id x = a"
  shows "advance a (acks f) h h'"
    and "sock = Some k' \<Longrightarrow> single_reply outs \<and> sk_parked k' = None \<and> (cn_authed (sk_conn k) \<noteq> None \<longrightarrow> cn_authed (sk_conn k') = cn_authed (sk_conn k))"
    and "f = Pull room None limit wait (Some q) \<Longrightarrow> sock = Some k' \<Longrightarrow> \<exists>g. outs = [OFrame g] \<and> page_between a room limit q h h' g"
proof -
  obtain outs0 sock0 h0 where om: "on_message L (tn_env t) (WsText 0 (Some f)) (sk_conn k) h = (outs0, sock0, h0)" by (metis prod_cases3)
  then have *: "advance a (acks f) h h' \<and>
    (\<forall>k'. sock = Some k' \<longrightarrow> single_reply outs \<and> sk_parked k' = None \<and> (cn_authed (sk_conn k) \<noteq> None \<longrightarrow> cn_authed (sk_conn k') = cn_authed (sk_conn k))
       \<and> (\<forall>room limit wait q. f = Pull room None limit wait (Some q) \<longrightarrow> (\<exists>g. outs = [OFrame g] \<and> page_between a room limit q h h' g)))"
  proof (cases rule: text_cases)
    case (waited me room since limit secs ack)
    note sw = serve_waited [OF waited(2) assms(4) [rule_format, OF waited(2)] assms(2) waited(3) assms(1) [unfolded waited(1)] assms(3) [unfolded waited(1)]]
    show ?thesis
    proof (intro conjI allI impI)
      show "advance a (acks f) h h'" using sw waited(1) by blast
    qed (use sw waited(1,2) in \<open>auto simp: single_reply_def\<close>)
  next
    case (plain r conn')
    have s: "outs = outs0" "sock = sock0" "h' = h0" using assms(1) om plain(3) by (auto simp: serve_message_def)
    note d = plain(1) [folded s(3)]
    have "\<exists>g. outs = [OFrame g] \<and> page_between a room limit q h h' g" if f: "f = Pull room None limit wait (Some q)" for room limit wait q
    proof -
      have p: "page_between a room limit q h h' (frame_of r)" using dispatch_page [OF d [unfolded f] assms(4) [rule_format]] by simp
      have "\<exists>g. r = Frame g"
        using d f by (cases "cn_authed (sk_conn k)") (auto simp: dispatch_def dispatch_authed_def as_reply_def handle_pull_def Let_def
            split: prod.splits option.splits if_splits sum.splits)
      with p plain(2) s show ?thesis by (auto simp: send_reply_def)
    qed
    with dispatch_advance [OF d assms(3) assms(4) [rule_format]] dispatch_conn [OF d] single_send_reply [OF d] plain(2,3) s show ?thesis by auto
  qed
  then show "advance a (acks f) h h'" 
    and "sock = Some k' \<Longrightarrow> single_reply outs \<and> sk_parked k' = None \<and> (cn_authed (sk_conn k) \<noteq> None \<longrightarrow> cn_authed (sk_conn k') = cn_authed (sk_conn k))"
    and "f = Pull room None limit wait (Some q) \<Longrightarrow> sock = Some k' \<Longrightarrow> \<exists>g. outs = [OFrame g] \<and> page_between a room limit q h h' g"
    by blast+
qed

lemma serve_none:
  assumes "serve_message L t (CText f) k h = (outs, None, h')"
  shows "outs = []"
proof -
  obtain outs0 sock0 h0 where om: "on_message L (tn_env t) (WsText 0 (Some f)) (sk_conn k) h = (outs0, sock0, h0)" by (metis prod_cases3)
  then show ?thesis
  proof (cases rule: text_cases)
    case (waited me room since limit secs ack)
    with assms om of_waited_conn [OF waited(3)] show ?thesis by (auto simp: serve_message_def split: option.splits prod.splits)
  next
    case (plain r conn')
    with assms om show ?thesis by (auto simp: serve_message_def)
  qed
qed

lemma error_not_welcome: "error_frame er \<noteq> Welcome i n"
  by (cases er) auto

lemma welcome_authed:
  assumes "dispatch L e (Hello aid name role nonce sig secret) conn h = (r, conn', h')" "frame_of r = Welcome i n"
  shows "cn_authed conn' \<noteq> None"
  using assms by (auto simp: dispatch_def handle_hello_def Let_def error_coded_def error_not_welcome split: if_splits option.splits)

text \<open>Only a hello changes who a connection is authenticated as, and a welcome says that it did.\<close>

lemma serve_identity:
  assumes "serve_message L t (CText f) k h = (outs, Some k', h')" "cn_authed (sk_conn k) = None"
  shows "cn_authed (sk_conn k') = Some x \<Longrightarrow> \<exists>name role nonce sig secret. f = Hello (au_id x) name role nonce sig secret"
    and "OFrame (Welcome i n) \<in> set outs \<Longrightarrow> cn_authed (sk_conn k') \<noteq> None"
proof -
  obtain outs0 sock0 h0 where om: "on_message L (tn_env t) (WsText 0 (Some f)) (sk_conn k) h = (outs0, sock0, h0)" by (metis prod_cases3)
  then have *: "\<exists>r. dispatch L (tn_env t) f (sk_conn k) h = (r, sk_conn k', h') \<and> outs = send_reply r h'"
  proof (cases rule: text_cases)
    case (plain r conn')
    with assms om show ?thesis by (auto simp: serve_message_def)
  qed (use assms(2) in simp)
  then obtain r where d: "dispatch L (tn_env t) f (sk_conn k) h = (r, sk_conn k', h')" "outs = send_reply r h'" by blast
  show "cn_authed (sk_conn k') = Some x \<Longrightarrow> \<exists>name role nonce sig secret. f = Hello (au_id x) name role nonce sig secret"
    using hello_authenticates [OF assms(2) d(1)] by auto
  assume w: "OFrame (Welcome i n) \<in> set outs"
  with d(2) have r: "frame_of r = Welcome i n" by (cases r) (auto simp: send_reply_def error_coded_def split: option.splits)
  from dispatch_answers [OF d(1), unfolded r] obtain aid name role nonce sig secret where f: "f = Hello aid name role nonce sig secret"
    by (cases f) (auto simp: answers_def)
  show "cn_authed (sk_conn k') \<noteq> None"
    by (rule welcome_authed [OF d(1) [unfolded f] r])
qed

section \<open>The peer\<close>

definition net_ok :: "string \<Rightarrow> net \<Rightarrow> bool" where
  "net_ok a n = (log_ok (hb_store (nt_hub n)) \<and> chans_ok (nt_hub n) \<and> (\<forall>t \<in> set (nt_turns n). harmless a t))"

lemma drain_advance: "drain n conn h = (pushes, h') \<Longrightarrow> advance a A h h'"
  by (auto simp: drain_def advance_def pop_push_def chans_ok_def dest!: in_set_dropD split: option.splits if_splits)

lemma drain_skipped:
  assumes "drain n conn h = (pushes, h')" "chans_ok h" "e \<in> set pushes"
  shows "skipped e"
  using assms by (fastforce simp: drain_def chans_ok_def dest!: in_set_takeD split: option.splits)

lemma close_advance: "advance a A h (close_socket k h)"
  by (auto simp: advance_def close_socket_def Let_def release_def unsubscribe_def chans_ok_def split: option.splits if_splits)

lemma others_advance:
  assumes "harmless a t"
  shows "advance a (acks f) h (tn_others t h)"
proof -
  have "advance a no_acks h (tn_others t h)" using assms by (simp add: harmless_def)
  then show ?thesis by (rule advance_mono) (cases f rule: acks.cases; simp)
qed

lemma advance_net: "net_ok a n \<Longrightarrow> advance a A (nt_hub n) h \<Longrightarrow> log_ok (hb_store h) \<and> chans_ok h"
  by (auto simp: net_ok_def advance_def)

lemma peer_text:
  assumes "hub_peer L (CText f) n = (evs, n')" "net_ok a n" "ack_aware f"
    and "\<forall>k x. nt_sock n = Some k \<longrightarrow> cn_authed (sk_conn k) = Some x \<longrightarrow> au_id x = a"
  shows "net_ok a n' \<and> advance a (acks f) (nt_hub n) (nt_hub n')"
    and "nt_sock n' = None \<Longrightarrow> evs \<in> {None, Some [EvError], Some [EvClose]}"
    and "nt_sock n' = Some k' \<Longrightarrow> \<exists>t k h pushes outs h1. nt_sock n = Some k \<and> serve_message L t (CText f) k h = (outs, Some k', h1) \<and> harmless a t
      \<and> evs = Some (pushes @ map event_of outs) \<and> (\<forall>e \<in> set pushes. skipped e)
      \<and> advance a (acks f) (nt_hub n) h \<and> advance a (acks f) h1 (nt_hub n')"
proof -
  have "net_ok a n' \<and> advance a (acks f) (nt_hub n) (nt_hub n') \<and> (nt_sock n' = None \<longrightarrow> evs \<in> {None, Some [EvError], Some [EvClose]})
    \<and> (\<forall>k'. nt_sock n' = Some k' \<longrightarrow> (\<exists>t k h pushes outs h1. nt_sock n = Some k \<and> serve_message L t (CText f) k h = (outs, Some k', h1) \<and> harmless a t
      \<and> evs = Some (pushes @ map event_of outs) \<and> (\<forall>e \<in> set pushes. skipped e)
      \<and> advance a (acks f) (nt_hub n) h \<and> advance a (acks f) h1 (nt_hub n')))"
  proof (cases "\<exists>k t ts. nt_sock n = Some k \<and> nt_turns n = t # ts")
    case False
    then have "n' = n\<lparr>nt_sock := None, nt_turns := tl (nt_turns n)\<rparr>" "evs = None"
      using assms(1) by (auto simp: hub_peer_def split: option.splits list.splits)
    moreover have "set (tl (nt_turns n)) \<subseteq> set (nt_turns n)" by (cases "nt_turns n") auto
    ultimately show ?thesis using assms(2) by (auto simp: net_ok_def)
  next
    case True
    then obtain k t ts where k: "nt_sock n = Some k" "nt_turns n = t # ts" by blast
    have t: "harmless a t" "\<forall>t \<in> set ts. harmless a t" using assms(2) k by (auto simp: net_ok_def)
    let ?h = "tn_others t (nt_hub n)"
    note o1 = others_advance [OF t(1), of f "nt_hub n"]
    obtain outs sock h1 where sm: "serve_message L t (CText f) k ?h = (outs, sock, h1)" by (metis prod_cases3)
    obtain pushes h2 where dr: "drain (tn_pushes t) (sk_conn k) h1 = (pushes, h2)" by fastforce
    have id: "\<forall>x. cn_authed (sk_conn k) = Some x \<longrightarrow> au_id x = a" using assms(4) k(1) by blast
    note sa = serve_text(1) [OF sm t(1) assms(3) id]
    note a1 = advance_trans [OF o1 sa]
    have ch: "chans_ok h1" using advance_net [OF assms(2) a1] by simp
    note a2 = advance_trans [OF a1 drain_advance [OF dr]]
    note cl = close_advance [of a "acks f"]
    have nk: "net_ok a (n\<lparr>nt_hub := h, nt_sock := s, nt_turns := ts\<rparr>)" if "advance a (acks f) (nt_hub n) h" for h s
      using advance_net [OF assms(2) that] t(2) by (simp add: net_ok_def)
    consider (lost) "tn_fate t = RequestLost" | (gone) "tn_fate t = AnswerLost \<or> tn_fate t = Answered \<and> sock = None"
      | (ans) k' where "tn_fate t = Answered" "sock = Some k'" by (cases "tn_fate t"; cases sock) auto
    then show ?thesis
    proof cases
      case lost
      then have "n' = n\<lparr>nt_hub := close_socket k ?h, nt_sock := None, nt_turns := ts\<rparr>" "evs = None"
        using assms(1) k by (auto simp: hub_peer_def)
      with nk [OF advance_trans [OF o1 cl]] advance_trans [OF o1 cl] show ?thesis by auto
    next
      case gone
      have "evs \<in> {Some [EvError], Some [EvClose]}" "n' = n\<lparr>nt_hub := close_socket (opt_or sock k) h2, nt_sock := None, nt_turns := ts\<rparr>"
        using assms(1) k gone sm dr serve_none [of L t f k ?h outs h1] by (auto simp: hub_peer_def Let_def)
      with nk [OF advance_trans [OF a2 cl]] advance_trans [OF a2 cl] show ?thesis by auto
    next
      case ans
      then have "evs = Some (pushes @ map event_of outs)" "n' = n\<lparr>nt_hub := h2, nt_sock := Some k', nt_turns := ts\<rparr>"
        using assms(1) k sm dr by (auto simp: hub_peer_def Let_def)
      moreover have "\<forall>e \<in> set pushes. skipped e" using drain_skipped [OF dr ch] by blast
      ultimately show ?thesis using k(1) sm ans t(1) o1 drain_advance [OF dr, of a "acks f"] nk [OF a2] a2 by fastforce
    qed
  qed
  then show "net_ok a n' \<and> advance a (acks f) (nt_hub n) (nt_hub n')"
    and "nt_sock n' = None \<Longrightarrow> evs \<in> {None, Some [EvError], Some [EvClose]}"
    and "nt_sock n' = Some k' \<Longrightarrow> \<exists>t k h pushes outs h1. nt_sock n = Some k \<and> serve_message L t (CText f) k h = (outs, Some k', h1) \<and> harmless a t
      \<and> evs = Some (pushes @ map event_of outs) \<and> (\<forall>e \<in> set pushes. skipped e)
      \<and> advance a (acks f) (nt_hub n) h \<and> advance a (acks f) h1 (nt_hub n')" by blast+
qed

end
