(* ===== verification/Link_Mailbox.thy ===== *)
theory Link_Mailbox
  imports Link_Laws
begin

text \<open>
  The client on top of the peer: one exchange of a frame and its reply, the handshake of a fresh
  connection, and the interpretation of the transport contract on the connection of an agent to a hub.
\<close>

section \<open>Exchanges\<close>

definition exchange :: "'p peer \<Rightarrow> client_frame \<Rightarrow> 'p hub_client \<Rightarrow> (client_error + server_frame) \<times> 'p hub_client" where
  "exchange peer f c =
     (case ws_send peer (CText f) c of (False, c1) \<Rightarrow> (Inl Disconnected, c1) | (True, c1) \<Rightarrow> recv c1)"

lemma request_exchange:
  "client_request peer f c =
     (case exchange peer f c of (Inr (Error_frame m code), c2) \<Rightarrow> (Inl (HubError code m), c2) | (r, c2) \<Rightarrow> (r, c2))"
  by (auto simp: client_request_def exchange_def split: prod.splits bool.splits)

lemma subscribe_exchange: "snd (client_subscribe peer c) = (let (r, c2) = exchange peer Subscribe c in
     if r = Inr Subscribed then c2\<lparr>hc_subscribed := True\<rparr> else c2)"
  by (auto simp: client_subscribe_def exchange_def Let_def split: prod.splits bool.splits sum.splits server_frame.splits)

abbreviation net_store :: "net hub_client \<Rightarrow> store" where
  "net_store c \<equiv> hb_store (nt_hub (hc_peer c))"

text \<open>The client of agent \<open>a\<close>, authenticated as nobody else, with nothing but pushes unread.\<close>

definition pre_link :: "string \<Rightarrow> net hub_client \<Rightarrow> bool" where
  "pre_link a c =
     (net_ok a (hc_peer c) \<and>
      (\<forall>k. nt_sock (hc_peer c) = Some k \<longrightarrow>
         (\<forall>x. cn_authed (sk_conn k) = Some x \<longrightarrow> au_id x = a) \<and> (\<forall>e \<in> set (hc_arrived c). skipped e)))"

definition authed_link :: "net hub_client \<Rightarrow> bool" where
  "authed_link c = (\<forall>k. nt_sock (hc_peer c) = Some k \<longrightarrow> cn_authed (sk_conn k) \<noteq> None)"

lemma event_skip: "recv_events (pre @ evs) inbox = (r, rest, inbox') \<Longrightarrow> \<forall>e \<in> set pre. skipped e \<Longrightarrow>
    \<exists>i. recv_events evs i = (r, rest, inbox')"
  using recv_events_skip by metis

lemma recv_single:
  assumes "recv_events (map event_of outs) inbox = (r, rest, inbox')" "single_reply outs"
  shows "\<exists>g. r = Inr g \<and> OFrame g \<in> set outs \<and> (\<forall>e \<in> set rest. skipped e) \<and> hd outs = OFrame g"
  using assms by (auto simp: single_reply_def split: server_frame.splits)

lemma exchange_laws:
  assumes "exchange (hub_peer L) f c = (r, c')" "pre_link a c" "ack_aware f"
    and "authed_link c \<or> (\<forall>aid name role nonce sig secret. f = Hello aid name role nonce sig secret \<longrightarrow> aid = a)"
  shows "pre_link a c' \<and> advance a (acks f) (nt_hub (hc_peer c)) (nt_hub (hc_peer c'))
    \<and> (authed_link c \<longrightarrow> authed_link c') \<and> (\<forall>i n. r = Inr (Welcome i n) \<longrightarrow> authed_link c')
    \<and> (\<forall>room limit wait q room' ms cur. f = Pull room None limit wait (Some q) \<and> r = Inr (Pulled room' ms cur) \<longrightarrow>
         page_between a room limit q (nt_hub (hc_peer c)) (nt_hub (hc_peer c')) (Pulled room' ms cur))"
proof -
  obtain evs n' where p: "hub_peer L (CText f) (hc_peer c) = (evs, n')" by fastforce
  have nk: "net_ok a (hc_peer c)" and id: "\<forall>k x. nt_sock (hc_peer c) = Some k \<longrightarrow> cn_authed (sk_conn k) = Some x \<longrightarrow> au_id x = a"
    using assms(2) by (auto simp: pre_link_def)
  note pt = peer_text [OF p nk assms(3) id]
  have n': "hc_peer c' = n'"
    using assms(1) p by (auto simp: exchange_def ws_send_def recv_def split: option.splits prod.splits)
  show ?thesis
  proof (cases "nt_sock n'")
    case None
    have "\<exists>er. r = Inl er"
    proof (cases evs)
      case no: None
      with assms(1) p show ?thesis by (auto simp: exchange_def ws_send_def)
    next
      case (Some es)
      with pt(2) [OF None] have es: "es = [EvError] \<or> es = [EvClose]" by auto
      have "nt_sock (hc_peer c) \<noteq> None" using p Some by (auto simp: hub_peer_def split: option.splits list.splits)
      then have sk: "\<forall>e \<in> set (hc_arrived c). skipped e" using assms(2) by (auto simp: pre_link_def)
      obtain rest inbox where "recv_events (hc_arrived c @ es) (hc_inbox c) = (r, rest, inbox)"
        using assms(1) p Some by (auto simp: exchange_def ws_send_def recv_def split: prod.splits)
      from event_skip [OF this sk] es show ?thesis by auto
    qed
    with None n' pt(1) show ?thesis by (auto simp: pre_link_def authed_link_def)
  next
    case (Some k')
    from pt(3) [OF Some] obtain t k h pushes outs h1 where
      k: "nt_sock (hc_peer c) = Some k" "serve_message L t (CText f) k h = (outs, Some k', h1)" "harmless a t"
      and evs: "evs = Some (pushes @ map event_of outs)" "\<forall>e \<in> set pushes. skipped e"
      and adv: "advance a (acks f) (nt_hub (hc_peer c)) h" "advance a (acks f) h1 (nt_hub n')" by blast
    have idk: "\<forall>x. cn_authed (sk_conn k) = Some x \<longrightarrow> au_id x = a" using id k(1) by blast
    note st = serve_text [OF k(2,3) assms(3) idk]
    have sk: "\<forall>e \<in> set (hc_arrived c @ pushes). skipped e" using assms(2) k(1) evs(2) by (auto simp: pre_link_def)
    obtain rest inbox where "recv_events ((hc_arrived c @ pushes) @ map event_of outs) (hc_inbox c) = (r, rest, inbox)"
      and c': "hc_arrived c' = rest"
      using assms(1) p evs(1) by (auto simp: exchange_def ws_send_def recv_def split: prod.splits)
    from event_skip [OF this(1) sk] obtain i where "recv_events (map event_of outs) i = (r, rest, inbox)" by blast
    from recv_single [OF this] st(2) obtain g where g: "r = Inr g" "OFrame g \<in> set outs" "\<forall>e \<in> set rest. skipped e" "hd outs = OFrame g" by blast
    have auth: "cn_authed (sk_conn k') = Some x \<Longrightarrow> au_id x = a" for x
      using st(2) [OF refl] idk serve_identity(1) [OF k(2), of x] assms(4) k(1)
      by (cases "cn_authed (sk_conn k)") (auto simp: authed_link_def)
    have "pre_link a c'" using pt(1) n' Some c' g(3) auth by (auto simp: pre_link_def)
    moreover have "authed_link c \<longrightarrow> authed_link c'" using st(2) [OF refl] k(1) n' Some by (auto simp: authed_link_def)
    moreover have "r = Inr (Welcome i m) \<Longrightarrow> authed_link c'" for i m
      using g(1,2) serve_identity(2) [OF k(2), of i m] st(2) [OF refl] n' Some
      by (cases "cn_authed (sk_conn k)") (auto simp: authed_link_def)
    moreover have "page_between a room limit q (nt_hub (hc_peer c)) (nt_hub n') g" if f: "f = Pull room None limit wait (Some q)" for room limit wait q
    proof -
      from st(3) [OF f refl] obtain g' where "outs = [OFrame g']" "page_between a room limit q h h1 g'" by blast
      with g(2) have "page_between a room limit q h h1 g" by simp
      with adv f show ?thesis by (intro page_later [of a room q "nt_hub (hc_peer c)" h limit h1 g "nt_hub n'"]) auto
    qed
    ultimately show ?thesis using pt(1) n' g(1) by auto
  qed
qed

definition link_ok :: "string \<Rightarrow> net hub_client \<Rightarrow> bool" where
  "link_ok a c = (pre_link a c \<and> authed_link c)"

lemma advance_moves: "advance a A h h' \<Longrightarrow> moves a A (hb_store h) (hb_store h')"
  by (simp add: advance_def)

lemma request_laws:
  assumes "client_request (hub_peer L) f c = (r, c')" "link_ok a c" "ack_aware f"
  shows "link_ok a c' \<and> moves a (acks f) (net_store c) (net_store c')"
    and "f = Pull room None limit wait (Some q) \<Longrightarrow> r = Inr (Pulled room' ms cur) \<Longrightarrow>
      page_between a room limit q (nt_hub (hc_peer c)) (nt_hub (hc_peer c')) (Pulled room' ms cur)"
proof -
  obtain r0 c0 where e: "exchange (hub_peer L) f c = (r0, c0)" by fastforce
  have c: "c0 = c'" "r = Inr (Pulled room' ms cur) \<Longrightarrow> r0 = r"
    using assms(1) e by (auto simp: request_exchange split: sum.splits server_frame.splits)
  have l: "pre_link a c" "authed_link c" using assms(2) by (simp_all add: link_ok_def)
  note x = exchange_laws [OF e l(1) assms(3) disjI1 [OF l(2)]]
  from x c l show "link_ok a c' \<and> moves a (acks f) (net_store c) (net_store c')" by (simp add: link_ok_def advance_moves)
  assume "f = Pull room None limit wait (Some q)" "r = Inr (Pulled room' ms cur)"
  with x c show "page_between a room limit q (nt_hub (hc_peer c)) (nt_hub (hc_peer c')) (Pulled room' ms cur)" by blast
qed

lemma link_flag [simp]: "link_ok a (c\<lparr>hc_subscribed := b\<rparr>) = link_ok a c"
  by (simp add: link_ok_def pre_link_def authed_link_def)

lemma subscribe_laws:
  assumes "client_subscribe (hub_peer L) c = (r, c')" "link_ok a c"
  shows "link_ok a c' \<and> moves a no_acks (net_store c) (net_store c')"
proof -
  obtain r0 c0 where e: "exchange (hub_peer L) Subscribe c = (r0, c0)" by fastforce
  have l: "pre_link a c" "authed_link c" using assms(2) by (simp_all add: link_ok_def)
  have aw: "ack_aware Subscribe" by simp
  note x = exchange_laws [OF e l(1) aw disjI1 [OF l(2)]]
  have ok: "link_ok a c0" using x l(2) by (simp add: link_ok_def)
  have mv: "moves a no_acks (net_store c) (net_store c0)" using advance_moves [OF conjunct1 [OF conjunct2 [OF x]]] by simp
  have c': "c' = (if r0 = Inr Subscribed then c0\<lparr>hc_subscribed := True\<rparr> else c0)"
    using subscribe_exchange [of "hub_peer L" c] e assms(1) by simp
  show ?thesis unfolding c' using ok mv by simp
qed

lemma push_events_suffix: "push_events evs = (r, rest) \<Longrightarrow> set rest \<subseteq> set evs"
  by (induction evs arbitrary: rest rule: push_events.induct) (auto split: server_frame.splits)

lemma pump_laws:
  assumes "link_ok a c"
  shows "link_ok a (pump n c) \<and> moves a no_acks (net_store c) (net_store (pump n c))"
proof (cases "nt_sock (hc_peer c)")
  case None
  with assms show ?thesis by (simp add: pump_def)
next
  case (Some k)
  obtain evs h where d: "drain n (sk_conn k) (nt_hub (hc_peer c)) = (evs, h)" by fastforce
  have nk: "net_ok a (hc_peer c)" using assms by (simp add: link_ok_def pre_link_def)
  then have "\<forall>e \<in> set evs. skipped e" using drain_skipped [OF d] by (auto simp: net_ok_def)
  moreover have "log_ok (hb_store h) \<and> chans_ok h" by (rule advance_net [OF nk drain_advance [OF d]])
  moreover have "moves a no_acks (hb_store (nt_hub (hc_peer c))) (hb_store h)" using drain_advance [OF d] by (rule advance_moves)
  ultimately show ?thesis
    using assms Some d by (auto simp: pump_def link_ok_def pre_link_def authed_link_def net_ok_def)
qed

lemma delivery_laws:
  assumes "client_next_delivery c = (r, c')" "link_ok a c"
  shows "link_ok a c' \<and> net_store c' = net_store c"
  using assms push_events_suffix
  by (auto simp: client_next_delivery_def link_ok_def pre_link_def authed_link_def split: list.splits if_splits prod.splits; blast)

section \<open>A fresh connection\<close>

lemma handshake_exchange:
  assumes "handshake peer sign secret aid name role c = (r, c')"
  obtains (failed) r0 where "exchange peer (Hello aid name role None None None) c = (r0, c')" "r \<noteq> Inr ()"
  | (tried) r0 c1 nonce sig sec r1 where "exchange peer (Hello aid name role None None None) c = (r0, c1)"
      "exchange peer (Hello aid name role (Some nonce) (Some sig) sec) c1 = (r1, c')"
      "r = Inr () \<Longrightarrow> \<exists>i n. r1 = Inr (Welcome i n)"
proof -
  obtain r0 c1 where e1: "exchange peer (Hello aid name role None None None) c = (r0, c1)" by fastforce
  let ?sec = "case secret of Some s \<Rightarrow> if s = [] then None else Some s | None \<Rightarrow> None"
  show thesis
  proof (cases "\<exists>nonce v sig. r0 = Inr (Challenge nonce v) \<and> sign nonce = Some sig")
    case True
    then obtain nonce v sig where n: "r0 = Inr (Challenge nonce v)" "sign nonce = Some sig" by blast
    obtain r1 c2 where e2: "exchange peer (Hello aid name role (Some nonce) (Some sig) ?sec) c1 = (r1, c2)" by fastforce
    have "c2 = c' \<and> (r = Inr () \<longrightarrow> (\<exists>i n. r1 = Inr (Welcome i n)))"
      using assms e1 e2 n
      by (auto simp: handshake_def exchange_def split: prod.splits bool.splits sum.splits server_frame.splits)
    with e2 show thesis using tried [OF e1] by blast
  next
    case False
    then have "c1 = c' \<and> r \<noteq> Inr ()"
      using assms e1 by (auto simp: handshake_def exchange_def split: prod.splits bool.splits sum.splits server_frame.splits option.splits)
    with failed [of r0] e1 show thesis by blast
  qed
qed

lemma handshake_laws:
  assumes "handshake (hub_peer L) sign secret a name role c = (r, c')" "pre_link a c"
  shows "pre_link a c' \<and> advance a no_acks (nt_hub (hc_peer c)) (nt_hub (hc_peer c')) \<and> (r = Inr () \<longrightarrow> authed_link c')"
  using assms(1)
proof (cases rule: handshake_exchange)
  case (failed r0)
  from exchange_laws [OF failed(1) assms(2)] failed(2) show ?thesis by auto
next
  case (tried r0 c1 nonce sig sec r1)
  from exchange_laws [OF tried(1) assms(2)] have x1: "pre_link a c1" "advance a no_acks (nt_hub (hc_peer c)) (nt_hub (hc_peer c1))" by auto
  from exchange_laws [OF tried(2) x1(1)] tried(3) have "pre_link a c'" "advance a no_acks (nt_hub (hc_peer c1)) (nt_hub (hc_peer c'))"
    "r = Inr () \<longrightarrow> authed_link c'" by auto
  with x1 show ?thesis by (blast intro: advance_trans)
qed

lemma open_laws:
  assumes "open_socket h = (outs, sock, h')"
  shows "advance a A h h'" "sock = Some k \<Longrightarrow> cn_authed (sk_conn k) = None"
proof -
  have "h' = h \<and> sock = None \<or> hb_store h' = hb_store h \<and> (\<exists>cid. hb_channels h' = (hb_channels h)(cid \<mapsto> []))
      \<and> (\<forall>k. sock = Some k \<longrightarrow> cn_authed (sk_conn k) = None)"
    using assms by (auto simp: open_socket_def next_conn_id_def Let_def split: if_splits)
  then show "advance a A h h'" "sock = Some k \<Longrightarrow> cn_authed (sk_conn k) = None"
    by (auto simp: advance_def chans_ok_def split: if_splits)
qed

lemma net_advance: "net_ok a n \<Longrightarrow> advance a A (nt_hub n) h \<Longrightarrow> net_ok a (n\<lparr>nt_hub := h\<rparr>)"
proof -
  assume "net_ok a n" "advance a A (nt_hub n) h"
  from this(1) advance_net [OF this] show ?thesis by (simp add: net_ok_def)
qed

lemma close_old_advance: "advance a A h (close_old k h)"
  by (simp add: close_old_def close_advance split: option.splits)

lemma dial_laws:
  assumes "dial L sign secret idn name role c = (r, c')" "link_ok a c" "idn_id idn = a"
  shows "link_ok a c' \<and> moves a no_acks (net_store c) (net_store c')"
proof -
  let ?n = "hc_peer c"
  have nk: "net_ok a ?n" using assms(2) by (simp add: link_ok_def pre_link_def)
  obtain outs sock h where op: "open_socket (nt_hub ?n) = (outs, sock, h)" by (metis prod_cases3)
  note ol = open_laws(1) [OF op, where a = a and A = no_acks] open_laws(2) [OF op]
  show ?thesis
  proof (cases sock)
    case None
    with assms(1) op have "c' = c\<lparr>hc_peer := ?n\<lparr>nt_hub := h\<rparr>\<rparr>" by (auto simp: dial_def Let_def)
    with assms(2) net_advance [OF nk ol(1)] advance_moves [OF ol(1)] show ?thesis
      by (auto simp: link_ok_def pre_link_def authed_link_def)
  next
    case (Some k)
    let ?c0 = "\<lparr>hc_peer = ?n\<lparr>nt_hub := h, nt_sock := Some k\<rparr>, hc_arrived = [], hc_inbox = [], hc_subscribed = False\<rparr>"
    have p0: "pre_link a ?c0"
      using net_advance [OF nk ol(1)] ol(2) [OF Some] by (auto simp: pre_link_def net_ok_def)
    obtain r1 c1 where hs: "handshake (hub_peer L) (sign (idn_seed idn)) secret a name role ?c0 = (r1, c1)" by fastforce
    note hl = handshake_laws [OF hs p0]
    let ?n1 = "hc_peer c1"
    have n1: "net_ok a ?n1" "advance a no_acks (nt_hub ?n) (nt_hub ?n1)"
      using hl advance_trans [OF ol(1)] by (auto simp: pre_link_def)
    have fin: "log_ok (hb_store (close_old s (nt_hub ?n1))) \<and> chans_ok (close_old s (nt_hub ?n1))" for s
      by (rule advance_net [OF n1(1) close_old_advance])
    have mv: "moves a no_acks (net_store c) (hb_store (close_old s (nt_hub ?n1)))" for s
      by (rule advance_moves [OF advance_trans [OF n1(2) close_old_advance]])
    show ?thesis
    proof (cases r1)
      case (Inl er)
      then have c': "c' = c\<lparr>hc_peer := ?n1\<lparr>nt_hub := close_old (nt_sock ?n1) (nt_hub ?n1), nt_sock := nt_sock ?n\<rparr>\<rparr>"
        using assms(1,3) op Some hs by (auto simp: dial_def Let_def)
      from assms(2) n1(1) fin mv show ?thesis unfolding c' by (auto simp: link_ok_def pre_link_def authed_link_def net_ok_def)
    next
      case (Inr u)
      then have c': "c' = c1\<lparr>hc_peer := ?n1\<lparr>nt_hub := close_old (nt_sock ?n) (nt_hub ?n1)\<rparr>\<rparr>"
        using assms(1,3) op Some hs by (auto simp: dial_def Let_def)
      from hl Inr n1(1) fin mv show ?thesis unfolding c' by (auto simp: link_ok_def pre_link_def authed_link_def net_ok_def)
    qed
  qed
qed

section \<open>The contract\<close>

interpretation hub_mail: mailbox "hub_transport L sign secret" net_store a "link_ok a" for L sign secret a
proof
  fix w assume "link_ok a w"
  then show "log_ok (net_store w)" by (simp add: link_ok_def pre_link_def net_ok_def)
next
  fix w f r w' assume "link_ok a w" "ack_aware f" "tr_request (hub_transport L sign secret) f w = (r, w')"
  then show "link_ok a w' \<and> moves a (acks f) (net_store w) (net_store w')"
    using request_laws(1) by (simp add: hub_transport_def)
next
  fix w room limit wait q room' ms c w'
  assume w: "link_ok a w" "tr_request (hub_transport L sign secret) (Pull room None limit wait (Some q)) w = (Inr (Pulled room' ms c), w')"
  then have "client_request (hub_peer L) (Pull room None limit wait (Some q)) w = (Inr (Pulled room' ms c), w')"
    by (simp add: hub_transport_def)
  from request_laws(2) [OF this w(1) _ refl refl] have
    "page_between a room limit q (nt_hub (hc_peer w)) (nt_hub (hc_peer w')) (Pulled room' ms c)" by simp
  then obtain h1 where h1: "advance a (ack_at room q) (nt_hub (hc_peer w)) h1" "advance a (ack_at room q) h1 (nt_hub (hc_peer w'))"
    "fst (pull room a None limit (Some q) (hb_store h1)) = (ms, c)" unfolding page_between_def by blast
  have "log_ok (hb_store h1)" using h1(1) w(1) by (auto simp: advance_def link_ok_def pre_link_def net_ok_def)
  with h1 show "\<exists>s. log_ok s \<and> moves a (ack_at room q) (net_store w) s \<and> moves a (ack_at room q) s (net_store w')
      \<and> fst (pull room a None limit (Some q) s) = (ms, c)" by (auto simp: advance_def)
next
  fix w b w' assume "link_ok a w" "tr_subscribe (hub_transport L sign secret) w = (b, w')"
  then show "link_ok a w' \<and> moves a no_acks (net_store w) (net_store w')"
    using subscribe_laws by (simp add: hub_transport_def)
next
  fix w n m w' assume w: "link_ok a w" "tr_next_delivery (hub_transport L sign secret) n w = (m, w')"
  then have d: "client_next_delivery (pump 1 w) = (m, w')" by (simp add: hub_transport_def)
  from delivery_laws [OF d, of a] pump_laws [OF w(1), of 1] show "link_ok a w' \<and> moves a no_acks (net_store w) (net_store w')" by simp
next
  fix w idn url name role u w'
  assume "link_ok a w" "idn_id idn = a" "tr_connect (hub_transport L sign secret) url idn name role w = (u, w')"
  then show "link_ok a w' \<and> moves a no_acks (net_store w) (net_store w')"
    using dial_laws by (simp add: hub_transport_def)
qed

section \<open>The rest of the world\<close>

text \<open>A frame another agent sends is harmless to the reads of this one, whatever the frame.\<close>

definition foreign :: "lib \<Rightarrow> env \<Rightarrow> conn_state \<Rightarrow> client_frame \<Rightarrow> hub \<Rightarrow> hub" where
  "foreign L e conn f h = snd (snd (dispatch L e f conn h))"

lemma pull_other_moves:
  assumes "agent \<noteq> a"
  shows "moves a no_acks s (snd (pull room agent since limit ack s))"
proof -
  have "snd (pull room agent since limit ack s) = s \<or> (\<exists>k. snd (pull room agent since limit ack s) = set_cursor room agent k s)"
    by (auto simp: pull_def Let_def split: option.splits)
  moreover have "moves a no_acks s (set_cursor room agent k s)" for k
    using assms cursor_set [of _ a room agent k s] by (auto simp: moves_def grows_def le_max_iff_disj)
  ultimately show ?thesis by auto
qed

lemma authed_other:
  assumes "au_id me \<noteq> a"
  shows "advance a no_acks h (snd (handle_authed L e me frame h))"
proof (cases "is_pull frame")
  case True
  then obtain room since limit wait ack where f: "frame = Pull room since limit wait ack"
    by (auto simp: is_pull_def split: client_frame.splits)
  have "snd (handle_authed L e me frame h) = h \<or>
      snd (handle_authed L e me frame h) = h\<lparr>hb_store := snd (pull room (au_id me) since limit ack (hb_store h))\<rparr>"
    by (auto simp: f handle_pull_def case_prod_beta)
  then show ?thesis using pull_other_moves [OF assms] by (auto simp: advance_def pull_frame)
next
  case False
  show ?thesis by (rule advance_quiet [OF authed_quiet [OF False] chans_authed])
qed

lemma dispatch_authed_other:
  assumes "au_id me \<noteq> a"
  shows "advance a no_acks h (snd (snd (dispatch_authed L e me frame conn h)))"
proof (cases frame)
  case (PutBlob tgt sha sz mt)
  with put_blob_advance [of a h e me tgt sha sz mt conn] show ?thesis by (simp add: dispatch_authed_def case_prod_beta)
next
  case (GetBlob bid)
  with get_blob_advance [of a h e me bid] show ?thesis by (simp add: dispatch_authed_def case_prod_beta)
next
  case Subscribe
  then show ?thesis by (auto simp: dispatch_authed_def intro!: advance_same split: option.splits)
qed (use authed_other [OF assms, of h L e] in
    \<open>simp_all add: dispatch_authed_def case_prod_beta del: handle_authed.simps\<close>)

lemma foreign_harmless:
  assumes "cn_authed conn = Some me" "au_id me \<noteq> a"
  shows "advance a no_acks h (foreign L e conn f h)"
proof (cases "\<exists>aid name role nonce sig secret. f = Hello aid name role nonce sig secret")
  case True
  then obtain aid name role nonce sig secret where f: "f = Hello aid name role nonce sig secret" by blast
  with hello_advance [of a h L e aid name role sig secret "conn\<lparr>cn_hello_frames := min 255 (cn_hello_frames conn + 1)\<rparr>"]
  show ?thesis by (auto simp: foreign_def dispatch_def Let_def case_prod_beta)
next
  case False
  obtain ok h1 where c: "charge_agent (au_id me) Operation (ev_now e) h = (ok, h1)" by fastforce
  have "foreign L e conn f h = h1 \<or> foreign L e conn f h = snd (snd (dispatch_authed L e me f conn h1))"
    using False assms(1) c by (cases "validate_frame_bounds L h1 f"; cases f)
      (auto simp: foreign_def dispatch_def simp del: validate_frame_bounds.simps)
  with charge_advance [OF c] dispatch_authed_other [OF assms(2)] show ?thesis by (metis advance_trans)
qed

section \<open>Concrete connections\<close>

lemma foreign_chans: "chans_ok h \<Longrightarrow> chans_ok (foreign L e conn f h)"
proof (cases "cn_authed conn")
  case None
  obtain r c' h' where d: "dispatch L e f conn h = (r, c', h')" by (metis prod_cases3)
  show "chans_ok h \<Longrightarrow> ?thesis"
  proof (cases "ack_aware f")
    case True
    from dispatch_advance [OF d True, of "[]"] None d show "chans_ok h \<Longrightarrow> ?thesis" by (simp add: advance_def foreign_def)
  next
    case False
    then have "\<exists>room limit wait. f = Pull room None limit wait None" by (cases f rule: ack_aware.cases) auto
    with None show "chans_ok h \<Longrightarrow> ?thesis" by (auto simp: foreign_def dispatch_def)
  qed
next
  case (Some me)
  have "au_id me \<noteq> au_id me @ ''x''" by simp
  from foreign_harmless [OF Some this] show "chans_ok h \<Longrightarrow> ?thesis" by (simp add: advance_def)
qed

lemma deliver_chans:
  assumes "chans_ok (sy_hub y)" "\<not> is_pull f"
  shows "chans_ok (sy_hub (deliver L e c (WsText 0 (Some f)) y))"
proof (cases "sy_socks y c")
  case None
  with assms(1) show ?thesis by (simp add: deliver_def)
next
  case (Some k)
  obtain outs sock h' where om: "on_message L e (WsText 0 (Some f)) (sk_conn k) (sy_hub y) = (outs, sock, h')" by (metis prod_cases3)
  then have "\<exists>r c'. dispatch L e f (sk_conn k) (sy_hub y) = (r, c', h')"
    by (cases rule: text_cases) (use assms(2) in \<open>auto simp: is_pull_def\<close>)
  then have "h' = foreign L e (sk_conn k) f (sy_hub y)" by (auto simp: foreign_def)
  with foreign_chans [OF assms(1)] have "chans_ok h'" by simp
  with Some om assms(1) show ?thesis by (auto simp: deliver_def split: option.splits)
qed

lemma talk_chans: "chans_ok (sy_hub y) \<Longrightarrow> list_all (\<lambda>(n, c, f). \<not> is_pull f) fs \<Longrightarrow> chans_ok (sy_hub (run_talk L fs y))"
  by (induction L fs y rule: run_talk.induct) (auto intro: deliver_chans)

lemma connect_chans: "chans_ok (sy_hub y) \<Longrightarrow> chans_ok (sy_hub (connect y))"
  using open_laws(1) [of "sy_hub y" _ _ _ "[]" no_acks] by (auto simp: connect_def advance_def split: prod.splits option.splits)

lemma demo_chans: "chans_ok (sy_hub demo_sys)"
  unfolding demo_sys_def
  by (intro talk_chans connect_chans) (simp_all add: chans_ok_def demo_start_def hub_new_def demo_talk_def is_pull_def)

lemma cursors_below: "\<forall>m \<in> set (st_members s). mb_cursor m < st_next_seq s \<Longrightarrow> 0 < st_next_seq s \<Longrightarrow> get_cursor r a s < st_next_seq s"
  by (auto simp: get_cursor_def find_Some_iff split: option.splits)

end
