(* ===== verification/Attention.thy ===== *)
theory Attention
  imports Wire
begin

text \<open>
  Receiver-side attention (\<^verbatim>\<open>parler-connector/src/attention.rs\<close>): the interruption preference an agent
  keeps on its own device, its per-room overrides, and what is done with a message it notices.
\<close>

section \<open>Policy\<close>

record attention_policy =
  ap_mode :: attention
  ap_quiet_rooms :: "string list"
  ap_muted_rooms :: "string list"

definition attention_default :: attention_policy where
  "attention_default = \<lparr>ap_mode = Open, ap_quiet_rooms = [], ap_muted_rooms = []\<rparr>"

datatype attention_decision = Wake | Hold | Drop

datatype room_attention = Quiet | Muted | Inherit

definition room_attention_parse :: "string \<Rightarrow> room_attention option" where
  "room_attention_parse s =
     (let l = to_ascii_lowercase s
      in if l = ''quiet'' then Some Quiet
         else if l = ''muted'' then Some Muted
         else if l = ''inherit'' \<or> l = ''open'' \<or> l = ''default'' then Some Inherit
         else None)"

text \<open>\<^verbatim>\<open>sort\<close> then \<^verbatim>\<open>dedup\<close>, which drops adjacent repetitions.\<close>

definition sort_dedup :: "string list \<Rightarrow> string list" where
  "sort_dedup xs = remdups_adj (sort xs)"

definition set_room :: "string \<Rightarrow> room_attention \<Rightarrow> attention_policy \<Rightarrow> attention_policy" where
  "set_room room mode p =
     (let quiet = filter (\<lambda>r. r \<noteq> room) (ap_quiet_rooms p); muted = filter (\<lambda>r. r \<noteq> room) (ap_muted_rooms p)
      in p\<lparr>ap_quiet_rooms := sort_dedup (if mode = Quiet then quiet @ [room] else quiet),
          ap_muted_rooms := sort_dedup (if mode = Muted then muted @ [room] else muted)\<rparr>)"

section \<open>Decision\<close>

text \<open>A handoff for this agent, and work dispatched to the role it runs as.\<close>

definition handed_off :: "stored_message \<Rightarrow> string \<Rightarrow> string option \<Rightarrow> bool" where
  "handed_off m name role =
     list_ex (\<lambda>h. handoff_is_for h name role) (filter_map handoff_from_part (sm_parts m))"

definition assigned :: "stored_message \<Rightarrow> string option \<Rightarrow> bool" where
  "assigned m role =
     list_ex (\<lambda>d. case role of None \<Rightarrow> False | Some r \<Rightarrow> eq_ignore_ascii_case d r) (filter_map dispatch_from_part (sm_parts m))"

definition decide :: "attention_policy \<Rightarrow> string \<Rightarrow> room_kind \<Rightarrow> stored_message \<Rightarrow> string \<Rightarrow> string option \<Rightarrow> attention_decision" where
  "decide p room kind m name role =
     (if room \<in> set (ap_muted_rooms p) then Drop
      else
        let handoff = handed_off m name role; assig = assigned m role; direct = kind = Dm \<or> handoff \<or> assig
        in if room \<in> set (ap_quiet_rooms p) then (if direct then Wake else Hold)
           else case ap_mode p of
                  Open \<Rightarrow> Wake
                | Dnd \<Rightarrow> if direct then Wake else Hold
                | Focus \<Rightarrow> if handoff \<or> assig then Wake else Hold)"

section \<open>Overrides\<close>

text \<open>The persisted lists are sorted, without repetition, and no room is in both.\<close>

definition policy_ok :: "attention_policy \<Rightarrow> bool" where
  "policy_ok p =
     (sorted_wrt (<) (ap_quiet_rooms p) \<and> sorted_wrt (<) (ap_muted_rooms p)
      \<and> set (ap_quiet_rooms p) \<inter> set (ap_muted_rooms p) = {})"

lemma set_sort_dedup [simp]: "set (sort_dedup xs) = set xs"
  by (simp add: sort_dedup_def)

lemma remdups_adj_strict: "sorted xs \<Longrightarrow> sorted_wrt (<) (remdups_adj xs)"
proof (induction xs rule: remdups_adj.induct)
  case (3 x y xs)
  show ?case
  proof (cases "x = y")
    case False
    with 3 have "sorted_wrt (<) (remdups_adj (y # xs))" by simp
    moreover have "\<forall>z \<in> set (y # xs). x < z" using 3(3) False by fastforce
    ultimately show ?thesis using False by (simp del: remdups_adj_set) (metis list.set_intros remdups_adj_set set_ConsD)
  qed (use 3 in simp)
qed simp_all

lemma set_room_ok: "set (ap_quiet_rooms p) \<inter> set (ap_muted_rooms p) = {} \<Longrightarrow> policy_ok (set_room room mode p)"
  by (cases mode) (auto simp: policy_ok_def set_room_def sort_dedup_def Let_def intro!: remdups_adj_strict)

text \<open>An override governs its room and no other; removing it restores the mode.\<close>

lemma set_room_decides:
  "decide (set_room room mode p) r kind m name role =
     (if r \<noteq> room then decide p r kind m name role
      else case mode of
             Muted \<Rightarrow> Drop
           | Quiet \<Rightarrow> if kind = Dm \<or> handed_off m name role \<or> assigned m role then Wake else Hold
           | Inherit \<Rightarrow> decide (p\<lparr>ap_quiet_rooms := [], ap_muted_rooms := []\<rparr>) room kind m name role)"
  by (cases mode) (simp_all add: decide_def set_room_def Let_def)

text \<open>A mode never drops, and each stricter mode wakes on less.\<close>

lemma stricter_modes_wake_less:
  "decide (p\<lparr>ap_mode := Focus\<rparr>) room kind m name role = Wake \<Longrightarrow> decide (p\<lparr>ap_mode := Dnd\<rparr>) room kind m name role = Wake"
  "decide (p\<lparr>ap_mode := Dnd\<rparr>) room kind m name role = Wake \<Longrightarrow> decide (p\<lparr>ap_mode := Open\<rparr>) room kind m name role = Wake"
  "decide p room kind m name role = Drop \<longleftrightarrow> room \<in> set (ap_muted_rooms p)"
  by (auto simp: decide_def Let_def split: if_splits attention.splits)

end
