(* ===== verification/Config.thy ===== *)
theory Config
  imports Agent Attention
begin

text \<open>
  The local state of an agent (\<^verbatim>\<open>parler-connector/src/config.rs\<close>): where it is kept, what the file holds, and
  connecting with it. The file is its JSON value (an object, as it is written); printing, parsing and the file
  permissions are left to serde and to the operating system.
\<close>

section \<open>The home directory\<close>

text \<open>\<^verbatim>\<open>PathBuf::join\<close>: an absolute argument replaces the path.\<close>

definition path_join :: "string \<Rightarrow> string \<Rightarrow> string" where
  "path_join base p =
     (if strip_prefix ''/'' p \<noteq> None then p
      else if base = [] \<or> last base = CHR ''/'' then base @ p
      else base @ ''/'' @ p)"

definition expand_tilde_with :: "string \<Rightarrow> string option \<Rightarrow> string" where
  "expand_tilde_with p home =
     (case home of
        None \<Rightarrow> p
      | Some h \<Rightarrow>
          if p = ''~'' then h
          else case strip_prefix ''~/'' p of Some rest \<Rightarrow> path_join h rest | None \<Rightarrow> p)"

text \<open>The arguments are the values of \<^verbatim>\<open>PARLER_HOME\<close> and \<^verbatim>\<open>HOME\<close>.\<close>

definition home_dir :: "string option \<Rightarrow> string option \<Rightarrow> string" where
  "home_dir parler_home home =
     (case parler_home of
        Some p \<Rightarrow> if p \<noteq> [] then expand_tilde_with p home else path_join (opt_or home ''.'') ''.parler''
      | None \<Rightarrow> path_join (opt_or home ''.'') ''.parler'')"

definition config_path :: "string option \<Rightarrow> string option \<Rightarrow> string" where
  "config_path parler_home home = path_join (home_dir parler_home home) ''config.json''"

section \<open>The file\<close>

record config =
  cf_hub_url :: string
  cf_identity :: identity
  cf_name :: string
  cf_role :: "string option"
  cf_attention :: attention_policy

definition strings_to_json :: "string list \<Rightarrow> json" where
  "strings_to_json xs = JArr (map JStr xs)"

fun strings_of_json :: "json \<Rightarrow> string list option" where
  "strings_of_json (JArr vs) = those (map as_str vs)"
| "strings_of_json _ = None"

definition field_default :: "(json \<Rightarrow> 'a option) \<Rightarrow> 'a \<Rightarrow> string \<Rightarrow> jmap \<Rightarrow> 'a option" where
  "field_default dec d k m = (case jget k m of None \<Rightarrow> Some d | Some v \<Rightarrow> dec v)"

definition attention_of_wire :: "json \<Rightarrow> attention option" where
  "attention_of_wire v =
     (case as_str v of None \<Rightarrow> None | Some s \<Rightarrow> find (\<lambda>a. attention_as_str a = s) [Open, Dnd, Focus])"

definition attention_to_json :: "attention_policy \<Rightarrow> json" where
  "attention_to_json p =
     JObj ([(''mode'', JStr (attention_as_str (ap_mode p)))]
           @ (if ap_quiet_rooms p = [] then [] else [(''quiet_rooms'', strings_to_json (ap_quiet_rooms p))])
           @ (if ap_muted_rooms p = [] then [] else [(''muted_rooms'', strings_to_json (ap_muted_rooms p))]))"

fun attention_of_json :: "json \<Rightarrow> attention_policy option" where
  "attention_of_json (JObj m) =
     (case (field_default attention_of_wire Open ''mode'' m, field_default strings_of_json [] ''quiet_rooms'' m,
            field_default strings_of_json [] ''muted_rooms'' m) of
        (Some md, Some q, Some mu) \<Rightarrow> Some \<lparr>ap_mode = md, ap_quiet_rooms = q, ap_muted_rooms = mu\<rparr>
      | _ \<Rightarrow> None)"
| "attention_of_json _ = None"

definition config_save :: "config \<Rightarrow> json" where
  "config_save c =
     JObj ([(''hub_url'', JStr (cf_hub_url c)), (''id'', JStr (idn_id (cf_identity c))),
            (''seed'', JStr (idn_seed (cf_identity c))), (''name'', JStr (cf_name c))]
           @ opt_entry JStr ''role'' (cf_role c)
           @ [(''attention'', attention_to_json (cf_attention c))])"

fun config_load :: "json \<Rightarrow> config option" where
  "config_load (JObj m) =
     (case (field_str ''hub_url'' m, field_str ''id'' m, field_str ''seed'' m, field_str ''name'' m,
            field_opt as_str ''role'' m, field_default attention_of_json attention_default ''attention'' m) of
        (Some url, Some i, Some seed, Some name, Some role, Some att) \<Rightarrow>
          Some \<lparr>cf_hub_url = url, cf_identity = \<lparr>idn_id = i, idn_seed = seed\<rparr>, cf_name = name, cf_role = role, cf_attention = att\<rparr>
      | _ \<Rightarrow> None)"
| "config_load _ = None"

definition config_create :: "string \<Rightarrow> string \<Rightarrow> string option \<Rightarrow> identity \<Rightarrow> config" where
  "config_create hub_url name role new_identity =
     \<lparr>cf_hub_url = hub_url, cf_identity = new_identity, cf_name = name, cf_role = role, cf_attention = attention_default\<rparr>"

text \<open>\<^verbatim>\<open>MeshAgent::connect\<close>: the transport dials with the stored identity.\<close>

definition agent_connect :: "'w transport \<Rightarrow> config \<Rightarrow> 'w \<Rightarrow> (client_error + 'w mesh_agent) \<times> 'w" where
  "agent_connect T cfg w =
     (case tr_connect T (cf_hub_url cfg) (cf_identity cfg) (cf_name cfg) (cf_role cfg) w of
        (Inl er, w') \<Rightarrow> (Inl er, w')
      | (Inr _, w') \<Rightarrow>
          (Inr (with_transport_and_identity w' (cf_identity cfg) (cf_name cfg) (cf_role cfg) (cf_hub_url cfg)), w'))"

section \<open>Round trip\<close>

lemma those_as_str [simp]: "those (map (as_str \<circ> JStr) xs) = Some xs"
  by (induction xs) simp_all

lemma attention_saved: "attention_of_json (attention_to_json p) = Some p"
  by (cases p; cases "ap_mode p")
    (auto simp: attention_to_json_def field_default_def attention_of_wire_def strings_to_json_def codec_simps)

text \<open>A saved configuration loads as it was, and a file without the later fields loads with the open policy.\<close>

lemma config_saved: "config_load (config_save c) = Some c"
  by (cases c; cases "cf_role c")
    (auto simp: config_save_def field_default_def attention_saved codec_simps opt_entry_def)

lemma config_older: "config_load (JObj [(''hub_url'', JStr u), (''id'', JStr i), (''seed'', JStr s), (''name'', JStr n)]) =
    Some (config_create u n None \<lparr>idn_id = i, idn_seed = s\<rparr>)"
  by (simp add: field_default_def codec_simps config_create_def)

text \<open>A tilde is expanded only alone or before a slash; an absolute remainder escapes the home directory.\<close>

lemma expand_tilde_cases:
  "expand_tilde_with p None = p"
  "expand_tilde_with ''~'' (Some h) = h"
  "strip_prefix ''/'' r = None \<Longrightarrow> h \<noteq> [] \<Longrightarrow> last h \<noteq> CHR ''/'' \<Longrightarrow> expand_tilde_with (''~/'' @ r) (Some h) = h @ ''/'' @ r"
  "expand_tilde_with (''~//'' @ r) (Some h) = ''/'' @ r"
  "p \<noteq> ''~'' \<Longrightarrow> strip_prefix ''~/'' p = None \<Longrightarrow> expand_tilde_with p (Some h) = p"
  by (simp_all add: expand_tilde_with_def path_join_def strip_prefix_def split: if_splits)

end
