(* ===== verification/Replay.thy ===== *)
theory Replay
  imports Config
begin

text \<open>
  The replay guard of an autonomous agent (\<^verbatim>\<open>AutonomousReplayGuard\<close> in \<^verbatim>\<open>parler-connector/src/runtime.rs\<close>).
  Guards of several processes share a ledger file; each operation holds the lock of the file, reads it, and
  replaces it atomically. A lock, read or write may fail: the disk carries the outcomes of its next calls.
\<close>

section \<open>The ledger\<close>

datatype ledger = Absent | Garbage | Keys "string list"

record disk =
  dk_ledger :: "string \<Rightarrow> ledger"
  dk_script :: "bool list"

definition io_turn :: "disk \<Rightarrow> bool \<times> disk" where
  "io_turn d = (case dk_script d of [] \<Rightarrow> (True, d) | b # bs \<Rightarrow> (b, d\<lparr>dk_script := bs\<rparr>))"

record replay_bucket =
  rb_completed :: "string set"
  rb_order :: "string list"

definition bucket_default :: replay_bucket where
  "bucket_default = \<lparr>rb_completed = {}, rb_order = []\<rparr>"

record replay_guard =
  rg_path :: "string option"
  rg_bucket :: replay_bucket
  rg_pending :: "string set"
  rg_loaded :: bool

definition REPLAY_CAP :: nat where "REPLAY_CAP = 16384"

definition guard_ephemeral :: replay_guard where
  "guard_ephemeral = \<lparr>rg_path = None, rg_bucket = bucket_default, rg_pending = {}, rg_loaded = True\<rparr>"

definition guard_persistent :: "lib \<Rightarrow> string \<Rightarrow> string \<Rightarrow> replay_guard" where
  "guard_persistent L home agent_id =
     \<lparr>rg_path = Some (path_join (path_join home ''autonomous-replay'') (lb_content_id L agent_id @ ''.json'')),
      rg_bucket = bucket_default, rg_pending = {}, rg_loaded = False\<rparr>"

section \<open>Operations\<close>

definition lock_file :: "replay_guard \<Rightarrow> disk \<Rightarrow> (client_error + unit) \<times> disk" where
  "lock_file g d =
     (case rg_path g of
        None \<Rightarrow> (Inr (), d)
      | Some p \<Rightarrow>
          (case io_turn d of (True, d') \<Rightarrow> (Inr (), d') | (False, d') \<Rightarrow> (Inl (Plain ''locking autonomous replay ledger''), d')))"

definition bucket_insert :: "string \<Rightarrow> replay_bucket \<Rightarrow> replay_bucket" where
  "bucket_insert key b =
     (if key \<in> rb_completed b then b
      else \<lparr>rb_completed = insert key (rb_completed b), rb_order = rb_order b @ [key]\<rparr>)"

text \<open>The last entries of the file, up to the cap, in their order.\<close>

definition bucket_of :: "string list \<Rightarrow> replay_bucket" where
  "bucket_of keys = fold bucket_insert (rev (take REPLAY_CAP (rev keys))) bucket_default"

definition refresh :: "replay_guard \<Rightarrow> disk \<Rightarrow> (client_error + replay_guard) \<times> disk" where
  "refresh g d =
     (case rg_path g of
        None \<Rightarrow> (Inr (if rg_loaded g then g else g\<lparr>rg_bucket := bucket_default, rg_loaded := True\<rparr>), d)
      | Some p \<Rightarrow>
          (case dk_ledger d p of
             Absent \<Rightarrow> (Inr (g\<lparr>rg_bucket := bucket_default, rg_loaded := True\<rparr>), d)
           | content \<Rightarrow>
               (case io_turn d of
                  (False, d') \<Rightarrow> (Inl (Plain ''reading autonomous replay ledger''), d')
                | (True, d') \<Rightarrow>
                    (case content of
                       Keys keys \<Rightarrow> (Inr (g\<lparr>rg_bucket := bucket_of keys, rg_loaded := True\<rparr>), d')
                     | _ \<Rightarrow> (Inl (Plain ''parsing autonomous replay ledger''), d')))))"

text \<open>The loop that pops the oldest entries while there are too many.\<close>

fun evict :: "replay_bucket \<Rightarrow> string list \<Rightarrow> replay_bucket" where
  "evict b [] = b\<lparr>rb_order := []\<rparr>"
| "evict b (old # rest) =
     (if REPLAY_CAP < length (old # rest) then evict (b\<lparr>rb_completed := rb_completed b - {old}\<rparr>) rest
      else b\<lparr>rb_order := old # rest\<rparr>)"

definition remember_key :: "string \<Rightarrow> replay_bucket \<Rightarrow> replay_bucket" where
  "remember_key key b = (let b1 = bucket_insert key b in evict b1 (rb_order b1))"

definition save_bucket :: "replay_guard \<Rightarrow> disk \<Rightarrow> (client_error + unit) \<times> disk" where
  "save_bucket g d =
     (case rg_path g of
        None \<Rightarrow> (Inr (), d)
      | Some p \<Rightarrow>
          (case io_turn d of
             (True, d') \<Rightarrow> (Inr (), d'\<lparr>dk_ledger := (dk_ledger d')(p := Keys (rb_order (rg_bucket g)))\<rparr>)
           | (False, d') \<Rightarrow> (Inl (Plain ''writing autonomous replay ledger''), d')))"

definition replay_key :: "stored_message \<Rightarrow> string option" where
  "replay_key m = map_option (\<lambda>s. ep_id (sm_from m) @ '':'' @ ms_uid s) (sig_from_parts (sm_parts m))"

definition admit :: "lib \<Rightarrow> stored_message \<Rightarrow> string \<Rightarrow> replay_guard \<Rightarrow> disk \<Rightarrow> (client_error + bool) \<times> replay_guard \<times> disk" where
  "admit L m recipient g d =
     (if verify_message_for_room L m recipient \<noteq> Valid then (Inr False, g, d)
      else case replay_key m of
             None \<Rightarrow> (Inr False, g, d)
           | Some key \<Rightarrow>
               (case lock_file g d of
                  (Inl er, d1) \<Rightarrow> (Inl er, g, d1)
                | (Inr _, d1) \<Rightarrow>
                    (case refresh g d1 of
                       (Inl er, d2) \<Rightarrow> (Inl er, g, d2)
                     | (Inr g1, d2) \<Rightarrow>
                         if key \<in> rb_completed (rg_bucket g1) then (Inr False, g1, d2)
                         else
                           let g2 = g1\<lparr>rg_bucket := remember_key key (rg_bucket g1)\<rparr>
                           in case save_bucket g2 d2 of
                                (Inl er, d3) \<Rightarrow> (Inl er, g2, d3)
                              | (Inr _, d3) \<Rightarrow> (Inr True, g2\<lparr>rg_pending := insert key (rg_pending g2)\<rparr>, d3))))"

definition complete :: "stored_message list \<Rightarrow> replay_guard \<Rightarrow> replay_guard" where
  "complete ms g = g\<lparr>rg_pending := rg_pending g - set (filter_map replay_key ms)\<rparr>"

fun release_keys :: "string list \<Rightarrow> bool \<Rightarrow> replay_guard \<Rightarrow> bool \<times> replay_guard" where
  "release_keys [] dirty g = (dirty, g)"
| "release_keys (key # keys) dirty g =
     (if key \<in> rg_pending g
      then
        let g1 = g\<lparr>rg_pending := rg_pending g - {key}\<rparr>; b = rg_bucket g1
        in if key \<in> rb_completed b
           then release_keys keys True
                  (g1\<lparr>rg_bucket := \<lparr>rb_completed = rb_completed b - {key}, rb_order = filter (\<lambda>k. k \<noteq> key) (rb_order b)\<rparr>\<rparr>)
           else release_keys keys dirty g1
      else release_keys keys dirty g)"

definition release_reservations :: "stored_message list \<Rightarrow> replay_guard \<Rightarrow> disk \<Rightarrow> (client_error + unit) \<times> replay_guard \<times> disk" where
  "release_reservations ms g d =
     (case lock_file g d of
        (Inl er, d1) \<Rightarrow> (Inl er, g, d1)
      | (Inr _, d1) \<Rightarrow>
          (case refresh g d1 of
             (Inl er, d2) \<Rightarrow> (Inl er, g, d2)
           | (Inr g1, d2) \<Rightarrow>
               (case release_keys (filter_map replay_key ms) False g1 of
                  (False, g2) \<Rightarrow> (Inr (), g2, d2)
                | (True, g2) \<Rightarrow>
                    (case save_bucket g2 d2 of (Inl er, d3) \<Rightarrow> (Inl er, g2, d3) | (Inr _, d3) \<Rightarrow> (Inr (), g2, d3)))))"

section \<open>Buckets\<close>

definition bucket_ok :: "replay_bucket \<Rightarrow> bool" where
  "bucket_ok b = (rb_completed b = set (rb_order b) \<and> distinct (rb_order b))"

lemma bucket_insert_ok: "bucket_ok b \<Longrightarrow> bucket_ok (bucket_insert k b)"
  by (auto simp: bucket_ok_def bucket_insert_def)

lemma bucket_default_ok [simp]: "bucket_ok bucket_default" "rb_order bucket_default = []" "rb_completed bucket_default = {}"
  by (simp_all add: bucket_ok_def bucket_default_def)

lemma fold_insert:
  "bucket_ok b \<Longrightarrow> bucket_ok (fold bucket_insert ks b) \<and> length (rb_order (fold bucket_insert ks b)) \<le> length (rb_order b) + length ks"
proof (induction ks arbitrary: b)
  case (Cons k ks)
  have "length (rb_order (bucket_insert k b)) \<le> Suc (length (rb_order b))" by (simp add: bucket_insert_def)
  with Cons.IH [OF bucket_insert_ok [OF Cons.prems, of k]] show ?case by auto
qed simp

lemma fold_fresh:
  "bucket_ok b \<Longrightarrow> distinct ks \<Longrightarrow> set ks \<inter> set (rb_order b) = {} \<Longrightarrow>
   fold bucket_insert ks b = \<lparr>rb_completed = rb_completed b \<union> set ks, rb_order = rb_order b @ ks\<rparr>"
proof (induction ks arbitrary: b)
  case (Cons k ks)
  then have "bucket_insert k b = \<lparr>rb_completed = insert k (rb_completed b), rb_order = rb_order b @ [k]\<rparr>"
    by (auto simp: bucket_insert_def bucket_ok_def)
  with Cons.IH [OF bucket_insert_ok [OF Cons.prems(1), of k]] Cons.prems show ?case by (auto simp: bucket_ok_def)
qed (cases b; simp)

lemma bucket_of_ok: "bucket_ok (bucket_of ks)" "length (rb_order (bucket_of ks)) \<le> REPLAY_CAP"
  using fold_insert [of bucket_default "rev (take REPLAY_CAP (rev ks))"]
  by (auto simp: bucket_of_def)

lemma bucket_of_same:
  assumes "distinct ks" "length ks \<le> REPLAY_CAP"
  shows "bucket_of ks = \<lparr>rb_completed = set ks, rb_order = ks\<rparr>"
proof -
  have "rev (take REPLAY_CAP (rev ks)) = ks" using assms(2) by simp
  then show ?thesis using fold_fresh [of bucket_default ks] assms(1) by (simp add: bucket_of_def)
qed

lemma evict_drops:
  "rb_completed b = set xs \<Longrightarrow> distinct xs \<Longrightarrow>
   evict b xs = (let ys = drop (length xs - REPLAY_CAP) xs in \<lparr>rb_completed = set ys, rb_order = ys\<rparr>)"
proof (induction b xs rule: evict.induct)
  case (2 b old rest)
  then show ?case by (auto simp: Let_def Suc_diff_le intro: arg_cong [where f = set])
qed (simp add: Let_def)

lemma remember_new:
  assumes "bucket_ok b" "k \<notin> set (rb_order b)"
  shows "remember_key k b = (let ys = drop (Suc (length (rb_order b)) - REPLAY_CAP) (rb_order b @ [k]) in \<lparr>rb_completed = set ys, rb_order = ys\<rparr>)"
  using assms evict_drops [of "bucket_insert k b" "rb_order b @ [k]"] by (simp add: remember_key_def bucket_insert_def bucket_ok_def Let_def)

section \<open>Guards that share a ledger\<close>

datatype guard_op = Admit nat stored_message | Complete nat "stored_message list" | Release nat "stored_message list"

datatype replay_event = Admitted string | Released string

text \<open>One operation of one of the guards: what it decided. A release counts for the keys its guard had reserved.\<close>

fun guard_step ::
  "lib \<Rightarrow> string \<Rightarrow> guard_op \<Rightarrow> (nat \<Rightarrow> replay_guard) \<times> disk \<Rightarrow> replay_event list \<times> (nat \<Rightarrow> replay_guard) \<times> disk" where
  "guard_step L me (Admit i m) (gs, d) =
     (case admit L m me (gs i) d of
        (Inr True, g, d') \<Rightarrow> (map Admitted (case replay_key m of None \<Rightarrow> [] | Some k \<Rightarrow> [k]), gs(i := g), d')
      | (r, g, d') \<Rightarrow> ([], gs(i := g), d'))"
| "guard_step L me (Complete i ms) (gs, d) = ([], gs(i := complete ms (gs i)), d)"
| "guard_step L me (Release i ms) (gs, d) =
     (case release_reservations ms (gs i) d of
        (Inl er, g, d') \<Rightarrow> ([], gs(i := g), d')
      | (Inr u, g, d') \<Rightarrow>
          (map Released (filter (\<lambda>k. k \<in> rg_pending (gs i)) (filter_map replay_key ms)), gs(i := g), d'))"

fun guard_run ::
  "lib \<Rightarrow> string \<Rightarrow> guard_op list \<Rightarrow> (nat \<Rightarrow> replay_guard) \<times> disk \<Rightarrow> replay_event list \<times> (nat \<Rightarrow> replay_guard) \<times> disk" where
  "guard_run L me [] s = ([], s)"
| "guard_run L me (op # ops) s =
     (let (e1, s1) = guard_step L me op s; (e2, s2) = guard_run L me ops s1 in (e1 @ e2, s2))"

definition sharing :: "string \<Rightarrow> (nat \<Rightarrow> replay_guard) \<Rightarrow> bool" where
  "sharing p gs = (\<forall>i. rg_path (gs i) = Some p)"

definition admits_in :: "replay_event list \<Rightarrow> nat" where
  "admits_in evs = length (filter (\<lambda>e. \<exists>k. e = Admitted k) evs)"

text \<open>A key of the ledger with at most \<open>n\<close> newer ones.\<close>

definition kept :: "string \<Rightarrow> string \<Rightarrow> nat \<Rightarrow> disk \<Rightarrow> bool" where
  "kept p k n d =
     (\<exists>old new. dk_ledger d p = Keys (old @ k # new) \<and> distinct (old @ k # new) \<and> length (old @ k # new) \<le> REPLAY_CAP \<and> length new \<le> n)"

lemma io_turn_ledger [simp]: "io_turn d = (b, d') \<Longrightarrow> dk_ledger d' = dk_ledger d"
  by (auto simp: io_turn_def split: list.splits)

lemma lock_ledger: "lock_file g d = (r, d') \<Longrightarrow> dk_ledger d' = dk_ledger d"
  by (auto simp: lock_file_def split: option.splits prod.splits bool.splits)

lemma refresh_ledger: "refresh g d = (r, d') \<Longrightarrow> dk_ledger d' = dk_ledger d"
  by (auto simp: refresh_def split: option.splits ledger.splits prod.splits bool.splits)

text \<open>What a guard holds after reading the file.\<close>

lemma refresh_shape:
  assumes "refresh g d = (Inr g', d')" "rg_path g = Some p"
  shows "rg_path g' = Some p" "rg_pending g' = rg_pending g" "bucket_ok (rg_bucket g')" "length (rb_order (rg_bucket g')) \<le> REPLAY_CAP"
    and "dk_ledger d p = Keys ks \<Longrightarrow> rg_bucket g' = bucket_of ks"
  using assms bucket_of_ok by (auto simp: refresh_def split: ledger.splits prod.splits bool.splits)

lemma save_ledger:
  assumes "save_bucket g d = (r, d')" "rg_path g = Some p"
  shows "r = Inl er \<Longrightarrow> dk_ledger d' = dk_ledger d"
    and "r = Inr u \<Longrightarrow> dk_ledger d' = (dk_ledger d)(p := Keys (rb_order (rg_bucket g)))"
  using assms by (auto simp: save_bucket_def split: prod.splits bool.splits)

text \<open>An admission writes its key at the end of what the file held, and anything else leaves the file alone.\<close>

lemma admit_cases:
  assumes "admit L m me g d = (r, g', d')" "rg_path g = Some p"
  obtains (no) "r \<noteq> Inr True" "dk_ledger d' = dk_ledger d" "rg_path g' = Some p"
  | (yes) k b where "r = Inr True" "replay_key m = Some k" "rg_path g' = Some p" "bucket_ok b" "length (rb_order b) \<le> REPLAY_CAP"
      "k \<notin> set (rb_order b)" "\<And>ks. dk_ledger d p = Keys ks \<Longrightarrow> b = bucket_of ks"
      "dk_ledger d' = (dk_ledger d)(p := Keys (drop (Suc (length (rb_order b)) - REPLAY_CAP) (rb_order b @ [k])))"
proof (cases "verify_message_for_room L m me \<noteq> Valid \<or> replay_key m = None")
  case True
  then have "r \<noteq> Inr True \<and> dk_ledger d' = dk_ledger d \<and> rg_path g' = Some p" using assms by (auto simp: admit_def split: if_splits)
  with no show thesis by blast
next
  case False
  then obtain k where k: "verify_message_for_room L m me = Valid" "replay_key m = Some k" by auto
  obtain l d1 where l: "lock_file g d = (l, d1)" by fastforce
  obtain f d2 where f: "refresh g d1 = (f, d2)" by fastforce
  have dk: "dk_ledger d1 = dk_ledger d" "dk_ledger d2 = dk_ledger d" using lock_ledger [OF l] refresh_ledger [OF f] by auto
  show thesis
  proof (cases "\<exists>u g1. l = Inr u \<and> f = Inr g1 \<and> k \<notin> rb_completed (rg_bucket g1)")
    case False
    with assms k l f dk refresh_shape(1) no show thesis
      by (auto simp: admit_def split: sum.splits if_splits)
  next
    case True
    then obtain u g1 where t: "l = Inr u" "f = Inr g1" "k \<notin> rb_completed (rg_bucket g1)" by blast
    note sh = refresh_shape [OF f [unfolded t(2)] assms(2)]
    let ?g = "g1\<lparr>rg_bucket := remember_key k (rg_bucket g1)\<rparr>"
    obtain s d3 where s: "save_bucket ?g d2 = (s, d3)" by fastforce
    have new: "k \<notin> set (rb_order (rg_bucket g1))" using t(3) sh(3) by (simp add: bucket_ok_def)
    note rn = remember_new [OF sh(3) new]
    show thesis
    proof (cases s)
      case (Inl er)
      then have r: "r = Inl er" "g' = ?g" "d' = d3" using assms k l f t s by (simp_all add: admit_def)
      show thesis
      proof (rule no)
        show "dk_ledger d' = dk_ledger d" using save_ledger(1) [OF s _ Inl, of p] sh(1) dk r by simp
      qed (use r sh(1) in auto)
    next
      case (Inr v)
      have "dk_ledger d3 = (dk_ledger d)(p := Keys (drop (Suc (length (rb_order (rg_bucket g1))) - REPLAY_CAP) (rb_order (rg_bucket g1) @ [k])))"
        using save_ledger(2) [OF s _ Inr, of p] sh(1) dk by (simp add: rn Let_def)
      with assms k l f t s Inr dk(1) sh new show thesis by (intro yes [of k "rg_bucket g1"]) (auto simp: admit_def)
    qed
  qed
qed

text \<open>Releasing removes exactly the reserved keys, and writes only if one of them was there.\<close>

definition freed :: "string list \<Rightarrow> replay_guard \<Rightarrow> replay_guard" where
  "freed ks g =
     g\<lparr>rg_pending := rg_pending g - set ks,
       rg_bucket := \<lparr>rb_completed = rb_completed (rg_bucket g) - (set ks \<inter> rg_pending g),
                     rb_order = filter (\<lambda>k. k \<notin> set ks \<or> k \<notin> rg_pending g) (rb_order (rg_bucket g))\<rparr>\<rparr>"

lemma release_keys_freed:
  "bucket_ok (rg_bucket g) \<Longrightarrow>
   release_keys ks dirty g = (dirty \<or> set ks \<inter> rg_pending g \<inter> rb_completed (rg_bucket g) \<noteq> {}, freed ks g)"
proof (induction ks dirty g rule: release_keys.induct)
  case (1 dirty g)
  then show ?case by (cases g; cases "rg_bucket g") (simp add: freed_def)
next
  case (2 key keys dirty g)
  let ?b = "rg_bucket g"
  let ?g1 = "g\<lparr>rg_pending := rg_pending g - {key}\<rparr>"
  let ?g2 = "?g1\<lparr>rg_bucket := \<lparr>rb_completed = rb_completed ?b - {key}, rb_order = filter (\<lambda>k. k \<noteq> key) (rb_order ?b)\<rparr>\<rparr>"
  have order: "filter P (rb_order ?b) = filter Q (rb_order ?b)" if "\<And>k. k \<in> rb_completed ?b \<Longrightarrow> P k = Q k" for P Q
    using that 2(4) by (auto simp: bucket_ok_def intro: filter_cong)
  consider "key \<notin> rg_pending g" | "key \<in> rg_pending g" "key \<notin> rb_completed ?b" | "key \<in> rg_pending g" "key \<in> rb_completed ?b" by blast
  then show ?case
  proof cases
    case 1
    have e: "freed (key # keys) g = freed keys g"
      using 1 by (intro replay_guard.equality) (auto simp: freed_def intro!: order)
    from 2(3) [OF 1 2(4)] 1 show ?thesis by (auto simp: e)
  next
    case c: 2
    have e: "freed (key # keys) g = freed keys ?g1"
      using c by (intro replay_guard.equality) (auto simp: freed_def intro!: order)
    from "2.IH"(2) [OF c(1) refl refl] "2.prems" c show ?thesis by (auto simp: e Let_def)
  next
    case c: 3
    have e: "freed (key # keys) g = freed keys ?g2"
      using c by (intro replay_guard.equality) (auto simp: freed_def intro!: order)
    have "bucket_ok (rg_bucket ?g2)" using "2.prems" by (auto simp: bucket_ok_def)
    with "2.IH"(1) [OF c(1) refl refl] c show ?thesis by (auto simp: e Let_def)
  qed
qed

lemma release_cases:
  assumes "release_reservations ms g d = (r, g', d')" "rg_path g = Some p"
  shows "rg_path g' = Some p"
    and "dk_ledger d' = dk_ledger d \<or>
      (\<exists>b u. r = Inr u \<and> bucket_ok b \<and> length (rb_order b) \<le> REPLAY_CAP \<and> (\<forall>ks. dk_ledger d p = Keys ks \<longrightarrow> b = bucket_of ks) \<and>
        dk_ledger d' = (dk_ledger d)(p := Keys (filter (\<lambda>k. k \<notin> set (filter_map replay_key ms) \<or> k \<notin> rg_pending g) (rb_order b))))"
proof -
  let ?ks = "filter_map replay_key ms"
  obtain l d1 where l: "lock_file g d = (l, d1)" by fastforce
  obtain f d2 where f: "refresh g d1 = (f, d2)" by fastforce
  have dk: "dk_ledger d1 = dk_ledger d" "dk_ledger d2 = dk_ledger d" using lock_ledger [OF l] refresh_ledger [OF f] by auto
  have "rg_path g' = Some p \<and> (dk_ledger d' = dk_ledger d \<or>
      (\<exists>b u. r = Inr u \<and> bucket_ok b \<and> length (rb_order b) \<le> REPLAY_CAP \<and> (\<forall>ks. dk_ledger d p = Keys ks \<longrightarrow> b = bucket_of ks) \<and>
        dk_ledger d' = (dk_ledger d)(p := Keys (filter (\<lambda>k. k \<notin> set ?ks \<or> k \<notin> rg_pending g) (rb_order b)))))"
  proof (cases "\<exists>u g1. l = Inr u \<and> f = Inr g1")
    case False
    with assms l f dk show ?thesis by (cases l; cases f) (auto simp: release_reservations_def)
  next
    case True
    then obtain u g1 where t: "l = Inr u" "f = Inr g1" by blast
    note sh = refresh_shape [OF f [unfolded t(2)] assms(2)]
    let ?g = "freed ?ks g1"
    have path: "rg_path ?g = Some p" using sh(1) by (simp add: freed_def)
    obtain s d3 where s: "save_bucket ?g d2 = (s, d3)" by fastforce
    note rk = release_keys_freed [OF sh(3), of ?ks False]
    have "g' = ?g \<and> (d' = d2 \<or> d' = d3 \<and> (r = s))"
      using assms(1) l f t s by (auto simp: release_reservations_def rk split: sum.splits bool.splits)
    moreover have "dk_ledger d3 = dk_ledger d" if "s = Inl er" for er using save_ledger(1) [OF s path that] dk by simp
    moreover have "dk_ledger d3 = (dk_ledger d)(p := Keys (filter (\<lambda>k. k \<notin> set ?ks \<or> k \<notin> rg_pending g) (rb_order (rg_bucket g1))))"
      if "s = Inr v" for v using save_ledger(2) [OF s path that] dk sh(2) by (simp add: freed_def)
    ultimately show ?thesis using path dk sh(3-5) by (cases s) auto
  qed
  then show "rg_path g' = Some p"
    and "dk_ledger d' = dk_ledger d \<or>
      (\<exists>b u. r = Inr u \<and> bucket_ok b \<and> length (rb_order b) \<le> REPLAY_CAP \<and> (\<forall>ks. dk_ledger d p = Keys ks \<longrightarrow> b = bucket_of ks) \<and>
        dk_ledger d' = (dk_ledger d)(p := Keys (filter (\<lambda>k. k \<notin> set ?ks \<or> k \<notin> rg_pending g) (rb_order b))))" by blast+
qed

section \<open>No replay\<close>

lemma drop_snoc_kept:
  assumes "distinct (old @ k # new)" "x \<notin> set (old @ k # new)" "length (old @ k # new) \<le> C" "length new < C - 1"
  shows "\<exists>old'. drop (Suc (length (old @ k # new)) - C) ((old @ k # new) @ [x]) = old' @ k # new @ [x]
     \<and> distinct (old' @ k # new @ [x]) \<and> length (old' @ k # new @ [x]) \<le> C"
proof -
  let ?n = "Suc (length (old @ k # new)) - C"
  have n: "?n \<le> length old" using assms(3,4) by simp
  then have "drop ?n ((old @ k # new) @ [x]) = drop ?n old @ k # new @ [x]" by simp
  moreover have "distinct (drop ?n old @ k # new @ [x])" using assms(1,2) by (auto dest: in_set_dropD)
  moreover have "length (drop ?n old @ k # new @ [x]) \<le> C" using n assms(3) by simp
  ultimately show ?thesis by blast
qed

text \<open>One operation keeps a key of the ledger, with one newer key per admission, unless it releases it.\<close>

lemma kept_step:
  assumes "guard_step L me op (gs, d) = (evs, gs', d')" "sharing p gs" "kept p k n d" "Released k \<notin> set evs"
    and "n + admits_in evs < REPLAY_CAP"
  shows "sharing p gs'" "kept p k (n + admits_in evs) d'"
proof -
  from assms(3) obtain old new where kd: "dk_ledger d p = Keys (old @ k # new)" "distinct (old @ k # new)"
    "length (old @ k # new) \<le> REPLAY_CAP" "length new \<le> n" unfolding kept_def by blast
  note same = bucket_of_same [OF kd(2,3)]
  have "sharing p gs' \<and> kept p k (n + admits_in evs) d'"
  proof (cases op)
    case (Admit i m)
    obtain r g d1 where a: "admit L m me (gs i) d = (r, g, d1)" by (metis prod_cases3)
    have "rg_path (gs i) = Some p" using assms(2) by (simp add: sharing_def)
    with a show ?thesis
    proof (cases rule: admit_cases)
      case no
      then have "evs = [] \<and> gs' = gs(i := g) \<and> d' = d1" using assms(1) Admit a by (auto split: sum.splits bool.splits)
      with no kd assms(2) show ?thesis by (auto simp: sharing_def kept_def admits_in_def)
    next
      case (yes x b)
      have b: "rb_order b = old @ k # new" using yes(7) [OF kd(1)] same by simp
      have e: "evs = [Admitted x]" "gs' = gs(i := g)" "d' = d1" using assms(1) Admit a yes(1,2) by auto
      have "length new < REPLAY_CAP - 1" using kd(4) assms(5) e by (simp add: admits_in_def)
      from drop_snoc_kept [OF kd(2) _ kd(3) this, of x] yes(6) b obtain old' where
        "drop (Suc (length (rb_order b)) - REPLAY_CAP) (rb_order b @ [x]) = old' @ k # new @ [x]"
        "distinct (old' @ k # new @ [x])" "length (old' @ k # new @ [x]) \<le> REPLAY_CAP" by auto
      then have "kept p k (n + 1) d'" unfolding kept_def using yes(8) e kd(4) by (intro exI [of _ old'] exI [of _ "new @ [x]"]) simp
      with yes(3,6) b e assms(2) show ?thesis by (auto simp: sharing_def admits_in_def)
    qed
  next
    case (Complete i ms)
    with assms kd show ?thesis by (auto simp: sharing_def kept_def complete_def admits_in_def)
  next
    case (Release i ms)
    obtain r g d1 where a: "release_reservations ms (gs i) d = (r, g, d1)" by (metis prod_cases3)
    have pth: "rg_path (gs i) = Some p" using assms(2) by (simp add: sharing_def)
    note rc = release_cases [OF a pth]
    have e: "gs' = gs(i := g)" "d' = d1" "admits_in evs = 0"
      using assms(1) Release a by (auto simp: admits_in_def filter_empty_conv split: sum.splits)
    from rc(2) have "kept p k n d1"
    proof (elim disjE exE conjE)
      assume "dk_ledger d1 = dk_ledger d"
      with assms(3) show ?thesis by (simp add: kept_def)
    next
      fix b u
      let ?f = "\<lambda>k. k \<notin> set (filter_map replay_key ms) \<or> k \<notin> rg_pending (gs i)"
      assume b: "r = Inr u" "\<forall>ks. dk_ledger d p = Keys ks \<longrightarrow> b = bucket_of ks"
        "dk_ledger d1 = (dk_ledger d)(p := Keys (filter ?f (rb_order b)))"
      have "?f k" using assms(1,4) Release a b(1) by auto
      then have "filter ?f (old @ k # new) = filter ?f old @ k # filter ?f new" by simp
      moreover have "rb_order b = old @ k # new" using b(2) kd(1) same by simp
      moreover have "length (filter ?f (old @ k # new)) \<le> length (old @ k # new)" by (rule length_filter_le)
      ultimately show ?thesis unfolding kept_def using b(3) kd(2-4)
        by (intro exI [of _ "filter ?f old"] exI [of _ "filter ?f new"]) (auto intro: order.trans [OF length_filter_le])
    qed
    with e rc(1) assms(2) show ?thesis by (simp add: sharing_def)
  qed
  then show "sharing p gs'" "kept p k (n + admits_in evs) d'" by blast+
qed

lemma step_sharing:
  assumes "guard_step L me op (gs, d) = (evs, gs', d')" "sharing p gs"
  shows "sharing p gs'"
proof -
  have p: "rg_path (gs i) = Some p" for i using assms(2) by (simp add: sharing_def)
  have "rg_path g = Some p" if "admit L m me (gs i) d = (r, g, d1)" for i m r g d1
    using that p by (cases rule: admit_cases) auto
  moreover note release_cases(1) [OF _ p]
  ultimately show ?thesis using assms by (cases op) (auto simp: sharing_def complete_def split: prod.splits sum.splits bool.splits)
qed

lemma kept_refuses:
  assumes "guard_step L me op (gs, d) = (evs, gs', d')" "sharing p gs" "kept p k n d"
  shows "Admitted k \<notin> set evs"
proof (cases op)
  case (Admit i m)
  obtain r g d1 where a: "admit L m me (gs i) d = (r, g, d1)" by (metis prod_cases3)
  from assms(3) obtain ks where ks: "dk_ledger d p = Keys ks" "k \<in> set ks" "distinct ks" "length ks \<le> REPLAY_CAP"
    unfolding kept_def by fastforce
  have "rg_path (gs i) = Some p" using assms(2) by (simp add: sharing_def)
  with a show ?thesis
  proof (cases rule: admit_cases)
    case no
    then show ?thesis using assms(1) Admit a by (auto split: sum.splits bool.splits)
  next
    case (yes x b)
    have "x \<noteq> k" using yes(6,7) ks bucket_of_same [OF ks(3,4)] by auto
    then show ?thesis using assms(1) Admit a yes(1,2) by auto
  qed
next
  case (Release i ms)
  with assms(1) show ?thesis by (auto split: prod.splits sum.splits)
qed (use assms(1) in simp)

text \<open>An operation decides one admission, or several releases.\<close>

lemma step_events: "guard_step L me op s = (evs, s') \<Longrightarrow> (\<exists>x. evs = [Admitted x]) \<or> admits_in evs = 0"
  by (cases op; cases s) (auto simp: admits_in_def filter_empty_conv split: prod.splits sum.splits bool.splits option.splits)

lemma admits_append [simp]: "admits_in (a @ b) = admits_in a + admits_in b"
  by (simp add: admits_in_def)

lemma admits_zero: "admits_in evs = 0 \<Longrightarrow> Admitted k \<notin> set evs"
  by (auto simp: admits_in_def filter_empty_conv)

lemma split_past: "e1 @ e2 = pre @ x # rest \<Longrightarrow> x \<notin> set e1 \<Longrightarrow> \<exists>ys. pre = e1 @ ys \<and> e2 = ys @ x # rest"
  by (auto simp: append_eq_append_conv2 append_eq_Cons_conv)

lemma kept_run:
  "guard_run L me ops (gs, d) = (evs, gs', d') \<Longrightarrow> sharing p gs \<Longrightarrow> kept p k n d \<Longrightarrow>
   evs = mid @ Admitted k # rest \<Longrightarrow> n + admits_in mid < REPLAY_CAP \<Longrightarrow> Released k \<in> set mid"
proof (induction ops arbitrary: gs d evs n mid gs' d')
  case (Cons op ops)
  obtain e1 gs1 d1 where s: "guard_step L me op (gs, d) = (e1, gs1, d1)" by (metis prod_cases3)
  obtain e2 gs2 d2 where r: "guard_run L me ops (gs1, d1) = (e2, gs2, d2)" by (metis prod_cases3)
  have evs: "e1 @ e2 = mid @ Admitted k # rest" using Cons.prems(1,4) s r by simp
  have "Admitted k \<notin> set e1" by (rule kept_refuses [OF s Cons.prems(2,3)])
  then obtain mid2 where m: "mid = e1 @ mid2" "e2 = mid2 @ Admitted k # rest"
    using split_past [OF evs] by blast
  show ?case
  proof (cases "Released k \<in> set e1")
    case False
    have "n + admits_in e1 < REPLAY_CAP" using Cons.prems(5) m(1) by simp
    note k = kept_step [OF s Cons.prems(2,3) False this]
    have "Released k \<in> set mid2"
      by (rule Cons.IH [OF r k m(2)]) (use Cons.prems(5) m(1) in simp)
    with m(1) show ?thesis by simp
  qed (use m(1) in simp)
qed simp

lemma kept_admitted:
  assumes "guard_step L me op (gs, d) = ([Admitted k], gs', d')" "sharing p gs"
  shows "sharing p gs' \<and> kept p k 0 d'"
proof (cases op)
  case (Admit i m)
  obtain r g d1 where a: "admit L m me (gs i) d = (r, g, d1)" by (metis prod_cases3)
  have "rg_path (gs i) = Some p" using assms(2) by (simp add: sharing_def)
  with a show ?thesis
  proof (cases rule: admit_cases)
    case no
    then show ?thesis using assms(1) Admit a by (auto split: sum.splits bool.splits)
  next
    case (yes x b)
    have e: "x = k" "gs' = gs(i := g)" "d' = d1" using assms(1) Admit a yes(1,2) by auto
    let ?n = "Suc (length (rb_order b)) - REPLAY_CAP"
    have "?n \<le> length (rb_order b)" by (simp add: REPLAY_CAP_def)
    then have "dk_ledger d' p = Keys (drop ?n (rb_order b) @ k # [])" using yes(8) e by simp
    moreover have "distinct (drop ?n (rb_order b) @ k # [])" "length (drop ?n (rb_order b) @ k # []) \<le> REPLAY_CAP"
      using yes(4,5,6) e by (auto simp: bucket_ok_def REPLAY_CAP_def dest: in_set_dropD)
    ultimately have "kept p k 0 d'" unfolding kept_def by blast
    with e yes(3) assms(2) show ?thesis by (simp add: sharing_def)
  qed
next
  case (Release i ms)
  with assms(1) show ?thesis by (auto split: prod.splits sum.splits)
qed (use assms(1) in simp)

text \<open>
  Between two admits_in of one key by guards that share a ledger, the key was released, or so many others
  were admitted that the bounded ledger had to forget it.
\<close>

lemma admitted_once:
  "guard_run L me ops (gs, d) = (evs, gs', d') \<Longrightarrow> sharing p gs \<Longrightarrow>
   evs = pre @ Admitted k # mid @ Admitted k # rest \<Longrightarrow> Released k \<in> set mid \<or> REPLAY_CAP \<le> admits_in mid"
proof (induction ops arbitrary: gs d evs pre gs' d')
  case (Cons op ops)
  obtain e1 gs1 d1 where s: "guard_step L me op (gs, d) = (e1, gs1, d1)" by (metis prod_cases3)
  obtain e2 gs2 d2 where r: "guard_run L me ops (gs1, d1) = (e2, gs2, d2)" by (metis prod_cases3)
  have evs: "e1 @ e2 = pre @ Admitted k # mid @ Admitted k # rest" using Cons.prems(1,3) s r by simp
  show ?case
  proof (cases "\<exists>x. e1 = [Admitted x]")
    case True
    then obtain x where e1: "e1 = [Admitted x]" by blast
    show ?thesis
    proof (cases pre)
      case Nil
      then have e: "e1 = [Admitted k]" "e2 = mid @ Admitted k # rest" using evs e1 by auto
      from kept_admitted [OF s [unfolded e(1)] Cons.prems(2)] have "sharing p gs1" "kept p k 0 d1" by auto
      from kept_run [OF r this e(2)] show ?thesis by fastforce
    next
      case (Cons y ys)
      then have "e2 = ys @ Admitted k # mid @ Admitted k # rest" using evs e1 by simp
      moreover have "sharing p gs1" using kept_admitted [OF s [unfolded e1] Cons.prems(2)] by blast
      ultimately show ?thesis using Cons.IH [OF r] by blast
    qed
  next
    case False
    with step_events [OF s] have "Admitted k \<notin> set e1" by (auto dest: admits_zero)
    then obtain ys where "e2 = ys @ Admitted k # mid @ Admitted k # rest"
      using split_past [OF evs] by blast
    moreover have "sharing p gs1" by (rule step_sharing [OF s Cons.prems(2)])
    ultimately show ?thesis using Cons.IH [OF r] by blast
  qed
qed simp

end
