(* ===== verification/Runtime.thy ===== *)
theory Runtime
  imports Replay "HOL-Library.Sublist"
begin

text \<open>
  The continuously running connector (\<^verbatim>\<open>parler-connector/src/runtime.rs\<close>): lifecycle events become presence,
  tool calls become sends, and pulls become receives that apply the signature check, the attention policy and
  the replay guard before a host is woken. The host's wake injector is a parameter.
\<close>

section \<open>The runtime\<close>

datatype lifecycle = LcStarted | LcIdle "string option" | LcWorking "string option" | LcWaiting "string option"

fun lifecycle_presence :: "lifecycle \<Rightarrow> string \<times> string option" where
  "lifecycle_presence LcStarted = (''idle'', None)"
| "lifecycle_presence (LcIdle activity) = (''idle'', activity)"
| "lifecycle_presence (LcWorking activity) = (''working'', activity)"
| "lifecycle_presence (LcWaiting activity) = (''waiting'', activity)"

record tool_send =
  tc_target :: target
  tc_parts :: "part list"
  tc_mentions :: "string list option"
  tc_reply_to :: "string option"

record tool_send_receipt =
  tr_id :: string
  tr_seq :: int
  tr_room :: string

record received =
  rc_room :: string
  rc_cursor :: int
  rc_messages :: "stored_message list"
  rc_held :: bool
  rc_dropped :: nat

record wake_request =
  wk_room :: string
  wk_messages :: "stored_message list"

record 'w connector_runtime =
  rt_agent :: "'w mesh_agent"
  rt_attention :: attention_policy
  rt_replay :: replay_guard
  rt_disk :: disk

definition runtime_new :: "'w mesh_agent \<Rightarrow> attention_policy \<Rightarrow> disk \<Rightarrow> 'w connector_runtime" where
  "runtime_new a p d = \<lparr>rt_agent = a, rt_attention = p, rt_replay = guard_ephemeral, rt_disk = d\<rparr>"

definition runtime_persistent :: "lib \<Rightarrow> string \<Rightarrow> 'w mesh_agent \<Rightarrow> attention_policy \<Rightarrow> disk \<Rightarrow> 'w connector_runtime" where
  "runtime_persistent L home a p d =
     \<lparr>rt_agent = a, rt_attention = p, rt_replay = guard_persistent L home (ma_id a), rt_disk = d\<rparr>"

definition on_agent :: "('w mesh_agent \<Rightarrow> ('w, 'a) outcome) \<Rightarrow> 'w connector_runtime \<Rightarrow> (client_error + 'a) \<times> 'w connector_runtime" where
  "on_agent op rt = (let (r, a) = op (rt_agent rt) in (r, rt\<lparr>rt_agent := a\<rparr>))"

definition rt_lifecycle :: "'w transport \<Rightarrow> lifecycle \<Rightarrow> 'w connector_runtime \<Rightarrow> (client_error + unit) \<times> 'w connector_runtime" where
  "rt_lifecycle T event rt =
     (let (status, activity) = lifecycle_presence event
      in on_agent (agent_presence_with_attention T status activity (Some (ap_mode (rt_attention rt)))) rt)"

definition rt_send ::
  "lib \<Rightarrow> (string \<Rightarrow> string \<Rightarrow> string option) \<Rightarrow> 'w transport \<Rightarrow> send_draw \<Rightarrow> tool_send \<Rightarrow> 'w connector_runtime
    \<Rightarrow> (client_error + tool_send_receipt) \<times> 'w connector_runtime" where
  "rt_send L sign T draw call rt =
     (case on_agent (agent_send L sign T draw (tc_target call) (tc_parts call) (tc_mentions call) (tc_reply_to call)) rt of
        (Inl er, rt') \<Rightarrow> (Inl er, rt')
      | (Inr (i, q, room), rt') \<Rightarrow> (Inr \<lparr>tr_id = i, tr_seq = q, tr_room = room\<rparr>, rt'))"

section \<open>Receiving\<close>

text \<open>The loop over a page: own messages are passed over, and the rest is dropped, held or admitted.\<close>

fun sift ::
  "lib \<Rightarrow> string \<Rightarrow> string \<Rightarrow> string option \<Rightarrow> attention_policy \<Rightarrow> string \<Rightarrow> room_kind \<Rightarrow> stored_message list
    \<Rightarrow> stored_message list \<times> bool \<times> nat \<Rightarrow> replay_guard \<Rightarrow> disk
    \<Rightarrow> (client_error + stored_message list \<times> bool \<times> nat) \<times> replay_guard \<times> disk" where
  "sift L me name role p room kind [] acc g d = (Inr acc, g, d)"
| "sift L me name role p room kind (m # rest) (ms, held, dropped) g d =
     (if ep_id (sm_from m) = me then sift L me name role p room kind rest (ms, held, dropped) g d
      else if verify_message_for_room L m me \<noteq> Valid then sift L me name role p room kind rest (ms, held, dropped + 1) g d
      else case decide p room kind m name role of
             Wake \<Rightarrow>
               (case admit L m me g d of
                  (Inl er, g', d') \<Rightarrow> (Inl er, g', d')
                | (Inr True, g', d') \<Rightarrow> sift L me name role p room kind rest (ms @ [m], held, dropped) g' d'
                | (Inr False, g', d') \<Rightarrow> sift L me name role p room kind rest (ms, held, dropped + 1) g' d')
           | Hold \<Rightarrow> sift L me name role p room kind rest (ms, True, dropped) g d
           | Drop \<Rightarrow> sift L me name role p room kind rest (ms, held, dropped + 1) g d)"

definition effective_role :: "string option \<Rightarrow> 'w mesh_agent \<Rightarrow> string option" where
  "effective_role worker_role a = (case worker_role of None \<Rightarrow> ma_role a | Some r \<Rightarrow> Some r)"

definition receive ::
  "lib \<Rightarrow> 'w transport \<Rightarrow> string \<Rightarrow> room_kind \<Rightarrow> string option \<Rightarrow> nat option \<Rightarrow> 'w connector_runtime
    \<Rightarrow> (client_error + received) \<times> 'w connector_runtime" where
  "receive L T room kind worker_role limit rt =
     (case agent_pull T room None limit (rt_agent rt) of
        (Inl er, a) \<Rightarrow> (Inl er, rt\<lparr>rt_agent := a\<rparr>)
      | (Inr (page, cursor), a) \<Rightarrow>
          (case sift L (ma_id a) (ma_name a) (effective_role worker_role a) (rt_attention rt) room kind page ([], False, 0)
                  (rt_replay rt) (rt_disk rt) of
             (Inl er, g, d) \<Rightarrow> (Inl er, rt\<lparr>rt_agent := a, rt_replay := g, rt_disk := d\<rparr>)
           | (Inr (ms, held, dropped), g, d) \<Rightarrow>
               let rt1 = rt\<lparr>rt_agent := a, rt_replay := g, rt_disk := d\<rparr>;
                   rc = \<lparr>rc_room = room, rc_cursor = cursor, rc_messages = ms, rc_held = held, rc_dropped = dropped\<rparr>
               in if held \<or> ms \<noteq> []
                  then (Inr rc, rt1\<lparr>rt_agent := defer_reads room a\<rparr>)
                  else case commit_reads T room a of
                         (Inl er, a') \<Rightarrow> (Inl er, rt1\<lparr>rt_agent := a'\<rparr>)
                       | (Inr _, a') \<Rightarrow> (Inr rc, rt1\<lparr>rt_agent := a'\<rparr>)))"

section \<open>Waking the host\<close>

type_synonym 'h injector = "wake_request \<Rightarrow> 'h \<Rightarrow> (client_error + unit) \<times> 'h"

definition inject ::
  "'w transport \<Rightarrow> 'h injector \<Rightarrow> received \<Rightarrow> 'w connector_runtime \<times> 'h \<Rightarrow> (client_error + bool) \<times> 'w connector_runtime \<times> 'h" where
  "inject T hook rc s =
     (case s of (rt, host) \<Rightarrow>
        if rc_messages rc = [] then (Inr False, rt, host)
        else case hook \<lparr>wk_room = rc_room rc, wk_messages = rc_messages rc\<rparr> host of
               (Inl er, host') \<Rightarrow>
                 (case release_reservations (rc_messages rc) (rt_replay rt) (rt_disk rt) of
                    (Inl er', g, d) \<Rightarrow> (Inl er', rt\<lparr>rt_replay := g, rt_disk := d\<rparr>, host')
                  | (Inr _, g, d) \<Rightarrow> (Inl er, rt\<lparr>rt_replay := g, rt_disk := d\<rparr>, host'))
             | (Inr _, host') \<Rightarrow>
                 let rt1 = rt\<lparr>rt_replay := complete (rc_messages rc) (rt_replay rt)\<rparr>
                 in if rc_held rc then (Inr True, rt1, host')
                    else case commit_reads T (rc_room rc) (rt_agent rt1) of
                           (Inl er, a) \<Rightarrow> (Inl er, rt1\<lparr>rt_agent := a\<rparr>, host')
                         | (Inr _, a) \<Rightarrow> (Inr True, rt1\<lparr>rt_agent := a\<rparr>, host'))"

definition PUSH_RECHECK :: nat where "PUSH_RECHECK = 25000"

definition POLL_RECHECK :: nat where "POLL_RECHECK = 2000"

text \<open>
  The loop that waits for one accepted wake. The argument lists, per round, the milliseconds left until the
  deadline when the clock is read (0 past it); running past the list is \<open>None\<close>.
\<close>

fun listen_rounds ::
  "lib \<Rightarrow> 'w transport \<Rightarrow> 'h injector \<Rightarrow> string \<Rightarrow> room_kind \<Rightarrow> string option \<Rightarrow> nat option \<Rightarrow> nat list
    \<Rightarrow> 'w connector_runtime \<times> 'h \<Rightarrow> ((client_error + bool) \<times> 'w connector_runtime \<times> 'h) option" where
  "listen_rounds L T hook room kind role limit [] s = None"
| "listen_rounds L T hook room kind role limit (left # rounds) (rt, host) =
     (case receive L T room kind role limit rt of
        (Inl er, rt1) \<Rightarrow> Some (Inl er, rt1, host)
      | (Inr rc, rt1) \<Rightarrow>
          (case inject T hook rc (rt1, host) of
             (Inl er, rt2, host2) \<Rightarrow> Some (Inl er, rt2, host2)
           | (Inr True, rt2, host2) \<Rightarrow> Some (Inr True, rt2, host2)
           | (Inr False, rt2, host2) \<Rightarrow>
               if left = 0 then Some (Inr False, rt2, host2)
               else
                 let (active, a) = resubscribe_if_needed T (rt_agent rt2); rt3 = rt2\<lparr>rt_agent := a\<rparr>
                 in if active
                    then case on_agent (agent_next_delivery T (min left PUSH_RECHECK)) rt3 of
                           (Inl er, rt4) \<Rightarrow> Some (Inl er, rt4, host2)
                         | (Inr _, rt4) \<Rightarrow> listen_rounds L T hook room kind role limit rounds (rt4, host2)
                    else listen_rounds L T hook room kind role limit rounds (rt3, host2)))"

definition listen_until ::
  "lib \<Rightarrow> 'w transport \<Rightarrow> 'h injector \<Rightarrow> string \<Rightarrow> room_kind \<Rightarrow> string option \<Rightarrow> nat option \<Rightarrow> nat list
    \<Rightarrow> 'w connector_runtime \<times> 'h \<Rightarrow> ((client_error + bool) \<times> 'w connector_runtime \<times> 'h) option" where
  "listen_until L T hook room kind role limit rounds s =
     (case s of (rt, host) \<Rightarrow>
        listen_rounds L T hook room kind role limit rounds (rt\<lparr>rt_agent := snd (resubscribe_if_needed T (rt_agent rt))\<rparr>, host))"

definition admit_autonomous :: "lib \<Rightarrow> stored_message \<Rightarrow> 'w connector_runtime \<Rightarrow> (client_error + bool) \<times> 'w connector_runtime" where
  "admit_autonomous L m rt =
     (case admit L m (ma_id (rt_agent rt)) (rt_replay rt) (rt_disk rt) of (r, g, d) \<Rightarrow> (r, rt\<lparr>rt_replay := g, rt_disk := d\<rparr>))"

definition complete_autonomous :: "stored_message list \<Rightarrow> 'w connector_runtime \<Rightarrow> 'w connector_runtime" where
  "complete_autonomous ms rt = rt\<lparr>rt_replay := complete ms (rt_replay rt)\<rparr>"

definition release_autonomous :: "stored_message list \<Rightarrow> 'w connector_runtime \<Rightarrow> (client_error + unit) \<times> 'w connector_runtime" where
  "release_autonomous ms rt =
     (case release_reservations ms (rt_replay rt) (rt_disk rt) of (r, g, d) \<Rightarrow> (r, rt\<lparr>rt_replay := g, rt_disk := d\<rparr>))"

section \<open>The wake boundary\<close>

text \<open>What a message must be to wake the host.\<close>

definition wakes :: "lib \<Rightarrow> string \<Rightarrow> string \<Rightarrow> string option \<Rightarrow> attention_policy \<Rightarrow> string \<Rightarrow> room_kind \<Rightarrow> stored_message \<Rightarrow> bool" where
  "wakes L me name role p room kind m =
     (ep_id (sm_from m) \<noteq> me \<and> verify_message_for_room L m me = Valid \<and> decide p room kind m name role = Wake)"

lemma admit_pending: "admit L m me g d = (Inr True, g', d') \<Longrightarrow> \<exists>k. replay_key m = Some k \<and> rg_pending g' = insert k (rg_pending g)"
  by (auto simp: admit_def refresh_def Let_def split: if_splits option.splits sum.splits prod.splits ledger.splits bool.splits)

lemma admit_keeps_pending: "admit L m me g d = (r, g', d') \<Longrightarrow> rg_pending g \<subseteq> rg_pending g'"
  by (auto simp: admit_def refresh_def Let_def split: if_splits option.splits sum.splits prod.splits ledger.splits bool.splits)

text \<open>
  A page is partitioned: what reaches the host is what may wake it and was admitted, in order, each with its
  reservation; every other message is the agent's own, counted as dropped, or held with the page.
\<close>

lemma sift_sound:
  assumes "sift L me name role p room kind page (ms0, held0, dropped0) g d = (Inr (ms, held, dropped), g', d')"
  shows "\<exists>new. ms = ms0 @ new \<and> subseq new page \<and> (\<forall>m \<in> set new. wakes L me name role p room kind m)
      \<and> set (filter_map replay_key new) \<subseteq> rg_pending g' \<and> rg_pending g \<subseteq> rg_pending g'
      \<and> held = (held0 \<or> (\<exists>m \<in> set page. ep_id (sm_from m) \<noteq> me \<and> verify_message_for_room L m me = Valid \<and> decide p room kind m name role = Hold))
      \<and> dropped + length new = dropped0 + length (filter (\<lambda>m. ep_id (sm_from m) \<noteq> me \<and>
           (verify_message_for_room L m me \<noteq> Valid \<or> decide p room kind m name role \<noteq> Hold)) page)"
  using assms
proof (induction page arbitrary: ms0 held0 dropped0 g d)
  case (Cons m rest)
  show ?case
  proof (cases "wakes L me name role p room kind m")
    case False
    then consider "ep_id (sm_from m) = me"
      | "ep_id (sm_from m) \<noteq> me" "verify_message_for_room L m me \<noteq> Valid"
      | "ep_id (sm_from m) \<noteq> me" "verify_message_for_room L m me = Valid" "decide p room kind m name role = Hold"
      | "ep_id (sm_from m) \<noteq> me" "verify_message_for_room L m me = Valid" "decide p room kind m name role = Drop"
      unfolding wakes_def by (cases "decide p room kind m name role") auto
    then show ?thesis
    proof cases
      case 1
      with Cons.prems Cons.IH [of ms0 held0 dropped0 g d] show ?thesis by (auto intro!: list_emb_Cons)
    next
      case 2
      with Cons.prems Cons.IH [of ms0 held0 "dropped0 + 1" g d] show ?thesis by (auto intro!: list_emb_Cons)
    next
      case 3
      with Cons.prems Cons.IH [of ms0 True dropped0 g d] show ?thesis by (auto intro!: list_emb_Cons)
    next
      case 4
      with Cons.prems Cons.IH [of ms0 held0 "dropped0 + 1" g d] show ?thesis by (auto intro!: list_emb_Cons)
    qed
  next
    case w: True
    obtain r g1 d1 where a: "admit L m me g d = (r, g1, d1)" by (metis prod_cases3)
    have w': "ep_id (sm_from m) \<noteq> me" "verify_message_for_room L m me = Valid" "decide p room kind m name role = Wake"
      using w by (auto simp: wakes_def)
    note pk = admit_keeps_pending [OF a]
    show ?thesis
    proof (cases "r = Inr True")
      case True
      with Cons.prems a w' have "sift L me name role p room kind rest (ms0 @ [m], held0, dropped0) g1 d1 = (Inr (ms, held, dropped), g', d')" by simp
      from Cons.IH [OF this] obtain new where new: "ms = ms0 @ m # new" "subseq new rest" "\<forall>m \<in> set new. wakes L me name role p room kind m"
        "set (filter_map replay_key new) \<subseteq> rg_pending g'" "rg_pending g1 \<subseteq> rg_pending g'"
        "held = (held0 \<or> (\<exists>m \<in> set rest. ep_id (sm_from m) \<noteq> me \<and> verify_message_for_room L m me = Valid \<and> decide p room kind m name role = Hold))"
        "dropped + length new = dropped0 + length (filter (\<lambda>m. ep_id (sm_from m) \<noteq> me \<and>
           (verify_message_for_room L m me \<noteq> Valid \<or> decide p room kind m name role \<noteq> Hold)) rest)" by auto
      from admit_pending [OF a [unfolded True]] obtain k where k: "replay_key m = Some k" "rg_pending g1 = insert k (rg_pending g)" by blast
      show ?thesis using new w w' k pk by (intro exI [of _ "m # new"]) auto
    next
      case False
      then have "r = Inr False" using Cons.prems a w' by (cases r) (auto split: bool.splits)
      with Cons.prems a w' have "sift L me name role p room kind rest (ms0, held0, dropped0 + 1) g1 d1 = (Inr (ms, held, dropped), g', d')" by simp
      from Cons.IH [OF this] pk w' show ?thesis by (auto intro!: list_emb_Cons; blast)
    qed
  qed
qed simp

section \<open>Retrying after a failed wake\<close>

text \<open>A guard whose ledger can be read, on a disk without faults ahead.\<close>

definition guard_ready :: "replay_guard \<Rightarrow> disk \<Rightarrow> bool" where
  "guard_ready g d =
     (dk_script d = [] \<and> (case rg_path g of None \<Rightarrow> rg_loaded g \<and> bucket_ok (rg_bucket g) | Some p \<Rightarrow> dk_ledger d p \<noteq> Garbage))"

definition known :: "replay_guard \<Rightarrow> disk \<Rightarrow> replay_bucket" where
  "known g d =
     (case rg_path g of
        None \<Rightarrow> rg_bucket g
      | Some p \<Rightarrow> (case dk_ledger d p of Keys ks \<Rightarrow> bucket_of ks | _ \<Rightarrow> bucket_default))"

lemma known_ok: "guard_ready g d \<Longrightarrow> bucket_ok (known g d)"
  by (auto simp: guard_ready_def known_def bucket_of_ok split: option.splits ledger.splits)

lemma ready_steps:
  assumes "guard_ready g d"
  shows "lock_file g d = (Inr (), d)" "refresh g d = (Inr (g\<lparr>rg_bucket := known g d, rg_loaded := True\<rparr>), d)"
  using assms by (auto simp: guard_ready_def lock_file_def refresh_def known_def io_turn_def split: option.splits ledger.splits)

lemma ready_save:
  assumes "dk_script d = []"
  shows "save_bucket g d =
     (Inr (), case rg_path g of None \<Rightarrow> d | Some p \<Rightarrow> d\<lparr>dk_ledger := (dk_ledger d)(p := Keys (rb_order (rg_bucket g)))\<rparr>)"
  using assms by (auto simp: save_bucket_def io_turn_def split: option.splits)

text \<open>Without faults a message is admitted exactly if it verifies and its key is not known.\<close>

lemma ready_admits:
  assumes "guard_ready g d"
  shows "fst (admit L m me g d) =
     Inr (verify_message_for_room L m me = Valid \<and> (\<exists>k. replay_key m = Some k \<and> k \<notin> rb_completed (known g d)))"
  using assms by (auto simp: admit_def ready_steps ready_save guard_ready_def Let_def split: option.splits)

lemma freed_path [simp]: "rg_path (freed ks g) = rg_path g"
  by (simp add: freed_def)

lemma release_readmits:
  assumes "guard_ready g d" "set (filter_map replay_key ms) \<subseteq> rg_pending g"
    and "release_reservations ms g d = (r, g', d')"
  shows "r = Inr ()" "guard_ready g' d'" "\<And>k. k \<in> set (filter_map replay_key ms) \<Longrightarrow> k \<notin> rb_completed (known g' d')"
proof -
  let ?ks = "filter_map replay_key ms"
  let ?g1 = "g\<lparr>rg_bucket := known g d, rg_loaded := True\<rparr>"
  let ?g2 = "freed ?ks ?g1"
  have ok: "bucket_ok (known g d)" by (rule known_ok [OF assms(1)])
  have sc: "dk_script d = []" using assms(1) by (simp add: guard_ready_def)
  define dirty where "dirty = (set ?ks \<inter> rg_pending g \<inter> rb_completed (known g d) \<noteq> {})"
  have rk: "release_keys ?ks False ?g1 = (dirty, ?g2)"
    using release_keys_freed [of ?g1 ?ks False] ok by (simp add: dirty_def)
  have ok2: "bucket_ok (rg_bucket ?g2)" using ok by (auto simp: freed_def bucket_ok_def)
  have cut: "k \<in> set ?ks \<Longrightarrow> k \<notin> rb_completed (rg_bucket ?g2)" for k using assms(2) by (auto simp: freed_def)
  have "release_reservations ms g d = (Inr (), ?g2, if dirty then snd (save_bucket ?g2 d) else d)"
    by (cases dirty) (simp_all add: release_reservations_def ready_steps [OF assms(1)] rk ready_save [OF sc])
  with assms(3) have g': "g' = ?g2" "r = Inr ()" and d': "d' = (if dirty then snd (save_bucket ?g2 d) else d)" by simp_all
  from g'(2) show "r = Inr ()" .
  have len: "length (rb_order (known g d)) \<le> REPLAY_CAP" if "rg_path g = Some p" for p
    using that bucket_of_ok(2) by (auto simp: known_def split: ledger.splits)
  show "guard_ready g' d'"
    using assms(1) ok2 unfolding g' d' ready_save [OF sc]
    by (auto simp: guard_ready_def split: option.splits) (simp_all add: freed_def)
  fix k assume k: "k \<in> set ?ks"
  show "k \<notin> rb_completed (known g' d')"
  proof (cases "rg_path g")
    case None
    then show ?thesis using cut [OF k] by (simp add: g' known_def)
  next
    case (Some p)
    show ?thesis
    proof (cases dirty)
      case True
      have "length (rb_order (rg_bucket ?g2)) \<le> REPLAY_CAP"
        using len [OF Some] by (auto simp: freed_def intro: order.trans [OF length_filter_le])
      from bucket_of_same [OF _ this] ok2 have "rb_completed (known g' d') = rb_completed (rg_bucket ?g2)"
        using True Some by (simp add: g' d' known_def ready_save [OF sc] bucket_ok_def)
      with cut [OF k] show ?thesis by simp
    next
      case False
      with k assms(2) dirty_def have "k \<notin> rb_completed (known g d)" by auto
      with False Some show ?thesis by (simp add: g' d' known_def)
    qed
  qed
qed

text \<open>
  When the host refuses a wake, its reservations are given back and the read stays held: the same messages
  are admitted again.
\<close>

lemma failed_wake_retried:
  assumes "inject T hook rc (rt, host) = (r, rt', host')" "rc_messages rc \<noteq> []"
    and "fst (hook \<lparr>wk_room = rc_room rc, wk_messages = rc_messages rc\<rparr> host) = Inl er"
    and "guard_ready (rt_replay rt) (rt_disk rt)" "set (filter_map replay_key (rc_messages rc)) \<subseteq> rg_pending (rt_replay rt)"
  shows "r = Inl er" "rt_agent rt' = rt_agent rt"
    and "m \<in> set (rc_messages rc) \<Longrightarrow> verify_message_for_room L m me = Valid \<Longrightarrow> replay_key m = Some k \<Longrightarrow>
      fst (admit L m me (rt_replay rt') (rt_disk rt')) = Inr True"
proof -
  obtain h where h: "hook \<lparr>wk_room = rc_room rc, wk_messages = rc_messages rc\<rparr> host = (Inl er, h)" using assms(3) by (metis prod.collapse)
  obtain q g d where q: "release_reservations (rc_messages rc) (rt_replay rt) (rt_disk rt) = (q, g, d)" by (metis prod_cases3)
  note rr = release_readmits [OF assms(4,5) q]
  have rt': "r = Inl er" "rt' = rt\<lparr>rt_replay := g, rt_disk := d\<rparr>" using assms(1,2) h q rr(1) by (auto simp: inject_def)
  then show "r = Inl er" "rt_agent rt' = rt_agent rt" by simp_all
  assume m: "m \<in> set (rc_messages rc)" "verify_message_for_room L m me = Valid" "replay_key m = Some k"
  then have "k \<in> set (filter_map replay_key (rc_messages rc))" by (auto simp: set_filter_map)
  from rr(3) [OF this] m show "fst (admit L m me (rt_replay rt') (rt_disk rt')) = Inr True"
    by (simp add: ready_admits [OF rr(2)] rt')
qed

section \<open>A receive\<close>

lemma receive_sound:
  assumes "receive L T room kind worker_role limit rt = (Inr rc, rt')"
  shows "\<exists>page cursor a. agent_pull T room None limit (rt_agent rt) = (Inr (page, cursor), a)
    \<and> subseq (rc_messages rc) page
    \<and> (\<forall>m \<in> set (rc_messages rc). wakes L (ma_id a) (ma_name a) (effective_role worker_role a) (rt_attention rt) room kind m)
    \<and> set (filter_map replay_key (rc_messages rc)) \<subseteq> rg_pending (rt_replay rt')
    \<and> (rc_held rc \<or> rc_messages rc \<noteq> [] \<longrightarrow> rt_agent rt' = defer_reads room a)
    \<and> rc_dropped rc + length (rc_messages rc) = length (filter (\<lambda>m. ep_id (sm_from m) \<noteq> ma_id a \<and>
        (verify_message_for_room L m (ma_id a) \<noteq> Valid
         \<or> decide (rt_attention rt) room kind m (ma_name a) (effective_role worker_role a) \<noteq> Hold)) page)"
proof -
  obtain page cursor a where p: "agent_pull T room None limit (rt_agent rt) = (Inr (page, cursor), a)"
    using assms by (auto simp: receive_def split: prod.splits sum.splits)
  obtain ms held dropped g d where s: "sift L (ma_id a) (ma_name a) (effective_role worker_role a) (rt_attention rt) room kind page
      ([], False, 0) (rt_replay rt) (rt_disk rt) = (Inr (ms, held, dropped), g, d)"
    using assms p by (auto simp: receive_def split: prod.splits sum.splits)
  have rc: "rc_messages rc = ms" "rc_held rc = held" "rc_dropped rc = dropped" "rt_replay rt' = g"
    "held \<or> ms \<noteq> [] \<Longrightarrow> rt_agent rt' = defer_reads room a"
    using assms p s by (auto simp: receive_def Let_def split: if_splits prod.splits sum.splits)
  from sift_sound [OF s] p rc show ?thesis by (intro exI [of _ page] exI [of _ cursor] exI [of _ a]) auto
qed

section \<open>Properties\<close>

text \<open>C7: The wake boundary. Whatever the hub returns for a pull, the messages a receive hands to the host
  are a subsequence of the page, each written by another agent, signed by it for this very room, accepted by
  the attention policy and freshly reserved with the replay guard; the reads of the room then stay held; and
  the rest of the page is the agent's own messages, what the policy holds, and what is counted as dropped.\<close>

theorem wake_boundary:
  assumes "receive L T room kind worker_role limit rt = (Inr rc, rt')"
  shows "\<exists>page cursor a. agent_pull T room None limit (rt_agent rt) = (Inr (page, cursor), a)
    \<and> subseq (rc_messages rc) page
    \<and> (\<forall>m \<in> set (rc_messages rc). wakes L (ma_id a) (ma_name a) (effective_role worker_role a) (rt_attention rt) room kind m)
    \<and> set (filter_map replay_key (rc_messages rc)) \<subseteq> rg_pending (rt_replay rt')
    \<and> (rc_held rc \<or> rc_messages rc \<noteq> [] \<longrightarrow> rt_agent rt' = defer_reads room a)
    \<and> rc_dropped rc + length (rc_messages rc) = length (filter (\<lambda>m. ep_id (sm_from m) \<noteq> ma_id a \<and>
        (verify_message_for_room L m (ma_id a) \<noteq> Valid
         \<or> decide (rt_attention rt) room kind m (ma_name a) (effective_role worker_role a) \<noteq> Hold)) page)"
  using assms by (rule receive_sound)

definition demo_signed :: "string \<Rightarrow> string \<Rightarrow> int \<Rightarrow> stored_message" where
  "demo_signed author uid q =
     \<lparr>sm_seq = q, sm_id = ''m'', sm_room = ''lab'', sm_from = \<lparr>ep_id = author, ep_name = author, ep_role = None\<rparr>,
      sm_parts = [Text ''go'', sig_to_part \<lparr>ms_sig = ''al'', ms_ts = 1, ms_uid = uid, ms_target = TRoom ''lab''\<rparr>],
      sm_mentions = None, sm_reply_to = None, sm_ts = 1\<rparr>"

text \<open>A hub that serves one page: an authentic message, the same again under another number, one of the own and a forged one.\<close>

definition demo_hub :: "unit transport" where
  "demo_hub =
     \<lparr>tr_request = (\<lambda>f w. case f of
          Pull room since limit wait ack \<Rightarrow>
            (Inr (Pulled room (if limit = Some 0 then [] else
               [demo_signed ''al'' ''u1'' 1, demo_signed ''al'' ''u1'' 2, demo_signed ''bo'' ''u2'' 3, demo_signed ''eve'' ''u3'' 4]) 4), w)
        | _ \<Rightarrow> (Inl (Plain []), w)),
      tr_subscribe = (\<lambda>w. (Inr False, w)), tr_next_delivery = (\<lambda>n w. (Inr None, w)),
      tr_upload = (\<lambda>f b w. (Inl (Plain []), w)), tr_download = (\<lambda>f w. (Inl (Plain []), w)),
      tr_connect = (\<lambda>url idn name role w. (Inl (Plain []), w))\<rparr>"

definition demo_disk :: disk where
  "demo_disk = \<lparr>dk_ledger = (\<lambda>p. Absent), dk_script = []\<rparr>"

definition demo_runtime :: "unit connector_runtime" where
  "demo_runtime = runtime_persistent demo_lib ''/h'' (with_transport () ''bo'' ''Bo'' None ''ws://h'') attention_default demo_disk"

abbreviation demo_receive :: "(client_error + received) \<times> unit connector_runtime" where
  "demo_receive \<equiv> receive demo_lib demo_hub ''lab'' Channel None None demo_runtime"

definition demo_received :: received where
  "demo_received = (case fst demo_receive of Inr rc \<Rightarrow> rc | Inl er \<Rightarrow> \<lparr>rc_room = [], rc_cursor = 0, rc_messages = [], rc_held = False, rc_dropped = 0\<rparr>)"

lemma demo_receive_ok: "demo_receive = (Inr demo_received, snd demo_receive)"
proof -
  have "case fst demo_receive of Inr rc \<Rightarrow> True | Inl er \<Rightarrow> False" by code_simp
  then have "fst demo_receive = Inr demo_received" unfolding demo_received_def by (cases "fst demo_receive") auto
  then show ?thesis by (metis prod.collapse)
qed

theorem wake_boundary_witness:
  "map sm_seq (rc_messages demo_received) = [1] \<and> rc_dropped demo_received = 2 \<and>
   set (filter_map replay_key (rc_messages demo_received)) \<subseteq> rg_pending (rt_replay (snd demo_receive))"
proof -
  have "map sm_seq (rc_messages demo_received) = [1] \<and> rc_dropped demo_received = 2" by code_simp
  with wake_boundary [OF demo_receive_ok] show ?thesis by blast
qed

text \<open>C6: Autonomous work starts once per signed message. However the guards of several processes that share
  a ledger interleave admissions, completions and releases, and whatever locks, reads and writes fail, between
  two admissions of the same sender and signed uid the reservation was released, or at least \<open>REPLAY_CAP\<close>
  other messages were admitted.\<close>

theorem replay_admitted_once:
  assumes "\<forall>i. rg_path (gs i) = Some p"
    and "fst (guard_run L me ops (gs, d)) = pre @ Admitted k # mid @ Admitted k # rest"
  shows "Released k \<in> set mid \<or> REPLAY_CAP \<le> length (filter (\<lambda>e. \<exists>k. e = Admitted k) mid)"
proof -
  obtain evs gs' d' where r: "guard_run L me ops (gs, d) = (evs, gs', d')" by (metis prod_cases3)
  from admitted_once [OF r, of p pre k mid rest] assms r show ?thesis by (simp add: sharing_def admits_in_def)
qed

abbreviation demo_guards :: "replay_event list" where
  "demo_guards \<equiv> fst (guard_run demo_lib ''bo''
     [Admit 1 (demo_signed ''al'' ''u1'' 1), Admit 2 (demo_signed ''al'' ''u1'' 2), Release 2 [demo_signed ''al'' ''u1'' 2],
      Release 1 [demo_signed ''al'' ''u1'' 1], Admit 2 (demo_signed ''al'' ''u1'' 3)]
     (\<lambda>i. guard_persistent demo_lib ''/h'' ''bo'', demo_disk))"

theorem replay_admitted_once_witness:
  "demo_guards = [] @ Admitted ''al:u1'' # [Released ''al:u1''] @ Admitted ''al:u1'' # [] \<and>
   (Released ''al:u1'' \<in> set [Released ''al:u1''] \<or> REPLAY_CAP \<le> length (filter (\<lambda>e. \<exists>k. e = Admitted k) [Released ''al:u1'']))"
proof -
  have e: "demo_guards = [] @ Admitted ''al:u1'' # [Released ''al:u1''] @ Admitted ''al:u1'' # []" by code_simp
  have "\<forall>i. rg_path ((\<lambda>i::nat. guard_persistent demo_lib ''/h'' ''bo'') i) =
      Some (path_join (path_join ''/h'' ''autonomous-replay'') (lb_content_id demo_lib ''bo'' @ ''.json''))"
    by (simp add: guard_persistent_def)
  from replay_admitted_once [OF this e] e show ?thesis by (rule conjI [rotated])
qed


abbreviation demo_inject :: "(client_error + bool) \<times> unit connector_runtime \<times> unit" where
  "demo_inject \<equiv> inject demo_hub (\<lambda>wk h. (Inl Disconnected, h)) demo_received (snd demo_receive, ())"


end
