(* ===== verification/Worker.thy ===== *)
theory Worker
  imports Runtime
begin

text \<open>
  The autonomous worker (\<^verbatim>\<open>parler-cli/src/worker.rs\<close>): it long-polls a room or a service one message at a
  time, lets authentic requests through the replay guard and an hourly rate gate, runs a headless agent turn
  on them and posts signed lifecycle messages. The process that executes a turn is a parameter, and so is
  serde's reader of a handoff; clocks and drawn identifiers are in the script of a run.
\<close>

section \<open>Requests\<close>

datatype work_source = FromRoom | FromService

record work_options =
  wo_source :: work_source
  wo_all_messages :: bool
  wo_allow_from :: "string list"
  wo_max_per_hour :: nat
  wo_timeout :: nat
  wo_once :: bool

record work_report =
  wr_handled :: nat
  wr_last_response_room :: "string option"

datatype runner_failure =
    NotInstalled string
  | NotAuthed string
  | TimedOut string nat
  | RunFailed string string

fun remedy :: "runner_failure \<Rightarrow> string" where
  "remedy (NotInstalled runner) = CHR 0x27 # runner @ CHR 0x27 # '' is not installed (not on PATH); install it, then restart the worker''"
| "remedy (NotAuthed runner) =
     CHR 0x27 # runner @ CHR 0x27 # '' is not logged in; run `'' @ (if runner = ''claude'' then ''claude auth login'' else ''codex login'')
       @ ''`, then restart the worker''"
| "remedy (TimedOut runner secs) = runner @ '' exceeded the '' @ show_nat secs @ ''s turn timeout''"
| "remedy (RunFailed runner detail) = runner @ '' failed: '' @ detail"

datatype ignore_reason = OwnMessage | Untrusted | Disallowed | NotAddressed | Lifecycle | NonActionable

record work_item =
  wi_task_id :: string
  wi_sender_id :: string
  wi_sender_name :: string
  wi_instruction :: string
  wi_summary :: "string option"
  wi_context :: "string option"
  wi_bundle :: "string option"
  wi_had_task_ref :: bool

datatype selection = Work work_item | Ignore ignore_reason

definition message_text :: "stored_message \<Rightarrow> string option" where
  "message_text m =
     (let text = join_with [CHR 10] (filter (\<lambda>t. t \<noteq> []) (filter_map (\<lambda>p. case p of Text t \<Rightarrow> Some (trim t) | _ \<Rightarrow> None) (sm_parts m)))
      in if text = [] then None else Some text)"

definition has_task_ref :: "stored_message \<Rightarrow> bool" where
  "has_task_ref m = list_ex (\<lambda>p. task_from_part p \<noteq> None) (sm_parts m)"

definition handoff_for_me :: "string \<Rightarrow> string \<Rightarrow> string option \<Rightarrow> handoff_ref \<Rightarrow> bool" where
  "handoff_for_me my_id my_name my_role h =
     (handoff_is_for h my_name my_role \<or> (case ho_to h of None \<Rightarrow> False | Some t \<Rightarrow> eq_ignore_ascii_case t my_id))"

definition select_message :: "stored_message \<Rightarrow> sig_status \<Rightarrow> string \<Rightarrow> string \<Rightarrow> string option \<Rightarrow> work_options \<Rightarrow> selection" where
  "select_message m trusted my_id my_name my_role opts =
     (if ep_id (sm_from m) = my_id then Ignore OwnMessage
      else if trusted \<noteq> Valid then Ignore Untrusted
      else if wo_allow_from opts \<noteq> [] \<and> ep_id (sm_from m) \<notin> set (wo_allow_from opts) then Ignore Disallowed
      else
        let handoffs = filter_map handoff_from_part (sm_parts m)
        in if handoffs \<noteq> []
           then case find (handoff_for_me my_id my_name my_role) handoffs of
                  Some h \<Rightarrow>
                    if trim (ho_next h) \<noteq> []
                    then Work \<lparr>wi_task_id = sm_id m, wi_sender_id = ep_id (sm_from m), wi_sender_name = ep_name (sm_from m),
                               wi_instruction = ho_next h, wi_summary = ho_summary h, wi_context = message_text m,
                               wi_bundle = ho_bundle h, wi_had_task_ref = has_task_ref m\<rparr>
                    else Ignore NonActionable
                | None \<Rightarrow> Ignore NotAddressed
           else if has_task_ref m then Ignore Lifecycle
           else case message_text m of
                  None \<Rightarrow> Ignore NonActionable
                | Some text \<Rightarrow>
                    if trim text = [] then Ignore NonActionable
                    else if \<not> (wo_source opts = FromService \<or> wo_all_messages opts) then Ignore NotAddressed
                    else Work \<lparr>wi_task_id = sm_id m, wi_sender_id = ep_id (sm_from m), wi_sender_name = ep_name (sm_from m),
                               wi_instruction = text, wi_summary = None, wi_context = None, wi_bundle = None,
                               wi_had_task_ref = False\<rparr>)"

section \<open>Prompt and result\<close>

definition nl :: string where "nl = [CHR 10]"

definition build_prompt :: "work_item \<Rightarrow> string \<Rightarrow> work_source \<Rightarrow> string" where
  "build_prompt item room source =
     ''You are the autonomous worker for Parler room '' @ [CHR 0x27] @ room @ [CHR 0x27] @
     ''. A cryptographically signed peer assigned you the task below. Execute the task now in the current workspace; do not merely '' @
     ''summarize the request or report that you received it. Follow the repository'' @ [CHR 0x27] @ ''s AGENTS.md '' @
     ''and local engineering rules, make the necessary changes or investigation, and verify the '' @
     ''result in proportion to risk. Do not call Parler or wait for another room message: the '' @
     ''worker daemon will post your final response and any requested continuation. If genuinely '' @
     ''blocked, state the exact missing input in your final response.'' @ nl @ nl @ ''Sender: '' @ wi_sender_name item @ '' ('' @ wi_sender_id item @
     '')'' @ nl @ ''Task id: '' @ wi_task_id item @ nl @
     (case wi_summary item of None \<Rightarrow> [] | Some s \<Rightarrow> ''Prior state: '' @ s @ nl) @
     (case wi_context item of None \<Rightarrow> [] | Some s \<Rightarrow> ''Peer context: '' @ s @ nl) @
     (case wi_bundle item of None \<Rightarrow> []
      | Some s \<Rightarrow> ''Attached bundle id: '' @ s @ '' (inspect explicitly if needed; never auto-merge it)'' @ nl) @
     (if source = FromRoom
      then nl @ ''If another room member must continue after you, put exactly one addressed '' @
        ''continuation on the final non-empty line (JSON on one line):'' @ nl @
        ''PARLER_HANDOFF {\"to\":\"agent-name-or-role\",\"next\":\"specific next task\",'' @
        ''\"summary\":\"what you completed\"}'' @ nl @
        ''Otherwise do not include PARLER_HANDOFF. The daemon validates and posts it; never run '' @
        ''Parler yourself.'' @ nl
      else []) @
     nl @ ''TASK TO EXECUTE:'' @ nl @ wi_instruction item"

record runner_result =
  rr_body :: string
  rr_continuation :: "handoff_ref option"

definition HANDOFF_MARKER :: string where "HANDOFF_MARKER = ''PARLER_HANDOFF ''"

text \<open>\<^verbatim>\<open>rsplit_once\<close>: around the last newline.\<close>

definition rsplit_once :: "char \<Rightarrow> string \<Rightarrow> (string \<times> string) option" where
  "rsplit_once c s =
     (if c \<in> set s then Some (rev (tl (dropWhile (\<lambda>x. x \<noteq> c) (rev s))), rev (takeWhile (\<lambda>x. x \<noteq> c) (rev s))) else None)"

definition parse_runner_result :: "(string \<Rightarrow> handoff_ref option) \<Rightarrow> string \<Rightarrow> runner_result" where
  "parse_runner_result parse output0 =
     (let output = trim output0; whole = \<lparr>rr_body = output, rr_continuation = None\<rparr>
      in case rsplit_once (CHR 10) output of
           None \<Rightarrow> whole
         | Some (body, final_line) \<Rightarrow>
             (case strip_prefix HANDOFF_MARKER (trim final_line) of
                None \<Rightarrow> whole
              | Some payload \<Rightarrow>
                  (case parse payload of
                     None \<Rightarrow> whole
                   | Some h \<Rightarrow>
                       if trim body = [] \<or> trim (ho_next h) = [] \<or> (case ho_to h of None \<Rightarrow> True | Some t \<Rightarrow> trim t = []) then whole
                       else \<lparr>rr_body = trim body, rr_continuation = Some h\<rparr>)))"

text \<open>\<^verbatim>\<open>clip\<close> counts characters and ends with an ellipsis.\<close>

definition ellipsis :: string where "ellipsis = [CHR 0xE2, CHR 0x80, CHR 0xA6]"

definition clip :: "string \<Rightarrow> nat \<Rightarrow> string" where
  "clip value max_chars =
     (if chars_count value \<le> max_chars then value else concat (take (max_chars - 1) (utf8_chars value)) @ ellipsis)"

definition MAX_RESULT_CHARS :: nat where "MAX_RESULT_CHARS = 16000"

definition MAX_ERROR_CHARS :: nat where "MAX_ERROR_CHARS = 1000"

section \<open>Rate gate\<close>

record rate_gate =
  rgt_max :: nat
  rgt_starts :: "nat list"

definition rate_gate_new :: "nat \<Rightarrow> rate_gate" where
  "rate_gate_new m = \<lparr>rgt_max = m, rgt_starts = []\<rparr>"

definition HOUR_MS :: nat where "HOUR_MS = 3600000"

text \<open>Times are milliseconds; the difference saturates at zero.\<close>

definition rate_admit :: "nat \<Rightarrow> rate_gate \<Rightarrow> bool \<times> rate_gate" where
  "rate_admit now g =
     (if rgt_max g = 0 then (True, g)
      else
        let starts = dropWhile (\<lambda>s. HOUR_MS \<le> now - s) (rgt_starts g)
        in if rgt_max g \<le> length starts then (False, g\<lparr>rgt_starts := starts\<rparr>)
           else (True, g\<lparr>rgt_starts := starts @ [now]\<rparr>))"

section \<open>The process of a turn\<close>

text \<open>
  What the operating system did: the error file or the program could not be opened, the child's input or exit
  could not be awaited, the time ran out, or it exited with what the error file and the output file hold.
\<close>

datatype process_end =
    NoErrorFile string
  | NoOutputFile string
  | NoProgram
  | SpawnFailed string
  | WaitFailed string
  | OutOfTime
  | Exited bool string string string

definition tail_chars :: "string \<Rightarrow> nat \<Rightarrow> string" where
  "tail_chars contents max_chars =
     (let value = trim contents; cs = utf8_chars value
      in if length cs \<le> max_chars then value else concat (drop (length cs - max_chars) cs))"

definition contains :: "string \<Rightarrow> string \<Rightarrow> bool" where
  "contains s pat = (rfind pat s \<noteq> None)"

definition looks_like_auth_failure :: "string \<Rightarrow> bool" where
  "looks_like_auth_failure value =
     (let v = to_ascii_lowercase value
      in contains v ''login'' \<or> contains v ''unauthor'' \<or> contains v ''not authenticated'' \<or> contains v ''401'')"

text \<open>\<open>Exited ok shown err out\<close>: whether it succeeded, how its status prints, and the two files.\<close>

fun run_process :: "string \<Rightarrow> nat \<Rightarrow> process_end \<Rightarrow> runner_failure + string" where
  "run_process runner timeout_secs (NoErrorFile msg) = Inl (RunFailed runner msg)"
| "run_process runner timeout_secs (NoOutputFile msg) = Inl (RunFailed runner msg)"
| "run_process runner timeout_secs NoProgram = Inl (NotInstalled runner)"
| "run_process runner timeout_secs (SpawnFailed msg) = Inl (RunFailed runner msg)"
| "run_process runner timeout_secs (WaitFailed msg) = Inl (RunFailed runner msg)"
| "run_process runner timeout_secs OutOfTime = Inl (TimedOut runner timeout_secs)"
| "run_process runner timeout_secs (Exited ok shown err out) =
     (if \<not> ok
      then let detail = tail_chars err MAX_ERROR_CHARS
           in if looks_like_auth_failure detail then Inl (NotAuthed runner)
              else Inl (RunFailed runner (if detail = [] then ''exited with '' @ shown else detail))
      else let output = trim out
           in if output = [] then Inl (RunFailed runner ''produced no final response'')
              else Inr (clip output MAX_RESULT_CHARS))"

section \<open>Posting\<close>

definition post_working ::
  "lib \<Rightarrow> (string \<Rightarrow> string \<Rightarrow> string option) \<Rightarrow> 'w transport \<Rightarrow> send_draw \<Rightarrow> string \<Rightarrow> work_item \<Rightarrow> string \<Rightarrow> 'w mesh_agent
    \<Rightarrow> ('w, string \<times> int \<times> string) outcome" where
  "post_working L sign T d room item runner =
     agent_send L sign T d (TRoom room)
       [task_to_part \<lparr>tk_status = Working, tk_task = Some (wi_task_id item), tk_note = Some (runner @ '' is executing the request''),
                      tk_result = None, tk_tokens = None, tk_elapsed_ms = None\<rparr>]
       None (Some (wi_task_id item))"

record terminal_result =
  te_status :: task_status
  te_body :: string
  te_elapsed_ms :: nat
  te_continuation :: "handoff_ref option"

definition robot :: string where "robot = [CHR 0xF0, CHR 0x9F, CHR 0xA4, CHR 0x96]"

definition warning :: string where "warning = [CHR 0xE2, CHR 0x9A, CHR 0xA0]"

definition return_turn :: "work_item \<Rightarrow> handoff_ref" where
  "return_turn item =
     \<lparr>ho_next = ''Use the completed worker result above to continue the original task. Act '' @ ''on it now; do not merely summarize it.'',
      ho_summary = Some (''worker completed task '' @ wi_task_id item), ho_to = Some (wi_sender_name item), ho_bundle = None\<rparr>"

text \<open>The next turn a result asks for: the runner's own, or one return to the sender of a fresh request.\<close>

definition continuation_of :: "work_source \<Rightarrow> work_item \<Rightarrow> terminal_result \<Rightarrow> handoff_ref option" where
  "continuation_of source item res =
     (if source = FromRoom \<and> te_status res = Done
      then case te_continuation res of
             Some h \<Rightarrow> Some h
           | None \<Rightarrow> if \<not> wi_had_task_ref item then Some (return_turn item) else None
      else None)"

definition terminal_parts :: "work_source \<Rightarrow> work_item \<Rightarrow> terminal_result \<Rightarrow> part list" where
  "terminal_parts source item res =
     [Text (if te_status res = Done then robot @ '' autonomous worker result:'' @ nl @ nl @ te_body res
            else warning @ '' autonomous worker could not complete the task: '' @ te_body res),
      task_to_part \<lparr>tk_status = te_status res, tk_task = Some (wi_task_id item),
                    tk_note = (if te_status res = Failed then Some (te_body res) else None), tk_result = None, tk_tokens = None,
                    tk_elapsed_ms = Some (te_elapsed_ms res)\<rparr>]
     @ (case continuation_of source item res of None \<Rightarrow> [] | Some h \<Rightarrow> [handoff_to_part h])"

definition terminal_mentions :: "work_item \<Rightarrow> handoff_ref option \<Rightarrow> string list" where
  "terminal_mentions item cont =
     [wi_sender_name item]
     @ (case Option.bind cont ho_to of
          None \<Rightarrow> []
        | Some t \<Rightarrow> if eq_ignore_ascii_case (wi_sender_name item) t then [] else [t])"

definition post_terminal ::
  "lib \<Rightarrow> (string \<Rightarrow> string \<Rightarrow> string option) \<Rightarrow> 'w transport \<Rightarrow> send_draw \<times> send_draw \<Rightarrow> string \<Rightarrow> work_source \<Rightarrow> work_item \<Rightarrow> terminal_result
    \<Rightarrow> 'w mesh_agent \<Rightarrow> ('w, string) outcome" where
  "post_terminal L sign T ds room source item res a =
     (let parts = terminal_parts source item res
      in case source of
           FromRoom \<Rightarrow>
             (case agent_send L sign T (fst ds) (TRoom room) parts (Some (terminal_mentions item (continuation_of source item res)))
                     (Some (wi_task_id item)) a of
                (Inl er, a') \<Rightarrow> (Inl er, a')
              | (Inr (i, q, response_room), a') \<Rightarrow> (Inr response_room, a'))
         | FromService \<Rightarrow>
             (case agent_send L sign T (fst ds) (TDm (wi_sender_id item)) parts None None a of
                (Inr (i, q, response_room), a') \<Rightarrow> (Inr response_room, a')
              | (Inl er, a') \<Rightarrow>
                  (case agent_send L sign T (snd ds) (TRoom room) parts (Some [wi_sender_name item]) (Some (wi_task_id item)) a' of
                     (Inl er', a'') \<Rightarrow> (Inl er', a'')
                   | (Inr (i, q, response_room), a'') \<Rightarrow> (Inr response_room, a''))))"

section \<open>The loop\<close>

text \<open>Per message: the clock, the length of the turn and the draws of the sends. Per round: the readings of the wait.\<close>

record message_turn =
  mt_now :: nat
  mt_elapsed :: nat
  mt_working :: send_draw
  mt_terminal :: "send_draw \<times> send_draw"

record ('w, 'h) worker =
  wk_agent :: "'w mesh_agent"
  wk_rate :: rate_gate
  wk_replay :: replay_guard
  wk_disk :: disk
  wk_host :: 'h
  wk_report :: work_report

record 'h runner =
  rn_name :: string
  rn_run :: "string \<Rightarrow> 'h \<Rightarrow> (runner_failure + string) \<times> 'h"

definition and_then :: "('e + 'a) \<times> 's \<Rightarrow> ('a \<Rightarrow> 's \<Rightarrow> ('e + 'b) \<times> 's) \<Rightarrow> ('e + 'b) \<times> 's" where
  "and_then r k = (case r of (Inl er, s) \<Rightarrow> (Inl er, s) | (Inr x, s) \<Rightarrow> k x s)"

definition by_agent :: "('w mesh_agent \<Rightarrow> ('w, 'a) outcome) \<Rightarrow> ('w, 'h) worker \<Rightarrow> (client_error + 'a) \<times> ('w, 'h) worker" where
  "by_agent op w = (let (r, a) = op (wk_agent w) in (r, w\<lparr>wk_agent := a\<rparr>))"

definition by_guard ::
  "(replay_guard \<Rightarrow> disk \<Rightarrow> (client_error + 'a) \<times> replay_guard \<times> disk) \<Rightarrow> ('w, 'h) worker \<Rightarrow> (client_error + 'a) \<times> ('w, 'h) worker" where
  "by_guard op w = (let (r, g, d) = op (wk_replay w) (wk_disk w) in (r, w\<lparr>wk_replay := g, wk_disk := d\<rparr>))"

definition count_handled :: "string \<Rightarrow> ('w, 'h) worker \<Rightarrow> ('w, 'h) worker" where
  "count_handled response_room w =
     w\<lparr>wk_report := \<lparr>wr_handled = wr_handled (wk_report w) + 1, wr_last_response_room = Some response_room\<rparr>\<rparr>"

text \<open>The trust of a message: its signature for this room, and then the replay guard.\<close>

definition judge :: "lib \<Rightarrow> stored_message \<Rightarrow> ('w, 'h) worker \<Rightarrow> (client_error + sig_status) \<times> ('w, 'h) worker" where
  "judge L m w =
     (let me = ma_id (wk_agent w); trusted = verify_message_for_room L m me
      in if trusted = Valid
         then and_then (by_guard (admit L m me) w) (\<lambda>admitted w'. (Inr (if admitted then Valid else Invalid), w'))
         else (Inr trusted, w))"

definition ignore_message :: "'w transport \<Rightarrow> string \<Rightarrow> stored_message \<Rightarrow> ('w, 'h) worker \<Rightarrow> (client_error + bool) \<times> ('w, 'h) worker" where
  "ignore_message T room m w =
     and_then (by_guard (release_reservations [m]) w) (\<lambda>_ w1.
     and_then (by_agent (commit_reads T room) w1) (\<lambda>_ w2. (Inr False, w2)))"

definition refuse_message ::
  "lib \<Rightarrow> (string \<Rightarrow> string \<Rightarrow> string option) \<Rightarrow> 'w transport \<Rightarrow> string \<Rightarrow> work_options \<Rightarrow> message_turn \<Rightarrow> stored_message \<Rightarrow> work_item
    \<Rightarrow> ('w, 'h) worker \<Rightarrow> (client_error + bool) \<times> ('w, 'h) worker" where
  "refuse_message L sign T room opts t m item w =
     (let note = ''worker rate limit reached ('' @ show_nat (wo_max_per_hour opts) @ '' turn(s)/hour); retry later''
      in and_then (by_agent (post_terminal L sign T (mt_terminal t) room (wo_source opts) item
           \<lparr>te_status = Failed, te_body = note, te_elapsed_ms = 0, te_continuation = None\<rparr>) w) (\<lambda>response_room w1.
         and_then (by_agent (commit_reads T room) (w1\<lparr>wk_replay := complete [m] (wk_replay w1)\<rparr>)) (\<lambda>_ w2.
         (Inr (wo_once opts), count_handled response_room w2))))"

definition result_of :: "(string \<Rightarrow> handoff_ref option) \<Rightarrow> nat \<Rightarrow> runner_failure + string \<Rightarrow> terminal_result" where
  "result_of parse elapsed outcome =
     (case outcome of
        Inr output \<Rightarrow>
          let rr = parse_runner_result parse output
          in \<lparr>te_status = Done, te_body = clip (rr_body rr) MAX_RESULT_CHARS, te_elapsed_ms = elapsed, te_continuation = rr_continuation rr\<rparr>
      | Inl er \<Rightarrow>
          \<lparr>te_status = Failed, te_body = clip (remedy er) MAX_ERROR_CHARS, te_elapsed_ms = elapsed, te_continuation = None\<rparr>)"

definition execute_message ::
  "lib \<Rightarrow> (string \<Rightarrow> string \<Rightarrow> string option) \<Rightarrow> (string \<Rightarrow> handoff_ref option) \<Rightarrow> 'w transport \<Rightarrow> 'h runner \<Rightarrow> string \<Rightarrow> work_options \<Rightarrow> string
    \<Rightarrow> message_turn \<Rightarrow> stored_message \<Rightarrow> work_item \<Rightarrow> ('w, 'h) worker \<Rightarrow> (client_error + bool) \<times> ('w, 'h) worker" where
  "execute_message L sign parse T runner room opts activity t m item w =
     and_then (by_agent (post_working L sign T (mt_working t) room item (rn_name runner)) w) (\<lambda>_ w1.
     and_then (by_agent (agent_presence T ''working'' (Some (rn_name runner @ '' task '' @ wi_task_id item))) w1) (\<lambda>_ w2.
     case rn_run runner (build_prompt item room (wo_source opts)) (wk_host w2) of
       (outcome, host) \<Rightarrow>
         and_then (by_agent (post_terminal L sign T (mt_terminal t) room (wo_source opts) item (result_of parse (mt_elapsed t) outcome))
                     (w2\<lparr>wk_host := host, wk_replay := complete [m] (wk_replay w2)\<rparr>)) (\<lambda>response_room w3.
         and_then (by_agent (commit_reads T room) w3) (\<lambda>_ w4.
         (Inr (wo_once opts), count_handled response_room (snd (by_agent (agent_presence T ''waiting'' (Some activity)) w4)))))))"

text \<open>One message, to its end; the result says whether the loop returns.\<close>

definition handle_message ::
  "lib \<Rightarrow> (string \<Rightarrow> string \<Rightarrow> string option) \<Rightarrow> (string \<Rightarrow> handoff_ref option) \<Rightarrow> 'w transport \<Rightarrow> 'h runner \<Rightarrow> string \<Rightarrow> work_options \<Rightarrow> string
    \<Rightarrow> message_turn \<Rightarrow> stored_message \<Rightarrow> ('w, 'h) worker \<Rightarrow> (client_error + bool) \<times> ('w, 'h) worker" where
  "handle_message L sign parse T runner room opts activity t m w =
     and_then (judge L m w) (\<lambda>trusted w1.
       case select_message m trusted (ma_id (wk_agent w1)) (ma_name (wk_agent w1)) (ma_role (wk_agent w1)) opts of
         Ignore reason \<Rightarrow> ignore_message T room m w1
       | Work item \<Rightarrow>
           (case rate_admit (mt_now t) (wk_rate w1) of
              (False, rate) \<Rightarrow> refuse_message L sign T room opts t m item (w1\<lparr>wk_rate := rate\<rparr>)
            | (True, rate) \<Rightarrow> execute_message L sign parse T runner room opts activity t m item (w1\<lparr>wk_rate := rate\<rparr>)))"

text \<open>The messages of a page; a script that is too short is None.\<close>

fun handle_page ::
  "lib \<Rightarrow> (string \<Rightarrow> string \<Rightarrow> string option) \<Rightarrow> (string \<Rightarrow> handoff_ref option) \<Rightarrow> 'w transport \<Rightarrow> 'h runner \<Rightarrow> string \<Rightarrow> work_options \<Rightarrow> string
    \<Rightarrow> message_turn list \<Rightarrow> stored_message list \<Rightarrow> ('w, 'h) worker \<Rightarrow> ((client_error + bool) \<times> ('w, 'h) worker) option" where
  "handle_page L sign parse T runner room opts activity ts [] w = Some (Inr False, w)"
| "handle_page L sign parse T runner room opts activity [] (m # ms) w = None"
| "handle_page L sign parse T runner room opts activity (t # ts) (m # ms) w =
     (case handle_message L sign parse T runner room opts activity t m w of
        (Inl er, w') \<Rightarrow> Some (Inl er, w')
      | (Inr True, w') \<Rightarrow> Some (Inr True, w')
      | (Inr False, w') \<Rightarrow> handle_page L sign parse T runner room opts activity ts ms w')"

fun work_loop ::
  "lib \<Rightarrow> (string \<Rightarrow> string \<Rightarrow> string option) \<Rightarrow> (string \<Rightarrow> handoff_ref option) \<Rightarrow> 'w transport \<Rightarrow> 'h runner \<Rightarrow> string \<Rightarrow> work_options \<Rightarrow> string
    \<Rightarrow> ((nat \<times> nat \<times> nat) list \<times> message_turn list) list \<Rightarrow> ('w, 'h) worker \<Rightarrow> ((client_error + work_report) \<times> ('w, 'h) worker) option" where
  "work_loop L sign parse T runner room opts activity [] w = None"
| "work_loop L sign parse T runner room opts activity ((waits, ts) # rounds) w =
     (case pull_wait T room (Some 1) waits False (wk_agent w) of
        None \<Rightarrow> None
      | Some (Inl er, a) \<Rightarrow> Some (Inl er, w\<lparr>wk_agent := a\<rparr>)
      | Some (Inr (ms, c, waited), a) \<Rightarrow>
          (case handle_page L sign parse T runner room opts activity ts ms (w\<lparr>wk_agent := a\<rparr>) of
             None \<Rightarrow> None
           | Some (Inl er, w') \<Rightarrow> Some (Inl er, w')
           | Some (Inr True, w') \<Rightarrow> Some (Inr (wk_report w'), w')
           | Some (Inr False, w') \<Rightarrow> work_loop L sign parse T runner room opts activity rounds w'))"

definition worker_run ::
  "lib \<Rightarrow> (string \<Rightarrow> string \<Rightarrow> string option) \<Rightarrow> (string \<Rightarrow> handoff_ref option) \<Rightarrow> 'w transport \<Rightarrow> 'h runner \<Rightarrow> string \<Rightarrow> work_options \<Rightarrow> string
    \<Rightarrow> ((nat \<times> nat \<times> nat) list \<times> message_turn list) list \<Rightarrow> disk \<Rightarrow> 'h \<Rightarrow> 'w mesh_agent
    \<Rightarrow> ((client_error + work_report) \<times> ('w, 'h) worker) option" where
  "worker_run L sign parse T runner room opts home rounds d host a =
     (let activity = ''autonomous '' @ rn_name runner @ '' worker in '' @ [CHR 0x27] @ room @ [CHR 0x27];
          w = \<lparr>wk_agent = a, wk_rate = rate_gate_new (wo_max_per_hour opts), wk_replay = guard_persistent L home (ma_id a), wk_disk = d,
               wk_host = host, wk_report = \<lparr>wr_handled = 0, wr_last_response_room = None\<rparr>\<rparr>
      in case by_agent (agent_presence T ''waiting'' (Some activity)) w of
           (Inl er, w') \<Rightarrow> Some (Inl er, w')
         | (Inr _, w') \<Rightarrow> work_loop L sign parse T runner room opts activity rounds w')"

section \<open>Bounds of a clipped text\<close>

definition char_start :: "string \<Rightarrow> bool" where
  "char_start s = (case s of [] \<Rightarrow> True | c # cs \<Rightarrow> \<not> is_cont_byte c)"

lemma char_start_rest: "char_start (dropWhile is_cont_byte cs)"
  by (induction cs) (auto simp: char_start_def)

lemma char_start_cut: "char_start r \<Longrightarrow> char_start t \<Longrightarrow> char_start (concat (take n (utf8_chars r)) @ t)"
  by (cases r; cases n) (auto simp: char_start_def)

lemma cont_span:
  "\<forall>x \<in> set w. is_cont_byte x \<Longrightarrow> char_start X \<Longrightarrow> takeWhile is_cont_byte (w @ X) = w \<and> dropWhile is_cont_byte (w @ X) = X"
  by (cases X) (auto simp: char_start_def takeWhile_append dropWhile_append)

lemma utf8_chars_cut:
  "char_start t \<Longrightarrow> utf8_chars (concat (take k (utf8_chars s)) @ t) = take k (utf8_chars s) @ utf8_chars t"
proof (induction s arbitrary: k rule: utf8_chars.induct)
  case (2 c cs)
  show ?case
  proof (cases k)
    case (Suc n)
    let ?w = "takeWhile is_cont_byte cs" and ?r = "dropWhile is_cont_byte cs"
    let ?X = "concat (take n (utf8_chars ?r)) @ t"
    have "char_start ?X" by (rule char_start_cut [OF char_start_rest 2(2)])
    then have "takeWhile is_cont_byte (?w @ ?X) = ?w \<and> dropWhile is_cont_byte (?w @ ?X) = ?X"
      by (intro cont_span) (auto dest: set_takeWhileD)
    with Suc 2 show ?thesis by simp
  qed simp
qed simp

text \<open>A clipped text is no longer than asked, and a text that fits is kept.\<close>

lemma clip_bound: "0 < n \<Longrightarrow> chars_count (clip v n) \<le> n"
proof -
  assume n: "0 < n"
  have e: "char_start ellipsis" "utf8_chars ellipsis = [ellipsis]" by (simp_all add: ellipsis_def char_start_def is_cont_byte_def byte_def)
  have "length (take (n - 1) (utf8_chars v)) \<le> n - 1" by simp
  with n show ?thesis by (simp add: clip_def chars_count_def utf8_chars_cut [OF e(1)] e(2))
qed

section \<open>The rate gate is a rolling window\<close>

fun gate_run :: "nat list \<Rightarrow> rate_gate \<Rightarrow> nat list \<times> rate_gate" where
  "gate_run [] g = ([], g)"
| "gate_run (now # ts) g =
     (let (ok, g1) = rate_admit now g; (rest, g2) = gate_run ts g1 in ((if ok then now # rest else rest), g2))"

definition in_hour :: "nat \<Rightarrow> nat list \<Rightarrow> nat" where
  "in_hour from_ms ts = length (filter (\<lambda>s. from_ms \<le> s \<and> s < from_ms + HOUR_MS) ts)"

text \<open>The gate has forgotten only starts that are an hour old, and no hour so far holds too many.\<close>

definition gate_ok :: "nat list \<Rightarrow> rate_gate \<Rightarrow> nat \<Rightarrow> bool" where
  "gate_ok past g now =
     ((\<exists>old. past = old @ rgt_starts g \<and> (\<forall>s \<in> set old. s + HOUR_MS \<le> now)) \<and> (\<forall>x. in_hour x past \<le> rgt_max g))"

lemma gate_step:
  assumes "gate_ok past g now0" "now0 \<le> now" "0 < rgt_max g" "rate_admit now g = (ok, g')"
  shows "gate_ok (if ok then past @ [now] else past) g' now" "rgt_max g' = rgt_max g"
proof -
  obtain old where old: "past = old @ rgt_starts g" "\<forall>s \<in> set old. s + HOUR_MS \<le> now0"
    using assms(1) by (auto simp: gate_ok_def)
  let ?drop = "takeWhile (\<lambda>s. HOUR_MS \<le> now - s) (rgt_starts g)"
  let ?keep = "dropWhile (\<lambda>s. HOUR_MS \<le> now - s) (rgt_starts g)"
  have past: "past = (old @ ?drop) @ ?keep" using old(1) by simp
  have gone: "\<forall>s \<in> set (old @ ?drop). s + HOUR_MS \<le> now"
    using old(2) assms(2) by (auto simp: HOUR_MS_def dest!: set_takeWhileD)
  have m: "rgt_max g' = rgt_max g" and g': "rgt_starts g' = (if ok then ?keep @ [now] else ?keep)" "ok = (length ?keep < rgt_max g)"
    using assms(3,4) by (auto simp: rate_admit_def Let_def split: if_splits)
  have "in_hour x (past @ [now]) \<le> rgt_max g" if ok for x
  proof (cases "x \<le> now \<and> now < x + HOUR_MS")
    case False
    with assms(1) show ?thesis by (auto simp: gate_ok_def in_hour_def)
  next
    case True
    have "\<not> (x \<le> s \<and> s < x + HOUR_MS)" if "s \<in> set (old @ ?drop)" for s
    proof -
      have "s + HOUR_MS \<le> now" using gone that by blast
      with True show ?thesis by linarith
    qed
    then have "filter (\<lambda>s. x \<le> s \<and> s < x + HOUR_MS) (old @ ?drop) = []" by (simp only: filter_empty_conv) blast
    then have "filter (\<lambda>s. x \<le> s \<and> s < x + HOUR_MS) past = filter (\<lambda>s. x \<le> s \<and> s < x + HOUR_MS) ?keep"
      by (subst past) (simp only: filter_append [of _ "old @ ?drop"] append_Nil)
    then have "in_hour x (past @ [now]) = length (filter (\<lambda>s. x \<le> s \<and> s < x + HOUR_MS) ?keep) + 1"
      unfolding in_hour_def using True by simp
    also have "\<dots> \<le> length ?keep + 1" by simp
    also have "\<dots> \<le> rgt_max g" using g'(2) that by simp
    finally show ?thesis .
  qed
  moreover have "\<exists>o'. (if ok then past @ [now] else past) = o' @ rgt_starts g' \<and> (\<forall>s \<in> set o'. s + HOUR_MS \<le> now)"
    using past g'(1) gone by (intro exI [of _ "old @ ?drop"]) (auto split: if_splits)
  ultimately show "gate_ok (if ok then past @ [now] else past) g' now" "rgt_max g' = rgt_max g"
    using assms(1) m by (auto simp: gate_ok_def)
qed

lemma gate_run_bound:
  "gate_ok past g now0 \<Longrightarrow> sorted (now0 # ts) \<Longrightarrow> 0 < rgt_max g \<Longrightarrow> in_hour x (past @ fst (gate_run ts g)) \<le> rgt_max g"
proof (induction ts arbitrary: past g now0)
  case (Cons now ts)
  obtain ok g1 where a: "rate_admit now g = (ok, g1)" by fastforce
  have "now0 \<le> now" "sorted (now # ts)" using Cons.prems(2) by auto
  note st = gate_step [OF Cons.prems(1) this(1) Cons.prems(3) a]
  from Cons.IH [OF st(1) \<open>sorted (now # ts)\<close>] st(2) Cons.prems(3) a show ?case
    by (cases ok) (auto simp: case_prod_beta)
qed (simp add: gate_ok_def)

section \<open>What reaches the runner\<close>

text \<open>The requests a worker accepts: from somebody else and an allowed sender, either a handoff for it with
  something to do, or, where plain text counts, a text that is no lifecycle message.\<close>

definition accepted :: "stored_message \<Rightarrow> string \<Rightarrow> string \<Rightarrow> string option \<Rightarrow> work_options \<Rightarrow> bool" where
  "accepted m my_id my_name my_role opts =
     (ep_id (sm_from m) \<noteq> my_id \<and> (wo_allow_from opts = [] \<or> ep_id (sm_from m) \<in> set (wo_allow_from opts))
      \<and> (let hs = filter_map handoff_from_part (sm_parts m)
         in if hs \<noteq> [] then \<exists>h \<in> set hs. handoff_for_me my_id my_name my_role h \<and> trim (ho_next h) \<noteq> []
            else \<not> has_task_ref m \<and> (\<exists>t. message_text m = Some t \<and> trim t \<noteq> []) \<and> (wo_source opts = FromService \<or> wo_all_messages opts)))"

lemma selected:
  assumes "select_message m trusted my_id my_name my_role opts = Work item"
  shows "trusted = Valid" "accepted m my_id my_name my_role opts" "wi_task_id item = sm_id m" "wi_sender_id item = ep_id (sm_from m)"
    "wi_had_task_ref item = has_task_ref m"
proof -
  have s: "ep_id (sm_from m) \<noteq> my_id" "trusted = Valid" "wo_allow_from opts = [] \<or> ep_id (sm_from m) \<in> set (wo_allow_from opts)"
    using assms by (auto simp: select_message_def split: if_splits)
  let ?hs = "filter_map handoff_from_part (sm_parts m)"
  have "trusted = Valid \<and> accepted m my_id my_name my_role opts \<and> wi_task_id item = sm_id m \<and> wi_sender_id item = ep_id (sm_from m)
    \<and> wi_had_task_ref item = has_task_ref m"
  proof (cases "?hs = []")
    case True
    with assms s show ?thesis by (auto simp: select_message_def accepted_def Let_def split: if_splits option.splits)
  next
    case False
    with assms s obtain h where h: "find (handoff_for_me my_id my_name my_role) ?hs = Some h" "trim (ho_next h) \<noteq> []"
      by (auto simp: select_message_def Let_def split: if_splits option.splits)
    from find_SomeD [OF h(1)] have "h \<in> set ?hs \<and> handoff_for_me my_id my_name my_role h" .
    with False assms s h show ?thesis by (auto simp: select_message_def accepted_def Let_def split: if_splits)
  qed
  then show "trusted = Valid" "accepted m my_id my_name my_role opts" "wi_task_id item = sm_id m" "wi_sender_id item = ep_id (sm_from m)"
    "wi_had_task_ref item = has_task_ref m" by blast+
qed

lemma by_agent_host: "by_agent op w = (r, w') \<Longrightarrow> wk_host w' = wk_host w \<and> wk_rate w' = wk_rate w"
  by (auto simp: by_agent_def split: prod.splits)

lemma by_guard_host: "by_guard op w = (r, w') \<Longrightarrow> wk_host w' = wk_host w \<and> wk_rate w' = wk_rate w \<and> wk_agent w' = wk_agent w"
  by (auto simp: by_guard_def split: prod.splits)

lemma and_then_cases:
  assumes "and_then p k = (r, s)"
  obtains (err) er where "p = (Inl er, s)" "r = Inl er" | (ok) x s1 where "p = (Inr x, s1)" "k x s1 = (r, s)"
  using assms by (auto simp: and_then_def split: prod.splits sum.splits)

lemma judge_valid:
  assumes "judge L m w = (Inr Valid, w1)"
  shows "verify_message_for_room L m (ma_id (wk_agent w)) = Valid"
    "fst (admit L m (ma_id (wk_agent w)) (wk_replay w) (wk_disk w)) = Inr True" "wk_agent w1 = wk_agent w"
    "wk_host w1 = wk_host w" "wk_rate w1 = wk_rate w"
  using assms by (auto simp: judge_def Let_def and_then_def by_guard_def split: if_splits prod.splits sum.splits bool.splits)

lemma judge_host: "judge L m w = (r, w1) \<Longrightarrow> wk_host w1 = wk_host w"
  by (auto simp: judge_def Let_def and_then_def dest!: by_guard_host split: if_splits prod.splits sum.splits)

lemma ignore_host: "ignore_message T room m w = (r, w') \<Longrightarrow> wk_host w' = wk_host w"
  unfolding ignore_message_def by (elim and_then_cases) (auto dest!: by_agent_host by_guard_host)

lemma refuse_host: "refuse_message L sign T room opts t m item w = (r, w') \<Longrightarrow> wk_host w' = wk_host w"
  unfolding refuse_message_def Let_def
  by (elim and_then_cases) (auto dest!: by_agent_host simp: count_handled_def)

lemma count_handled_host [simp]: "wk_host (count_handled rr w) = wk_host w"
  by (simp add: count_handled_def)

lemma execute_host:
  "execute_message L sign parse T runner room opts activity t m item w = (r, w') \<Longrightarrow>
   wk_host w' = wk_host w \<or> wk_host w' = snd (rn_run runner (build_prompt item room (wo_source opts)) (wk_host w))"
  unfolding execute_message_def
  by (elim and_then_cases) (auto split: prod.splits elim!: and_then_cases dest!: by_agent_host simp: by_agent_def)

lemma handled_host:
  assumes "handle_message L sign parse T runner room opts activity t m w = (r, w')" "wk_host w' \<noteq> wk_host w"
  shows "\<exists>item. verify_message_for_room L m (ma_id (wk_agent w)) = Valid
    \<and> fst (admit L m (ma_id (wk_agent w)) (wk_replay w) (wk_disk w)) = Inr True
    \<and> fst (rate_admit (mt_now t) (wk_rate w))
    \<and> select_message m Valid (ma_id (wk_agent w)) (ma_name (wk_agent w)) (ma_role (wk_agent w)) opts = Work item
    \<and> wk_host w' = snd (rn_run runner (build_prompt item room (wo_source opts)) (wk_host w))"
proof -
  from assms(1) obtain trusted w1 where j: "judge L m w = (Inr trusted, w1)"
    and k: "(case select_message m trusted (ma_id (wk_agent w1)) (ma_name (wk_agent w1)) (ma_role (wk_agent w1)) opts of
         Ignore reason \<Rightarrow> ignore_message T room m w1
       | Work item \<Rightarrow>
           (case rate_admit (mt_now t) (wk_rate w1) of
              (False, rate) \<Rightarrow> refuse_message L sign T room opts t m item (w1\<lparr>wk_rate := rate\<rparr>)
            | (True, rate) \<Rightarrow> execute_message L sign parse T runner room opts activity t m item (w1\<lparr>wk_rate := rate\<rparr>))) = (r, w')"
    unfolding handle_message_def by (elim and_then_cases) (use assms(2) in \<open>auto dest: judge_host\<close>)
  note jh = judge_host [OF j]
  from k jh assms(2) obtain item where s: "select_message m trusted (ma_id (wk_agent w1)) (ma_name (wk_agent w1)) (ma_role (wk_agent w1)) opts = Work item"
    by (auto split: selection.splits dest: ignore_host)
  have tr: "trusted = Valid" by (rule selected(1) [OF s])
  note jv = judge_valid [OF j [unfolded tr]]
  obtain ok rate where ra: "rate_admit (mt_now t) (wk_rate w1) = (ok, rate)" by fastforce
  have ok: "ok" using k s ra jh assms(2) by (cases ok) (auto dest: refuse_host)
  with k s ra have "execute_message L sign parse T runner room opts activity t m item (w1\<lparr>wk_rate := rate\<rparr>) = (r, w')" by simp
  from execute_host [OF this] jh assms(2) have "wk_host w' = snd (rn_run runner (build_prompt item room (wo_source opts)) (wk_host w))" by simp
  with jv s tr ok ra show ?thesis by auto
qed

section \<open>Conversations between workers end\<close>

lemma kinds_differ [simp]:
  "handoff_from_part (Text t) = None" "handoff_from_part (task_to_part tk) = None" "handoff_from_part (sig_to_part s) = None"
  "task_from_part (Text t) = None" "task_from_part (sig_to_part s) = None"
  by (simp_all add: handoff_from_part_def task_from_part_def task_to_part_def sig_to_part_def HANDOFF_KIND_def TASK_KIND_def MESSAGE_SIG_KIND_def)

lemma terminal_handoffs:
  "filter_map handoff_from_part (terminal_parts source item res @ [sig_to_part s]) =
     (case continuation_of source item res of None \<Rightarrow> [] | Some h \<Rightarrow> [h])"
  by (auto simp: terminal_parts_def handoff_roundtrip split: option.splits)

lemma terminal_task:
  assumes "sm_parts m = terminal_parts source item res @ [sig_to_part s]" "te_elapsed_ms res < 2 ^ 64"
  shows "has_task_ref m"
proof -
  let ?t = "\<lparr>tk_status = te_status res, tk_task = Some (wi_task_id item), tk_note = (if te_status res = Failed then Some (te_body res) else None),
    tk_result = None, tk_tokens = None, tk_elapsed_ms = Some (te_elapsed_ms res)\<rparr>"
  have "task_from_part (task_to_part ?t) = Some ?t" using assms(2) by (intro task_roundtrip) auto
  moreover have "task_to_part ?t \<in> set (sm_parts m)" unfolding assms(1) terminal_parts_def by simp
  ultimately show ?thesis unfolding has_task_ref_def list_ex_iff by (metis option.distinct(1))
qed

text \<open>The answer to an answer asks for nothing, unless a runner itself named a next turn.\<close>

lemma answered_answer:
  assumes "sm_parts m = terminal_parts source item res @ [sig_to_part s]" "te_elapsed_ms res < 2 ^ 64"
    and "te_continuation res = None" "wi_had_task_ref item"
  shows "select_message m trusted my_id my_name my_role opts \<noteq> Work item'"
proof
  assume w: "select_message m trusted my_id my_name my_role opts = Work item'"
  have "filter_map handoff_from_part (sm_parts m) = []" using assms terminal_handoffs by (simp add: continuation_of_def)
  with selected(2) [OF w] terminal_task [OF assms(1,2)] show False by (simp add: accepted_def Let_def)
qed

text \<open>
  A request whose key is in the ledger is not executed again: a worker that finds it there, as after a crash
  between admission and report, passes over it as untrusted.
\<close>

lemma crashed_request_passed_over:
  assumes "guard_ready (wk_replay w) (wk_disk w)" "replay_key m = Some k" "k \<in> rb_completed (known (wk_replay w) (wk_disk w))"
    and "verify_message_for_room L m (ma_id (wk_agent w)) = Valid" "ep_id (sm_from m) \<noteq> ma_id (wk_agent w)"
  shows "\<exists>w1. judge L m w = (Inr Invalid, w1)"
    "select_message m Invalid (ma_id (wk_agent w)) name role opts = Ignore Untrusted"
proof -
  have "fst (admit L m (ma_id (wk_agent w)) (wk_replay w) (wk_disk w)) = Inr False"
    using assms(2,3) by (simp add: ready_admits [OF assms(1)])
  then show "\<exists>w1. judge L m w = (Inr Invalid, w1)"
    using assms(4) by (auto simp: judge_def Let_def and_then_def by_guard_def split: prod.splits)
  show "select_message m Invalid (ma_id (wk_agent w)) name role opts = Ignore Untrusted"
    using assms(5) by (simp add: select_message_def)
qed

section \<open>Properties\<close>


definition demo_handoff :: stored_message where
  "demo_handoff =
     (demo_signed ''al'' ''u7'' 7)\<lparr>sm_parts := handoff_to_part \<lparr>ho_next = ''build'', ho_summary = None, ho_to = Some ''Bo'', ho_bundle = None\<rparr>
        # sm_parts (demo_signed ''al'' ''u7'' 7)\<rparr>"

definition demo_runner :: "nat runner" where
  "demo_runner = \<lparr>rn_name = ''codex'', rn_run = (\<lambda>prompt n. (Inr ''done'', n + 1))\<rparr>"

definition demo_post_hub :: "unit transport" where
  "demo_post_hub = demo_hub\<lparr>tr_request := (\<lambda>f w. case f of
      Send tgt parts mentions reply_to client_id \<Rightarrow> (Inr (Sent ''s'' 9 ''lab''), w)
    | Presence status activity att \<Rightarrow> (Inr PresenceOk, w)
    | _ \<Rightarrow> tr_request demo_hub f w)\<rparr>"

definition demo_worker :: "(unit, nat) worker" where
  "demo_worker = \<lparr>wk_agent = with_transport () ''bo'' ''Bo'' None ''ws://h'', wk_rate = rate_gate_new 5,
     wk_replay = guard_persistent demo_lib ''/h'' ''bo'', wk_disk = demo_disk, wk_host = 0,
     wk_report = \<lparr>wr_handled = 0, wr_last_response_room = None\<rparr>\<rparr>"

definition demo_work_options :: work_options where
  "demo_work_options = \<lparr>wo_source = FromRoom, wo_all_messages = False, wo_allow_from = [], wo_max_per_hour = 5, wo_timeout = 60, wo_once = True\<rparr>"

abbreviation demo_draw :: send_draw where
  "demo_draw \<equiv> \<lparr>sd_ts = 1, sd_uid = ''x'', sd_client_id = ''y''\<rparr>"

abbreviation demo_handled :: "(client_error + bool) \<times> (unit, nat) worker" where
  "demo_handled \<equiv> handle_message demo_lib (\<lambda>seed b. Some seed) (\<lambda>s. None) demo_post_hub demo_runner ''lab'' demo_work_options ''idle''
     \<lparr>mt_now = 1, mt_elapsed = 3, mt_working = demo_draw, mt_terminal = (demo_draw, demo_draw)\<rparr> demo_handoff demo_worker"


text \<open>C11: Two workers do not answer each other forever. Where no runner names a next turn itself, the answer
  to a request may hand the conversation back once, and the answer to that answer is work for nobody.\<close>

theorem automatic_turns_end:
  assumes "sm_parts m1 = terminal_parts source1 item1 res1 @ [sig_to_part s1]" "te_elapsed_ms res1 < 2 ^ 64"
    and "select_message m1 trusted1 id1 name1 role1 opts1 = Work item2"
    and "sm_parts m2 = terminal_parts source2 item2 res2 @ [sig_to_part s2]" "te_elapsed_ms res2 < 2 ^ 64" "te_continuation res2 = None"
  shows "select_message m2 trusted2 id2 name2 role2 opts2 \<noteq> Work item3"
  using answered_answer [OF assms(4-6)] selected(5) [OF assms(3)] terminal_task [OF assms(1,2)] by simp

definition demo_item :: work_item where
  "demo_item = \<lparr>wi_task_id = ''t'', wi_sender_id = ''al'', wi_sender_name = ''Al'', wi_instruction = ''go'', wi_summary = None,
     wi_context = None, wi_bundle = None, wi_had_task_ref = False\<rparr>"

definition demo_result :: terminal_result where
  "demo_result = \<lparr>te_status = Done, te_body = ''ok'', te_elapsed_ms = 5, te_continuation = None\<rparr>"

definition demo_answer :: "work_item \<Rightarrow> stored_message" where
  "demo_answer item = (demo_signed ''bo'' ''u8'' 8)\<lparr>sm_parts := terminal_parts FromRoom item demo_result
     @ [sig_to_part \<lparr>ms_sig = ''bo'', ms_ts = 1, ms_uid = ''u8'', ms_target = TRoom ''lab''\<rparr>]\<rparr>"

definition demo_item2 :: work_item where
  "demo_item2 = (case select_message (demo_answer demo_item) Valid ''al'' ''Al'' None demo_work_options of Work item \<Rightarrow> item | _ \<Rightarrow> demo_item)"

theorem automatic_turns_end_witness:
  "select_message (demo_answer demo_item) Valid ''al'' ''Al'' None demo_work_options = Work demo_item2
   \<and> select_message (demo_answer demo_item2) Valid ''bo'' ''Bo'' None demo_work_options \<noteq> Work demo_item"
proof -
  have "case select_message (demo_answer demo_item) Valid ''al'' ''Al'' None demo_work_options of Work item \<Rightarrow> True | Ignore r \<Rightarrow> False" by code_simp
  then have s: "select_message (demo_answer demo_item) Valid ''al'' ''Al'' None demo_work_options = Work demo_item2"
    unfolding demo_item2_def by (auto split: selection.splits)
  have p: "sm_parts (demo_answer item) = terminal_parts FromRoom item demo_result
      @ [sig_to_part \<lparr>ms_sig = ''bo'', ms_ts = 1, ms_uid = ''u8'', ms_target = TRoom ''lab''\<rparr>]" for item by (simp add: demo_answer_def)
  have e: "te_elapsed_ms demo_result < 2 ^ 64" "te_continuation demo_result = None" by (simp_all add: demo_result_def)
  from automatic_turns_end [OF p e(1) s p e] s show ?thesis by blast
qed

text \<open>The hourly limit of a worker holds in every hour, not only in fixed ones: of the requests that
  arrive at times in order, no interval of sixty minutes contains more started turns than the limit.\<close>

theorem rate_gate_rolling:
  assumes "sorted ts" "0 < m"
  shows "in_hour x (fst (gate_run ts (rate_gate_new m))) \<le> m"
proof -
  have "gate_ok [] (rate_gate_new m) 0" by (simp add: gate_ok_def rate_gate_new_def in_hour_def)
  moreover have "sorted (0 # ts)" using assms(1) by simp
  ultimately show ?thesis using gate_run_bound [of "[]" "rate_gate_new m" 0 ts x] assms(2) by (simp add: rate_gate_new_def)
qed

theorem rate_gate_rolling_witness:
  "fst (gate_run [0, 5, 3600000, 3600004, 3600005] (rate_gate_new 2)) = [0, 5, 3600000, 3600005]
   \<and> in_hour 5 (fst (gate_run [0, 5, 3600000, 3600004, 3600005] (rate_gate_new 2))) \<le> 2"
proof -
  have "fst (gate_run [0, 5, 3600000, 3600004, 3600005] (rate_gate_new 2)) = [0, 5, 3600000, 3600005]" by code_simp
  with rate_gate_rolling [of "[0, 5, 3600000, 3600004, 3600005]" 2 5] show ?thesis by simp
qed

end
