(* ===== verification/Web.thy ===== *)
theory Web
  imports Hub_Access
begin

text \<open>
  The hub's HTTP front door (\<^verbatim>\<open>parler-hub/src/server.rs\<close>): the read-only directory and session views, the
  download of session files, the waiting list, the agent cards for other directories, and the flood guard in
  front of them. A request is what axum extracts from the wire, a response its status, headers and body; one
  reading of the clock serves a request. The landing page's markup and the upgrade to a websocket are not
  here; failing database calls do not occur in the model of the store.
\<close>

section \<open>Texts\<close>

text \<open>\<^verbatim>\<open>str::replace\<close>: every occurrence of a pattern that is not empty, from the left.\<close>

function replace_all :: "string \<Rightarrow> string \<Rightarrow> string \<Rightarrow> string" where
  "replace_all pat repl [] = []"
| "replace_all pat repl (c # cs) =
     (case strip_prefix pat (c # cs) of
        Some rest \<Rightarrow> if pat = [] then c # cs else repl @ replace_all pat repl rest
      | None \<Rightarrow> c # replace_all pat repl cs)"
  by pat_completeness auto
termination
proof (relation "measure (\<lambda>(p, b, s). length s)")
  fix pat b rest :: string and c :: char and cs :: string
  assume "strip_prefix pat (c # cs) = Some rest" "pat \<noteq> []"
  then have "c # cs = pat @ rest" "0 < length pat" by (auto dest: strip_prefix_Some)
  moreover from this have "length (c # cs) = length pat + length rest" by (metis length_append)
  ultimately show "((pat, b, rest), pat, b, c # cs) \<in> measure (\<lambda>(p, b, s). length s)" by simp
qed auto

definition display_hub_url :: "string \<Rightarrow> string" where
  "display_hub_url public_url =
     (let ws = (case strip_prefix ''parler://'' public_url of Some rest \<Rightarrow> ''ws://'' @ rest | None \<Rightarrow> public_url)
      in replace_all ''[::]'' ''localhost'' (replace_all ''0.0.0.0'' ''localhost'' ws))"

definition html_escape :: "string \<Rightarrow> string" where
  "html_escape s =
     replace_all [CHR 0x22] ''&quot;'' (replace_all ''>'' ''&gt;'' (replace_all ''<'' ''&lt;'' (replace_all ''&'' ''&amp;'' s)))"

definition default_scheme :: "string \<Rightarrow> string" where
  "default_scheme host =
     (let h = hd (split_on (CHR '':'') host)
      in if h = ''localhost'' \<or> h = ''0.0.0.0'' \<or> strip_prefix ''127.'' h \<noteq> None \<or> strip_prefix ''[::'' h \<noteq> None then ''http'' else ''https'')"

definition request_base_url :: "(string \<Rightarrow> string option) \<Rightarrow> string \<Rightarrow> string" where
  "request_base_url hdr fallback =
     (let derived = replace_all ''ws://'' ''http://'' (replace_all ''wss://'' ''https://'' (display_hub_url fallback))
      in case hdr ''host'' of
           None \<Rightarrow> derived
         | Some host0 \<Rightarrow>
             let host = trim host0;
                 proto = (case hdr ''x-forwarded-proto'' of
                            Some v \<Rightarrow> (let p = trim (hd (split_on (CHR '','') v)) in if p = [] then default_scheme host else p)
                          | None \<Rightarrow> default_scheme host)
             in if host = [] then derived else proto @ ''://'' @ host)"

section \<open>Requests and responses\<close>

record directory_query =
  dq_q :: "string option"
  dq_tag :: "string option"
  dq_skill :: "string option"
  dq_status :: "string option"
  dq_scope :: "string option"
  dq_limit :: "nat option"

record session_query =
  sq_since :: "int option"
  sq_token :: "string option"

record session_blob_query =
  bq_token :: "string option"
  bq_name :: "string option"

datatype web_request =
    GetHealth
  | GetJoin string
  | GetHub
  | GetParler
  | GetDirectory directory_query
  | GetAgent string
  | GetSession session_query
  | GetSessionBlob string session_blob_query
  | PostWaitlist string
  | GetAgentCard
  | GetA2aDirectory directory_query
  | GetA2aAgent string

text \<open>A directory entry is printed by its derived serialiser; the body keeps it as it is.\<close>

datatype web_body = BText string | BJson json | BEntries "directory_entry list" | BEntry directory_entry | BBytes string

record response =
  rp_status :: nat
  rp_headers :: "(string \<times> string) list"
  rp_body :: web_body

definition respond :: "nat \<Rightarrow> web_body \<Rightarrow> response" where
  "respond status b = \<lparr>rp_status = status, rp_headers = [], rp_body = b\<rparr>"

fun jopt :: "string option \<Rightarrow> json" where
  "jopt None = JNull"
| "jopt (Some s) = JStr s"

definition session_error :: "nat \<Rightarrow> string \<Rightarrow> response" where
  "session_error status msg = respond status (BJson (JObj [(''error'', JStr msg)]))"

fun hub_mode_as_str :: "hub_mode \<Rightarrow> string" where
  "hub_mode_as_str PublicHub = ''public''"
| "hub_mode_as_str PrivateHub = ''private''"

section \<open>Directory\<close>

definition hub_capabilities :: "hub \<Rightarrow> json" where
  "hub_capabilities h =
     JObj [(''push'', JBool True), (''longPoll'', JBool True), (''blobs'', JBool True),
       (''maxBlobBytes'', jnat (hb_max_blob_bytes h)), (''maxMessageBytes'', jnat (hb_max_message_bytes h)),
       (''joinPolicy'', JStr (if hb_join_secret h \<noteq> None then ''secret'' else ''open'')),
       (''messageKinds'', JArr (map JStr [HANDOFF_KIND, TASK_KIND, DISPATCH_KIND, BUNDLE_KIND, FILE_KIND, MESSAGE_SIG_KIND]))]"

definition api_hub :: "hub \<Rightarrow> response" where
  "api_hub h =
     (let (agents, public_agents) = directory_counts (hb_store h); m = hb_metrics h
      in respond 200 (BJson (JObj [(''name'', JStr (hb_name h)), (''mode'', JStr (hub_mode_as_str (hb_mode h))),
           (''agents'', jnat agents), (''publicAgents'', jnat public_agents), (''protocolVersion'', JStr PROTOCOL_VERSION),
           (''capabilities'', hub_capabilities h),
           (''stats'', JObj [(''liveConnections'', jnat (hb_conn_count h)), (''connectionsTotal'', jnat (mt_connections_total m)),
              (''messagesTotal'', jnat (mt_messages_total m)), (''estimatedTokensTotal'', jnat (mt_tokens_total m)),
              (''pushesTotal'', jnat (mt_pushes_total m))])])))"

definition parler_well_known :: "hub \<Rightarrow> response" where
  "parler_well_known h =
     respond 200 (BJson (JObj [(''name'', JStr (hb_name h)), (''mode'', JStr (hub_mode_as_str (hb_mode h))),
       (''protocolVersion'', JStr PROTOCOL_VERSION), (''capabilities'', hub_capabilities h)]))"

definition hub_scope_authorized :: "(string \<Rightarrow> string option) \<Rightarrow> ms \<Rightarrow> hub \<Rightarrow> bool" where
  "hub_scope_authorized hdr now h =
     (case bearer_token hdr of Some tok \<Rightarrow> validate_directory_token tok now (hb_store h) | None \<Rightarrow> False)"

definition directory_refused :: response where
  "directory_refused = respond 401 (BJson (JObj [(''error'', JStr ''a directory token is required to view the hub-scope directory'')]))"

definition list_directory :: "lib \<Rightarrow> directory_query \<Rightarrow> bool \<Rightarrow> ms \<Rightarrow> hub \<Rightarrow> directory_entry list" where
  "list_directory L q want_hub now h =
     discover (lb_lower L) (if want_hub then HubScope else PublicScope) (hb_name h) (dq_q q) (dq_tag q) (dq_skill q) (dq_status q) (dq_limit q) now (hb_store h)"

definition api_directory :: "lib \<Rightarrow> (string \<Rightarrow> string option) \<Rightarrow> directory_query \<Rightarrow> ms \<Rightarrow> hub \<Rightarrow> response" where
  "api_directory L hdr q now h =
     (let want_hub = (dq_scope q = Some ''hub'')
      in if want_hub \<and> \<not> hub_scope_authorized hdr now h then directory_refused
         else respond 200 (BEntries (list_directory L q want_hub now h)))"

definition no_such_agent :: response where
  "no_such_agent = respond 404 (BJson (JObj [(''error'', JStr ''no such public agent'')]))"

definition api_agent :: "(string \<Rightarrow> string option) \<Rightarrow> string \<Rightarrow> ms \<Rightarrow> hub \<Rightarrow> response" where
  "api_agent hdr aid now h =
     (case lookup_card aid (hb_name h) (hub_scope_authorized hdr now h) now (hb_store h) of
        Some entry \<Rightarrow> respond 200 (BEntry entry)
      | None \<Rightarrow> no_such_agent)"

section \<open>The session viewer\<close>

fun ext_fields :: "part \<Rightarrow> jmap" where
  "ext_fields (Extension k fs) = fs"
| "ext_fields p = []"

fun viewer_part :: "part \<Rightarrow> json option" where
  "viewer_part (Text t) = Some (JObj [(''kind'', JStr ''text''), (''text'', JStr t)])"
| "viewer_part (Data d) = Some (JObj [(''kind'', JStr ''data'')])"
| "viewer_part (Extension kind fs) =
     (let p = Extension kind fs
      in if is_message_sig_part p then None
         else case bundle_from_part p of
                Some b \<Rightarrow> Some (JObj [(''kind'', JStr kind), (''file'', JObj (ext_fields (bundle_to_part b)))])
              | None \<Rightarrow>
                  (case file_from_part p of
                     Some f \<Rightarrow> Some (JObj [(''kind'', JStr kind), (''file'', JObj (ext_fields (file_to_part f)))])
                   | None \<Rightarrow>
                       if kind = ''com.parler.observation'' then Some (JObj [(''kind'', JStr kind), (''fields'', JObj fs)])
                       else Some (JObj [(''kind'', JStr kind)])))"

definition viewer_message :: "stored_message \<Rightarrow> json" where
  "viewer_message m =
     JObj [(''seq'', JInt (sm_seq m)), (''ts'', JInt (sm_ts m)),
       (''from'', JObj [(''name'', JStr (ep_name (sm_from m))), (''role'', jopt (ep_role (sm_from m)))]),
       (''parts'', JArr (filter_map viewer_part (sm_parts m)))]"

definition viewer_agent :: "roster_entry \<Rightarrow> json" where
  "viewer_agent e =
     JObj [(''name'', JStr (re_name e)), (''role'', jopt (re_role e)), (''status'', JStr (re_status e)),
       (''activity'', jopt (re_activity e)), (''lastSeen'', JInt (re_last_seen e))]"

definition viewer_stats :: "room_stats_rec \<Rightarrow> json" where
  "viewer_stats st =
     JObj [(''messages'', jnat (rs_messages st)), (''estimatedTokens'', JInt (rs_tokens st)),
       (''firstMessageAt'', (case rs_first_ts st of Some t \<Rightarrow> JInt t | None \<Rightarrow> JNull)),
       (''lastMessageAt'', (case rs_last_ts st of Some t \<Rightarrow> JInt t | None \<Rightarrow> JNull)),
       (''perAgent'', JArr (map (\<lambda>a. JObj [(''name'', JStr (as_name a)), (''role'', jopt (as_role a)),
          (''messages'', jnat (as_messages a)), (''estimatedTokens'', JInt (as_tokens a))]) (rs_per_agent st)))]"

definition session_view :: "string \<Rightarrow> int \<Rightarrow> ms \<Rightarrow> store \<Rightarrow> json" where
  "session_view room since now s =
     (let kind = (case room_kind_of room s of Some k \<Rightarrow> room_kind_as_str k | None \<Rightarrow> ''channel'');
          members = roster room now s;
          msgs = room_messages room since 1000 s
      in JObj [(''room'', JStr room), (''kind'', JStr kind), (''memberCount'', jnat (length members)),
           (''onlineCount'', jnat (length (filter (\<lambda>e. re_status e \<noteq> ''offline'') members))),
           (''agents'', JArr (map viewer_agent members)), (''messages'', JArr (map viewer_message msgs)),
           (''cursor'', JInt (if msgs = [] then since else sm_seq (last msgs))), (''stats'', viewer_stats (room_stats room s))])"

definition session_token :: "(string \<Rightarrow> string option) \<Rightarrow> string option \<Rightarrow> string option" where
  "session_token hdr q = (case bearer_token hdr of Some t \<Rightarrow> Some t | None \<Rightarrow> q)"

definition api_session :: "(string \<Rightarrow> string option) \<Rightarrow> session_query \<Rightarrow> ms \<Rightarrow> hub \<Rightarrow> response" where
  "api_session hdr q now h =
     (case session_token hdr (sq_token q) of
        None \<Rightarrow> session_error 401 (''a watch token is required '' @ [CHR 0xE2, CHR 0x80, CHR 0x94] @ '' open a session and mint one (parler session watch)'')
      | Some tok \<Rightarrow>
          (case validate_watch_token tok now (hb_store h) of
             None \<Rightarrow> session_error 401 ''invalid or expired watch token''
           | Some room \<Rightarrow> respond 200 (BJson (session_view room (opt_or (sq_since q) 0) now (hb_store h)))))"

text \<open>\<open>header_ok\<close> is the check of \<^verbatim>\<open>HeaderValue::from_str\<close>.\<close>

definition blob_headers :: "(string \<Rightarrow> bool) \<Rightarrow> string \<Rightarrow> string option \<Rightarrow> (string \<times> string) list" where
  "blob_headers header_ok filename media_type =
     (let content_type = opt_or media_type ''application/octet-stream'';
          disposition = ''attachment; filename='' @ [CHR 0x22] @ filename @ [CHR 0x22]
      in [(''content-type'', if header_ok content_type then content_type else ''application/octet-stream''),
          (''content-disposition'', if header_ok disposition then disposition else ''attachment''),
          (''x-content-type-options'', ''nosniff''), (''cache-control'', ''no-store'')])"

definition api_session_blob ::
  "(string \<Rightarrow> bool) \<Rightarrow> (string \<Rightarrow> string option) \<Rightarrow> string \<Rightarrow> session_blob_query \<Rightarrow> ms \<Rightarrow> hub \<Rightarrow> response \<times> hub" where
  "api_session_blob header_ok hdr bid q now h =
     (case session_token hdr (bq_token q) of
        None \<Rightarrow> (session_error 401 ''a watch token is required'', h)
      | Some tok \<Rightarrow>
     (case validate_watch_token tok now (hb_store h) of
        None \<Rightarrow> (session_error 401 ''invalid or expired watch token'', h)
      | Some room \<Rightarrow>
          if \<not> blob_in_room bid room (hb_store h) then (session_error 403 ''this file was not exchanged in this session'', h)
          else case blob_meta bid (hb_store h) of
                 None \<Rightarrow> (session_error 404 ''no such file'', h)
               | Some meta \<Rightarrow>
                   (case hb_blob_dir h bid of
                      None \<Rightarrow> (session_error 500 ''failed to read file'', h)
                    | Some contents \<Rightarrow>
                        (\<lparr>rp_status = 200, rp_headers = blob_headers header_ok (download_filename (bq_name q) bid (bl_media_type meta)) (bl_media_type meta),
                          rp_body = BBytes contents\<rparr>,
                         h\<lparr>hb_store := touch_blob_fetched bid now (hb_store h)\<rparr>))))"

section \<open>The waiting list\<close>

definition waitlist_answer :: "nat \<Rightarrow> bool \<Rightarrow> string option \<Rightarrow> response" where
  "waitlist_answer status ok er =
     respond status (BJson (JObj ([(''ok'', JBool ok)] @ opt_entry JStr ''error'' er)))"

definition api_waitlist :: "(string \<Rightarrow> string option) \<Rightarrow> (string \<Rightarrow> string option) \<Rightarrow> string \<Rightarrow> string \<Rightarrow> ms \<Rightarrow> hub \<Rightarrow> response \<times> hub" where
  "api_waitlist parse_ip hdr peer address now h =
     (let (allowed, rates) =
            (case client_ip parse_ip hdr (Some peer) (hb_trust_proxy_headers h) of
               Some ip \<Rightarrow> waitlist_rate_allows ip now (hb_waitlist_rate h)
             | None \<Rightarrow> (True, hb_waitlist_rate h));
          h1 = h\<lparr>hb_waitlist_rate := rates\<rparr>; email = normalize_email address
      in if \<not> allowed then ((waitlist_answer 429 False (Some ''rate limited''))\<lparr>rp_headers := [(''retry-after'', ''60'')]\<rparr>, h1)
         else if \<not> valid_email email then (waitlist_answer 400 False (Some ''invalid email''), h1)
         else (waitlist_answer 200 True None, h1\<lparr>hb_store := waitlist_add email now (hb_store h1)\<rparr>))"

section \<open>Agent cards for other directories\<close>

definition A2A_PROTOCOL_VERSION :: string where "A2A_PROTOCOL_VERSION = ''0.3.0''"

definition em_dash :: string where "em_dash = [CHR 0xE2, CHR 0x80, CHR 0x94]"

definition a2a_skills :: "agent_card \<Rightarrow> json list" where
  "a2a_skills crd =
     (let tags = JArr (map JStr (opt_or (ac_tags crd) []));
          skills = map (\<lambda>s. JObj [(''id'', JStr (sk_id s)), (''name'', JStr (sk_name s)),
             (''description'', JStr (opt_or (sk_description s) (sk_name s))), (''tags'', tags)]) (opt_or (ac_skills crd) [])
      in if skills = [] \<and> (opt_or (ac_tags crd) [] \<noteq> [] \<or> ac_role crd \<noteq> None)
         then [JObj [(''id'', JStr ''general''), (''name'', JStr (opt_or (ac_role crd) ''general'')),
                (''description'', JStr (opt_or (ac_description crd) (ac_name crd @ '' '' @ em_dash @ '' a Parler Protocol agent.''))), (''tags'', tags)]]
         else skills)"

definition a2a_capabilities :: json where
  "a2a_capabilities = JObj [(''streaming'', JBool True), (''pushNotifications'', JBool False), (''stateTransitionHistory'', JBool False)]"

definition a2a_card :: "directory_entry \<Rightarrow> string \<Rightarrow> string \<Rightarrow> json" where
  "a2a_card entry base_url hub_name =
     (let crd = de_card entry;
          description = (case ac_description crd of
             Some d \<Rightarrow> d
           | None \<Rightarrow> (case ac_role crd of
               Some r \<Rightarrow> ''A Parler Protocol agent in the '' @ r @ '' role.''
             | None \<Rightarrow> ac_name crd @ '' '' @ em_dash @ '' a Parler Protocol agent.''))
      in JObj [(''protocolVersion'', JStr A2A_PROTOCOL_VERSION), (''name'', JStr (ac_name crd)), (''description'', JStr description),
           (''url'', JStr (base_url @ ''/a2a/agents/'' @ ac_id crd)), (''preferredTransport'', JStr ''JSONRPC''),
           (''version'', JStr (opt_or (ac_protocol_version crd) ''1.0.0'')),
           (''provider'', JObj [(''organization'', JStr hub_name), (''url'', JStr base_url)]),
           (''capabilities'', a2a_capabilities),
           (''defaultInputModes'', JArr [JStr ''text/plain'']), (''defaultOutputModes'', JArr [JStr ''text/plain'']),
           (''skills'', JArr (a2a_skills crd)),
           (''parler'', JObj [(''id'', JStr (ac_id crd)), (''hub'', JStr (de_hub entry)),
              (''visibility'', JStr (visibility_as_str (de_visibility entry))), (''verified'', JBool (de_verified entry)),
              (''status'', JStr (de_status entry)), (''signature'', jopt (de_sig entry)),
              (''canonicalization'', JStr ''parler/canonical-card-v1'')])])"

definition a2a_well_known :: "(string \<Rightarrow> string option) \<Rightarrow> hub \<Rightarrow> response" where
  "a2a_well_known hdr h =
     (let base = request_base_url hdr (hb_public_url h); (agents, public_agents) = directory_counts (hb_store h)
      in respond 200 (BJson (JObj [(''protocolVersion'', JStr A2A_PROTOCOL_VERSION), (''name'', JStr (hb_name h)),
           (''description'', JStr (''A Parler Protocol hub '' @ em_dash @ '' a directory + message bus where AI agents publish signed cards '' @
              ''and coordinate. This endpoint exposes the hub's public agents as A2A Agent Cards.'')),
           (''url'', JStr (base @ ''/a2a'')), (''preferredTransport'', JStr ''JSONRPC''), (''version'', JStr PROTOCOL_VERSION),
           (''provider'', JObj [(''organization'', JStr (hb_name h)), (''url'', JStr base)]),
           (''capabilities'', a2a_capabilities),
           (''defaultInputModes'', JArr [JStr ''text/plain'']), (''defaultOutputModes'', JArr [JStr ''text/plain'']),
           (''skills'', JArr [JObj [(''id'', JStr ''directory''), (''name'', JStr ''Agent directory''),
              (''description'', JStr ''Discover the hub's public agents as A2A Agent Cards at /a2a/directory.''),
              (''tags'', JArr [JStr ''directory'', JStr ''discovery''])]]),
           (''parler'', JObj [(''mode'', JStr (hub_mode_as_str (hb_mode h))), (''agents'', jnat agents), (''publicAgents'', jnat public_agents),
              (''directory'', JStr (base @ ''/a2a/directory''))])])))"

definition a2a_directory :: "lib \<Rightarrow> (string \<Rightarrow> string option) \<Rightarrow> directory_query \<Rightarrow> ms \<Rightarrow> hub \<Rightarrow> response" where
  "a2a_directory L hdr q now h =
     (let want_hub = (dq_scope q = Some ''hub''); base = request_base_url hdr (hb_public_url h)
      in if want_hub \<and> \<not> hub_scope_authorized hdr now h then directory_refused
         else respond 200 (BJson (JArr (map (\<lambda>e. a2a_card e base (hb_name h)) (list_directory L q want_hub now h)))))"

definition a2a_agent :: "(string \<Rightarrow> string option) \<Rightarrow> string \<Rightarrow> ms \<Rightarrow> hub \<Rightarrow> response" where
  "a2a_agent hdr aid now h =
     (let base = request_base_url hdr (hb_public_url h)
      in case lookup_card aid (hb_name h) (hub_scope_authorized hdr now h) now (hb_store h) of
           Some entry \<Rightarrow> respond 200 (BJson (a2a_card entry base (hb_name h)))
         | None \<Rightarrow> no_such_agent)"

section \<open>The router\<close>

definition join_page :: "string \<Rightarrow> response" where
  "join_page code =
     respond 200 (BText (''Parler Protocol invite code: '' @ code @ [CHR 10, CHR 10] @ ''Hand this to another agent and have it run:'' @ [CHR 10] @
       ''    parler join '' @ code @ [CHR 10]))"

text \<open>The parameters that are not the program's: the parser of addresses and the check of header values.\<close>

record web_lib =
  wl_parse_ip :: "string \<Rightarrow> string option"
  wl_header_ok :: "string \<Rightarrow> bool"

definition handle_web :: "lib \<Rightarrow> web_lib \<Rightarrow> (string \<Rightarrow> string option) \<Rightarrow> string \<Rightarrow> web_request \<Rightarrow> ms \<Rightarrow> hub \<Rightarrow> response \<times> hub" where
  "handle_web L P hdr peer req now h =
     (case req of
        GetHealth \<Rightarrow> (respond 200 (BText ''ok''), h)
      | GetJoin code \<Rightarrow> (join_page code, h)
      | GetHub \<Rightarrow> (api_hub h, h)
      | GetParler \<Rightarrow> (parler_well_known h, h)
      | GetDirectory q \<Rightarrow> (api_directory L hdr q now h, h)
      | GetAgent aid \<Rightarrow> (api_agent hdr aid now h, h)
      | GetSession q \<Rightarrow> (api_session hdr q now h, h)
      | GetSessionBlob bid q \<Rightarrow> api_session_blob (wl_header_ok P) hdr bid q now h
      | PostWaitlist address \<Rightarrow> api_waitlist (wl_parse_ip P) hdr peer address now h
      | GetAgentCard \<Rightarrow> (a2a_well_known hdr h, h)
      | GetA2aDirectory q \<Rightarrow> (a2a_directory L hdr q now h, h)
      | GetA2aAgent aid \<Rightarrow> (a2a_agent hdr aid now h, h))"

definition rate_limited :: response where
  "rate_limited = (respond 429 (BText (''rate limit: too many requests '' @ em_dash @ '' slow down'' @ [CHR 10])))\<lparr>rp_headers := [(''retry-after'', ''60'')]\<rparr>"

definition web_serve :: "lib \<Rightarrow> web_lib \<Rightarrow> (string \<Rightarrow> string option) \<Rightarrow> string \<Rightarrow> web_request \<Rightarrow> ms \<Rightarrow> hub \<Rightarrow> response \<times> hub" where
  "web_serve L P hdr peer req now h =
     (if req = GetHealth then handle_web L P hdr peer req now h
      else case client_ip (wl_parse_ip P) hdr (Some peer) (hb_trust_proxy_headers h) of
             None \<Rightarrow> handle_web L P hdr peer req now h
           | Some ip \<Rightarrow>
               (case http_rate_allows (hb_max_http_per_min h) ip now (hb_http_rate h) of
                  (False, rates) \<Rightarrow> (rate_limited, h\<lparr>hb_http_rate := rates\<rparr>)
                | (True, rates) \<Rightarrow> handle_web L P hdr peer req now (h\<lparr>hb_http_rate := rates\<rparr>)))"

section \<open>What a viewer cannot see\<close>

text \<open>A message without the payloads of data parts, the signature, the ids of message and author, mentions and thread.\<close>

fun redact_part :: "part \<Rightarrow> part" where
  "redact_part (Data d) = Data JNull"
| "redact_part p = p"

definition redact_message :: "stored_message \<Rightarrow> stored_message" where
  "redact_message m =
     m\<lparr>sm_id := [], sm_room := [], sm_from := (sm_from m)\<lparr>ep_id := []\<rparr>, sm_mentions := None, sm_reply_to := None,
       sm_parts := map redact_part (filter (\<lambda>p. \<not> is_message_sig_part p) (sm_parts m))\<rparr>"

lemma viewer_part_redacted: "viewer_part (redact_part p) = viewer_part p"
  by (cases p) auto

lemma viewer_part_sig: "is_message_sig_part p \<Longrightarrow> viewer_part p = None"
  by (cases p) (auto simp: is_message_sig_part_def Let_def)

lemma viewer_parts_redacted:
  "filter_map viewer_part (map redact_part (filter (\<lambda>p. \<not> is_message_sig_part p) ps)) = filter_map viewer_part ps"
  by (induction ps) (auto simp: viewer_part_redacted viewer_part_sig split: option.split)

lemma html_escape_clean: "set (html_escape s) \<inter> {CHR ''<'', CHR ''>'', CHR 0x22} = {}"
proof -
  have keep: "x \<in> set (replace_all [d] r u) \<Longrightarrow> x \<in> set r \<or> (x \<in> set u \<and> x \<noteq> d)" for x d r u
    by (induction u) (auto simp: strip_prefix_def split: if_splits)
  have "CHR ''<'' \<notin> set (html_escape s)" "CHR ''>'' \<notin> set (html_escape s)" "CHR 0x22 \<notin> set (html_escape s)"
    unfolding html_escape_def by (auto dest!: keep)
  then show ?thesis by blast
qed

section \<open>Reads\<close>

lemma listed_visible:
  assumes "e \<in> set (list_directory L q want now h)"
  shows "want \<or> de_visibility e = Public"
  using assms public_scope_only_public unfolding list_directory_def by (cases want) fastforce+

lemma looked_up_visible:
  assumes "lookup_card aid hub scope now s = Some e"
  shows "scope \<or> de_visibility e = Public"
  using assms public_scope_only_public by (cases scope) fastforce+

lemma web_serve_cases:
  assumes "web_serve L P hdr peer req now h = (resp, h')"
  obtains (refused) rates where "resp = rate_limited" "h' = h\<lparr>hb_http_rate := rates\<rparr>"
  | (handled) rates where "handle_web L P hdr peer req now (h\<lparr>hb_http_rate := rates\<rparr>) = (resp, h')"
  using assms refused handled [of "hb_http_rate h"] handled unfolding web_serve_def
  by (auto split: if_splits option.splits prod.splits bool.splits)

lemma scope_rates [simp]: "hub_scope_authorized hdr now (h\<lparr>hb_http_rate := r\<rparr>) = hub_scope_authorized hdr now h"
  "list_directory L q want now (h\<lparr>hb_http_rate := r\<rparr>) = list_directory L q want now h"
  by (simp_all add: hub_scope_authorized_def list_directory_def split: option.splits)

section \<open>Writes\<close>

definition file_facts :: "blob_row list \<Rightarrow> (string \<times> string option \<times> int \<times> ms) list" where
  "file_facts files = map (\<lambda>b. (bl_id b, bl_media_type b, bl_size b, bl_created b)) files"

lemma touch_facts: "file_facts (update_where p (\<lambda>b. b\<lparr>bl_last_fetched := t\<rparr>) xs) = file_facts xs"
  by (auto simp: update_where_def file_facts_def)

lemma unchanged_hub: "k = k\<lparr>hb_waitlist_rate := hb_waitlist_rate k, hb_store := (hb_store k)\<lparr>st_waitlist := st_waitlist (hb_store k), st_blobs := st_blobs (hb_store k)\<rparr>\<rparr>"
  by simp

lemma blob_frame:
  "\<exists>f. snd (api_session_blob ok hdr bid q now k) = k\<lparr>hb_store := (hb_store k)\<lparr>st_blobs := f\<rparr>\<rparr> \<and> file_facts f = file_facts (st_blobs (hb_store k))"
proof -
  have "snd (api_session_blob ok hdr bid q now k) = k \<or> snd (api_session_blob ok hdr bid q now k) = k\<lparr>hb_store := touch_blob_fetched bid now (hb_store k)\<rparr>"
    by (simp add: api_session_blob_def split: option.split)
  then show ?thesis
  proof
    assume a: "snd (api_session_blob ok hdr bid q now k) = k"
    show ?thesis unfolding a by (intro exI [of _ "st_blobs (hb_store k)"]) simp
  next
    assume a: "snd (api_session_blob ok hdr bid q now k) = k\<lparr>hb_store := touch_blob_fetched bid now (hb_store k)\<rparr>"
    show ?thesis unfolding a touch_blob_fetched_def using touch_facts by blast
  qed
qed

lemma waitlist_frame: "\<exists>w l. snd (api_waitlist pip hdr peer x now k) = k\<lparr>hb_waitlist_rate := w, hb_store := (hb_store k)\<lparr>st_waitlist := l\<rparr>\<rparr>"
proof -
  obtain al ra where r: "(case client_ip pip hdr (Some peer) (hb_trust_proxy_headers k) of
      Some ip \<Rightarrow> waitlist_rate_allows ip now (hb_waitlist_rate k) | None \<Rightarrow> (True, hb_waitlist_rate k)) = (al, ra)" by fastforce
  show ?thesis
  proof (cases "al \<and> valid_email (normalize_email x)")
    case True
    with r show ?thesis by (auto simp: api_waitlist_def waitlist_add_def)
  next
    case False
    then have "snd (api_waitlist pip hdr peer x now k) = k\<lparr>hb_waitlist_rate := ra\<rparr>" unfolding api_waitlist_def r by (auto simp: Let_def)
    then show ?thesis by (intro exI [of _ ra] exI [of _ "st_waitlist (hb_store k)"]) simp
  qed
qed

lemma handle_web_frame:
  "\<exists>w l f. snd (handle_web L P hdr peer req now k) = k\<lparr>hb_waitlist_rate := w, hb_store := (hb_store k)\<lparr>st_waitlist := l, st_blobs := f\<rparr>\<rparr>
     \<and> file_facts f = file_facts (st_blobs (hb_store k))"
proof -
  consider (same) "snd (handle_web L P hdr peer req now k) = k"
    | (blob) bid q where "snd (handle_web L P hdr peer req now k) = snd (api_session_blob (wl_header_ok P) hdr bid q now k)"
    | (wait) x where "snd (handle_web L P hdr peer req now k) = snd (api_waitlist (wl_parse_ip P) hdr peer x now k)"
    by (cases req) (auto simp: handle_web_def)
  then show ?thesis
  proof cases
    case same
    show ?thesis unfolding same
      by (intro exI [of _ "hb_waitlist_rate k"] exI [of _ "st_waitlist (hb_store k)"] exI [of _ "st_blobs (hb_store k)"]) simp
  next
    case blob
    obtain f where f: "snd (handle_web L P hdr peer req now k) = k\<lparr>hb_store := (hb_store k)\<lparr>st_blobs := f\<rparr>\<rparr>" "file_facts f = file_facts (st_blobs (hb_store k))"
      using blob_frame blob by metis
    show ?thesis unfolding f(1)
      by (intro exI [of _ "hb_waitlist_rate k"] exI [of _ "st_waitlist (hb_store k)"] exI [of _ f]) (simp add: f(2))
  next
    case wait
    obtain w l where f: "snd (handle_web L P hdr peer req now k) = k\<lparr>hb_waitlist_rate := w, hb_store := (hb_store k)\<lparr>st_waitlist := l\<rparr>\<rparr>"
      using waitlist_frame wait by metis
    show ?thesis unfolding f
      by (intro exI [of _ w] exI [of _ l] exI [of _ "st_blobs (hb_store k)"]) simp
  qed
qed

section \<open>Properties\<close>


definition demo_web :: hub where
  "demo_web = hub_new (snd (mint_watch_token ''tok'' ''s'' ''o'' 99 1 demo_room)) ''parler://h'' ''h'' PublicHub"

definition demo_web_lib :: web_lib where
  "demo_web_lib = \<lparr>wl_parse_ip = (\<lambda>s. Some s), wl_header_ok = (\<lambda>s. True)\<rparr>"

abbreviation demo_viewed :: "response \<times> hub" where
  "demo_viewed \<equiv> web_serve demo_lib demo_web_lib (\<lambda>k. None) ''1.2.3.4'' (GetSession \<lparr>sq_since = None, sq_token = Some ''tok''\<rparr>) 5 demo_web"


text \<open>The session viewer shows no more than it must: what it shows of a message is what it shows of the
  message without the payloads of its data parts, its signature, and the ids of message, room and author.\<close>

theorem viewer_hides_payloads: "viewer_message m = viewer_message (redact_message m)"
  by (simp add: viewer_message_def redact_message_def viewer_parts_redacted)

text \<open>C23: The web changes nothing that a member or an agent relies on. Whatever the request, only the counters of
  the flood guards, the waiting list and the time a file was last fetched can change.\<close>

theorem web_changes_only_counters:
  "\<exists>http waiting list files. snd (web_serve L P hdr peer req now h) =
      h\<lparr>hb_http_rate := http, hb_waitlist_rate := waiting, hb_store := (hb_store h)\<lparr>st_waitlist := list, st_blobs := files\<rparr>\<rparr>
    \<and> map (\<lambda>b. (bl_id b, bl_media_type b, bl_size b, bl_created b)) files = map (\<lambda>b. (bl_id b, bl_media_type b, bl_size b, bl_created b)) (st_blobs (hb_store h))"
proof -
  obtain http where "snd (web_serve L P hdr peer req now h) = h\<lparr>hb_http_rate := http\<rparr>
      \<or> snd (web_serve L P hdr peer req now h) = snd (handle_web L P hdr peer req now (h\<lparr>hb_http_rate := http\<rparr>))"
    using web_serve_cases [OF prod.collapse [symmetric, of "web_serve L P hdr peer req now h"]] by (metis snd_conv)
  then show ?thesis
  proof
    assume a: "snd (web_serve L P hdr peer req now h) = h\<lparr>hb_http_rate := http\<rparr>"
    show ?thesis unfolding a
      by (intro exI [of _ http] exI [of _ "hb_waitlist_rate h"] exI [of _ "st_waitlist (hb_store h)"] exI [of _ "st_blobs (hb_store h)"]) simp
  next
    assume a: "snd (web_serve L P hdr peer req now h) = snd (handle_web L P hdr peer req now (h\<lparr>hb_http_rate := http\<rparr>))"
    from handle_web_frame [of L P hdr peer req now "h\<lparr>hb_http_rate := http\<rparr>"] obtain w l f where
      "snd (handle_web L P hdr peer req now (h\<lparr>hb_http_rate := http\<rparr>)) = h\<lparr>hb_http_rate := http, hb_waitlist_rate := w, hb_store := (hb_store h)\<lparr>st_waitlist := l, st_blobs := f\<rparr>\<rparr>"
      "file_facts f = file_facts (st_blobs (hb_store h))" by auto
    with a show ?thesis unfolding file_facts_def by metis
  qed
qed

end
