(* ===== verification/Render.thy ===== *)
theory Render
  imports Worker
begin

text \<open>
  Texts the command line tools share (\<^verbatim>\<open>parler-cli/src/lib.rs\<close>): how messages are shown to a person or an agent
  host, and the portable form of an invite code. A slice at a byte that is no character boundary panics in
  Rust; a function that may panic returns an option and \<open>None\<close> is the panic.
\<close>

section \<open>Splitting at a pattern\<close>

text \<open>\<^verbatim>\<open>str::split_once\<close>: around the first occurrence of the pattern.\<close>

fun split_once :: "string \<Rightarrow> string \<Rightarrow> (string \<times> string) option" where
  "split_once pat [] = (if pat = [] then Some ([], []) else None)"
| "split_once pat (c # cs) =
     (case strip_prefix pat (c # cs) of
        Some rest \<Rightarrow> Some ([], rest)
      | None \<Rightarrow> map_option (\<lambda>(a, b). (c # a, b)) (split_once pat cs))"

lemma split_once_Some: "split_once pat s = Some (a, b) \<Longrightarrow> s = a @ pat @ b"
  by (induction s arbitrary: a) (auto split: if_splits option.splits dest: strip_prefix_Some)

lemma split_once_char: "d \<notin> set a \<Longrightarrow> split_once [d] (a @ d # b) = Some (a, b)"
  by (induction a) (auto simp: strip_prefix_def)

lemma split_once_char_None: "d \<notin> set s \<Longrightarrow> split_once [d] s = None"
  by (induction s) (auto simp: strip_prefix_def)

lemma first_split: "a @ d # r = b @ d # s \<Longrightarrow> d \<notin> set a \<Longrightarrow> d \<notin> set b \<Longrightarrow> a = b"
proof (induction a arbitrary: b)
  case Nil
  then show ?case by (cases b) auto
next
  case (Cons c cs)
  then show ?case by (cases b) auto
qed

text \<open>A pattern that ends its line is found line by line.\<close>

lemma split_once_line_here:
  assumes "d \<notin> set q" "d \<notin> set line" "\<not> (\<exists>h. line = h @ q)"
  shows "split_once (q @ [d]) (line @ d # rest) = map_option (\<lambda>(a, b). (line @ d # a, b)) (split_once (q @ [d]) rest)"
  using assms(2,3)
proof (induction line)
  case Nil
  then have "q \<noteq> []" by auto
  then have "strip_prefix (q @ [d]) (d # rest) = None"
    using assms(1) by (cases q) (auto simp: strip_prefix_def)
  then show ?case by simp
next
  case (Cons c cs)
  have "strip_prefix (q @ [d]) ((c # cs) @ d # rest) = None"
  proof (rule ccontr)
    assume "strip_prefix (q @ [d]) ((c # cs) @ d # rest) \<noteq> None"
    then obtain r where "(c # cs) @ d # rest = q @ d # r" by (auto dest: strip_prefix_Some)
    then have "c # cs = q" by (rule first_split) (use Cons.prems(1) assms(1) in auto)
    with Cons.prems(2) show False by (metis append_Nil)
  qed
  moreover have "\<not> (\<exists>h. cs = h @ q)" using Cons.prems(2) by (metis append_Cons)
  ultimately show ?case using Cons by (auto simp: option.map_comp comp_def split_beta)
qed

lemma split_once_line_found:
  assumes "d \<notin> set q" "d \<notin> set h"
  shows "split_once (q @ [d]) (h @ q @ d # rest) = Some (h, rest)"
  using assms(2)
proof (induction h)
  case Nil
  have "strip_prefix (q @ [d]) ((q @ [d]) @ rest) = Some rest" by (rule strip_prefix_append)
  then show ?case by (cases "q @ d # rest") auto
next
  case (Cons c cs)
  have "strip_prefix (q @ [d]) ((c # cs) @ q @ d # rest) = None"
  proof (rule ccontr)
    assume "strip_prefix (q @ [d]) ((c # cs) @ q @ d # rest) \<noteq> None"
    then obtain r where "((c # cs) @ q) @ d # rest = q @ d # r" by (auto dest: strip_prefix_Some)
    then have "(c # cs) @ q = q" by (rule first_split) (use Cons.prems assms(1) in auto)
    then show False by simp
  qed
  with Cons show ?case by simp
qed

section \<open>Showing messages\<close>

definition dash :: string where "dash = [CHR 0xE2, CHR 0x80, CHR 0x94]"

fun task_status_marker :: "task_status \<Rightarrow> string" where
  "task_status_marker Accepted = [CHR 0xF0, CHR 0x9F, CHR 0x9F, CHR 0xA2]"
| "task_status_marker Working = [CHR 0xF0, CHR 0x9F, CHR 0x94, CHR 0xA7]"
| "task_status_marker Awaiting = [CHR 0xE2, CHR 0x8F, CHR 0xB3]"
| "task_status_marker Done = [CHR 0xE2, CHR 0x9C, CHR 0x85]"
| "task_status_marker Failed = [CHR 0xE2, CHR 0x9D, CHR 0x8C]"
| "task_status_marker Cancelled = [CHR 0xF0, CHR 0x9F, CHR 0x9A, CHR 0xAB]"

definition short :: "string \<Rightarrow> string option" where
  "short i = (let n = min (length i) 12 in if is_char_boundary i n then Some (take n i) else None)"

definition render_bundle :: "bundle_ref \<Rightarrow> string option" where
  "render_bundle b =
     (let shown = (\<lambda>tip. [CHR 0xF0, CHR 0x9F, CHR 0x93, CHR 0xA6] @ '' '' @ opt_or (br_summary b) ''(bundle)'' @ tip @ '' ('' @
                     show_nat (br_size b) @ '' bytes) '' @ dash @ '' parler apply '' @ br_blob b)
      in case br_tip b of
           None \<Rightarrow> Some (shown [])
         | Some t \<Rightarrow> map_option (\<lambda>s. shown ('' @'' @ s)) (short t))"

definition render_file :: "file_ref \<Rightarrow> string" where
  "render_file f =
     [CHR 0xF0, CHR 0x9F, CHR 0x93, CHR 0x8E] @ '' '' @ fr_name f @ '' ('' @ show_nat (fr_size f) @ '' bytes)'' @
     (case fr_summary f of None \<Rightarrow> [] | Some s \<Rightarrow> '' '' @ dash @ '' '' @ s) @
     '' '' @ dash @ '' parler fetch '' @ fr_blob f @ '' -o '' @ fr_name f"

definition render_handoff :: "handoff_ref \<Rightarrow> string" where
  "render_handoff h =
     [CHR 0xF0, CHR 0x9F, CHR 0xA4, CHR 0x9D] @ '' handoff '' @ [CHR 0xE2, CHR 0x86, CHR 0x92] @ '' '' @ opt_or (ho_to h) ''anyone'' @ '': '' @ ho_next h @
     (case ho_summary h of None \<Rightarrow> [] | Some s \<Rightarrow> ''  (done: '' @ s @ '')'') @
     (case ho_bundle h of None \<Rightarrow> [] | Some b \<Rightarrow> ''  '' @ dash @ '' parler apply '' @ b)"

definition render_task :: "task_ref \<Rightarrow> string" where
  "render_task t =
     task_status_marker (tk_status t) @ '' task '' @ task_status_label (tk_status t) @
     (case tk_task t of None \<Rightarrow> [] | Some i \<Rightarrow> '' ('' @ i @ '')'') @
     (case tk_note t of None \<Rightarrow> [] | Some n \<Rightarrow> '': '' @ n) @
     (case tk_result t of None \<Rightarrow> [] | Some b \<Rightarrow> '' '' @ dash @ '' parler fetch '' @ b)"

definition render_part :: "lib \<Rightarrow> part \<Rightarrow> string option" where
  "render_part L p =
     (case bundle_from_part p of
        Some b \<Rightarrow> render_bundle b
      | None \<Rightarrow>
     (case file_from_part p of
        Some f \<Rightarrow> Some (render_file f)
      | None \<Rightarrow>
     (case handoff_from_part p of
        Some h \<Rightarrow> Some (render_handoff h)
      | None \<Rightarrow>
     (case task_from_part p of
        Some t \<Rightarrow> Some (render_task t)
      | None \<Rightarrow>
     (case p of
        Text t \<Rightarrow> Some t
      | Data d \<Rightarrow> Some (''[data] '' @ lb_to_vec L d)
      | Extension kind fs \<Rightarrow> Some (''['' @ kind @ '']''))))))"

definition render_parts :: "lib \<Rightarrow> part list \<Rightarrow> string option" where
  "render_parts L ps = map_option (join_with '' '') (those (map (render_part L) (filter (\<lambda>p. \<not> is_message_sig_part p) ps)))"

definition render_message :: "lib \<Rightarrow> stored_message \<Rightarrow> string option" where
  "render_message L m =
     (let who = (case ep_role (sm_from m) of Some r \<Rightarrow> ep_name (sm_from m) @ '' ('' @ r @ '')'' | None \<Rightarrow> ep_name (sm_from m));
          flag = (case verify_message L (ep_id (sm_from m)) (sm_parts m) (sm_reply_to m) of
                    Valid \<Rightarrow> []
                  | Unsigned \<Rightarrow> warning @ '' ''
                  | Invalid \<Rightarrow> [CHR 0xE2, CHR 0x9C, CHR 0x97] @ '' UNVERIFIED '')
      in map_option (\<lambda>body. ''['' @ show_int (sm_seq m) @ ''] '' @ flag @ who @ '': '' @ body) (render_parts L (sm_parts m)))"

text \<open>
  Only the tip of a bundle can make the rendering panic: a peer that posts a bundle whose tip has a longer
  character across its twelfth byte stops every process that shows the message.
\<close>

definition tip_cut :: "part \<Rightarrow> bool" where
  "tip_cut p = (case bundle_from_part p of Some b \<Rightarrow> (case br_tip b of Some t \<Rightarrow> short t = None | None \<Rightarrow> False) | None \<Rightarrow> False)"

lemma short_ascii: "\<forall>c \<in> set i. is_ascii c \<Longrightarrow> short i = Some (take 12 i)"
  by (auto simp: short_def Let_def is_char_boundary_def min_def ascii_not_cont)

lemma render_part_panics: "render_part L p = None \<longleftrightarrow> tip_cut p"
  by (auto simp: render_part_def tip_cut_def render_bundle_def Let_def split: option.splits part.splits)

lemma those_None: "those xs = None \<longleftrightarrow> None \<in> set xs"
  by (induction xs) (auto split: option.splits)

lemma render_message_panics:
  "render_message L m = None \<longleftrightarrow> (\<exists>p \<in> set (sm_parts m). \<not> is_message_sig_part p \<and> tip_cut p)"
proof -
  have "render_message L m = None \<longleftrightarrow> None \<in> set (map (render_part L) (filter (\<lambda>p. \<not> is_message_sig_part p) (sm_parts m)))"
    by (simp add: render_message_def Let_def render_parts_def those_None)
  also have "\<dots> \<longleftrightarrow> (\<exists>p \<in> set (sm_parts m). \<not> is_message_sig_part p \<and> render_part L p = None)"
    by (auto simp: image_iff)
  finally show ?thesis by (simp add: render_part_panics)
qed

section \<open>Portable keys\<close>

definition split_portable_key :: "string \<Rightarrow> string \<times> string option" where
  "split_portable_key key0 =
     (let key = trim key0;
          as_link = (case split_once ''/join/'' key of
             None \<Rightarrow> (key, None)
           | Some (hub, tail) \<Rightarrow>
               let scheme = map_option fst (split_once ''://'' hub);
                   code = takeWhile (\<lambda>c. c \<notin> {CHR ''/'', CHR ''?'', CHR ''#''}) tail
               in if scheme \<in> Some ` {''parler'', ''ws'', ''wss'', ''http'', ''https''} \<and> code \<noteq> [] then (code, Some hub) else (key, None))
      in case split_once [CHR ''@''] key of
           None \<Rightarrow> as_link
         | Some (code, hub) \<Rightarrow>
             if code \<noteq> [] \<and> hub \<noteq> [] \<and> CHR '':'' \<notin> set code \<and> CHR ''/'' \<notin> set code then (code, Some hub) else as_link)"

definition session_view_link :: "string \<Rightarrow> string" where
  "session_view_link watch = ''https://www.parlerprotocol.com/hub#sessions&k='' @ watch"

text \<open>The compact form reads back, whatever the form of the hub.\<close>

lemma portable_key_roundtrip:
  assumes "code \<noteq> []" "hub \<noteq> []" "set code \<inter> {CHR ''@'', CHR '':'', CHR ''/''} = {}" "trim (code @ ''@'' @ hub) = code @ ''@'' @ hub"
  shows "split_portable_key (code @ ''@'' @ hub) = (code, Some hub)"
proof -
  have "split_once [CHR ''@''] (code @ CHR ''@'' # hub) = Some (code, hub)"
    using assms(3) by (intro split_once_char) auto
  then show ?thesis using assms by (auto simp: split_portable_key_def Let_def)
qed

end
