(* ===== verification/Conversation.thy ===== *)
theory Conversation
  imports Render
begin

text \<open>
  The part of the live conversation bridge that every agent host shares
  (\<^verbatim>\<open>parler-cli/src/conversation.rs\<close>): starting or joining a conversation, the bounded backlog a late joiner
  reads, shared files, which peer messages wake the host, the receive loop and the publication of finished
  turns. The host that runs a turn is a parameter of the receive loop; the files of the inbox are a map with a
  script of the outcomes of the next writes.
\<close>

section \<open>Hosts and limits\<close>

datatype host = Codex | Claude | Opencode

fun host_binary :: "host \<Rightarrow> string" where
  "host_binary Codex = ''codex''"
| "host_binary Claude = ''claude''"
| "host_binary Opencode = ''opencode''"

fun host_display :: "host \<Rightarrow> string" where
  "host_display Codex = ''Codex''"
| "host_display Claude = ''Claude Code''"
| "host_display Opencode = ''OpenCode''"

definition MAX_CONTEXT_CHARS :: nat where "MAX_CONTEXT_CHARS = 24000"
definition CLAUDE_WAKE_PROMPT_CHARS :: nat where "CLAUDE_WAKE_PROMPT_CHARS = 9000"
definition MAX_REPLY_CHARS :: nat where "MAX_REPLY_CHARS = 16000"
definition MAX_AUTO_FILES :: nat where "MAX_AUTO_FILES = 32"
definition MAX_AUTO_FILE_BYTES :: nat where "MAX_AUTO_FILE_BYTES = 100 * 1024 * 1024"
definition BACKLOG_PAGE_SIZE :: nat where "BACKLOG_PAGE_SIZE = 1000"
definition MAX_BACKLOG_MESSAGES :: nat where "MAX_BACKLOG_MESSAGES = 10000"

fun catchup_prompt_chars :: "host \<Rightarrow> nat" where
  "catchup_prompt_chars Claude = CLAUDE_WAKE_PROMPT_CHARS"
| "catchup_prompt_chars Codex = MAX_CONTEXT_CHARS"
| "catchup_prompt_chars Opencode = MAX_CONTEXT_CHARS"

record conversation_options =
  co_key :: "string option"
  co_topic :: "string option"
  co_approval :: bool
  co_ttl :: "nat option"
  co_max_uses :: "nat option"

fun error_text :: "client_error \<Rightarrow> string" where
  "error_text Disconnected = ''connection to the hub was lost''"
| "error_text (HubError c m) = m"
| "error_text (Plain m) = m"

section \<open>Recently seen ids\<close>

record recent_ids =
  ri_capacity :: nat
  ri_order :: "string list"
  ri_set :: "string set"

definition recent_new :: "nat \<Rightarrow> recent_ids" where
  "recent_new capacity = \<lparr>ri_capacity = capacity, ri_order = [], ri_set = {}\<rparr>"

definition recent_contains :: "recent_ids \<Rightarrow> string \<Rightarrow> bool" where
  "recent_contains r i = (i \<in> ri_set r)"

fun make_room :: "nat \<Rightarrow> string list \<Rightarrow> string set \<Rightarrow> string list \<times> string set" where
  "make_room capacity [] s = ([], s)"
| "make_room capacity (x # xs) s = (if capacity \<le> length (x # xs) then make_room capacity xs (s - {x}) else (x # xs, s))"

definition recent_insert :: "string \<Rightarrow> recent_ids \<Rightarrow> bool \<times> recent_ids" where
  "recent_insert i r =
     (if ri_capacity r = 0 \<or> i \<in> ri_set r then (False, r)
      else case make_room (ri_capacity r) (ri_order r) (ri_set r) of
             (order, s) \<Rightarrow> (True, r\<lparr>ri_order := order @ [i], ri_set := insert i s\<rparr>))"

definition recent_extend :: "string list \<Rightarrow> recent_ids \<Rightarrow> recent_ids" where
  "recent_extend is r = fold (\<lambda>i r. snd (recent_insert i r)) is r"

section \<open>Clipping from the front\<close>

definition omitted_marker :: string where
  "omitted_marker = ellipsis @ '' earlier context omitted '' @ ellipsis @ nl"

definition clip_tail :: "string \<Rightarrow> nat \<Rightarrow> string" where
  "clip_tail text max_chars =
     (let cs = utf8_chars text; count = length cs; marker_chars = chars_count omitted_marker
      in if count \<le> max_chars then text
         else if max_chars \<le> marker_chars then concat (drop (count - max_chars) cs)
         else omitted_marker @ concat (drop (count - (max_chars - marker_chars)) cs))"

section \<open>Which messages count\<close>

definition valid_in_conversation :: "lib \<Rightarrow> stored_message \<Rightarrow> string \<Rightarrow> bool" where
  "valid_in_conversation L m room =
     (verify_message L (ep_id (sm_from m)) (sm_parts m) (sm_reply_to m) = Valid
      \<and> (case sig_from_parts (sm_parts m) of Some s \<Rightarrow> ms_target s = TRoom room | None \<Rightarrow> False))"

definition started_text :: "string \<Rightarrow> string" where
  "started_text name = name @ '' started this live conversation''"

definition joined_text :: "string \<Rightarrow> string" where
  "joined_text name = name @ '' joined this live conversation''"

definition is_actionable :: "lib \<Rightarrow> stored_message \<Rightarrow> string \<Rightarrow> string \<Rightarrow> string \<Rightarrow> string option \<Rightarrow> bool" where
  "is_actionable L m room agent_id agent_name agent_role =
     (if ep_id (sm_from m) = agent_id \<or> \<not> valid_in_conversation L m room then False
      else
        let handoffs = filter_map handoff_from_part (sm_parts m)
        in if handoffs \<noteq> [] then list_ex (handoff_for_me agent_id agent_name agent_role) handoffs
           else if list_ex (\<lambda>p. case p of Text t \<Rightarrow> t = started_text (ep_name (sm_from m)) \<or> t = joined_text (ep_name (sm_from m)) | _ \<Rightarrow> False) (sm_parts m)
           then False
           else \<not> list_ex (\<lambda>p. task_from_part p \<noteq> None) (sm_parts m))"

section \<open>The backlog window\<close>

record backlog_window =
  bw_messages :: "(stored_message \<times> nat) list"
  bw_retained :: nat
  bw_total :: nat
  bw_rejected :: nat
  bw_cursor :: int

definition backlog_new :: backlog_window where
  "backlog_new = \<lparr>bw_messages = [], bw_retained = 0, bw_total = 0, bw_rejected = 0, bw_cursor = 0\<rparr>"

fun shrink :: "(stored_message \<times> nat) list \<Rightarrow> nat \<Rightarrow> (stored_message \<times> nat) list \<times> nat" where
  "shrink ((m, n) # ms) retained =
     (if MAX_CONTEXT_CHARS < retained \<and> 1 < length ((m, n) # ms) then shrink ms (retained - n) else ((m, n) # ms, retained))"
| "shrink [] retained = ([], retained)"

definition backlog_push :: "lib \<Rightarrow> string \<Rightarrow> stored_message \<Rightarrow> backlog_window \<Rightarrow> backlog_window option" where
  "backlog_push L room m b =
     (let b1 = b\<lparr>bw_total := bw_total b + 1, bw_cursor := max (bw_cursor b) (sm_seq m)\<rparr>
      in if \<not> valid_in_conversation L m room then Some (b1\<lparr>bw_rejected := bw_rejected b + 1\<rparr>)
         else case render_message L m of
                None \<Rightarrow> None
              | Some text \<Rightarrow>
                  let n = chars_count text + 1
                  in case shrink (bw_messages b @ [(m, n)]) (bw_retained b + n) of
                       (ms, retained) \<Rightarrow> Some (b1\<lparr>bw_messages := ms, bw_retained := retained\<rparr>))"

fun backlog_push_all :: "lib \<Rightarrow> string \<Rightarrow> stored_message list \<Rightarrow> backlog_window \<Rightarrow> backlog_window option" where
  "backlog_push_all L room [] b = Some b"
| "backlog_push_all L room (m # ms) b = (case backlog_push L room m b of None \<Rightarrow> None | Some b' \<Rightarrow> backlog_push_all L room ms b')"

definition into_messages :: "backlog_window \<Rightarrow> stored_message list" where
  "into_messages b = map fst (bw_messages b)"

definition panic :: client_error where "panic = Plain ''panic: byte index is not a char boundary''"

lemma backlog_push_total: "backlog_push L room m b = Some b' \<Longrightarrow> bw_total b' = bw_total b + 1"
  by (auto simp: backlog_push_def Let_def split: if_splits option.splits prod.splits)

lemma backlog_push_all_total: "backlog_push_all L room ms b = Some b' \<Longrightarrow> bw_total b' = bw_total b + length ms"
  by (induction ms arbitrary: b) (auto split: option.splits dest: backlog_push_total)

text \<open>
  Reading the backlog page by page after the window's cursor. The loop ends by itself: a page that is not empty
  adds to the total, and past the maximum it fails.
\<close>

function read_backlog :: "lib \<Rightarrow> 'w transport \<Rightarrow> string \<Rightarrow> backlog_window \<Rightarrow> 'w mesh_agent \<Rightarrow> ('w, backlog_window) outcome" where
  "read_backlog L T room b a =
     (let remaining = MAX_BACKLOG_MESSAGES + 1 - bw_total b; limit = min BACKLOG_PAGE_SIZE remaining
      in case agent_pull T room (Some (bw_cursor b)) (Some limit) a of
           (Inl er, a') \<Rightarrow> (Inl er, a')
         | (Inr (page, cursor), a') \<Rightarrow>
             if page = [] then (Inr b, a')
             else if cursor \<le> bw_cursor b
             then (Inl (Plain (''conversation backlog pagination did not advance past cursor '' @ show_int (bw_cursor b))), a')
             else case backlog_push_all L room page b of
                    None \<Rightarrow> (Inl panic, a')
                  | Some b' \<Rightarrow>
                      if MAX_BACKLOG_MESSAGES < bw_total b'
                      then (Inl (Plain (''conversation backlog exceeds '' @ show_nat MAX_BACKLOG_MESSAGES @
                              '' messages; start a fresh conversation or consolidate this one before joining'')), a')
                      else if length page < limit then (Inr b', a')
                      else read_backlog L T room b' a')"
  by pat_completeness auto

termination
  by (relation "measure (\<lambda>(L, T, room, b, a). MAX_BACKLOG_MESSAGES + 1 - bw_total b)")
     (auto dest: backlog_push_all_total simp: neq_Nil_conv)

declare read_backlog.simps [simp del]

section \<open>Shared files\<close>

record files =
  fl_read :: "string \<Rightarrow> string option"
  fl_script :: "bool list"

record 'w conversation =
  cv_agent :: "'w mesh_agent"
  cv_files :: files

definition cv_by_agent :: "('w mesh_agent \<Rightarrow> ('w, 'a) outcome) \<Rightarrow> 'w conversation \<Rightarrow> (client_error + 'a) \<times> 'w conversation" where
  "cv_by_agent op c = (let (r, a) = op (cv_agent c) in (r, c\<lparr>cv_agent := a\<rparr>))"

text \<open>\<^verbatim>\<open>write_private_file\<close> writes a temporary file and renames it: a failure leaves the old contents.\<close>

definition write_private_file :: "string \<Rightarrow> string \<Rightarrow> files \<Rightarrow> (client_error + unit) \<times> files" where
  "write_private_file path contents fl =
     (case fl_script fl of
        False # bs \<Rightarrow> (Inl (Plain ''writing a private file failed''), fl\<lparr>fl_script := bs\<rparr>)
      | bs \<Rightarrow> (Inr (), fl\<lparr>fl_read := (fl_read fl)(path := Some contents), fl_script := tl bs\<rparr>))"

text \<open>\<^verbatim>\<open>Path::file_name\<close>: the last component that is neither empty nor a dot, unless it is the parent.\<close>

definition path_file_name :: "string \<Rightarrow> string option" where
  "path_file_name p =
     (let comps = filter (\<lambda>c. c \<noteq> [] \<and> c \<noteq> ''.'') (split_on (CHR ''/'') p)
      in if comps = [] \<or> last comps = ''..'' then None else Some (last comps))"

definition is_content_id :: "string \<Rightarrow> bool" where
  "is_content_id v =
     (length v = 64 \<and> list_all (\<lambda>c. (48 \<le> byte c \<and> byte c \<le> 57) \<or> (97 \<le> byte c \<and> byte c \<le> 102)) v)"

definition inbox_path :: "string \<Rightarrow> file_ref \<Rightarrow> string" where
  "inbox_path home f =
     (let name = (case path_file_name (fr_name f) of
                    Some n \<Rightarrow> if n \<noteq> [] \<and> n \<noteq> ''.'' \<and> n \<noteq> ''..'' then n else ''shared-file''
                  | None \<Rightarrow> ''shared-file'')
      in path_join (path_join (path_join home ''inbox'') (fr_blob f)) name)"

definition materialize_file :: "lib \<Rightarrow> 'w transport \<Rightarrow> string \<Rightarrow> file_ref \<Rightarrow> 'w conversation \<Rightarrow> (client_error + string) \<times> 'w conversation" where
  "materialize_file L T home f c =
     (if \<not> is_content_id (fr_blob f) then (Inl (Plain ''signed file reference contains an invalid SHA-256 content id''), c)
      else
        let path = inbox_path home f;
            there = (case fl_read (cv_files c) path of Some old \<Rightarrow> length old = fr_size f \<and> lb_content_id L old = fr_blob f | None \<Rightarrow> False)
        in if there then (Inr path, c)
           else and_then (cv_by_agent (fetch_blob T (fr_blob f)) c) (\<lambda>contents c1.
             if length contents \<noteq> fr_size f
             then (Inl (Plain (''downloaded '' @ show_nat (length contents) @ '' bytes but the signed file reference declares '' @ show_nat (fr_size f))), c1)
             else if lb_content_id L contents \<noteq> fr_blob f
             then (Inl (Plain (''downloaded content hash '' @ lb_content_id L contents @ '' does not match signed blob id '' @ fr_blob f)), c1)
             else case write_private_file path contents (cv_files c1) of
                    (Inl er, fl) \<Rightarrow> (Inl er, c1\<lparr>cv_files := fl\<rparr>)
                  | (Inr _, fl) \<Rightarrow> (Inr path, c1\<lparr>cv_files := fl\<rparr>)))"

text \<open>The loop over the files of one turn or of a backlog: the lines for the host, and how many were left out.\<close>

fun take_files ::
  "lib \<Rightarrow> 'w transport \<Rightarrow> string \<Rightarrow> file_ref list \<Rightarrow> nat \<Rightarrow> nat \<Rightarrow> 'w conversation \<Rightarrow> (string list \<times> nat) \<times> 'w conversation" where
  "take_files L T home [] taken spent c = (([], 0), c)"
| "take_files L T home (f # fs) taken spent c =
     (if MAX_AUTO_FILES \<le> taken \<or> MAX_AUTO_FILE_BYTES < spent + fr_size f
      then case take_files L T home fs taken spent c of ((lines, omitted), c') \<Rightarrow> ((lines, omitted + 1), c')
      else case materialize_file L T home f c of
             (r, c1) \<Rightarrow>
               let line = (case r of Inr path \<Rightarrow> ''- '' @ path | Inl er \<Rightarrow> ''- '' @ fr_name f @ '' could not be downloaded: '' @ error_text er)
               in case take_files L T home fs (taken + 1) (spent + fr_size f) c1 of ((lines, omitted), c2) \<Rightarrow> ((line # lines, omitted), c2))"

definition materialize_files :: "lib \<Rightarrow> 'w transport \<Rightarrow> string \<Rightarrow> stored_message \<Rightarrow> 'w conversation \<Rightarrow> string list \<times> 'w conversation" where
  "materialize_files L T home m c =
     (case take_files L T home (filter_map file_from_part (sm_parts m)) 0 0 c of
        ((lines, omitted), c') \<Rightarrow>
          (lines @ (if 0 < omitted then [''- '' @ show_nat omitted @ '' additional file(s) not downloaded: per-turn limit reached''] else []), c'))"

definition materialize_backlog_files ::
  "lib \<Rightarrow> 'w transport \<Rightarrow> string \<Rightarrow> stored_message list \<Rightarrow> 'w conversation \<Rightarrow> string list \<times> 'w conversation" where
  "materialize_backlog_files L T home ms c =
     (case take_files L T home (concat (map (\<lambda>m. filter_map file_from_part (sm_parts m)) ms)) 0 0 c of
        ((lines, omitted), c') \<Rightarrow>
          (sort_dedup (lines @ (if 0 < omitted then [''- '' @ show_nat omitted @ '' additional file(s) not downloaded: catch-up limit reached''] else [])), c'))"

section \<open>Prompts\<close>

definition quoted :: "string \<Rightarrow> string" where "quoted s = CHR 0x27 # s @ [CHR 0x27]"

definition catchup_prefix :: "string \<Rightarrow> host \<Rightarrow> string" where
  "catchup_prefix room h =
     ''You have joined the live Parler conversation '' @ quoted room @ '' in this visible '' @ host_display h @ '' conversation. Read the '' @ nl @
     ''signed backlog below as conversation context, including any shared-file paths or fetch '' @ nl @
     ''instructions. Catch up silently: do not re-summarize it, call Parler, or claim work merely '' @ nl @
     ''because it appears in history. After this turn, new signed peer messages will arrive here '' @ nl @
     ''automatically.'' @ nl @ nl @ ''--- CONVERSATION SO FAR ---'' @ nl"

definition catchup_closing :: string where "catchup_closing = nl @ ''--- END CONTEXT ---'' @ nl"

definition catchup_prompt :: "lib \<Rightarrow> string \<Rightarrow> stored_message list \<Rightarrow> string list \<Rightarrow> host \<Rightarrow> string option" where
  "catchup_prompt L room ms file_lines h =
     (let max_chars = catchup_prompt_chars h;
          raw_files = (if file_lines = [] then []
                       else nl @ ''Shared files already materialized in this agent's local Parler inbox:'' @ nl @ join_with nl file_lines @ nl);
          fixed = chars_count (catchup_prefix room h) + chars_count catchup_closing;
          file_budget = min (max_chars - fixed) (max_chars div 4);
          fs = (if file_budget = 0 then [] else clip raw_files file_budget);
          context_budget = max_chars - fixed - chars_count fs
      in map_option (\<lambda>rendered. catchup_prefix room h @ clip_tail (join_with nl rendered) context_budget @ catchup_closing @ fs)
           (those (map (render_message L) ms)))"

definition live_turn_head :: "string \<Rightarrow> string \<Rightarrow> string" where
  "live_turn_head room h =
     ''A cryptographically signed peer message arrived in your live Parler conversation '' @ quoted room @ ''. '' @ nl @
     ''Continue the conversation naturally in this visible '' @ h @ '' conversation and act on any request in '' @ nl @
     ''the current workspace. Do not merely say you received it. Your final response is shared back '' @ nl @
     ''automatically; do not call Parler yourself. If a specific participant should take another '' @ nl @
     ''autonomous turn after you, put exactly one marker on the final non-empty line:'' @ nl @
     ''PARLER_HANDOFF {\"to\":\"agent-name-or-role\",\"next\":\"specific next step\",\"summary\":\"what you completed\"}'' @ nl @
     ''Otherwise omit that marker, which ends this turn without an accidental reply loop.'' @ nl @ nl"

definition live_turn_prompt ::
  "lib \<Rightarrow> 'w transport \<Rightarrow> string \<Rightarrow> string \<Rightarrow> stored_message \<Rightarrow> string \<Rightarrow> 'w conversation \<Rightarrow> string option \<times> 'w conversation" where
  "live_turn_prompt L T home room m h c =
     (case materialize_files L T home m c of
        (fs, c') \<Rightarrow>
          let file_lines = (if fs = [] then [] else nl @ ''Shared files materialized locally:'' @ nl @ join_with nl fs @ nl)
          in (map_option (\<lambda>shown. live_turn_head room h @ ''PEER MESSAGE:'' @ nl @ shown @ file_lines) (render_message L m), c'))"

text \<open>What of a turn's input is shown when its thread is shared again: the bridge's own instructions are cut off.\<close>

definition visible_user_transcript :: "string \<Rightarrow> (string \<times> string) option" where
  "visible_user_transcript text0 =
     (let text = trim text0; nonempty = (\<lambda>r. case r of Some (speaker, t) \<Rightarrow> if t = [] then None else r | None \<Rightarrow> None)
      in if text = [] then None
         else if strip_prefix ''A cryptographically signed peer message arrived'' text \<noteq> None
         then nonempty (map_option (\<lambda>(a, message). (''Peer'', trim message)) (split_once (''PEER MESSAGE:'' @ nl) text))
         else if strip_prefix ''You have joined the live Parler conversation'' text \<noteq> None
         then nonempty (Option.bind (split_once (''--- CONVERSATION SO FAR ---'' @ nl) text) (\<lambda>(a, rest).
                map_option (\<lambda>(ctx, b). (''Conversation context'', trim ctx)) (split_once (nl @ ''--- END CONTEXT ---'') rest)))
         else Some (''User'', text))"

section \<open>Joining\<close>

definition prepare_backlog ::
  "lib \<Rightarrow> 'w transport \<Rightarrow> string \<Rightarrow> string \<Rightarrow> stored_message list \<Rightarrow> bool \<Rightarrow> host \<Rightarrow> 'w conversation
    \<Rightarrow> (client_error + string option \<times> int option) \<times> 'w conversation" where
  "prepare_backlog L T home room initial created h c =
     (if initial = [] then (Inr (None, None), c)
      else if created
      then and_then (cv_by_agent (commit_reads_through T room (sm_seq (last initial))) c) (\<lambda>_ c1. (Inr (None, None), c1))
      else
        case backlog_push_all L room initial backlog_new of
          None \<Rightarrow> (Inl panic, c)
        | Some b0 \<Rightarrow>
            and_then (cv_by_agent (read_backlog L T room b0) c) (\<lambda>b c1.
              let trusted = into_messages b; commit_cursor = bw_cursor b
              in if trusted = []
                 then and_then (cv_by_agent (commit_reads_through T room commit_cursor) c1) (\<lambda>_ c2. (Inr (None, None), c2))
                 else case materialize_backlog_files L T home trusted c1 of
                        (fs, c2) \<Rightarrow>
                          (case catchup_prompt L room trusted fs h of
                             None \<Rightarrow> (Inl panic, c2)
                           | Some prompt \<Rightarrow> (Inr (Some prompt, Some commit_cursor), c2))))"

definition announce_arrival ::
  "lib \<Rightarrow> (string \<Rightarrow> string \<Rightarrow> string option) \<Rightarrow> 'w transport \<Rightarrow> send_draw \<Rightarrow> string \<Rightarrow> bool \<Rightarrow> 'w mesh_agent \<Rightarrow> ('w, unit) outcome" where
  "announce_arrival L sign T d room created a =
     and_then (send_text L sign T d (TRoom room) (if created then started_text (ma_name a) else joined_text (ma_name a)) a) (\<lambda>_ a1.
     agent_presence T ''waiting'' (Some (''live conversation '' @ quoted room)) a1)"

record conversation_entry =
  en_room :: string
  en_initial :: "stored_message list"
  en_created :: bool
  en_share :: "(string \<times> string option) option"

text \<open>The read-only viewer code is minted for the life of the invite or a day; without one the key is still shared.\<close>

definition print_created :: "'w transport \<Rightarrow> string \<Rightarrow> string \<Rightarrow> nat option \<Rightarrow> 'w mesh_agent \<Rightarrow> (string \<times> string option) \<times> 'w mesh_agent" where
  "print_created T room code ttl a =
     (case agent_mint_watch_token T room (Some (opt_or ttl (24 * 3600))) a of
        (Inr (watch, expires), a') \<Rightarrow> ((code, Some watch), a')
      | (Inl er, a') \<Rightarrow> ((code, None), a'))"

text \<open>Redeeming until the owner approves; per round whether the user interrupts the wait.\<close>

fun join_until :: "'w transport \<Rightarrow> string \<Rightarrow> bool list \<Rightarrow> 'w mesh_agent \<Rightarrow> ('w, string) outcome option" where
  "join_until T code [] a = None"
| "join_until T code (stop # stops) a =
     (case agent_redeem T code a of
        (Inl er, a') \<Rightarrow> Some (Inl er, a')
      | (Inr (OJoined room kind), a') \<Rightarrow>
          if kind = Channel then Some (Inr room, a')
          else Some (Inl (Plain (''the key opens a '' @ room_kind_as_str kind @ '' endpoint, not a shared conversation ('' @ quoted room @ '')'')), a')
      | (Inr (OPending room), a') \<Rightarrow>
          if stop then Some (Inl (Plain ''join cancelled while waiting for owner approval''), a') else join_until T code stops a')"

definition conversation_seed :: "string \<Rightarrow> string option \<Rightarrow> string \<Rightarrow> string \<Rightarrow> string" where
  "conversation_seed name topic transcript transcript_host =
     join_with (nl @ nl)
       ((case topic of Some t \<Rightarrow> if trim t \<noteq> [] then [[CHR 0xF0, CHR 0x9F, CHR 0xA7, CHR 0xAD] @ '' conversation topic: '' @ trim t] else [] | None \<Rightarrow> [])
        @ (if trim transcript \<noteq> []
           then [[CHR 0xF0, CHR 0x9F, CHR 0x93, CHR 0x8B] @ '' context shared from '' @ name @ [CHR 0x27] @ ''s resumed '' @ transcript_host @
                 '' conversation:'' @ nl @ trim transcript]
           else []))"

definition enter_conversation ::
  "lib \<Rightarrow> (string \<Rightarrow> string \<Rightarrow> string option) \<Rightarrow> 'w transport \<Rightarrow> send_draw \<Rightarrow> conversation_options \<Rightarrow> string \<Rightarrow> string \<Rightarrow> bool list \<Rightarrow> 'w mesh_agent
    \<Rightarrow> ('w, conversation_entry) outcome option" where
  "enter_conversation L sign T d opts transcript transcript_host stops a =
     (case co_key opts of
        None \<Rightarrow>
          Some (and_then (invite_with_approval T Channel None (co_ttl opts) (co_max_uses opts) (co_approval opts) a) (\<lambda>iv a1.
            let seed = conversation_seed (ma_name a1) (co_topic opts) transcript transcript_host
            in and_then (if seed = [] then (Inr (), a1)
                         else case send_text L sign T d (TRoom (in_room iv)) seed a1 of (Inl er, a2) \<Rightarrow> (Inl er, a2) | (Inr _, a2) \<Rightarrow> (Inr (), a2)) (\<lambda>_ a2.
               case print_created T (in_room iv) (in_code iv) (co_ttl opts) a2 of
                 (share, a3) \<Rightarrow>
                   and_then (agent_pull T (in_room iv) None None a3) (\<lambda>(initial, cursor) a4.
                   (Inr \<lparr>en_room = in_room iv, en_initial = initial, en_created = True, en_share = Some share\<rparr>, a4)))))
      | Some key \<Rightarrow>
          (case join_until T (fst (split_portable_key key)) stops a of
             None \<Rightarrow> None
           | Some r \<Rightarrow>
               Some (and_then r (\<lambda>room a1.
                 and_then (agent_pull T room None None a1) (\<lambda>(initial, cursor) a2.
                 (Inr \<lparr>en_room = room, en_initial = initial, en_created = False, en_share = None\<rparr>, a2))))))"

section \<open>The receive loop\<close>

text \<open>
  The loop hands a message to the coordinator of the host and waits: the channel is closed, the coordinator
  drops the message without an acknowledgement, or it acknowledges it.
\<close>

datatype delivery = ChannelClosed | AckDropped | Acked

record ('w, 'h) receiver =
  rv_agent :: "'w mesh_agent"
  rv_replay :: replay_guard
  rv_disk :: disk
  rv_host :: 'h

definition rv_by_agent :: "('w mesh_agent \<Rightarrow> ('w, 'a) outcome) \<Rightarrow> ('w, 'h) receiver \<Rightarrow> (client_error + 'a) \<times> ('w, 'h) receiver" where
  "rv_by_agent op v = (let (r, a) = op (rv_agent v) in (r, v\<lparr>rv_agent := a\<rparr>))"

definition rv_by_guard ::
  "(replay_guard \<Rightarrow> disk \<Rightarrow> (client_error + 'a) \<times> replay_guard \<times> disk) \<Rightarrow> ('w, 'h) receiver \<Rightarrow> (client_error + 'a) \<times> ('w, 'h) receiver" where
  "rv_by_guard op v = (let (r, g, d) = op (rv_replay v) (rv_disk v) in (r, v\<lparr>rv_replay := g, rv_disk := d\<rparr>))"

text \<open>One message; the result says whether the loop ends.\<close>

definition receive_message ::
  "lib \<Rightarrow> 'w transport \<Rightarrow> string \<Rightarrow> (stored_message \<Rightarrow> 'h \<Rightarrow> delivery \<times> 'h) \<Rightarrow> stored_message \<Rightarrow> ('w, 'h) receiver
    \<Rightarrow> (client_error + bool) \<times> ('w, 'h) receiver" where
  "receive_message L T room hand_over m v =
     (let me = ma_id (rv_agent v); pass_over = (\<lambda>v. and_then (rv_by_agent (commit_reads T room) v) (\<lambda>_ v'. (Inr False, v')))
      in if \<not> is_actionable L m room me (ma_name (rv_agent v)) (ma_role (rv_agent v)) then pass_over v
         else and_then (rv_by_guard (admit L m me) v) (\<lambda>admitted v1.
           if \<not> admitted then pass_over v1
           else case hand_over m (rv_host v1) of
                  (Acked, host) \<Rightarrow>
                    and_then (rv_by_agent (commit_reads T room) (v1\<lparr>rv_host := host, rv_replay := complete [m] (rv_replay v1)\<rparr>)) (\<lambda>_ v2. (Inr False, v2))
                | (_, host) \<Rightarrow> (Inr True, v1\<lparr>rv_host := host\<rparr>)))"

fun receive_page ::
  "lib \<Rightarrow> 'w transport \<Rightarrow> string \<Rightarrow> (stored_message \<Rightarrow> 'h \<Rightarrow> delivery \<times> 'h) \<Rightarrow> stored_message list \<Rightarrow> ('w, 'h) receiver
    \<Rightarrow> (client_error + bool) \<times> ('w, 'h) receiver" where
  "receive_page L T room hand_over [] v = (Inr False, v)"
| "receive_page L T room hand_over (m # ms) v =
     (case receive_message L T room hand_over m v of
        (Inr False, v') \<Rightarrow> receive_page L T room hand_over ms v'
      | r \<Rightarrow> r)"

fun receive_rounds ::
  "lib \<Rightarrow> 'w transport \<Rightarrow> string \<Rightarrow> (stored_message \<Rightarrow> 'h \<Rightarrow> delivery \<times> 'h) \<Rightarrow> (nat \<times> nat \<times> nat) list list \<Rightarrow> ('w, 'h) receiver
    \<Rightarrow> ((client_error + unit) \<times> ('w, 'h) receiver) option" where
  "receive_rounds L T room hand_over [] v = None"
| "receive_rounds L T room hand_over (waits # rounds) v =
     (case pull_wait T room (Some 1) waits False (rv_agent v) of
        None \<Rightarrow> None
      | Some (Inl er, a) \<Rightarrow> Some (Inl er, v\<lparr>rv_agent := a\<rparr>)
      | Some (Inr (ms, c, waited), a) \<Rightarrow>
          (case receive_page L T room hand_over ms (v\<lparr>rv_agent := a\<rparr>) of
             (Inl er, v') \<Rightarrow> Some (Inl er, v')
           | (Inr True, v') \<Rightarrow> Some (Inr (), v')
           | (Inr False, v') \<Rightarrow> receive_rounds L T room hand_over rounds v'))"

definition receive_loop ::
  "lib \<Rightarrow> 'w transport \<Rightarrow> string \<Rightarrow> string \<Rightarrow> (stored_message \<Rightarrow> 'h \<Rightarrow> delivery \<times> 'h) \<Rightarrow> (nat \<times> nat \<times> nat) list list \<Rightarrow> disk \<Rightarrow> 'h \<Rightarrow> 'w mesh_agent
    \<Rightarrow> ((client_error + unit) \<times> ('w, 'h) receiver) option" where
  "receive_loop L T home room hand_over rounds d host a =
     receive_rounds L T room hand_over rounds
       \<lparr>rv_agent = snd (agent_subscribe T a), rv_replay = guard_persistent L home (ma_id a), rv_disk = d, rv_host = host\<rparr>"

section \<open>Publishing a turn\<close>

definition parse_handoff :: "(string \<Rightarrow> handoff_ref option) \<Rightarrow> string \<Rightarrow> string \<times> handoff_ref option" where
  "parse_handoff parse output0 =
     (let output = trim output0
      in case rsplit_once (CHR 10) output of
           None \<Rightarrow> (output, None)
         | Some (body, line) \<Rightarrow>
             (case strip_prefix HANDOFF_MARKER (trim line) of
                None \<Rightarrow> (output, None)
              | Some payload \<Rightarrow>
                  (case parse payload of
                     None \<Rightarrow> (output, None)
                   | Some h \<Rightarrow>
                       if (case ho_to h of Some t \<Rightarrow> trim t \<noteq> [] | None \<Rightarrow> False) \<and> trim (ho_next h) \<noteq> [] \<and> trim body \<noteq> []
                       then (trim body, Some h) else (output, None))))"

definition peer_result_parts :: "(string \<Rightarrow> handoff_ref option) \<Rightarrow> stored_message \<Rightarrow> string \<Rightarrow> part list" where
  "peer_result_parts parse incoming text =
     (case parse_handoff parse text of
        (body, continuation) \<Rightarrow>
          [Text (clip body MAX_REPLY_CHARS),
           task_to_part \<lparr>tk_status = Done, tk_task = Some (sm_id incoming), tk_note = None, tk_result = None, tk_tokens = None, tk_elapsed_ms = None\<rparr>]
          @ (case continuation of None \<Rightarrow> [] | Some h \<Rightarrow> [handoff_to_part h]))"

definition send_peer_result ::
  "lib \<Rightarrow> (string \<Rightarrow> string \<Rightarrow> string option) \<Rightarrow> (string \<Rightarrow> handoff_ref option) \<Rightarrow> 'w transport \<Rightarrow> send_draw \<Rightarrow> string \<Rightarrow> stored_message \<Rightarrow> string
    \<Rightarrow> 'w mesh_agent \<Rightarrow> ('w, unit) outcome" where
  "send_peer_result L sign parse T d room incoming text a =
     (let mentions = map_option (\<lambda>t. [t]) (Option.bind (snd (parse_handoff parse text)) ho_to)
      in case agent_send L sign T d (TRoom room) (peer_result_parts parse incoming text) mentions (Some (sm_id incoming)) a of
           (Inl er, a') \<Rightarrow> (Inl er, a')
         | (Inr _, a') \<Rightarrow> (Inr (), a'))"

record turn_capture =
  tc_incoming :: "stored_message option"
  tc_text :: string

text \<open>Publishing a finished turn; the result is the message that is acknowledged to the receive loop.\<close>

definition publish_turn ::
  "lib \<Rightarrow> (string \<Rightarrow> string \<Rightarrow> string option) \<Rightarrow> (string \<Rightarrow> handoff_ref option) \<Rightarrow> 'w transport \<Rightarrow> send_draw \<Rightarrow> string \<Rightarrow> turn_capture
    \<Rightarrow> 'w mesh_agent \<Rightarrow> ('w, stored_message option) outcome" where
  "publish_turn L sign parse T d room cap a =
     (let text = trim (tc_text cap)
      in if text = [] then (Inr (tc_incoming cap), a)
         else case tc_incoming cap of
                None \<Rightarrow> and_then (send_text L sign T d (TRoom room) (clip text MAX_REPLY_CHARS) a) (\<lambda>_ a1. (Inr None, a1))
              | Some incoming \<Rightarrow> and_then (send_peer_result L sign parse T d room incoming text a) (\<lambda>_ a1. (Inr (Some incoming), a1)))"

end
