(* ===== verification/Secret.thy ===== *)
theory Secret
  imports Conversation
begin

text \<open>
  The hub's join secret at boot (\<^verbatim>\<open>parler-hub/src/secret.rs\<close>) and the check of its bind address
  (\<^verbatim>\<open>parler-hub/src/main.rs\<close>): an explicit value, or a file that is generated once and read on every later boot. The
  random draws are an argument, as is the parser of socket addresses.
\<close>

definition SECRET_ALPHABET :: string where
  "SECRET_ALPHABET = ''ABCDEFGHJKLMNPQRSTUVWXYZabcdefghjkmnpqrstuvwxyz23456789''"

definition random_secret :: "nat list \<Rightarrow> string" where
  "random_secret draws = map (\<lambda>i. SECRET_ALPHABET ! i) draws"

definition resolve_join_secret :: "nat list \<Rightarrow> string option \<Rightarrow> string option \<Rightarrow> files \<Rightarrow> (client_error + string option) \<times> files" where
  "resolve_join_secret draws explicit path fl =
     (let generate = (\<lambda>p. let s = random_secret draws
            in case write_private_file p (s @ nl) fl of (Inl er, fl') \<Rightarrow> (Inl er, fl') | (Inr _, fl') \<Rightarrow> (Inr (Some s), fl'));
          from_file = (case path of
             None \<Rightarrow> (Inr None, fl)
           | Some p \<Rightarrow>
               if p = [] then (Inr None, fl)
               else case fl_read fl p of
                      Some contents \<Rightarrow> if trim contents \<noteq> [] then (Inr (Some (trim contents)), fl) else generate p
                    | None \<Rightarrow> generate p)
      in case explicit of Some s \<Rightarrow> if s \<noteq> [] then (Inr (Some s), fl) else from_file | None \<Rightarrow> from_file)"

text \<open>\<open>parse_addr\<close> reads a socket address and says whether its host is a loopback address.\<close>

definition loopback_bind :: "(string \<Rightarrow> bool option) \<Rightarrow> string \<Rightarrow> bool" where
  "loopback_bind parse_addr addr =
     (case parse_addr addr of
        Some loopback \<Rightarrow> loopback
      | None \<Rightarrow> (case rsplit_once (CHR '':'') addr of Some (host, port) \<Rightarrow> eq_ignore_ascii_case host ''localhost'' | None \<Rightarrow> False))"

lemma trim_line:
  assumes "s \<noteq> []" "\<forall>c \<in> set s. is_ascii c \<and> 32 < byte c"
  shows "trim (s @ nl) = s"
proof -
  have a: "\<forall>c \<in> set (s @ nl). is_ascii c" using assms(2) by (auto simp: nl_def is_ascii_def byte_def)
  have ws: "is_whitespace [CHR 10]" "c \<in> set s \<Longrightarrow> \<not> is_whitespace [c]" for c
    using assms(2) is_whitespace_ascii by (fastforce simp: is_whitespace_def ws_chars_def byte_def)+
  have lead: "dropWhile is_whitespace (map (\<lambda>c. [c]) (s @ nl)) = map (\<lambda>c. [c]) (s @ nl)"
    using assms(1) ws(2) by (cases s) auto
  have rear: "dropWhile is_whitespace (map (\<lambda>c. [c]) (rev s)) = map (\<lambda>c. [c]) (rev s)"
  proof (cases "rev s")
    case (Cons d ds)
    then have "d \<in> set s" by (metis list.set_intros(1) set_rev)
    with ws(2) Cons show ?thesis by simp
  qed simp
  have "rev (map (\<lambda>c. [c]) (s @ nl)) = [CHR 10] # map (\<lambda>c. [c]) (rev s)" by (simp add: nl_def rev_map)
  then have "dropWhile is_whitespace (rev (map (\<lambda>c. [c]) (s @ nl))) = map (\<lambda>c. [c]) (rev s)" using ws(1) rear by simp
  then have "trim (s @ nl) = concat (rev (map (\<lambda>c. [c]) (rev s)))"
    unfolding trim_def trim_chars_def utf8_chars_ascii [OF a] lead by simp
  then show ?thesis by (simp add: rev_map)
qed

lemma random_secret_chars:
  assumes "\<forall>i \<in> set draws. i < length SECRET_ALPHABET"
  shows "\<forall>c \<in> set (random_secret draws). is_ascii c \<and> 32 < byte c" "length (random_secret draws) = length draws"
proof -
  have "list_all (\<lambda>c. is_ascii c \<and> 32 < byte c) SECRET_ALPHABET" by code_simp
  then have "\<forall>c \<in> set SECRET_ALPHABET. is_ascii c \<and> 32 < byte c" by (simp add: list_all_iff)
  with assms show "\<forall>c \<in> set (random_secret draws). is_ascii c \<and> 32 < byte c" by (auto simp: random_secret_def)
qed (simp add: random_secret_def)

text \<open>The generated join secret survives a restart. Whatever is drawn at a later boot, the hub that once
  resolved its secret from a file resolves the same secret again, and an explicit value always wins.\<close>

theorem join_secret_stable:
  assumes "resolve_join_secret draws None (Some path) fl = (Inr (Some s), fl')"
    and "draws \<noteq> []" "\<forall>i \<in> set draws. i < length SECRET_ALPHABET"
  shows "resolve_join_secret draws' None (Some path) fl' = (Inr (Some s), fl')
    \<and> (e \<noteq> [] \<longrightarrow> resolve_join_secret draws' (Some e) (Some path) fl' = (Inr (Some e), fl'))"
proof -
  note rc = random_secret_chars [OF assms(3)]
  have t: "trim (random_secret draws @ nl) = random_secret draws" "random_secret draws \<noteq> []"
    using trim_line [OF _ rc(1)] rc(2) assms(2) by (metis length_0_conv)+
  from assms(1) consider (old) contents where "path \<noteq> []" "fl_read fl path = Some contents" "trim contents = s" "s \<noteq> []" "fl' = fl"
    | (new) "path \<noteq> []" "s = random_secret draws" "fl_read fl' path = Some (s @ nl)"
    by (auto simp: resolve_join_secret_def Let_def write_private_file_def split: if_splits option.splits list.splits bool.splits)
  then have "resolve_join_secret draws' None (Some path) fl' = (Inr (Some s), fl')"
    by cases (use t in \<open>auto simp: resolve_join_secret_def Let_def\<close>)
  then show ?thesis by (simp add: resolve_join_secret_def)
qed

definition demo_boot :: files where
  "demo_boot = \<lparr>fl_read = (\<lambda>p. None), fl_script = []\<rparr>"

abbreviation demo_booted :: "(client_error + string option) \<times> files" where
  "demo_booted \<equiv> resolve_join_secret [0, 1, 2] None (Some ''/s'') demo_boot"

theorem join_secret_stable_witness:
  "resolve_join_secret [7, 8, 9] None (Some ''/s'') (snd demo_booted) = (Inr (Some ''ABC''), snd demo_booted)"
proof -
  have "fst demo_booted = Inr (Some ''ABC'')" by code_simp
  then have "demo_booted = (Inr (Some ''ABC''), snd demo_booted)" by (metis prod.collapse)
  moreover have "\<forall>i \<in> set [0, 1, 2]. i < length SECRET_ALPHABET" by (simp add: SECRET_ALPHABET_def)
  ultimately show ?thesis using join_secret_stable [of "[0, 1, 2]" "''/s''" demo_boot "''ABC''" "snd demo_booted" "[7, 8, 9]"] by simp
qed

end
