(* ===== verification/Conversation_Laws.thy ===== *)
theory Conversation_Laws
  imports Conversation Mailbox
begin

text \<open>
  What the shared part of the conversation bridge promises: bounded memory of seen ids, an exact backlog window,
  prompts within the limit of their host, only verified files on disk, peer turns only for authentic messages
  addressed to this agent, and no automatic exchange without end.
\<close>

section \<open>Recently seen ids\<close>

definition recent_ok :: "recent_ids \<Rightarrow> bool" where
  "recent_ok r = (set (ri_order r) = ri_set r \<and> distinct (ri_order r) \<and> length (ri_order r) \<le> ri_capacity r)"

lemma make_room_drop:
  "0 < cap \<Longrightarrow> set xs = s \<Longrightarrow> distinct xs \<Longrightarrow> make_room cap xs s = (drop (Suc (length xs) - cap) xs, set (drop (Suc (length xs) - cap) xs))"
proof (induction cap xs s rule: make_room.induct)
  case (2 cap x xs s)
  show ?case
  proof (cases "cap \<le> length (x # xs)")
    case True
    then have "Suc (length (x # xs)) - cap = Suc (Suc (length xs) - cap)" by simp
    moreover have "set xs = s - {x}" using 2 by auto
    ultimately show ?thesis using 2 True by simp
  qed (use 2 in auto)
qed simp

text \<open>A new id pushes out the oldest ones beyond the capacity, a known one changes nothing.\<close>

lemma recent_insert_order:
  assumes "recent_ok r" "0 < ri_capacity r" "i \<notin> ri_set r"
  shows "ri_order (snd (recent_insert i r)) = drop (Suc (length (ri_order r)) - ri_capacity r) (ri_order r) @ [i]"
    and "fst (recent_insert i r)" "recent_ok (snd (recent_insert i r))"
proof -
  have m: "make_room (ri_capacity r) (ri_order r) (ri_set r)
      = (drop (Suc (length (ri_order r)) - ri_capacity r) (ri_order r), set (drop (Suc (length (ri_order r)) - ri_capacity r) (ri_order r)))"
    using assms by (intro make_room_drop) (auto simp: recent_ok_def)
  then show "ri_order (snd (recent_insert i r)) = drop (Suc (length (ri_order r)) - ri_capacity r) (ri_order r) @ [i]" "fst (recent_insert i r)"
    using assms by (auto simp: recent_insert_def)
  show "recent_ok (snd (recent_insert i r))"
    using assms m by (auto simp: recent_insert_def recent_ok_def dest: in_set_dropD)
qed

lemma recent_insert_ok: "recent_ok r \<Longrightarrow> recent_ok (snd (recent_insert i r))"
proof (cases "ri_capacity r = 0 \<or> i \<in> ri_set r")
  case True
  then show "recent_ok r \<Longrightarrow> ?thesis" by (auto simp: recent_insert_def)
qed (use recent_insert_order(3) in auto)

lemma recent_extend_ok: "recent_ok r \<Longrightarrow> recent_ok (recent_extend is r)"
  unfolding recent_extend_def by (induction "is" arbitrary: r) (auto intro: recent_insert_ok)

lemma recent_new_ok [simp]: "recent_ok (recent_new n)"
  by (simp add: recent_ok_def recent_new_def)

lemma recent_insert_known: "0 < ri_capacity r \<Longrightarrow> recent_contains (snd (recent_insert i r)) i"
  by (auto simp: recent_insert_def recent_contains_def split: prod.splits)

section \<open>Counting characters\<close>

lemma chars_count_starts: "chars_count s = (if s = [] then 0 else Suc (length (filter (\<lambda>c. \<not> is_cont_byte c) (tl s))))"
proof (unfold chars_count_def, induction s rule: utf8_chars.induct)
  case (2 c cs)
  have "filter (\<lambda>c. \<not> is_cont_byte c) cs = filter (\<lambda>c. \<not> is_cont_byte c) (dropWhile is_cont_byte cs)"
    by (metis (no_types, lifting) append_Nil filter_append filter_False set_takeWhileD takeWhile_dropWhile_id)
  moreover have "char_start r \<Longrightarrow> length (utf8_chars r) = (if r = [] then 0 else Suc (length (filter (\<lambda>c. \<not> is_cont_byte c) (tl r))))
      \<Longrightarrow> length (utf8_chars r) = length (filter (\<lambda>c. \<not> is_cont_byte c) r)" for r
    by (cases r) (auto simp: char_start_def)
  then have "length (utf8_chars (dropWhile is_cont_byte cs)) = length (filter (\<lambda>c. \<not> is_cont_byte c) (dropWhile is_cont_byte cs))"
    using 2 char_start_rest by blast
  ultimately show ?case by simp
qed simp

lemma chars_count_append_le: "chars_count (a @ b) \<le> chars_count a + chars_count b"
  by (cases a; cases b) (auto simp: chars_count_starts)

lemma utf8_chars_append: "char_start t \<Longrightarrow> utf8_chars (s @ t) = utf8_chars s @ utf8_chars t"
  using utf8_chars_cut [of t "length (utf8_chars s)" s] by simp

lemma utf8_chars_drop: "utf8_chars (concat (drop k (utf8_chars s))) = drop k (utf8_chars s)"
proof (induction s arbitrary: k rule: utf8_chars.induct)
  case (2 c cs)
  show ?case
  proof (cases k)
    case 0
    then show ?thesis using concat_utf8_chars [of "c # cs"] by (metis drop0)
  next
    case (Suc n)
    with 2 show ?thesis by simp
  qed
qed simp

lemma clip_tail_bound: "chars_count (clip_tail text n) \<le> n"
proof -
  let ?cs = "utf8_chars text" and ?k = "chars_count omitted_marker"
  have "chars_count (omitted_marker @ concat (drop (length ?cs - (n - ?k)) ?cs)) \<le> ?k + chars_count (concat (drop (length ?cs - (n - ?k)) ?cs))"
    by (rule chars_count_append_le)
  then show ?thesis by (auto simp: clip_tail_def Let_def chars_count_def utf8_chars_drop)
qed

text \<open>A catch-up prompt keeps to the limit of its host, whatever the backlog, unless the frame alone exceeds it.\<close>

lemma catchup_prompt_bound:
  assumes "catchup_prompt L room ms file_lines h = Some prompt"
  shows "chars_count prompt \<le> max (catchup_prompt_chars h) (chars_count (catchup_prefix room h) + chars_count catchup_closing)"
proof -
  let ?fixed = "chars_count (catchup_prefix room h) + chars_count catchup_closing" and ?max = "catchup_prompt_chars h"
  obtain raw fs tail where p: "prompt = catchup_prefix room h @ tail @ catchup_closing @ fs"
    and f: "fs = (if min (?max - ?fixed) (?max div 4) = 0 then [] else clip raw (min (?max - ?fixed) (?max div 4)))"
    and t: "chars_count tail \<le> ?max - ?fixed - chars_count fs"
    using assms clip_tail_bound unfolding catchup_prompt_def Let_def by (auto split: if_splits)
  have "chars_count prompt \<le> chars_count (catchup_prefix room h) + (chars_count tail + (chars_count catchup_closing + chars_count fs))"
    unfolding p by (meson add_left_mono chars_count_append_le order_trans)
  moreover have "chars_count fs \<le> ?max - ?fixed"
    using clip_bound [of "min (?max - ?fixed) (?max div 4)" raw] by (auto simp: f chars_count_def)
  ultimately show ?thesis using t by linarith
qed

section \<open>The backlog window\<close>

text \<open>The characters a message takes in the window, and the sum over a list of messages.\<close>

definition shown :: "lib \<Rightarrow> stored_message \<Rightarrow> nat" where
  "shown L m = (case render_message L m of Some text \<Rightarrow> chars_count text + 1 | None \<Rightarrow> 0)"

definition shown_all :: "lib \<Rightarrow> stored_message list \<Rightarrow> nat" where
  "shown_all L ms = sum_list (map (shown L) ms)"

text \<open>The newest trusted messages that fit: one more would not, and a single message is kept at any length.\<close>

definition newest_fitting :: "lib \<Rightarrow> stored_message list \<Rightarrow> stored_message list \<Rightarrow> bool" where
  "newest_fitting L ms ks =
     (\<exists>older. ms = older @ ks \<and> (shown_all L ks \<le> MAX_CONTEXT_CHARS \<or> length ks = 1)
        \<and> (older \<noteq> [] \<longrightarrow> MAX_CONTEXT_CHARS < shown L (last older) + shown_all L ks))"

definition window_ok :: "lib \<Rightarrow> string \<Rightarrow> stored_message list \<Rightarrow> backlog_window \<Rightarrow> bool" where
  "window_ok L room ms b =
     (bw_total b = length ms \<and> bw_rejected b = length (filter (\<lambda>m. \<not> valid_in_conversation L m room) ms)
      \<and> bw_cursor b = Max (insert 0 (sm_seq ` set ms))
      \<and> (\<forall>(m, n) \<in> set (bw_messages b). n = shown L m) \<and> bw_retained b = shown_all L (into_messages b)
      \<and> newest_fitting L (filter (\<lambda>m. valid_in_conversation L m room) ms) (into_messages b))"

lemma shrink_spec:
  assumes "\<forall>(m, n) \<in> set xs. n = shown L m" "r = shown_all L (map fst xs)"
  shows "\<exists>d ys. xs = d @ ys \<and> shrink xs r = (ys, shown_all L (map fst ys)) \<and> (xs \<noteq> [] \<longrightarrow> ys \<noteq> [])
    \<and> (shown_all L (map fst ys) \<le> MAX_CONTEXT_CHARS \<or> length ys \<le> 1)
    \<and> (d \<noteq> [] \<longrightarrow> MAX_CONTEXT_CHARS < shown L (fst (last d)) + shown_all L (map fst ys))"
  using assms
proof (induction xs r rule: shrink.induct)
  case (1 m n ms r)
  show ?case
  proof (cases "MAX_CONTEXT_CHARS < r \<and> 1 < length ((m, n) # ms)")
    case True
    have "\<forall>(m, n) \<in> set ms. n = shown L m" "r - n = shown_all L (map fst ms)" using 1(2,3) by (auto simp: shown_all_def)
    from 1(1) [OF True this] obtain d ys where d: "ms = d @ ys" "shrink ms (r - n) = (ys, shown_all L (map fst ys))" "ms \<noteq> [] \<longrightarrow> ys \<noteq> []"
      "shown_all L (map fst ys) \<le> MAX_CONTEXT_CHARS \<or> length ys \<le> 1"
      "d \<noteq> [] \<longrightarrow> MAX_CONTEXT_CHARS < shown L (fst (last d)) + shown_all L (map fst ys)" by blast
    have n: "n = shown L m" using 1(2) by auto
    have "MAX_CONTEXT_CHARS < shown L (fst (last ((m, n) # d))) + shown_all L (map fst ys)"
      using d(1,5) 1(3) True n by (cases "d = []") (auto simp: shown_all_def)
    with d True show ?thesis by (intro exI [of _ "(m, n) # d"] exI [of _ ys] conjI) auto
  next
    case False
    with 1 show ?thesis by (intro exI [of _ "[]"] exI [of _ "(m, n) # ms"]) auto
  qed
qed (simp add: shown_all_def)

lemma Max_push: "finite A \<Longrightarrow> Max (insert 0 (insert x A)) = max (Max (insert 0 A)) (x :: int)"
  by (subst insert_commute) (simp add: max.commute)

lemma window_push:
  assumes "window_ok L room ms b" "backlog_push L room m b = Some b'"
  shows "window_ok L room (ms @ [m]) b'"
proof (cases "valid_in_conversation L m room")
  case False
  then have b': "b' = b\<lparr>bw_total := bw_total b + 1, bw_cursor := max (bw_cursor b) (sm_seq m), bw_rejected := bw_rejected b + 1\<rparr>"
    using assms(2) by (auto simp: backlog_push_def Let_def)
  with False assms(1) show ?thesis by (auto simp: window_ok_def into_messages_def Max_push simp del: Max_insert)
next
  case True
  with assms(2) obtain body where t: "render_message L m = Some body" by (auto simp: backlog_push_def Let_def split: option.splits)
  let ?n = "chars_count body + 1" and ?xs = "bw_messages b @ [(m, chars_count body + 1)]"
  let ?valid = "filter (\<lambda>m. valid_in_conversation L m room)"
  have n: "?n = shown L m" using t by (simp add: shown_def)
  have "\<forall>(m, n) \<in> set ?xs. n = shown L m" "bw_retained b + ?n = shown_all L (map fst ?xs)"
    using assms(1) n by (auto simp: window_ok_def shown_all_def into_messages_def)
  moreover have "?xs \<noteq> []" by simp
  ultimately obtain d ys where s: "?xs = d @ ys" "shrink ?xs (bw_retained b + ?n) = (ys, shown_all L (map fst ys))" "ys \<noteq> []"
    "shown_all L (map fst ys) \<le> MAX_CONTEXT_CHARS \<or> length ys \<le> 1"
    "d \<noteq> [] \<longrightarrow> MAX_CONTEXT_CHARS < shown L (fst (last d)) + shown_all L (map fst ys)"
    using shrink_spec [of ?xs L "bw_retained b + ?n"] by blast
  then have b': "b' = b\<lparr>bw_total := bw_total b + 1, bw_cursor := max (bw_cursor b) (sm_seq m), bw_messages := ys, bw_retained := shown_all L (map fst ys)\<rparr>"
    using True assms(2) t by (auto simp: backlog_push_def Let_def)
  obtain older where o: "?valid ms = older @ into_messages b"
    "older \<noteq> [] \<longrightarrow> MAX_CONTEXT_CHARS < shown L (last older) + shown_all L (into_messages b)"
    using assms(1) by (auto simp: window_ok_def newest_fitting_def)
  have v: "?valid (ms @ [m]) = (older @ map fst d) @ map fst ys"
    using True o(1) arg_cong [OF s(1), of "map fst"] by (simp add: into_messages_def)
  have "older @ map fst d \<noteq> [] \<longrightarrow> MAX_CONTEXT_CHARS < shown L (last (older @ map fst d)) + shown_all L (map fst ys)"
  proof (cases "d = []")
    case True
    then have "shown_all L (into_messages b) \<le> shown_all L (map fst ys)" using s(1) by (auto simp: shown_all_def into_messages_def)
    with o(2) True show ?thesis by auto
  qed (use s(5) in \<open>simp add: last_map\<close>)
  moreover have "length ys \<le> 1 \<Longrightarrow> length ys = 1" using s(3) by (cases ys) auto
  ultimately have "newest_fitting L (?valid (ms @ [m])) (map fst ys)"
    unfolding newest_fitting_def v using s(4) by (intro exI [of _ "older @ map fst d"]) auto
  moreover have "set ys \<subseteq> set ?xs" unfolding s(1) by simp
  then have "\<forall>(m, n) \<in> set ys. n = shown L m" using \<open>\<forall>(m, n) \<in> set ?xs. n = shown L m\<close> by blast
  ultimately show ?thesis using assms(1) True unfolding b'
    by (auto simp: window_ok_def into_messages_def Max_push simp del: Max_insert)
qed

lemma window_push_all:
  "window_ok L room ms b \<Longrightarrow> backlog_push_all L room rest b = Some b' \<Longrightarrow> window_ok L room (ms @ rest) b'"
proof (induction rest arbitrary: ms b)
  case (Cons m rest)
  then show ?case using window_push [of L room ms b m] Cons.IH [of "ms @ [m]"] by (auto split: option.splits)
qed simp

lemma window_new: "window_ok L room [] backlog_new"
  by (simp add: window_ok_def backlog_new_def into_messages_def newest_fitting_def shown_all_def)

text \<open>The pages of the backlog go through the window in order, and reading them commits nothing.\<close>

lemma retry_same: "retry_once T op a = (r, a') \<Longrightarrow> same_reads a a'"
  by (erule retry_cases) (meson on_transport_same reconnect_same same_reads_trans)+

lemma expect_same: "expect T f action sel a = (x, a') \<Longrightarrow> same_reads a a'"
  by (auto simp: expect_def agent_request_def split: prod.splits sum.splits option.splits dest: retry_same)

lemma pull_since_same: "agent_pull T room (Some c) limit a = (r, a') \<Longrightarrow> same_reads a a'"
  by (auto simp: agent_pull_def Let_def split: prod.splits sum.splits dest: expect_same)

lemma read_backlog_window:
  "read_backlog L T room b a = (r, a') \<Longrightarrow> same_reads a a' \<and> (\<forall>b'. r = Inr b' \<longrightarrow> (\<exists>rest. backlog_push_all L room rest b = Some b'))"
proof (induction L T room b a arbitrary: r a' rule: read_backlog.induct)
  case (1 L T room b a)
  let ?limit = "min BACKLOG_PAGE_SIZE (MAX_BACKLOG_MESSAGES + 1 - bw_total b)"
  obtain p a1 where p: "agent_pull T room (Some (bw_cursor b)) (Some ?limit) a = (p, a1)" by fastforce
  note same = pull_since_same [OF p]
  show ?case
  proof (cases p)
    case (Inl er)
    with 1(2) p same show ?thesis by (subst (asm) read_backlog.simps) (auto simp: Let_def)
  next
    case (Inr x)
    obtain page cursor where x: "x = (page, cursor)" by fastforce
    show ?thesis
    proof (cases "page = [] \<or> cursor \<le> bw_cursor b \<or> backlog_push_all L room page b = None")
      case True
      with 1(2) p Inr x same show ?thesis
        by (subst (asm) read_backlog.simps) (auto simp: Let_def split: if_splits intro: exI [of _ "[]"])
    next
      case False
      then obtain b1 where b1: "backlog_push_all L room page b = Some b1" by auto
      show ?thesis
      proof (cases "MAX_BACKLOG_MESSAGES < bw_total b1 \<or> length page < ?limit")
        case True
        with 1(2) p Inr x same False b1 show ?thesis
          by (subst (asm) read_backlog.simps) (auto simp: Let_def split: if_splits)
      next
        case stop: False
        with 1(2) p Inr x False b1 have "read_backlog L T room b1 a1 = (r, a')"
          by (subst (asm) read_backlog.simps) (auto simp: Let_def)
        with 1(1) [OF refl refl p [symmetric] Inr x [symmetric]] False b1 stop
        have "same_reads a1 a' \<and> (\<forall>b'. r = Inr b' \<longrightarrow> (\<exists>rest. backlog_push_all L room rest b1 = Some b'))" by auto
        moreover have "backlog_push_all L room (page @ rest) b = backlog_push_all L room rest b1" for rest
          using b1 by (induction page arbitrary: b) (auto split: option.splits)
        ultimately show ?thesis using same by (metis same_reads_trans)
      qed
    qed
  qed
qed

section \<open>Shared files\<close>

lemma materialize_file_same: "materialize_file L T home f c = (r, c') \<Longrightarrow> same_reads (cv_agent c) (cv_agent c')"
  by (auto simp: materialize_file_def Let_def cv_by_agent_def and_then_def fetch_blob_def
      split: if_splits option.splits prod.splits sum.splits dest: retry_same)

lemma take_files_same: "take_files L T home fs n total0 c = (r, c') \<Longrightarrow> same_reads (cv_agent c) (cv_agent c')"
proof (induction fs arbitrary: n total0 c r)
  case (Cons f fs)
  then show ?case
    by (auto simp: Let_def split: if_splits prod.splits dest: materialize_file_same intro: same_reads_trans)
qed simp

lemma path_file_name_plain:
  assumes "path_file_name p = Some n"
  shows "CHR ''/'' \<notin> set n" "n \<noteq> []" "n \<noteq> ''.''" "n \<noteq> ''..''"
proof -
  let ?cs = "filter (\<lambda>c. c \<noteq> [] \<and> c \<noteq> ''.'') (split_on (CHR ''/'') p)"
  have n: "?cs \<noteq> []" "n = last ?cs" "n \<noteq> ''..''" using assms by (auto simp: path_file_name_def Let_def split: if_splits)
  then have "n \<in> set ?cs" by (metis last_in_set)
  then show "CHR ''/'' \<notin> set n" "n \<noteq> []" "n \<noteq> ''.''" "n \<noteq> ''..''" using n(3) by (auto dest: split_on_not_in)
qed

definition plain_name :: "string \<Rightarrow> bool" where
  "plain_name n = (n \<notin> {[], ''.'', ''..''} \<and> CHR ''/'' \<notin> set n)"

lemma inbox_path_plain: "\<exists>name. plain_name name \<and> inbox_path home f = path_join (path_join (path_join home ''inbox'') (fr_blob f)) name"
proof (cases "path_file_name (fr_name f)")
  case None
  then show ?thesis by (intro exI [of _ "''shared-file''"]) (simp add: inbox_path_def plain_name_def)
next
  case (Some n)
  with path_file_name_plain [OF Some] show ?thesis by (intro exI [of _ n]) (simp add: inbox_path_def plain_name_def)
qed

lemma write_private_read:
  "write_private_file path contents fl = (r, fl') \<Longrightarrow>
   fl_read fl' = (case r of Inr _ \<Rightarrow> (fl_read fl)(path := Some contents) | Inl _ \<Rightarrow> fl_read fl)"
  by (auto simp: write_private_file_def split: list.splits bool.splits)

section \<open>Who is woken\<close>

lemma peer_result_task: "\<exists>t. task_from_part t \<noteq> None \<and> t \<in> set (peer_result_parts parse incoming text)"
proof -
  let ?t = "\<lparr>tk_status = Done, tk_task = Some (sm_id incoming), tk_note = None, tk_result = None, tk_tokens = None, tk_elapsed_ms = None\<rparr>"
  have "task_from_part (task_to_part ?t) = Some ?t" by (intro task_roundtrip) auto
  then show ?thesis by (intro exI [of _ "task_to_part ?t"]) (auto simp: peer_result_parts_def split_beta)
qed

lemma peer_result_handoffs:
  "filter_map handoff_from_part (peer_result_parts parse incoming text @ [sig_to_part s])
   = (case snd (parse_handoff parse text) of None \<Rightarrow> [] | Some h \<Rightarrow> [h])"
  by (auto simp: peer_result_parts_def handoff_roundtrip split: prod.splits option.splits)

lemma rv_by_agent_host: "rv_by_agent op v = (r, v') \<Longrightarrow> rv_host v' = rv_host v \<and> rv_replay v' = rv_replay v \<and> rv_disk v' = rv_disk v"
  by (auto simp: rv_by_agent_def split: prod.splits)

lemma rv_by_guard_host: "rv_by_guard op v = (r, v') \<Longrightarrow> rv_host v' = rv_host v \<and> rv_agent v' = rv_agent v"
  by (auto simp: rv_by_guard_def split: prod.splits)

lemma received_host:
  assumes "receive_message L T room hand m v = (r, v')" "rv_host v' \<noteq> rv_host v \<or> rv_agent v' \<noteq> rv_agent v"
  obtains (skipped) "\<not> is_actionable L m room (ma_id (rv_agent v)) (ma_name (rv_agent v)) (ma_role (rv_agent v))" "rv_host v' = rv_host v"
  | (replayed) "fst (admit L m (ma_id (rv_agent v)) (rv_replay v) (rv_disk v)) = Inr False" "rv_host v' = rv_host v"
  | (handed) "is_actionable L m room (ma_id (rv_agent v)) (ma_name (rv_agent v)) (ma_role (rv_agent v))"
      "fst (admit L m (ma_id (rv_agent v)) (rv_replay v) (rv_disk v)) = Inr True"
      "rv_host v' = snd (hand m (rv_host v))" "rv_agent v' = rv_agent v \<or> fst (hand m (rv_host v)) = Acked"
proof (cases "is_actionable L m room (ma_id (rv_agent v)) (ma_name (rv_agent v)) (ma_role (rv_agent v))")
  case False
  then have "and_then (rv_by_agent (commit_reads T room) v) (\<lambda>_ v'. (Inr False, v')) = (r, v')"
    using assms(1) by (simp add: receive_message_def Let_def)
  then show thesis using False skipped by (elim and_then_cases) (auto dest: rv_by_agent_host)
next
  case True
  obtain x v1 where a: "rv_by_guard (admit L m (ma_id (rv_agent v))) v = (x, v1)" by fastforce
  have ad: "fst (admit L m (ma_id (rv_agent v)) (rv_replay v) (rv_disk v)) = x"
    using a by (auto simp: rv_by_guard_def split: prod.splits)
  note h1 = rv_by_guard_host [OF a]
  from assms(1) True a consider (err) er where "x = Inl er" "v' = v1"
    | (no) "x = Inr False" "and_then (rv_by_agent (commit_reads T room) v1) (\<lambda>_ v'. (Inr False, v')) = (r, v')"
    | (yes) "x = Inr True" "(case hand m (rv_host v1) of (Acked, host) \<Rightarrow>
        and_then (rv_by_agent (commit_reads T room) (v1\<lparr>rv_host := host, rv_replay := complete [m] (rv_replay v1)\<rparr>)) (\<lambda>_ v2. (Inr False, v2))
        | (_, host) \<Rightarrow> (Inr True, v1\<lparr>rv_host := host\<rparr>)) = (r, v')"
    unfolding receive_message_def Let_def and_then_def by (auto split: sum.splits if_splits)
  then show thesis
  proof cases
    case err
    with h1 assms(2) show ?thesis by simp
  next
    case no
    then have "rv_host v' = rv_host v" using h1 by (elim and_then_cases) (auto dest: rv_by_agent_host)
    with no ad replayed show ?thesis by simp
  next
    case yes
    then have "rv_host v' = snd (hand m (rv_host v)) \<and> (rv_agent v' = rv_agent v \<or> fst (hand m (rv_host v)) = Acked)"
      using h1 by (auto split: prod.splits delivery.splits elim!: and_then_cases dest!: rv_by_agent_host)
    with True yes(1) ad handed show ?thesis by simp
  qed
qed

section \<open>Sharing a thread again\<close>

definition trim_end :: "string \<Rightarrow> string" where
  "trim_end s = concat (rev (dropWhile is_whitespace (rev (utf8_chars s))))"

lemma trim_front:
  assumes "char_start b" "utf8_chars a = g # gs" "\<not> is_whitespace g" "\<exists>x \<in> set (utf8_chars b). \<not> is_whitespace x"
  shows "trim (a @ b) = a @ trim_end b"
proof -
  have "concat (g # gs) = a" using assms(2) concat_utf8_chars [of a] by simp
  moreover obtain x where x: "x \<in> set (rev (utf8_chars b))" "\<not> is_whitespace x" using assms(4) by auto
  have "rev (dropWhile is_whitespace (rev (utf8_chars b) @ rev (g # gs))) = (g # gs) @ rev (dropWhile is_whitespace (rev (utf8_chars b)))"
    using dropWhile_append1 [of x "rev (utf8_chars b)" is_whitespace "rev (g # gs)"] x by simp
  ultimately show ?thesis
    using assms(1-3) by (simp add: trim_def trim_chars_def trim_end_def utf8_chars_append)
qed

lemma dropWhile_rev_split:
  "\<exists>ws. xs = rev (dropWhile p (rev xs)) @ ws \<and> (\<forall>x \<in> set ws. p x)"
  by (metis (no_types, lifting) rev_append rev_rev_ident set_rev set_takeWhileD takeWhile_dropWhile_id)

lemma trim_trim_end: "trim (trim_end s) = trim s"
proof -
  let ?p = is_whitespace and ?ys = "utf8_chars s"
  let ?zs = "rev (dropWhile ?p (rev ?ys))"
  obtain ws where ws: "?ys = ?zs @ ws" "\<forall>x \<in> set ws. ?p x" using dropWhile_rev_split [of ?ys ?p] by blast
  then have "?zs = take (length ?zs) ?ys" by (metis append_eq_conv_conj)
  then have u: "utf8_chars (concat ?zs) = ?zs"
    using utf8_chars_cut [of "[]" "length ?zs" s] by (metis append_Nil2 char_start_def list.simps(4) utf8_chars.simps(1))
  have "dropWhile ?p (rev (dropWhile ?p ?zs)) = dropWhile ?p (rev (dropWhile ?p ?ys))"
  proof (cases "\<forall>x \<in> set ?zs. ?p x")
    case True
    then have "\<forall>x \<in> set ?ys. ?p x" using ws by (metis UnE set_append)
    with True have "dropWhile ?p ?zs = []" "dropWhile ?p ?ys = []" unfolding dropWhile_eq_Nil_conv by blast+
    then show ?thesis by (simp only:)
  next
    case False
    then have "dropWhile ?p ?ys = dropWhile ?p ?zs @ ws" using ws(1) by (metis dropWhile_append1)
    with ws(2) show ?thesis by (simp add: dropWhile_append)
  qed
  with u show ?thesis by (simp add: trim_def trim_chars_def trim_end_def)
qed

text \<open>The marker of the peer's text is found behind the instructions, whose lines end otherwise.\<close>

lemma split_once_lines:
  assumes "CHR 10 \<notin> set q" "\<forall>l \<in> set ls. CHR 10 \<notin> set l \<and> drop (length l - length q) l \<noteq> q"
  shows "split_once (q @ nl) (concat (map (\<lambda>l. l @ nl) ls) @ q @ nl @ rest) = Some (concat (map (\<lambda>l. l @ nl) ls), rest)"
  using assms(2)
proof (induction ls)
  case Nil
  then show ?case using split_once_line_found [OF assms(1), of "[]" rest] by (simp add: nl_def)
next
  case (Cons l ls)
  then have "\<not> (\<exists>h. l = h @ q)" by auto
  with Cons split_once_line_here [OF assms(1), of l "concat (map (\<lambda>l. l @ nl) ls) @ q @ nl @ rest"] show ?case
    by (simp add: nl_def)
qed

definition live_head_lines :: "string \<Rightarrow> string \<Rightarrow> string list" where
  "live_head_lines room h =
     [''A cryptographically signed peer message arrived in your live Parler conversation '' @ quoted room @ ''. '',
      ''Continue the conversation naturally in this visible '' @ h @ '' conversation and act on any request in '',
      ''the current workspace. Do not merely say you received it. Your final response is shared back '',
      ''automatically; do not call Parler yourself. If a specific participant should take another '',
      ''autonomous turn after you, put exactly one marker on the final non-empty line:'',
      ''PARLER_HANDOFF {\"to\":\"agent-name-or-role\",\"next\":\"specific next step\",\"summary\":\"what you completed\"}'',
      ''Otherwise omit that marker, which ends this turn without an accidental reply loop.'', []]"

lemma live_head_concat: "live_turn_head room h = concat (map (\<lambda>l. l @ nl) (live_head_lines room h))"
  by (simp add: live_turn_head_def live_head_lines_def)

lemma ends_otherwise: "y \<noteq> [] \<Longrightarrow> last y \<noteq> last q \<Longrightarrow> q \<noteq> [] \<Longrightarrow> drop (length (x @ y) - length q) (x @ y) \<noteq> q"
  by (metis append_is_Nil_conv drop_eq_Nil2 last_appendR last_drop linorder_not_le)

lemma live_head_split:
  assumes "CHR 10 \<notin> set room" "CHR 10 \<notin> set h"
  shows "split_once (''PEER MESSAGE:'' @ nl) (live_turn_head room h @ ''PEER MESSAGE:'' @ nl @ rest) = Some (live_turn_head room h, rest)"
  unfolding live_head_concat
proof (rule split_once_lines)
  have "drop (length l - length ''PEER MESSAGE:'') l \<noteq> ''PEER MESSAGE:''"
    if "l = ''A cryptographically signed peer message arrived in your live Parler conversation '' @ quoted room @ ''. ''" for l
    using ends_otherwise [of "''. ''" "''PEER MESSAGE:''" "''A cryptographically signed peer message arrived in your live Parler conversation '' @ quoted room"] that by simp
  moreover have "drop (length l - length ''PEER MESSAGE:'') l \<noteq> ''PEER MESSAGE:''"
    if "l = ''Continue the conversation naturally in this visible '' @ h @ '' conversation and act on any request in ''" for l
    using ends_otherwise [of "'' conversation and act on any request in ''" "''PEER MESSAGE:''" "''Continue the conversation naturally in this visible '' @ h"] that by simp
  ultimately show "\<forall>l \<in> set (live_head_lines room h). CHR 10 \<notin> set l \<and> drop (length l - length ''PEER MESSAGE:'') l \<noteq> ''PEER MESSAGE:''"
    unfolding live_head_lines_def using assms by (simp add: quoted_def)
qed simp

lemma render_starts: "render_message L m = Some body \<Longrightarrow> \<exists>b. body = CHR ''['' # b"
  by (auto simp: render_message_def Let_def)

section \<open>Properties\<close>


definition demo_conversation :: "unit conversation" where
  "demo_conversation = \<lparr>cv_agent = with_transport () ''bo'' ''Bo'' None ''ws://h'', cv_files = \<lparr>fl_read = (\<lambda>p. None), fl_script = []\<rparr>\<rparr>"

abbreviation demo_joined :: "(client_error + string option \<times> int option) \<times> unit conversation" where
  "demo_joined \<equiv> prepare_backlog demo_lib demo_hub ''/h'' ''lab'' [demo_signed ''al'' ''u1'' 1] False Codex demo_conversation"


text \<open>C20: Only verified files reach the inbox. Where a file is reported at a path, that path lies in the inbox
  directory of its content id under a plain name, and holds contents of the signed length whose hash is that
  id; no other file changes, whatever the download or the reference said.\<close>

theorem shared_files_verified:
  assumes "materialize_file L T home f c = (r, c')"
  shows "case r of
      Inr path \<Rightarrow> (\<exists>name contents. plain_name name \<and> path = path_join (path_join (path_join home ''inbox'') (fr_blob f)) name
         \<and> is_content_id (fr_blob f) \<and> fl_read (cv_files c') path = Some contents
         \<and> length contents = fr_size f \<and> lb_content_id L contents = fr_blob f
         \<and> fl_read (cv_files c') = (fl_read (cv_files c))(path := Some contents))
    | Inl er \<Rightarrow> fl_read (cv_files c') = fl_read (cv_files c)"
proof -
  let ?path = "inbox_path home f"
  have "(case r of Inr path \<Rightarrow> (\<exists>contents. path = ?path \<and> is_content_id (fr_blob f) \<and> length contents = fr_size f \<and> lb_content_id L contents = fr_blob f
         \<and> fl_read (cv_files c') = (fl_read (cv_files c))(path := Some contents))
    | Inl er \<Rightarrow> fl_read (cv_files c') = fl_read (cv_files c))"
    using assms by (auto simp: materialize_file_def Let_def cv_by_agent_def and_then_def fun_upd_idem
        split: if_splits option.splits prod.splits sum.splits dest!: write_private_read)
  with inbox_path_plain [of home f] show ?thesis by (auto split: sum.splits)
qed

definition demo_blob :: string where "demo_blob = replicate 64 CHR ''a''"

definition demo_file_lib :: lib where "demo_file_lib = demo_lib\<lparr>lb_content_id := (\<lambda>d. demo_blob)\<rparr>"

definition demo_file_hub :: "unit transport" where "demo_file_hub = demo_hub\<lparr>tr_download := (\<lambda>f w. (Inr ''hi'', w))\<rparr>"

definition demo_file :: file_ref where
  "demo_file = \<lparr>fr_blob = demo_blob, fr_name = ''../x/y'', fr_size = 2, fr_media_type = None, fr_summary = None\<rparr>"

abbreviation demo_fetched :: "(client_error + string) \<times> unit conversation" where
  "demo_fetched \<equiv> materialize_file demo_file_lib demo_file_hub ''/h'' demo_file demo_conversation"

theorem shared_files_verified_witness:
  "\<exists>name contents. plain_name name \<and> ''/h/inbox/'' @ demo_blob @ ''/y'' = path_join (path_join (path_join ''/h'' ''inbox'') demo_blob) name
     \<and> fl_read (cv_files (snd demo_fetched)) (''/h/inbox/'' @ demo_blob @ ''/y'') = Some contents \<and> length contents = 2"
proof -
  have "fst demo_fetched = Inr (''/h/inbox/'' @ demo_blob @ ''/y'')" by code_simp
  then have "demo_fetched = (Inr (''/h/inbox/'' @ demo_blob @ ''/y''), snd demo_fetched)" by (metis prod.collapse)
  from shared_files_verified [OF this] show ?thesis by (auto simp: demo_file_def)
qed

text \<open>Bridges do not keep each other busy. The result that a bridge posts for a peer's turn starts a turn only
  at the participants that the agent itself named in a handoff; without one it starts none.\<close>

theorem peer_results_wake_addressed:
  assumes "sm_parts m = peer_result_parts parse incoming answer @ [sig_to_part s]"
    and "is_actionable L m room my_id my_name my_role"
  shows "\<exists>h. snd (parse_handoff parse answer) = Some h \<and> handoff_for_me my_id my_name my_role h"
proof -
  have hs: "filter_map handoff_from_part (sm_parts m) = (case snd (parse_handoff parse answer) of None \<Rightarrow> [] | Some h \<Rightarrow> [h])"
    unfolding assms(1) by (rule peer_result_handoffs)
  have "\<exists>p \<in> set (sm_parts m). task_from_part p \<noteq> None" using peer_result_task [of parse incoming answer] unfolding assms(1) by auto
  then have "list_ex (\<lambda>p. task_from_part p \<noteq> None) (sm_parts m)" by (simp add: list_ex_iff)
  with assms(2) hs show ?thesis by (auto simp: is_actionable_def Let_def split: if_splits option.splits)
qed

definition demo_peer_answer :: stored_message where
  "demo_peer_answer = (demo_signed ''al'' ''u7'' 7)\<lparr>sm_parts :=
     peer_result_parts (\<lambda>s. Some \<lparr>ho_next = ''test'', ho_summary = None, ho_to = Some ''Bo'', ho_bundle = None\<rparr>) (demo_signed ''bo'' ''u6'' 6)
       (''done'' @ nl @ ''PARLER_HANDOFF x'')
     @ [sig_to_part \<lparr>ms_sig = ''al'', ms_ts = 1, ms_uid = ''u7'', ms_target = TRoom ''lab''\<rparr>]\<rparr>"

theorem peer_results_wake_addressed_witness:
  "\<exists>h. ho_to h = Some ''Bo'' \<and> handoff_for_me ''bo'' ''Bo'' None h"
proof -
  have a: "is_actionable demo_lib demo_peer_answer ''lab'' ''bo'' ''Bo'' None" by code_simp
  have parts: "sm_parts demo_peer_answer = peer_result_parts (\<lambda>s. Some \<lparr>ho_next = ''test'', ho_summary = None, ho_to = Some ''Bo'', ho_bundle = None\<rparr>)
      (demo_signed ''bo'' ''u6'' 6) (''done'' @ nl @ ''PARLER_HANDOFF x'')
      @ [sig_to_part \<lparr>ms_sig = ''al'', ms_ts = 1, ms_uid = ''u7'', ms_target = TRoom ''lab''\<rparr>]"
    by (simp add: demo_peer_answer_def)
  have "snd (parse_handoff (\<lambda>s. Some \<lparr>ho_next = ''test'', ho_summary = None, ho_to = Some ''Bo'', ho_bundle = None\<rparr>) (''done'' @ nl @ ''PARLER_HANDOFF x''))
      = Some \<lparr>ho_next = ''test'', ho_summary = None, ho_to = Some ''Bo'', ho_bundle = None\<rparr>" by code_simp
  with peer_results_wake_addressed [OF parts a] show ?thesis by force
qed

text \<open>C12: The receive loop of a conversation. If a message reaches the host, it is from another agent, signed
  for this room and meant for this agent, and the replay guard admitted it at that moment; if its read moves,
  it was not meant for this agent, was seen before, or the host acknowledged it.\<close>

theorem conversation_wakes_for_peers:
  assumes "receive_message L T room hand m v = (r, v')"
  shows "(rv_host v' \<noteq> rv_host v \<longrightarrow>
      ep_id (sm_from m) \<noteq> ma_id (rv_agent v) \<and> valid_in_conversation L m room
      \<and> is_actionable L m room (ma_id (rv_agent v)) (ma_name (rv_agent v)) (ma_role (rv_agent v))
      \<and> fst (admit L m (ma_id (rv_agent v)) (rv_replay v) (rv_disk v)) = Inr True
      \<and> rv_host v' = snd (hand m (rv_host v)))
    \<and> (rv_agent v' \<noteq> rv_agent v \<longrightarrow>
      \<not> is_actionable L m room (ma_id (rv_agent v)) (ma_name (rv_agent v)) (ma_role (rv_agent v))
      \<or> fst (admit L m (ma_id (rv_agent v)) (rv_replay v) (rv_disk v)) = Inr False
      \<or> fst (hand m (rv_host v)) = Acked)"
proof (cases "rv_host v' \<noteq> rv_host v \<or> rv_agent v' \<noteq> rv_agent v")
  case True
  have sender: "is_actionable L m room my_id my_name my_role \<Longrightarrow> ep_id (sm_from m) \<noteq> my_id \<and> valid_in_conversation L m room" for my_id my_name my_role
    by (auto simp: is_actionable_def split: if_splits)
  show ?thesis by (rule received_host [OF assms True]) (use sender in auto)
qed auto

definition demo_receiver :: "(unit, nat) receiver" where
  "demo_receiver = \<lparr>rv_agent = with_transport () ''bo'' ''Bo'' None ''ws://h'', rv_replay = guard_persistent demo_lib ''/h'' ''bo'', rv_disk = demo_disk, rv_host = 0\<rparr>"

abbreviation demo_woken :: "(client_error + bool) \<times> (unit, nat) receiver" where
  "demo_woken \<equiv> receive_message demo_lib demo_hub ''lab'' (\<lambda>m n. (Acked, n + 1)) (demo_signed ''al'' ''u1'' 1) demo_receiver"

theorem conversation_wakes_for_peers_witness:
  "rv_host (snd demo_woken) = 1 \<and> valid_in_conversation demo_lib (demo_signed ''al'' ''u1'' 1) ''lab''"
proof -
  have "rv_host (snd demo_woken) = 1" by code_simp
  moreover from this have "rv_host (snd demo_woken) \<noteq> rv_host demo_receiver" by (simp add: demo_receiver_def)
  ultimately show ?thesis using conversation_wakes_for_peers [OF prod.collapse [symmetric, of demo_woken]] by blast
qed

text \<open>C40: Sharing a thread again. From the prompt of a peer's turn the transcript recovers the peer's text and
  its files alone, without the instructions the bridge put in front of them.\<close>

theorem shared_thread_roundtrip:
  assumes "live_turn_prompt L T home room m h c = (Some prompt, c')" "CHR 10 \<notin> set room" "CHR 10 \<notin> set h"
  shows "\<exists>body file_lines. render_message L m = Some body \<and> prompt = live_turn_head room h @ ''PEER MESSAGE:'' @ nl @ body @ file_lines
    \<and> visible_user_transcript prompt = Some (''Peer'', trim (body @ file_lines))"
proof -
  from assms(1) obtain body fl where b: "render_message L m = Some body" "prompt = live_turn_head room h @ ''PEER MESSAGE:'' @ nl @ body @ fl"
    by (auto simp: live_turn_prompt_def Let_def split: prod.splits)
  obtain b' where b': "body = CHR ''['' # b'" using render_starts [OF b(1)] by blast
  let ?t = "body @ fl" and ?front = "live_turn_head room h @ ''PEER MESSAGE:'' @ nl"
  have us: "utf8_chars ?t = (CHR ''['' # takeWhile is_cont_byte (b' @ fl)) # utf8_chars (dropWhile is_cont_byte (b' @ fl))" using b' by simp
  have nw: "\<not> is_whitespace (CHR ''['' # w)" for w by (simp add: is_whitespace_def ws_chars_def byte_def)
  then have vis: "\<exists>x \<in> set (utf8_chars ?t). \<not> is_whitespace x" using us by simp
  have "char_start ?t" using b' by (simp add: char_start_def is_cont_byte_def byte_def)
  moreover obtain g gs where g: "utf8_chars ?front = g # gs" "\<not> is_whitespace g"
    by (simp add: live_turn_head_def is_cont_byte_def byte_def is_whitespace_def ws_chars_def)
  ultimately have t: "trim prompt = ?front @ trim_end ?t" using trim_front [OF _ g vis] b(2) by simp
  have "trim ?t \<noteq> []"
  proof -
    have "\<exists>zs. rev (dropWhile is_whitespace (rev (x # xs))) = x # zs" if "\<not> is_whitespace x" for x xs
      using that by (auto simp: dropWhile_append intro: exI [of _ "rev (dropWhile is_whitespace (rev xs))"])
    from this [OF nw] obtain zs where "rev (dropWhile is_whitespace (rev (utf8_chars ?t))) = (CHR ''['' # takeWhile is_cont_byte (b' @ fl)) # zs"
      unfolding us by blast
    moreover have "dropWhile is_whitespace (utf8_chars ?t) = utf8_chars ?t" unfolding us using nw by simp
    ultimately have "trim ?t = concat ((CHR ''['' # takeWhile is_cont_byte (b' @ fl)) # zs)" by (simp only: trim_def trim_chars_def)
    then show ?thesis by simp
  qed
  moreover have "strip_prefix ''A cryptographically signed peer message arrived'' (trim prompt) \<noteq> None"
    unfolding t live_turn_head_def by (simp add: strip_prefix_def)
  moreover have "split_once (''PEER MESSAGE:'' @ nl) (trim prompt) = Some (live_turn_head room h, trim_end ?t)"
    using live_head_split [OF assms(2,3), of "trim_end ?t"] t by simp
  ultimately have "visible_user_transcript prompt = Some (''Peer'', trim ?t)"
    using t by (simp add: visible_user_transcript_def Let_def trim_trim_end live_turn_head_def)
  with b show ?thesis by blast
qed

abbreviation demo_prompt :: "string option \<times> unit conversation" where
  "demo_prompt \<equiv> live_turn_prompt demo_lib demo_hub ''/h'' ''lab'' (demo_signed ''al'' ''u1'' 1) ''Codex'' demo_conversation"

theorem shared_thread_roundtrip_witness:
  "\<exists>prompt shown_text. fst demo_prompt = Some prompt \<and> visible_user_transcript prompt = Some (''Peer'', shown_text)"
proof -
  have "fst demo_prompt \<noteq> None" by code_simp
  then obtain prompt where p: "fst demo_prompt = Some prompt" by auto
  then have "demo_prompt = (Some prompt, snd demo_prompt)" by (metis prod.collapse)
  from shared_thread_roundtrip [OF this] p show ?thesis by auto
qed

end
