(* ===== verification/Codex_Bridge.thy ===== *)
theory Codex_Bridge
  imports Conversation_Laws
begin

text \<open>
  The bridge into a visible Codex session (\<^verbatim>\<open>parler-cli/src/conversation.rs\<close>): the JSON-RPC client of the local
  app-server, the reading of its threads, and the coordinator that injects peer messages as turns of the visible
  thread and publishes finished turns. The app-server's socket is a script of what it delivers next and whether
  the next writes succeed. The coordinator's loop is one function per event of its \<^verbatim>\<open>select!\<close>, and a run is a
  list of events; what it acknowledges to the receive loop is recorded in order.
\<close>

section \<open>Values\<close>

text \<open>Indexing a JSON value: null where there is no such field.\<close>

fun jfield :: "json \<Rightarrow> string \<Rightarrow> json option" where
  "jfield (JObj m) k = jget k m"
| "jfield v k = None"

definition jindex :: "json \<Rightarrow> string \<Rightarrow> json" where
  "jindex v k = opt_or (jfield v k) JNull"

fun as_array :: "json \<Rightarrow> json list option" where
  "as_array (JArr vs) = Some vs"
| "as_array v = None"

definition jitems :: "json \<Rightarrow> json list" where
  "jitems v = opt_or (as_array v) []"

section \<open>Threads\<close>

definition user_texts :: "json \<Rightarrow> string" where
  "user_texts item =
     join_with nl (filter_map (\<lambda>i. as_str (jindex i ''text'')) (filter (\<lambda>i. jindex i ''type'' = JStr ''text'') (jitems (jindex item ''content''))))"

definition local_conversation_turn :: "json \<Rightarrow> string \<Rightarrow> string" where
  "local_conversation_turn turn answer =
     (let prompt = join_with (nl @ nl) (map (\<lambda>(speaker, t). speaker @ '': '' @ t)
            (filter_map (\<lambda>item. visible_user_transcript (user_texts item))
              (filter (\<lambda>item. jindex item ''type'' = JStr ''userMessage'') (jitems (jindex turn ''items'')))))
      in if prompt = [] then answer
         else if trim answer = [] then prompt
         else prompt @ nl @ nl @ ''Agent: '' @ trim answer)"

record turn_outcome =
  to_id :: string
  to_text :: string
  to_local_text :: string
  to_error :: "string option"

definition turn_error :: "json \<Rightarrow> string \<Rightarrow> string" where
  "turn_error turn status =
     (case as_str (jindex (jindex turn ''error'') ''message'') of
        Some m \<Rightarrow> if m \<noteq> [] then m else ''turn ended with status '' @ quoted status
      | None \<Rightarrow> ''turn ended with status '' @ quoted status)"

definition terminal_thread_outcome :: "json \<Rightarrow> turn_outcome option" where
  "terminal_thread_outcome turn =
     (case (as_str (jindex turn ''id''), as_str (jindex turn ''status'')) of
        (Some tid, Some status) \<Rightarrow>
          if status = ''inProgress'' then None
          else
            let answer = (case find (\<lambda>item. jindex item ''type'' = JStr ''agentMessage'') (rev (jitems (jindex turn ''items''))) of
                            Some item \<Rightarrow> opt_or (as_str (jindex item ''text'')) []
                          | None \<Rightarrow> [])
            in Some \<lparr>to_id = tid, to_text = answer, to_local_text = local_conversation_turn turn answer,
                     to_error = (if status = ''completed'' then None else Some (turn_error turn status))\<rparr>
      | _ \<Rightarrow> None)"

definition terminal_thread_ids :: "json \<Rightarrow> string list" where
  "terminal_thread_ids thread =
     filter_map (\<lambda>turn. as_str (jindex turn ''id'')) (filter (\<lambda>turn. terminal_thread_outcome turn \<noteq> None) (jitems (jindex thread ''turns'')))"

definition thread_has_running_turn :: "json \<Rightarrow> bool" where
  "thread_has_running_turn thread = list_ex (\<lambda>turn. jindex turn ''status'' = JStr ''inProgress'') (jitems (jindex thread ''turns''))"

fun collect_turns :: "json list \<Rightarrow> recent_ids \<Rightarrow> turn_outcome list \<times> recent_ids" where
  "collect_turns [] seen = ([], seen)"
| "collect_turns (turn # turns) seen =
     (case as_str (jindex turn ''id'') of
        None \<Rightarrow> collect_turns turns seen
      | Some tid \<Rightarrow>
          if recent_contains seen tid then collect_turns turns seen
          else case terminal_thread_outcome turn of
                 None \<Rightarrow> collect_turns turns seen
               | Some out \<Rightarrow> (case collect_turns turns (snd (recent_insert tid seen)) of (outs, seen') \<Rightarrow> (out # outs, seen')))"

definition collect_unseen_terminal_turns :: "json \<Rightarrow> recent_ids \<Rightarrow> turn_outcome list \<times> recent_ids" where
  "collect_unseen_terminal_turns thread seen = collect_turns (jitems (jindex thread ''turns'')) seen"

definition incomplete_turn_reason :: "json \<Rightarrow> string option" where
  "incomplete_turn_reason turn =
     (case as_str (jindex turn ''status'') of
        Some status \<Rightarrow> if status = ''completed'' then None else Some (turn_error turn status)
      | None \<Rightarrow> Some ''turn completed without a status'')"

definition transcript_item :: "json \<Rightarrow> string option" where
  "transcript_item item =
     (if jindex item ''type'' = JStr ''userMessage''
      then map_option (\<lambda>(speaker, t). speaker @ '': '' @ t) (visible_user_transcript (user_texts item))
      else if jindex item ''type'' = JStr ''agentMessage''
      then (case as_str (jindex item ''text'') of Some t \<Rightarrow> if trim t \<noteq> [] then Some (''Agent: '' @ trim t) else None | None \<Rightarrow> None)
      else None)"

definition transcript_from_thread :: "json \<Rightarrow> string" where
  "transcript_from_thread thread =
     clip_tail (join_with (nl @ nl) (filter_map transcript_item (concat (map (\<lambda>turn. jitems (jindex turn ''items'')) (jitems (jindex thread ''turns''))))))
       MAX_CONTEXT_CHARS"

section \<open>The app-server\<close>

datatype app_event = AText json | ANotJson | APing bool | AOther | AClosed | AFailed string

record codex_host =
  ch_next_id :: nat
  ch_buffered :: "json list"
  ch_incoming :: "app_event list"
  ch_sends :: "bool list"
  ch_sent :: "json list"

definition host_send :: "json \<Rightarrow> codex_host \<Rightarrow> (client_error + unit) \<times> codex_host" where
  "host_send v h =
     (case ch_sends h of
        False # bs \<Rightarrow> (Inl (Plain ''writing to the app-server failed''), h\<lparr>ch_sends := bs\<rparr>)
      | bs \<Rightarrow> (Inr (), h\<lparr>ch_sends := tl bs, ch_sent := ch_sent h @ [v]\<rparr>))"

text \<open>Reading a value from the socket; \<open>None\<close> is a socket that delivers nothing yet, and a ping says whether its pong can be written.\<close>

fun read_events :: "app_event list \<Rightarrow> ((client_error + json) \<times> app_event list) option" where
  "read_events [] = None"
| "read_events (AText v # evs) = Some (Inr v, evs)"
| "read_events (ANotJson # evs) = Some (Inl (Plain ''invalid JSON''), evs)"
| "read_events (AClosed # evs) = Some (Inl (Plain ''Codex app-server connection closed''), evs)"
| "read_events (AFailed m # evs) = Some (Inl (Plain m), evs)"
| "read_events (APing ponged # evs) = (if ponged then read_events evs else Some (Inl (Plain ''writing to the app-server failed''), evs))"
| "read_events (AOther # evs) = read_events evs"

definition read_value :: "codex_host \<Rightarrow> ((client_error + json) \<times> codex_host) option" where
  "read_value h = map_option (\<lambda>(r, evs). (r, h\<lparr>ch_incoming := evs\<rparr>)) (read_events (ch_incoming h))"

definition next_value :: "codex_host \<Rightarrow> ((client_error + json) \<times> codex_host) option" where
  "next_value h = (case ch_buffered h of v # vs \<Rightarrow> Some (Inr v, h\<lparr>ch_buffered := vs\<rparr>) | [] \<Rightarrow> read_value h)"

definition declined :: "string \<Rightarrow> json" where "declined d = JObj [(''decision'', JStr d)]"

definition bridge_server_response :: "string \<Rightarrow> (string + json) option" where
  "bridge_server_response method =
     (if method \<in> {''item/commandExecution/requestApproval'', ''item/fileChange/requestApproval''} then Some (Inr (declined ''decline''))
      else if method = ''item/permissions/requestApproval'' then Some (Inr (JObj [(''permissions'', JObj [])]))
      else if method = ''item/tool/requestUserInput'' then Some (Inr (JObj [(''answers'', JObj [])]))
      else if method = ''mcpServer/elicitation/request'' then Some (Inr (JObj [(''action'', JStr ''decline''), (''content'', JNull)]))
      else if method = ''item/tool/call''
      then Some (Inr (JObj [(''success'', JBool False),
             (''contentItems'', JArr [JObj [(''type'', JStr ''inputText''), (''text'', JStr ''A peer-injected turn cannot execute client-side dynamic tools.'')]])]))
      else if method \<in> {''applyPatchApproval'', ''execCommandApproval''} then Some (Inr (declined ''denied''))
      else if method \<in> {''account/chatgptAuthTokens/refresh'', ''attestation/generate''}
      then Some (Inl ''the Parler bridge cannot provide client credentials or attestation'')
      else None)"

definition handle_bridge_request :: "json \<Rightarrow> codex_host \<Rightarrow> (client_error + bool) \<times> codex_host" where
  "handle_bridge_request v h =
     (case (Option.bind (jfield v ''method'') as_str, jfield v ''id'') of
        (Some method, Some rid) \<Rightarrow>
          (case bridge_server_response method of
             None \<Rightarrow> (Inr False, h)
           | Some r \<Rightarrow>
               and_then (host_send (JObj [(''id'', rid),
                   (case r of Inr result \<Rightarrow> (''result'', result)
                    | Inl m \<Rightarrow> (''error'', JObj [(''code'', JInt (- 32601)), (''message'', JStr m)]))]) h) (\<lambda>_ h'. (Inr True, h')))
      | _ \<Rightarrow> (Inr False, h))"

lemma read_events_shorter: "read_events evs = Some (r, evs') \<Longrightarrow> length evs' < length evs"
  by (induction evs rule: read_events.induct) (auto split: if_splits)

text \<open>Waiting for the response to a request; everything else is answered or kept for later.\<close>

function await_response :: "nat \<Rightarrow> codex_host \<Rightarrow> ((client_error + json) \<times> codex_host) option" where
  "await_response rid h =
     (case read_events (ch_incoming h) of
        None \<Rightarrow> None
      | Some (Inl er, evs) \<Rightarrow> Some (Inl er, h\<lparr>ch_incoming := evs\<rparr>)
      | Some (Inr v, evs) \<Rightarrow>
          let h1 = h\<lparr>ch_incoming := evs\<rparr>
          in if as_u64 (jindex v ''id'') = Some rid \<and> jfield v ''method'' = None
             then (case jfield v ''error'' of
                     Some e \<Rightarrow> Some (Inl (Plain (opt_or (as_str (jindex e ''message'')) ''Codex app-server request failed'')), h1)
                   | None \<Rightarrow> Some (Inr (opt_or (jfield v ''result'') JNull), h1))
             else case handle_bridge_request v h1 of
                    (Inl er, h2) \<Rightarrow> Some (Inl er, h2)
                  | (Inr True, h2) \<Rightarrow> await_response rid (h2\<lparr>ch_incoming := evs\<rparr>)
                  | (Inr False, h2) \<Rightarrow> await_response rid (h2\<lparr>ch_incoming := evs, ch_buffered := ch_buffered h2 @ [v]\<rparr>))"
  by pat_completeness auto

termination
  by (relation "measure (\<lambda>(rid, h). length (ch_incoming h))") (auto dest: read_events_shorter)

declare await_response.simps [simp del]

definition host_request :: "string \<Rightarrow> json \<Rightarrow> codex_host \<Rightarrow> ((client_error + json) \<times> codex_host) option" where
  "host_request method params h =
     (let rid = ch_next_id h
      in case host_send (JObj [(''method'', JStr method), (''id'', jnat rid), (''params'', params)]) (h\<lparr>ch_next_id := rid + 1\<rparr>) of
           (Inl er, h1) \<Rightarrow> Some (Inl er, h1)
         | (Inr _, h1) \<Rightarrow> await_response rid h1)"

definition codex_turn_page_params :: "string \<Rightarrow> json" where
  "codex_turn_page_params thread_id =
     JObj [(''threadId'', JStr thread_id), (''limit'', JInt 64), (''sortDirection'', JStr ''desc''), (''itemsView'', JStr ''full'')]"

definition read_recent_thread :: "string \<Rightarrow> codex_host \<Rightarrow> ((client_error + json option) \<times> codex_host) option" where
  "read_recent_thread thread_id h =
     (case host_request ''thread/turns/list'' (codex_turn_page_params thread_id) h of
        None \<Rightarrow> None
      | Some (Inr response, h1) \<Rightarrow>
          (case as_array (jindex response ''data'') of
             None \<Rightarrow> Some (Inl (Plain ''Codex app-server returned a non-array turn page''), h1)
           | Some turns \<Rightarrow> Some (Inr (Some (JObj [(''turns'', JArr (rev turns))])), h1))
      | Some (Inl er, h1) \<Rightarrow>
          if contains (error_text er) ''not materialized yet'' then Some (Inr None, h1)
          else Some (Inl (Plain ''Codex app-server could not list the visible conversation turns''), h1))"

section \<open>The coordinator\<close>

record 'w bridge_env =
  be_lib :: lib
  be_sign :: "string \<Rightarrow> string \<Rightarrow> string option"
  be_parse :: "string \<Rightarrow> handoff_ref option"
  be_transport :: "'w transport"
  be_home :: string
  be_room :: string
  be_thread :: string

record 'w bridge =
  bg_conv :: "'w conversation"
  bg_host :: codex_host
  bg_queued :: "stored_message list"
  bg_pending :: "(nat \<times> stored_message) list"
  bg_turns :: "(string \<times> turn_capture) list"
  bg_active :: "string set"
  bg_injected :: "string set"
  bg_terminal :: recent_ids
  bg_thread_active :: bool
  bg_needs_sync :: bool
  bg_presence :: string
  bg_draws :: "send_draw list"
  bg_acked :: "stored_message list"

type_synonym 'w bridge_result = "(client_error + bool) \<times> 'w bridge"

definition bridge_new :: "'w conversation \<Rightarrow> codex_host \<Rightarrow> recent_ids \<Rightarrow> bool \<Rightarrow> send_draw list \<Rightarrow> 'w bridge" where
  "bridge_new c h seen0 initially_active draws =
     \<lparr>bg_conv = c, bg_host = h, bg_queued = [], bg_pending = [], bg_turns = [], bg_active = {}, bg_injected = {}, bg_terminal = seen0,
      bg_thread_active = initially_active, bg_needs_sync = initially_active, bg_presence = ''waiting'', bg_draws = draws, bg_acked = []\<rparr>"

definition bg_by_host :: "(codex_host \<Rightarrow> (client_error + 'a) \<times> codex_host) \<Rightarrow> 'w bridge \<Rightarrow> (client_error + 'a) \<times> 'w bridge" where
  "bg_by_host op b = (let (r, h) = op (bg_host b) in (r, b\<lparr>bg_host := h\<rparr>))"

definition empty_capture :: turn_capture where "empty_capture = \<lparr>tc_incoming = None, tc_text = []\<rparr>"

definition map_del :: "'k \<Rightarrow> ('k \<times> 'v) list \<Rightarrow> ('k \<times> 'v) list" where
  "map_del k m = filter (\<lambda>e. fst e \<noteq> k) m"

text \<open>A presence update whose failure is ignored; \<open>set_presence\<close> only sends on a change of state.\<close>

definition show_presence :: "'w bridge_env \<Rightarrow> string \<Rightarrow> 'w bridge \<Rightarrow> 'w bridge" where
  "show_presence E state b =
     b\<lparr>bg_conv := snd (cv_by_agent (agent_presence (be_transport E) state (Some (''live conversation '' @ quoted (be_room E)))) (bg_conv b))\<rparr>"

definition set_presence :: "'w bridge_env \<Rightarrow> string \<Rightarrow> 'w bridge \<Rightarrow> 'w bridge" where
  "set_presence E state b = (if state \<noteq> bg_presence b then (show_presence E state b)\<lparr>bg_presence := state\<rparr> else b)"

definition bg_draw :: "'w bridge \<Rightarrow> send_draw \<times> 'w bridge" where
  "bg_draw b = (case bg_draws b of [] \<Rightarrow> (\<lparr>sd_ts = 0, sd_uid = [], sd_client_id = []\<rparr>, b) | d # ds \<Rightarrow> (d, b\<lparr>bg_draws := ds\<rparr>))"

definition bg_publish :: "'w bridge_env \<Rightarrow> turn_capture \<Rightarrow> 'w bridge \<Rightarrow> (client_error + unit) \<times> 'w bridge" where
  "bg_publish E cap b =
     (case bg_draw b of
        (d, b1) \<Rightarrow>
          (case cv_by_agent (publish_turn (be_lib E) (be_sign E) (be_parse E) (be_transport E) d (be_room E) cap) (bg_conv b1) of
             (Inl er, c) \<Rightarrow> (Inl er, b1\<lparr>bg_conv := c\<rparr>)
           | (Inr acked, c) \<Rightarrow> (Inr (), b1\<lparr>bg_conv := c, bg_acked := bg_acked b1 @ (case acked of Some m \<Rightarrow> [m] | None \<Rightarrow> [])\<rparr>)))"

text \<open>The head of the loop: a peer message becomes a turn only while nothing else is under way.\<close>

definition turn_start :: "'w bridge_env \<Rightarrow> nat \<Rightarrow> string \<Rightarrow> json" where
  "turn_start E rid prompt =
     JObj [(''method'', JStr ''turn/start''), (''id'', jnat rid),
       (''params'', JObj [(''threadId'', JStr (be_thread E)), (''input'', JArr [JObj [(''type'', JStr ''text''), (''text'', JStr prompt)]])])]"

definition idle :: "'w bridge \<Rightarrow> bool" where
  "idle b = (\<not> bg_thread_active b \<and> \<not> bg_needs_sync b \<and> bg_active b = {} \<and> bg_pending b = [] \<and> bg_injected b = {})"

definition inject_next :: "'w bridge_env \<Rightarrow> 'w bridge \<Rightarrow> (client_error + unit) \<times> 'w bridge" where
  "inject_next E b =
     (if \<not> idle b then (Inr (), b)
      else case bg_queued b of
             [] \<Rightarrow> (Inr (), b)
           | m # queued \<Rightarrow>
               (case live_turn_prompt (be_lib E) (be_transport E) (be_home E) (be_room E) m (host_display Codex) (bg_conv b) of
                  (None, c) \<Rightarrow> (Inl panic, b\<lparr>bg_conv := c, bg_queued := queued\<rparr>)
                | (Some prompt, c) \<Rightarrow>
                    let rid = ch_next_id (bg_host b);
                        b1 = b\<lparr>bg_conv := c, bg_queued := queued, bg_host := (bg_host b)\<lparr>ch_next_id := rid + 1\<rparr>\<rparr>
                    in and_then (bg_by_host (host_send (turn_start E rid prompt)) b1) (\<lambda>_ b2. (Inr (), b2\<lparr>bg_pending := [(rid, m)]\<rparr>))))"

text \<open>The response to a \<open>turn/start\<close>: the turn runs, or the thread was busy and the message waits again.\<close>

definition on_response :: "json \<Rightarrow> 'w bridge \<Rightarrow> 'w bridge_result" where
  "on_response v b =
     (case as_u64 (jindex v ''id'') of
        None \<Rightarrow> (Inr False, b)
      | Some rid \<Rightarrow>
          (case map_of (bg_pending b) rid of
             None \<Rightarrow> (Inr False, b)
           | Some m \<Rightarrow>
               let b1 = b\<lparr>bg_pending := map_del rid (bg_pending b)\<rparr>
               in case jfield v ''error'' of
                    Some e \<Rightarrow>
                      let msg = opt_or (as_str (jindex e ''message'')) []
                      in if contains msg ''turn'' \<and> contains msg ''running''
                         then (Inr False, b1\<lparr>bg_queued := m # bg_queued b1, bg_thread_active := True, bg_needs_sync := True\<rparr>)
                         else (Inl (Plain (''Codex rejected a peer turn: '' @ msg)), b1)
                  | None \<Rightarrow>
                      (case as_str (jindex (jindex (jindex v ''result'') ''turn'') ''id'') of
                         None \<Rightarrow> (Inr False, b1)
                       | Some tid \<Rightarrow>
                           (Inr False, b1\<lparr>bg_injected := insert tid (bg_injected b1),
                              bg_turns := map_put tid ((opt_or (map_of (bg_turns b1) tid) empty_capture)\<lparr>tc_incoming := Some m\<rparr>) (bg_turns b1)\<rparr>))))"

definition on_turn_started :: "'w bridge_env \<Rightarrow> json \<Rightarrow> 'w bridge \<Rightarrow> 'w bridge" where
  "on_turn_started E v b =
     (case as_str (jindex (jindex (jindex v ''params'') ''turn'') ''id'') of
        None \<Rightarrow> b
      | Some tid \<Rightarrow>
          set_presence E ''working''
            (b\<lparr>bg_thread_active := True, bg_active := insert tid (bg_active b),
               bg_turns := (if map_of (bg_turns b) tid = None then map_put tid empty_capture (bg_turns b) else bg_turns b)\<rparr>))"

definition on_status_changed :: "'w bridge_env \<Rightarrow> json \<Rightarrow> 'w bridge \<Rightarrow> 'w bridge" where
  "on_status_changed E v b =
     (let params = jindex v ''params''
      in if as_str (jindex params ''threadId'') \<noteq> Some (be_thread E) then b
         else case as_str (jindex (jindex params ''status'') ''type'') of
                None \<Rightarrow> b
              | Some t \<Rightarrow>
                  if t = ''active'' then set_presence E ''working'' (b\<lparr>bg_thread_active := True\<rparr>)
                  else if t = ''idle'' \<or> t = ''systemError''
                  then set_presence E ''waiting'' (b\<lparr>bg_thread_active := False, bg_needs_sync := True\<rparr>)
                  else b)"

definition on_item_completed :: "json \<Rightarrow> 'w bridge \<Rightarrow> 'w bridge" where
  "on_item_completed v b =
     (let params = jindex v ''params'' ; item = jindex params ''item''
      in if jindex item ''type'' \<noteq> JStr ''agentMessage'' then b
         else case (as_str (jindex params ''turnId''), as_str (jindex item ''text'')) of
                (Some tid, Some t) \<Rightarrow>
                  b\<lparr>bg_turns := map_put tid ((opt_or (map_of (bg_turns b) tid) empty_capture)\<lparr>tc_text := t\<rparr>) (bg_turns b)\<rparr>
              | _ \<Rightarrow> b)"

definition rest_presence :: "'w bridge_env \<Rightarrow> 'w bridge \<Rightarrow> 'w bridge" where
  "rest_presence E b = (if bg_active b = {} then set_presence E ''waiting'' b else b)"

definition finished_text :: "json \<Rightarrow> turn_capture \<Rightarrow> turn_capture" where
  "finished_text turn cap =
     (case terminal_thread_outcome turn of
        Some out \<Rightarrow> cap\<lparr>tc_text := (if tc_incoming cap \<noteq> None then to_text out else to_local_text out)\<rparr>
      | None \<Rightarrow> if tc_incoming cap = None then cap\<lparr>tc_text := local_conversation_turn turn (tc_text cap)\<rparr> else cap)"

definition on_turn_completed :: "'w bridge_env \<Rightarrow> json \<Rightarrow> 'w bridge \<Rightarrow> 'w bridge_result" where
  "on_turn_completed E v b =
     (let turn = jindex (jindex v ''params'') ''turn''
      in case as_str (jindex turn ''id'') of
           None \<Rightarrow> (Inr False, b)
         | Some tid \<Rightarrow>
             let cap = map_of (bg_turns b) tid;
                 (fresh, seen) = (if cap \<noteq> None then recent_insert tid (bg_terminal b) else (False, bg_terminal b));
                 b1 = b\<lparr>bg_active := bg_active b - {tid}, bg_turns := map_del tid (bg_turns b), bg_terminal := seen,
                        bg_thread_active := False, bg_needs_sync := True\<rparr>
             in case incomplete_turn_reason turn of
                  Some er \<Rightarrow>
                    let b2 = b1\<lparr>bg_injected := bg_injected b1 - {tid}\<rparr>
                    in if fresh \<and> (case cap of Some c \<Rightarrow> tc_incoming c \<noteq> None | None \<Rightarrow> False)
                       then (Inl (Plain (''Codex could not finish an injected peer turn: '' @ er)), b2)
                       else (Inr False, rest_presence E b2)
                | None \<Rightarrow>
                    and_then (if fresh then bg_publish E (finished_text turn (the cap)) b1 else (Inr (), b1)) (\<lambda>_ b2.
                      (Inr False, rest_presence E (b2\<lparr>bg_injected := bg_injected b2 - {tid}\<rparr>))))"

definition on_value :: "'w bridge_env \<Rightarrow> json \<Rightarrow> 'w bridge \<Rightarrow> 'w bridge_result" where
  "on_value E v b =
     and_then (bg_by_host (handle_bridge_request v) b) (\<lambda>handled b1.
       if handled then (Inr False, b1)
       else case jfield v ''method'' of
              None \<Rightarrow> on_response v b1
            | Some method \<Rightarrow>
                let name = opt_or (as_str method) []
                in if name = ''turn/started'' then (Inr False, on_turn_started E v b1)
                   else if name = ''thread/status/changed'' then (Inr False, on_status_changed E v b1)
                   else if name = ''item/completed'' then (Inr False, on_item_completed v b1)
                   else if name = ''turn/completed'' then on_turn_completed E v b1
                   else (Inr False, b1))"

text \<open>The turns a poll of the thread finds finished.\<close>

definition publish_outcome :: "'w bridge_env \<Rightarrow> turn_outcome \<Rightarrow> 'w bridge \<Rightarrow> (client_error + unit) \<times> 'w bridge" where
  "publish_outcome E out b =
     (let b1 = b\<lparr>bg_active := bg_active b - {to_id out}\<rparr>
      in if to_id out \<in> bg_injected b
         then let b2 = b1\<lparr>bg_injected := bg_injected b - {to_id out}\<rparr>
              in case map_of (bg_turns b) (to_id out) of
                   None \<Rightarrow> (Inl (Plain ''Codex completed an injected turn without its delivery context''), b2)
                 | Some cap \<Rightarrow>
                     let b3 = b2\<lparr>bg_turns := map_del (to_id out) (bg_turns b)\<rparr>
                     in (case to_error out of
                           Some er \<Rightarrow> (Inl (Plain (''Codex could not finish an injected peer turn: '' @ er)), b3)
                         | None \<Rightarrow> bg_publish E (cap\<lparr>tc_text := to_text out\<rparr>) b3)
         else if to_error out = None then bg_publish E \<lparr>tc_incoming = None, tc_text = to_local_text out\<rparr> b1
         else (Inr (), b1))"

fun publish_outcomes :: "'w bridge_env \<Rightarrow> turn_outcome list \<Rightarrow> 'w bridge \<Rightarrow> (client_error + unit) \<times> 'w bridge" where
  "publish_outcomes E [] b = (Inr (), b)"
| "publish_outcomes E (out # outs) b = and_then (publish_outcome E out b) (\<lambda>_ b'. publish_outcomes E outs b')"

definition on_poll :: "'w bridge_env \<Rightarrow> json option \<Rightarrow> 'w bridge \<Rightarrow> 'w bridge_result" where
  "on_poll E thread b =
     (case thread of
        None \<Rightarrow> (Inr False, if bg_thread_active b then b else b\<lparr>bg_needs_sync := False\<rparr>)
      | Some t \<Rightarrow>
          let b1 = b\<lparr>bg_thread_active := thread_has_running_turn t\<rparr>;
              b2 = set_presence E (if bg_thread_active b1 then ''working'' else ''waiting'') b1;
              (outs, seen) = collect_unseen_terminal_turns t (bg_terminal b2)
          in and_then (publish_outcomes E outs (b2\<lparr>bg_terminal := seen\<rparr>)) (\<lambda>_ b3. (Inr False, b3\<lparr>bg_needs_sync := False\<rparr>)))"

datatype bridge_event =
    TuiExited bool string
  | TuiLost string
  | Arrived stored_message
  | ReceiverGone
  | HeartbeatDue
  | PollDue
  | ValueReady

text \<open>One turn of the loop; \<open>None\<close> is an event that cannot occur now, \<open>Inr True\<close> the end of the session.\<close>

definition bridge_step :: "'w bridge_env \<Rightarrow> bridge_event \<Rightarrow> 'w bridge \<Rightarrow> 'w bridge_result option" where
  "bridge_step E ev b =
     (case inject_next E b of
        (Inl er, b1) \<Rightarrow> Some (Inl er, b1)
      | (Inr _, b1) \<Rightarrow>
          (case ev of
             TuiExited ok status \<Rightarrow> Some (if ok then Inr True else Inl (Plain (''interactive Codex exited with '' @ status)), b1)
           | TuiLost m \<Rightarrow> Some (Inl (Plain m), b1)
           | Arrived m \<Rightarrow> Some (Inr False, b1\<lparr>bg_queued := bg_queued b1 @ [m]\<rparr>)
           | ReceiverGone \<Rightarrow> Some (Inl (Plain ''conversation receive loop stopped''), b1)
           | HeartbeatDue \<Rightarrow> Some (Inr False, show_presence E (bg_presence b1) b1)
           | PollDue \<Rightarrow>
               if bg_pending b1 = [] \<and> (bg_thread_active b1 \<or> bg_needs_sync b1)
               then (case read_recent_thread (be_thread E) (bg_host b1) of
                       None \<Rightarrow> None
                     | Some (Inl er, h) \<Rightarrow> Some (Inl er, b1\<lparr>bg_host := h\<rparr>)
                     | Some (Inr thread, h) \<Rightarrow> Some (on_poll E thread (b1\<lparr>bg_host := h\<rparr>)))
               else None
           | ValueReady \<Rightarrow>
               (case next_value (bg_host b1) of
                  None \<Rightarrow> None
                | Some (Inl er, h) \<Rightarrow> Some (Inl er, b1\<lparr>bg_host := h\<rparr>)
                | Some (Inr v, h) \<Rightarrow> Some (on_value E v (b1\<lparr>bg_host := h\<rparr>)))))"

fun coordinate_codex :: "'w bridge_env \<Rightarrow> bridge_event list \<Rightarrow> 'w bridge \<Rightarrow> 'w bridge_result option" where
  "coordinate_codex E [] b = Some (Inr False, b)"
| "coordinate_codex E (ev # evs) b =
     (case bridge_step E ev b of
        Some (Inr False, b') \<Rightarrow> coordinate_codex E evs b'
      | r \<Rightarrow> r)"

end
