(* ===== verification/Claude_Hooks.thy ===== *)
theory Claude_Hooks
  imports Codex_Bridge
begin

text \<open>
  The adapter for Claude Code (\<^verbatim>\<open>parler-cli/src/conversation/claude.rs\<close>): hooks of the visible session share a small
  state file. A long-lived watcher claims a peer message and wakes the session with it, the stop hook publishes
  the finished turn, and the prompt and end hooks run beside them. Each hook is a process of its own: before
  every access of the files the others may have changed them, which the list \<open>hk_others\<close> scripts. What the file
  system answers is a script too; a file holds the value that was written, since its text is serde's.
\<close>

section \<open>State\<close>

definition MAX_TRANSCRIPT_BYTES :: nat where "MAX_TRANSCRIPT_BYTES = 4 * 1024 * 1024"
definition MAX_HOOK_INPUT_BYTES :: nat where "MAX_HOOK_INPUT_BYTES = 2 * 1024 * 1024"
definition MAX_LOCAL_PROMPTS :: nat where "MAX_LOCAL_PROMPTS = 32"

datatype pending = PBootstrap int | PMessage string

record hook_state =
  hs_generation :: nat
  hs_prompts :: "string list"
  hs_pending :: "pending option"

definition hook_state_default :: hook_state where
  "hook_state_default = \<lparr>hs_generation = 0, hs_prompts = [], hs_pending = None\<rparr>"

record bootstrap =
  bo_prompt :: "string option"
  bo_commit_cursor :: "int option"

record hook_input =
  hi_session_id :: string
  hi_event :: string
  hi_source :: "string option"
  hi_prompt :: "string option"
  hi_last_assistant_message :: "string option"

text \<open>The generation is a \<^verbatim>\<open>u64\<close> that wraps.\<close>

definition next_generation :: "nat \<Rightarrow> nat" where
  "next_generation g = (g + 1) mod 2 ^ 64"

definition validate_session_token :: "string \<Rightarrow> bool" where
  "validate_session_token v =
     (v \<noteq> [] \<and> length v \<le> 128 \<and> list_all (\<lambda>c. is_ascii_alphanumeric c \<or> c = CHR ''_'' \<or> c = CHR ''-'') v)"

text \<open>The input of a hook: its length in bytes and the JSON value it holds, if it holds one.\<close>

definition read_hook_input :: "nat \<Rightarrow> json option \<Rightarrow> client_error + hook_input" where
  "read_hook_input len value =
     (if MAX_HOOK_INPUT_BYTES < len then Inl (Plain ''Claude Code hook input exceeded 2 MiB'')
      else case value of
             None \<Rightarrow> Inl (Plain ''Claude Code hook input is not valid JSON'')
           | Some v \<Rightarrow>
               (case as_str (jindex v ''session_id'') of
                  None \<Rightarrow> Inl (Plain ''Claude Code hook input is missing session_id'')
                | Some sid \<Rightarrow>
                    if \<not> validate_session_token sid then Inl (Plain ''Claude Code supplied an invalid hook session id'')
                    else Inr \<lparr>hi_session_id = sid, hi_event = opt_or (as_str (jindex v ''hook_event_name'')) [], hi_source = as_str (jindex v ''source''),
                              hi_prompt = as_str (jindex v ''prompt''), hi_last_assistant_message = as_str (jindex v ''last_assistant_message'')\<rparr>))"

section \<open>Files\<close>

definition hook_dir :: "string \<Rightarrow> string" where "hook_dir home = path_join home ''conversation-hooks''"
definition state_path :: "string \<Rightarrow> string \<Rightarrow> string" where "state_path home sid = path_join (hook_dir home) (sid @ ''.json'')"
definition bootstrap_path :: "string \<Rightarrow> string" where "bootstrap_path home = path_join (hook_dir home) ''bootstrap.json''"

datatype hook_file = FState hook_state | FBootstrap bootstrap

datatype file_outcome = Fine | Busy | Broken

type_synonym hook_files = "string \<Rightarrow> hook_file option"

record 'w hook =
  hk_conv :: "'w conversation"
  hk_files :: hook_files
  hk_script :: "file_outcome list"
  hk_others :: "(hook_files \<Rightarrow> hook_files) list"
  hk_draws :: "send_draw list"

type_synonym ('w, 'a) hook_result = "(client_error + 'a) \<times> 'w hook"

definition others_act :: "'w hook \<Rightarrow> 'w hook" where
  "others_act k = (case hk_others k of [] \<Rightarrow> k | f # fs \<Rightarrow> k\<lparr>hk_files := f (hk_files k), hk_others := fs\<rparr>)"

definition next_outcome :: "'w hook \<Rightarrow> file_outcome \<times> 'w hook" where
  "next_outcome k = (case hk_script k of [] \<Rightarrow> (Fine, k) | x # xs \<Rightarrow> (x, k\<lparr>hk_script := xs\<rparr>))"

definition hk_by_agent :: "('w mesh_agent \<Rightarrow> ('w, 'a) outcome) \<Rightarrow> 'w hook \<Rightarrow> ('w, 'a) hook_result" where
  "hk_by_agent op k = (let (r, c) = cv_by_agent op (hk_conv k) in (r, k\<lparr>hk_conv := c\<rparr>))"

definition hk_draw :: "'w hook \<Rightarrow> send_draw \<times> 'w hook" where
  "hk_draw k = (case hk_draws k of [] \<Rightarrow> (\<lparr>sd_ts = 0, sd_uid = [], sd_client_id = []\<rparr>, k) | d # ds \<Rightarrow> (d, k\<lparr>hk_draws := ds\<rparr>))"

definition load_state :: "string \<Rightarrow> 'w hook \<Rightarrow> ('w, hook_state) hook_result" where
  "load_state path k =
     (case next_outcome k of
        (Fine, k1) \<Rightarrow>
          (case hk_files k1 path of
             None \<Rightarrow> (Inr hook_state_default, k1)
           | Some (FState s) \<Rightarrow> (Inr s, k1)
           | Some (FBootstrap _) \<Rightarrow> (Inl (Plain ''could not parse Claude conversation state''), k1))
      | (_, k1) \<Rightarrow> (Inl (Plain ''could not read the conversation state''), k1))"

definition read_state :: "string \<Rightarrow> string \<Rightarrow> 'w hook \<Rightarrow> ('w, hook_state) hook_result" where
  "read_state home sid k = load_state (state_path home sid) (others_act k)"

text \<open>Taking a lock file, with the time for it run out or not.\<close>

definition acquire_lock :: "'w hook \<Rightarrow> ('w, bool) hook_result" where
  "acquire_lock k =
     (case next_outcome (others_act k) of
        (Fine, k1) \<Rightarrow> (Inr True, k1)
      | (Busy, k1) \<Rightarrow> (Inr False, k1)
      | (Broken, k1) \<Rightarrow> (Inl (Plain ''could not create the lock file''), k1))"

definition store_file :: "string \<Rightarrow> hook_file \<Rightarrow> 'w hook \<Rightarrow> ('w, unit) hook_result" where
  "store_file path f k =
     (case next_outcome k of
        (Fine, k1) \<Rightarrow> (Inr (), k1\<lparr>hk_files := (hk_files k1)(path := Some f)\<rparr>)
      | (_, k1) \<Rightarrow> (Inl (Plain ''writing a private file failed''), k1))"

definition modify_state :: "string \<Rightarrow> string \<Rightarrow> (hook_state \<Rightarrow> 'a \<times> hook_state) \<Rightarrow> 'w hook \<Rightarrow> ('w, 'a) hook_result" where
  "modify_state home sid f k =
     and_then (acquire_lock k) (\<lambda>locked k1.
       if \<not> locked then (Inl (Plain ''timed out locking Claude conversation state''), k1)
       else and_then (load_state (state_path home sid) k1) (\<lambda>s k2.
         case f s of (x, s') \<Rightarrow> and_then (store_file (state_path home sid) (FState s') k2) (\<lambda>_ k3. (Inr x, k3))))"

definition update_state :: "string \<Rightarrow> string \<Rightarrow> (hook_state \<Rightarrow> hook_state) \<Rightarrow> 'w hook \<Rightarrow> ('w, unit) hook_result" where
  "update_state home sid f k = modify_state home sid (\<lambda>s. ((), f s)) k"

definition write_bootstrap :: "string \<Rightarrow> bootstrap \<Rightarrow> 'w hook \<Rightarrow> ('w, unit) hook_result" where
  "write_bootstrap home bo k = store_file (bootstrap_path home) (FBootstrap bo) (others_act k)"

text \<open>A state in place of the bootstrap parses as one without a prompt and a cursor.\<close>

definition take_bootstrap :: "string \<Rightarrow> 'w hook \<Rightarrow> ('w, bootstrap option) hook_result" where
  "take_bootstrap home k =
     (case next_outcome (others_act k) of
        (Fine, k1) \<Rightarrow>
          (case hk_files k1 (bootstrap_path home) of
             None \<Rightarrow> (Inr None, k1)
           | Some f \<Rightarrow>
               let bo = (case f of FBootstrap b \<Rightarrow> b | FState _ \<Rightarrow> \<lparr>bo_prompt = None, bo_commit_cursor = None\<rparr>)
               in (case next_outcome k1 of
                     (Fine, k2) \<Rightarrow> (Inr (Some bo), k2\<lparr>hk_files := (hk_files k2)(bootstrap_path home := None)\<rparr>)
                   | (_, k2) \<Rightarrow> (Inl (Plain ''could not consume the bootstrap''), k2)))
      | (_, k1) \<Rightarrow> (Inl (Plain ''could not read the bootstrap''), k1))"

section \<open>The prompt and end hooks\<close>

definition prompt_hook :: "string \<Rightarrow> hook_input \<Rightarrow> 'w hook \<Rightarrow> ('w, unit) hook_result" where
  "prompt_hook home inp k =
     (let prompt = opt_or (map_option trim (hi_prompt inp)) []
      in if prompt = [] then (Inr (), k)
         else update_state home (hi_session_id inp) (\<lambda>s.
                let prompts = hs_prompts s @ [clip prompt MAX_CONTEXT_CHARS]
                in s\<lparr>hs_generation := next_generation (hs_generation s), hs_prompts := drop (length prompts - MAX_LOCAL_PROMPTS) prompts\<rparr>) k)"

definition end_hook :: "string \<Rightarrow> hook_input \<Rightarrow> 'w hook \<Rightarrow> ('w, unit) hook_result" where
  "end_hook home inp k =
     (let sid = hi_session_id inp
      in and_then (modify_state home sid (\<lambda>s. let g = next_generation (hs_generation s) in (g, s\<lparr>hs_generation := g\<rparr>)) k) (\<lambda>ending k1.
         and_then (acquire_lock k1) (\<lambda>watch k2.
           if \<not> watch then (Inr (), k2)
           else and_then (acquire_lock k2) (\<lambda>locked k3.
             if \<not> locked then (Inr (), k3)
             else and_then (load_state (state_path home sid) k3) (\<lambda>s k4.
               if hs_generation s \<noteq> ending then (Inr (), k4)
               else case next_outcome k4 of
                      (Fine, k5) \<Rightarrow> (Inr (), k5\<lparr>hk_files := (hk_files k5)(state_path home sid := None)\<rparr>)
                    | (_, k5) \<Rightarrow> (Inl (Plain ''could not remove ended Claude conversation state''), k5))))))"

section \<open>Finishing a turn\<close>

definition local_turn :: "string list \<Rightarrow> string \<Rightarrow> string" where
  "local_turn prompts answer =
     (let prompt = join_with (nl @ nl @ ''User: '') (filter (\<lambda>p. p \<noteq> []) (map trim prompts))
      in if prompt = [] then trim answer
         else if trim answer = [] then ''User: '' @ prompt
         else ''User: '' @ prompt @ nl @ nl @ ''Agent: '' @ trim answer)"

record 'w hook_env =
  he_lib :: lib
  he_sign :: "string \<Rightarrow> string \<Rightarrow> string option"
  he_parse :: "string \<Rightarrow> handoff_ref option"
  he_transport :: "'w transport"
  he_home :: string

text \<open>
  The request that was claimed is read again; what precedes it and is not meant for this agent is passed over.
  The number bounds the messages passed over, and without a result the loop is still running.
\<close>

fun pull_pending_message :: "lib \<Rightarrow> 'w transport \<Rightarrow> nat \<Rightarrow> string \<Rightarrow> string \<Rightarrow> 'w mesh_agent \<Rightarrow> ('w, stored_message) outcome option" where
  "pull_pending_message L T 0 room expected a = None"
| "pull_pending_message L T (Suc n) room expected a =
     (case agent_pull T room None (Some 1) a of
        (Inl er, a1) \<Rightarrow> Some (Inl er, a1)
      | (Inr ([], c), a1) \<Rightarrow> Some (Inl (Plain ''Claude Code completed peer work, but the durable request is not available''), a1)
      | (Inr (m # ms, c), a1) \<Rightarrow>
          if sm_id m = expected then Some (Inr m, a1)
          else if is_actionable L m room (ma_id a1) (ma_name a1) (ma_role a1)
          then Some (Inl (Plain ''Claude Code's pending peer request no longer matches the durable room cursor''), defer_reads room a1)
          else (case commit_reads T room a1 of
                  (Inl er, a2) \<Rightarrow> Some (Inl er, a2)
                | (Inr _, a2) \<Rightarrow> pull_pending_message L T n room expected a2))"

definition send_injected_result ::
  "'w hook_env \<Rightarrow> send_draw \<Rightarrow> string \<Rightarrow> stored_message \<Rightarrow> string \<Rightarrow> 'w mesh_agent \<Rightarrow> ('w, unit) outcome" where
  "send_injected_result E d room incoming answer a =
     (let text = trim answer
      in if text = [] then (Inr (), a) else send_peer_result (he_lib E) (he_sign E) (he_parse E) (he_transport E) d room incoming text a)"

definition post_local :: "'w hook_env \<Rightarrow> string \<Rightarrow> string \<Rightarrow> 'w hook \<Rightarrow> ('w, unit) hook_result" where
  "post_local E room text k =
     (case hk_draw k of
        (d, k1) \<Rightarrow>
          and_then (hk_by_agent (send_text (he_lib E) (he_sign E) (he_transport E) d (TRoom room) (clip text MAX_REPLY_CHARS)) k1) (\<lambda>_ k2. (Inr (), k2)))"

definition publish_pending :: "'w hook_env \<Rightarrow> nat \<Rightarrow> string \<Rightarrow> hook_state \<Rightarrow> string \<Rightarrow> 'w hook \<Rightarrow> ('w, unit) hook_result option" where
  "publish_pending E n room snapshot answer k =
     (let prompts = hs_prompts snapshot
      in case hs_pending snapshot of
           Some (PBootstrap cursor) \<Rightarrow>
             Some (and_then (hk_by_agent (commit_reads_through (he_transport E) room cursor) k) (\<lambda>_ k1.
               if prompts = [] then (Inr (), k1) else post_local E room (local_turn prompts answer) k1))
         | Some (PMessage mid) \<Rightarrow>
             (case pull_pending_message (he_lib E) (he_transport E) n room mid (cv_agent (hk_conv k)) of
                None \<Rightarrow> None
              | Some (r, a) \<Rightarrow>
                  Some (and_then (r, k\<lparr>hk_conv := (hk_conv k)\<lparr>cv_agent := a\<rparr>\<rparr>) (\<lambda>m k1.
                    let text = (if prompts = [] then answer else local_turn prompts answer)
                    in case hk_draw k1 of
                         (d, k2) \<Rightarrow>
                           and_then (hk_by_agent (send_injected_result E d room m text) k2) (\<lambda>_ k3.
                             hk_by_agent (commit_reads (he_transport E) room) k3))))
         | None \<Rightarrow>
             Some (if prompts \<noteq> [] \<and> trim (local_turn prompts answer) \<noteq> [] then post_local E room (local_turn prompts answer) k else (Inr (), k)))"

definition settle :: "hook_state \<Rightarrow> hook_state \<Rightarrow> hook_state" where
  "settle snapshot s =
     s\<lparr>hs_pending := (if hs_pending s = hs_pending snapshot then None else hs_pending s),
       hs_prompts := (let n = length (hs_prompts snapshot) in if take n (hs_prompts s) = hs_prompts snapshot then drop n (hs_prompts s) else hs_prompts s)\<rparr>"

definition complete_turn :: "'w hook_env \<Rightarrow> nat \<Rightarrow> string \<Rightarrow> string \<Rightarrow> string \<Rightarrow> 'w hook \<Rightarrow> ('w, unit) hook_result option" where
  "complete_turn E n room sid answer k =
     (case read_state (he_home E) sid k of
        (Inl er, k1) \<Rightarrow> Some (Inl er, k1)
      | (Inr snapshot, k1) \<Rightarrow>
          map_option (\<lambda>r. and_then r (\<lambda>_ k2. update_state (he_home E) sid (settle snapshot) k2)) (publish_pending E n room snapshot answer k1))"

section \<open>The watcher\<close>

definition prepare_wake_state :: "hook_input \<Rightarrow> hook_state \<Rightarrow> bool \<times> hook_state" where
  "prepare_wake_state inp s =
     (if hi_event inp = ''SessionStart'' \<and> hi_source inp \<in> {Some ''clear'', Some ''compact''} then (False, s)
      else if hi_event inp = ''SessionStart''
      then (True, s\<lparr>hs_generation := next_generation (hs_generation s), hs_prompts := [], hs_pending := None\<rparr>)
      else if hi_event inp = ''Stop'' then (True, s\<lparr>hs_generation := next_generation (hs_generation s)\<rparr>)
      else (False, s))"

definition hk_presence :: "'w hook_env \<Rightarrow> string \<Rightarrow> string \<Rightarrow> 'w hook \<Rightarrow> 'w hook" where
  "hk_presence E room state k =
     snd (hk_by_agent (agent_presence (he_transport E) state (Some (''live conversation '' @ quoted room))) k)"

definition claim_pending :: "nat \<Rightarrow> string \<Rightarrow> hook_state \<Rightarrow> bool \<times> hook_state" where
  "claim_pending gen mid s =
     (if hs_generation s \<noteq> gen \<or> hs_pending s \<noteq> None then (False, s) else (True, s\<lparr>hs_pending := Some (PMessage mid)\<rparr>))"

definition hk_defer :: "string \<Rightarrow> 'w hook \<Rightarrow> 'w hook" where
  "hk_defer room k = k\<lparr>hk_conv := (hk_conv k)\<lparr>cv_agent := defer_reads room (cv_agent (hk_conv k))\<rparr>\<rparr>"

text \<open>One message: nothing to do, the end of the watch, or the prompt that wakes the session.\<close>

datatype watch = Go_on | Ended | Wakes string

definition watch_message :: "'w hook_env \<Rightarrow> string \<Rightarrow> string \<Rightarrow> nat \<Rightarrow> stored_message \<Rightarrow> 'w hook \<Rightarrow> ('w, watch) hook_result" where
  "watch_message E room sid gen m k =
     and_then (read_state (he_home E) sid k) (\<lambda>s k1.
       let a = cv_agent (hk_conv k1)
       in if hs_generation s \<noteq> gen then (Inr Ended, hk_defer room k1)
          else if \<not> is_actionable (he_lib E) m room (ma_id a) (ma_name a) (ma_role a)
          then and_then (hk_by_agent (commit_reads (he_transport E) room) k1) (\<lambda>_ k2. (Inr Go_on, k2))
          else case live_turn_prompt (he_lib E) (he_transport E) (he_home E) room m (host_display Claude) (hk_conv k1) of
                 (None, c) \<Rightarrow> (Inl panic, k1\<lparr>hk_conv := c\<rparr>)
               | (Some prompt, c) \<Rightarrow>
                   and_then (modify_state (he_home E) sid (claim_pending gen (sm_id m)) (k1\<lparr>hk_conv := c\<rparr>)) (\<lambda>accepted k2.
                     if \<not> accepted then (Inr Ended, hk_defer room k2)
                     else (Inr (Wakes (clip prompt CLAUDE_WAKE_PROMPT_CHARS)), hk_presence E room ''working'' k2)))"

fun watch_page :: "'w hook_env \<Rightarrow> string \<Rightarrow> string \<Rightarrow> nat \<Rightarrow> stored_message list \<Rightarrow> 'w hook \<Rightarrow> ('w, watch) hook_result" where
  "watch_page E room sid gen [] k = (Inr Go_on, k)"
| "watch_page E room sid gen (m # ms) k =
     (case watch_message E room sid gen m k of
        (Inr Go_on, k1) \<Rightarrow> watch_page E room sid gen ms k1
      | r \<Rightarrow> r)"

text \<open>The rounds of the watch, each with the waits of its pull and whether the heartbeat is due after it.\<close>

fun watch_rounds :: "'w hook_env \<Rightarrow> string \<Rightarrow> string \<Rightarrow> nat \<Rightarrow> ((nat \<times> nat \<times> nat) list \<times> bool) list \<Rightarrow> 'w hook \<Rightarrow> ('w, string option) hook_result option" where
  "watch_rounds E room sid gen [] k = None"
| "watch_rounds E room sid gen ((waits, beat) # rounds) k =
     (case read_state (he_home E) sid k of
        (Inl er, k1) \<Rightarrow> Some (Inl er, k1)
      | (Inr s, k1) \<Rightarrow>
          if hs_generation s \<noteq> gen then Some (Inr None, k1)
          else
            (case pull_wait (he_transport E) room (Some 1) waits False (cv_agent (hk_conv k1)) of
               None \<Rightarrow> None
             | Some (Inl er, a) \<Rightarrow> Some (Inl er, k1\<lparr>hk_conv := (hk_conv k1)\<lparr>cv_agent := a\<rparr>\<rparr>)
             | Some (Inr (ms, c, waited), a) \<Rightarrow>
                 (case watch_page E room sid gen ms (k1\<lparr>hk_conv := (hk_conv k1)\<lparr>cv_agent := a\<rparr>\<rparr>) of
                    (Inl er, k2) \<Rightarrow> Some (Inl er, k2)
                  | (Inr Ended, k2) \<Rightarrow> Some (Inr None, k2)
                  | (Inr (Wakes prompt), k2) \<Rightarrow> Some (Inr (Some prompt), k2)
                  | (Inr Go_on, k2) \<Rightarrow>
                      watch_rounds E room sid gen rounds (if beat then hk_presence E room ''waiting'' k2 else k2))))"

text \<open>After the bootstrap and the finished turn the watch begins with the generation it then reads.\<close>

definition begin_watch :: "'w hook_env \<Rightarrow> string \<Rightarrow> string \<Rightarrow> ((nat \<times> nat \<times> nat) list \<times> bool) list \<Rightarrow> 'w hook \<Rightarrow> ('w, string option) hook_result option" where
  "begin_watch E room sid rounds k =
     (case read_state (he_home E) sid k of
        (Inl er, k1) \<Rightarrow> Some (Inl er, k1)
      | (Inr s, k1) \<Rightarrow> watch_rounds E room sid (hs_generation s) rounds (hk_presence E room ''waiting'' k1))"

definition start_session :: "'w hook_env \<Rightarrow> string \<Rightarrow> string \<Rightarrow> 'w hook \<Rightarrow> ('w, string option) hook_result" where
  "start_session E room sid k =
     and_then (take_bootstrap (he_home E) k) (\<lambda>bo k1.
       case bo of
         None \<Rightarrow> (Inr None, k1)
       | Some b \<Rightarrow>
           and_then (case bo_commit_cursor b of
                       Some cursor \<Rightarrow> update_state (he_home E) sid (\<lambda>s. s\<lparr>hs_pending := Some (PBootstrap cursor)\<rparr>) k1
                     | None \<Rightarrow> (Inr (), k1)) (\<lambda>_ k2.
             case bo_prompt b of
               Some prompt \<Rightarrow> (Inr (Some prompt), hk_presence E room ''working'' k2)
             | None \<Rightarrow> (Inr None, k2)))"

text \<open>The whole hook; \<open>active\<close> is the room of the active session and \<open>dialled\<close> the outcome of connecting.\<close>

definition wake_hook ::
  "'w hook_env \<Rightarrow> nat \<Rightarrow> ((nat \<times> nat \<times> nat) list \<times> bool) list \<Rightarrow> string option \<Rightarrow> client_error + 'w mesh_agent \<Rightarrow> hook_input \<Rightarrow> 'w hook
    \<Rightarrow> ('w, string option) hook_result option" where
  "wake_hook E n rounds active dialled inp k =
     (let sid = hi_session_id inp
      in case modify_state (he_home E) sid (prepare_wake_state inp) k of
           (Inl er, k1) \<Rightarrow> Some (Inl er, k1)
         | (Inr False, k1) \<Rightarrow> Some (Inr None, k1)
         | (Inr True, k1) \<Rightarrow>
             (case acquire_lock k1 of
                (Inl er, k2) \<Rightarrow> Some (Inl er, k2)
              | (Inr False, k2) \<Rightarrow> Some (Inr None, k2)
              | (Inr True, k2) \<Rightarrow>
                  (case (active, dialled) of
                     (None, _) \<Rightarrow> Some (Inr None, k2)
                   | (Some room, Inl er) \<Rightarrow> Some (Inl er, k2)
                   | (Some room, Inr a) \<Rightarrow>
                       let k3 = k2\<lparr>hk_conv := (hk_conv k2)\<lparr>cv_agent := a\<rparr>\<rparr>
                       in if hi_event inp = ''SessionStart''
                          then (case start_session E room sid k3 of
                                  (Inr None, k4) \<Rightarrow> begin_watch E room sid rounds k4
                                | r \<Rightarrow> Some r)
                          else if hi_event inp = ''Stop''
                          then (case complete_turn E n room sid (opt_or (hi_last_assistant_message inp) []) k3 of
                                  None \<Rightarrow> None
                                | Some (Inl er, k4) \<Rightarrow> Some (Inl er, k4)
                                | Some (Inr _, k4) \<Rightarrow> begin_watch E room sid rounds k4)
                          else begin_watch E room sid rounds k3)))"

section \<open>The transcript of a resumed session\<close>

definition claude_message_text :: "json \<Rightarrow> string" where
  "claude_message_text content =
     (case content of
        JStr t \<Rightarrow> trim t
      | JArr parts \<Rightarrow>
          join_with nl (filter (\<lambda>t. t \<noteq> [])
            (filter_map (\<lambda>p. map_option trim (as_str (jindex p ''text''))) (filter (\<lambda>p. jindex p ''type'' = JStr ''text'') parts)))
      | _ \<Rightarrow> [])"

definition jsonl_line :: "json \<Rightarrow> string option" where
  "jsonl_line v =
     (if jindex v ''isSidechain'' = JBool True \<or> jindex v ''isMeta'' = JBool True then None
      else
        let role = (case as_str (jindex (jindex v ''message'') ''role'') of Some r \<Rightarrow> Some r | None \<Rightarrow> as_str (jindex v ''type''));
            text = claude_message_text (jindex (jindex v ''message'') ''content'')
        in if role = Some ''user'' then map_option (\<lambda>(speaker, t). speaker @ '': '' @ t) (visible_user_transcript text)
           else if role = Some ''assistant'' \<and> text \<noteq> [] then Some (''Agent: '' @ text)
           else None)"

text \<open>The lines that parse, in order.\<close>

definition transcript_from_jsonl :: "json list \<Rightarrow> string" where
  "transcript_from_jsonl values = clip_tail (join_with (nl @ nl) (filter_map jsonl_line values)) MAX_CONTEXT_CHARS"

text \<open>The last bytes of a long file, without the record they cut.\<close>

definition read_transcript_tail :: "(string \<Rightarrow> string) \<Rightarrow> string \<Rightarrow> string" where
  "read_transcript_tail lossy contents =
     (let offset = length contents - MAX_TRANSCRIPT_BYTES; tail_text = lossy (drop offset contents)
      in if 0 < offset then (case split_once nl tail_text of Some (a, rest) \<Rightarrow> rest | None \<Rightarrow> []) else tail_text)"

definition project_name :: "string \<Rightarrow> string" where
  "project_name cwd = concat (map (\<lambda>ch. case ch of [c] \<Rightarrow> if is_ascii_alphanumeric c then [c] else ''-'' | _ \<Rightarrow> ''-'') (utf8_chars cwd))"

text \<open>
  The directory of the sessions of a project is a listing of file names with their times; of several files with the
  latest time the last one is taken.
\<close>

fun latest_of :: "(string \<times> int) list \<Rightarrow> (string \<times> int) option" where
  "latest_of [] = None"
| "latest_of (f # fs) = (case latest_of fs of Some g \<Rightarrow> if snd f \<le> snd g then Some g else Some f | None \<Rightarrow> Some f)"

definition find_resume_transcript ::
  "string option \<Rightarrow> string option \<Rightarrow> (string \<Rightarrow> bool) \<Rightarrow> (string \<Rightarrow> (string \<times> int) list option) \<Rightarrow> string \<Rightarrow> string \<Rightarrow> string option" where
  "find_resume_transcript config_dir home is_file listing cwd resume =
     (let by_time = eq_ignore_ascii_case resume ''last''
      in if \<not> by_time \<and> \<not> validate_session_token resume then None
         else case (case config_dir of Some d \<Rightarrow> Some d | None \<Rightarrow> map_option (\<lambda>h. path_join h ''.claude'') home) of
                None \<Rightarrow> None
              | Some base \<Rightarrow>
                  let dir = path_join (path_join base ''projects'') (project_name cwd)
                  in if \<not> by_time
                     then (let exact = path_join dir (resume @ ''.jsonl'') in if is_file exact then Some exact else None)
                     else Option.bind (listing dir) (\<lambda>fs.
                       map_option (\<lambda>f. path_join dir (fst f))
                         (latest_of (filter (\<lambda>f. case rsplit_once (CHR ''.'') (fst f) of Some (stem, ext) \<Rightarrow> stem \<noteq> [] \<and> ext = ''jsonl'' | None \<Rightarrow> False) fs))))"

end
