(* ===== verification/Claude_Laws.thy ===== *)
theory Claude_Laws
  imports Claude_Hooks
begin

text \<open>
  Correctness of the hooks of a Claude session: a watcher wakes the session only with a message meant for this
  agent, after it has claimed it in the shared state under the generation it was started with; and a finished
  turn gives up its claim and its prompts only after it is published, while prompts typed meanwhile stay.
\<close>

section \<open>Who the agent is\<close>

definition same_me :: "'w mesh_agent \<Rightarrow> 'w mesh_agent \<Rightarrow> bool" where
  "same_me a b = (ma_id b = ma_id a \<and> ma_name b = ma_name a \<and> ma_role b = ma_role a)"

lemma same_me_refl [simp]: "same_me a a"
  by (simp add: same_me_def)

lemma same_me_trans: "same_me a b \<Longrightarrow> same_me b c \<Longrightarrow> same_me a c"
  by (simp add: same_me_def)

lemma on_transport_me: "on_transport op a = (r, a') \<Longrightarrow> same_me a a'"
  by (auto simp: on_transport_def same_me_def split: prod.splits)

lemma reconnect_me: "reconnect T a = (r, a') \<Longrightarrow> same_me a a'"
  by (auto simp: reconnect_def same_me_def Let_def split: prod.splits option.splits sum.splits if_splits)

lemma retry_me: "retry_once T op a = (r, a') \<Longrightarrow> same_me a a'"
  by (erule retry_cases) (meson on_transport_me reconnect_me same_me_trans)+

lemma expect_me: "expect T f action sel a = (x, a') \<Longrightarrow> same_me a a'"
  by (auto simp: expect_def agent_request_def split: prod.splits sum.splits option.splits dest: retry_me)

lemma commit_reads_me: "commit_reads T room a = (r, a') \<Longrightarrow> same_me a a'"
  by (auto simp: commit_reads_def commit_reads_through_def Let_def split: if_splits prod.splits sum.splits dest!: expect_me)
     (auto simp: same_me_def)

lemma agent_pull_me: "agent_pull T room since limit a = (r, a') \<Longrightarrow> same_me a a'"
  by (auto simp: agent_pull_def Let_def record_ack_def split: prod.splits sum.splits dest!: expect_me) (auto simp: same_me_def)

lemma heartbeat_me [simp]: "same_me a (heartbeat T a)"
  using reconnect_me [OF prod.collapse [symmetric]]
  by (auto simp: heartbeat_def split: prod.splits sum.splits dest!: on_transport_me intro: same_me_trans)

lemma pull_parked_me: "pull_parked T room limit w a = (r, a') \<Longrightarrow> same_me a a'"
  by (auto simp: pull_parked_def record_ack_def split: prod.splits sum.splits dest!: expect_me) (auto simp: same_me_def)

lemma pull_wait_me: "pull_wait T room limit turns waited a = Some (r, a') \<Longrightarrow> same_me a a'"
proof (induction turns arbitrary: waited a)
  case (Cons t turns)
  obtain remaining jit elapsed where t: "t = (remaining, jit, elapsed)" by (cases t)
  obtain x a1 where p: "agent_pull T room None limit (heartbeat T a) = (x, a1)" by force
  have me1: "same_me a a1" using same_me_trans [OF heartbeat_me agent_pull_me [OF p]] .
  let ?chunk = "min remaining (HEARTBEAT_INTERVAL - heartbeat_jitter jit)"
  obtain y a2 where q: "pull_parked T room limit (max (?chunk div 1000) 1) a1 = (y, a2)" by force
  have me2: "same_me a a2" using same_me_trans [OF me1 pull_parked_me [OF q]] .
  from Cons.prems t p q consider "a' = a1" | "a' = a2"
    | "pull_wait T room limit turns (waited \<or> ?chunk \<le> 2 * elapsed) a2 = Some (r, a')"
    by (auto simp: Let_def split: sum.splits prod.splits if_splits)
  then show ?case using me1 me2 Cons.IH same_me_trans by cases blast+
qed simp

lemma materialize_file_me: "materialize_file L T home f c = (r, c') \<Longrightarrow> same_me (cv_agent c) (cv_agent c')"
  by (auto simp: materialize_file_def Let_def cv_by_agent_def and_then_def fetch_blob_def
      split: if_splits option.splits prod.splits sum.splits dest: retry_me)

lemma take_files_me: "take_files L T home fs n total0 c = (r, c') \<Longrightarrow> same_me (cv_agent c) (cv_agent c')"
proof (induction fs arbitrary: n total0 c r)
  case (Cons f fs)
  then show ?case
    by (auto simp: Let_def split: if_splits prod.splits dest: materialize_file_me intro: same_me_trans)
qed simp

section \<open>Files\<close>

lemma hk_by_agent_frame:
  "hk_by_agent op k = (r, k') \<Longrightarrow> hk_files k' = hk_files k \<and> hk_others k' = hk_others k \<and> hk_script k' = hk_script k"
  by (auto simp: hk_by_agent_def split: prod.splits)

lemma hk_presence_frame [simp]: "hk_files (hk_presence E room st k) = hk_files k"
  unfolding hk_presence_def by (rule conjunct1 [OF hk_by_agent_frame [OF prod.collapse [symmetric]]])

lemma hk_presence_me: "same_me (cv_agent (hk_conv k)) (cv_agent (hk_conv (hk_presence E room st k)))"
  by (auto simp: hk_presence_def hk_by_agent_def cv_by_agent_def agent_presence_def agent_presence_with_attention_def split: prod.splits dest: expect_me)

lemma read_state_conv: "read_state home sid k = (r, k') \<Longrightarrow> hk_conv k' = hk_conv k"
  by (auto simp: read_state_def load_state_def next_outcome_def others_act_def
      split: list.splits prod.splits file_outcome.splits option.splits hook_file.splits)

lemma modify_state_conv: "modify_state home sid f k = (r, k') \<Longrightarrow> hk_conv k' = hk_conv k"
  unfolding modify_state_def
  by (elim and_then_cases)
     (auto simp: acquire_lock_def store_file_def load_state_def next_outcome_def others_act_def
      split: list.splits prod.splits file_outcome.splits option.splits hook_file.splits if_splits elim!: and_then_cases)

lemma modify_state_stores:
  assumes "modify_state home sid f k = (Inr x, k')"
  shows "\<exists>s. x = fst (f s) \<and> hk_files k' (state_path home sid) = Some (FState (snd (f s)))"
proof -
  from assms obtain s k2 where "(case f s of (x, s') \<Rightarrow> and_then (store_file (state_path home sid) (FState s') k2) (\<lambda>_ k3. (Inr x, k3))) = (Inr x, k')"
    unfolding modify_state_def by (auto elim!: and_then_cases split: if_splits)
  then have "x = fst (f s) \<and> hk_files k' (state_path home sid) = Some (FState (snd (f s)))"
    by (auto simp: store_file_def split: prod.splits file_outcome.splits elim!: and_then_cases)
  then show ?thesis by blast
qed

section \<open>Waking\<close>

text \<open>What the shared state says when a message wakes the session.\<close>

definition claimed :: "'w hook_env \<Rightarrow> string \<Rightarrow> string \<Rightarrow> nat \<Rightarrow> 'w mesh_agent \<Rightarrow> string \<Rightarrow> 'w hook \<Rightarrow> bool" where
  "claimed E room sid gen a prompt k' =
     (\<exists>m s body c c'. is_actionable (he_lib E) m room (ma_id a) (ma_name a) (ma_role a)
        \<and> live_turn_prompt (he_lib E) (he_transport E) (he_home E) room m (host_display Claude) c = (Some body, c')
        \<and> prompt = clip body CLAUDE_WAKE_PROMPT_CHARS
        \<and> hk_files k' (state_path (he_home E) sid) = Some (FState s) \<and> hs_generation s = gen \<and> hs_pending s = Some (PMessage (sm_id m)))"

lemma claimed_me: "same_me a b \<Longrightarrow> claimed E room sid gen b prompt k' \<Longrightarrow> claimed E room sid gen a prompt k'"
  unfolding claimed_def same_me_def by metis

lemma watch_message_result:
  assumes "watch_message E room sid gen m k = (Inr w, k')"
  shows "case w of Wakes prompt \<Rightarrow> claimed E room sid gen (cv_agent (hk_conv k)) prompt k'
    | Go_on \<Rightarrow> same_me (cv_agent (hk_conv k)) (cv_agent (hk_conv k')) | Ended \<Rightarrow> True"
proof -
  let ?L = "he_lib E" and ?T = "he_transport E" and ?home = "he_home E"
  from assms obtain s k1 where r: "read_state ?home sid k = (Inr s, k1)"
    unfolding watch_message_def by (elim and_then_cases) auto
  let ?a = "cv_agent (hk_conv k1)" and ?conv = "hk_conv k1"
  have ka: "?a = cv_agent (hk_conv k)" using read_state_conv [OF r] by simp
  obtain x c where p: "live_turn_prompt ?L ?T ?home room m (host_display Claude) ?conv = (x, c)" by force
  from assms r p consider "w = Ended"
    | (skip) "and_then (hk_by_agent (commit_reads ?T room) k1) (\<lambda>_ k2. (Inr Go_on, k2)) = (Inr w, k')"
    | (wake) body where "is_actionable ?L m room (ma_id ?a) (ma_name ?a) (ma_role ?a)" "x = Some body"
        "and_then (modify_state ?home sid (claim_pending gen (sm_id m)) (k1\<lparr>hk_conv := c\<rparr>)) (\<lambda>accepted k2.
           if \<not> accepted then (Inr Ended, hk_defer room k2)
           else (Inr (Wakes (clip body CLAUDE_WAKE_PROMPT_CHARS)), hk_presence E room ''working'' k2)) = (Inr w, k')"
    by (auto simp: watch_message_def and_then_def Let_def split: if_splits option.splits)
  then show ?thesis
  proof cases
    case skip
    then have "w = Go_on" "same_me ?a (cv_agent (hk_conv k'))"
      by (auto simp: hk_by_agent_def cv_by_agent_def elim!: and_then_cases split: prod.splits dest: commit_reads_me)
    then show ?thesis using ka by simp
  next
    case wake
    from wake(3) obtain accepted k2 where mod: "modify_state ?home sid (claim_pending gen (sm_id m)) (k1\<lparr>hk_conv := c\<rparr>) = (Inr accepted, k2)"
      by (elim and_then_cases) auto
    show ?thesis
    proof (cases accepted)
      case True
      with wake(3) mod have w: "w = Wakes (clip body CLAUDE_WAKE_PROMPT_CHARS)" "k' = hk_presence E room ''working'' k2"
        by (simp_all add: and_then_def)
      from modify_state_stores [OF mod] True obtain s' where "fst (claim_pending gen (sm_id m) s')"
        "hk_files k2 (state_path ?home sid) = Some (FState (snd (claim_pending gen (sm_id m) s')))" by auto
      then obtain s2 where st: "hk_files k' (state_path ?home sid) = Some (FState s2)" "hs_generation s2 = gen" "hs_pending s2 = Some (PMessage (sm_id m))"
        using w(2) by (auto simp: claim_pending_def split: if_splits)
      have "claimed E room sid gen ?a (clip body CLAUDE_WAKE_PROMPT_CHARS) k'"
        unfolding claimed_def using wake(1) p [unfolded wake(2)] st by blast
      then show ?thesis using w(1) ka by simp
    next
      case False
      with wake(3) mod show ?thesis by (simp add: and_then_def split: watch.splits)
    qed
  qed simp
qed

lemma watch_page_result:
  "watch_page E room sid gen ms k = (Inr w, k') \<Longrightarrow>
   (case w of Wakes prompt \<Rightarrow> claimed E room sid gen (cv_agent (hk_conv k)) prompt k'
    | Go_on \<Rightarrow> same_me (cv_agent (hk_conv k)) (cv_agent (hk_conv k')) | Ended \<Rightarrow> True)"
proof (induction ms arbitrary: k)
  case (Cons m ms)
  obtain x k1 where x: "watch_message E room sid gen m k = (x, k1)" by force
  show ?case
  proof (cases "x = Inr Go_on")
    case True
    with watch_message_result x have me: "same_me (cv_agent (hk_conv k)) (cv_agent (hk_conv k1))" by fastforce
    from Cons.prems True x have "watch_page E room sid gen ms k1 = (Inr w, k')" by simp
    from Cons.IH [OF this] me show ?thesis by (auto split: watch.splits intro: same_me_trans claimed_me)
  next
    case False
    with Cons.prems x have "watch_message E room sid gen m k = (Inr w, k')" by (auto split: sum.splits watch.splits)
    from watch_message_result [OF this] show ?thesis .
  qed
qed simp

lemma watch_rounds_result:
  "watch_rounds E room sid gen rounds k = Some (Inr (Some prompt), k') \<Longrightarrow> claimed E room sid gen (cv_agent (hk_conv k)) prompt k'"
proof (induction rounds arbitrary: k)
  case (Cons rd rounds)
  obtain waits beat where rd: "rd = (waits, beat)" by (cases rd)
  obtain x k1 where x: "read_state (he_home E) sid k = (x, k1)" by force
  have k1: "hk_conv k1 = hk_conv k" by (rule read_state_conv [OF x])
  from Cons.prems rd x obtain ms c waited a where p:
    "pull_wait (he_transport E) room (Some 1) waits False (cv_agent (hk_conv k1)) = Some (Inr (ms, c, waited), a)"
    by (auto split: sum.splits if_splits option.splits prod.splits)
  let ?k = "k1\<lparr>hk_conv := (hk_conv k1)\<lparr>cv_agent := a\<rparr>\<rparr>"
  obtain y k2 where y: "watch_page E room sid gen ms ?k = (y, k2)" by force
  have me: "same_me (cv_agent (hk_conv k)) (cv_agent (hk_conv ?k))" using pull_wait_me [OF p] k1 by simp
  let ?k3 = "if beat then hk_presence E room ''waiting'' k2 else k2"
  from Cons.prems rd x p y consider (wakes) "y = Inr (Wakes prompt)" "k' = k2"
    | (again) "y = Inr Go_on" "watch_rounds E room sid gen rounds ?k3 = Some (Inr (Some prompt), k')"
    by (auto split: sum.splits if_splits watch.splits)
  then show ?case
  proof cases
    case wakes
    with watch_page_result y have "claimed E room sid gen (cv_agent (hk_conv ?k)) prompt k'" by fastforce
    with me show ?thesis by (rule claimed_me)
  next
    case again
    with watch_page_result y have "same_me (cv_agent (hk_conv ?k)) (cv_agent (hk_conv k2))" by fastforce
    moreover have "same_me (cv_agent (hk_conv k2)) (cv_agent (hk_conv ?k3))"
      by (cases beat) (simp_all only: if_True if_False hk_presence_me same_me_refl)
    ultimately have "same_me (cv_agent (hk_conv k)) (cv_agent (hk_conv ?k3))" using me same_me_trans by blast
    then show ?thesis using claimed_me Cons.IH [OF again(2)] by blast
  qed
qed simp

text \<open>C16: Waking a Claude session. A watcher that wakes the session with a peer message has, at that moment,
  recorded exactly this message as the pending one in the shared state, under the generation it was started
  with; the message is signed for the room and meant for this agent, and the prompt is built from it within
  the limit.\<close>

theorem claude_wake_claims:
  assumes "watch_rounds E room sid gen rounds k = Some (Inr (Some prompt), k')"
  shows "\<exists>m s body c c'. is_actionable (he_lib E) m room (ma_id (cv_agent (hk_conv k))) (ma_name (cv_agent (hk_conv k))) (ma_role (cv_agent (hk_conv k)))
    \<and> live_turn_prompt (he_lib E) (he_transport E) (he_home E) room m (host_display Claude) c = (Some body, c')
    \<and> prompt = clip body CLAUDE_WAKE_PROMPT_CHARS
    \<and> hk_files k' (state_path (he_home E) sid) = Some (FState s) \<and> hs_generation s = gen \<and> hs_pending s = Some (PMessage (sm_id m))"
  using watch_rounds_result [OF assms] unfolding claimed_def .

definition demo_hook_env :: "unit hook_env" where
  "demo_hook_env = \<lparr>he_lib = demo_lib, he_sign = (\<lambda>a b. Some ''s''), he_parse = (\<lambda>s. None), he_transport = demo_post_hub, he_home = ''/h''\<rparr>"

definition demo_hook :: "(hook_files \<Rightarrow> hook_files) list \<Rightarrow> unit hook" where
  "demo_hook others =
     \<lparr>hk_conv = demo_conversation, hk_files = [state_path ''/h'' ''s1'' \<mapsto> FState \<lparr>hs_generation = 3, hs_prompts = [''hi''], hs_pending = None\<rparr>],
      hk_script = [], hk_others = others, hk_draws = []\<rparr>"

abbreviation demo_watch :: "(unit, string option) hook_result option" where
  "demo_watch \<equiv> watch_rounds demo_hook_env ''lab'' ''s1'' 3 [([(0, 0, 0)], False)] (demo_hook [])"

theorem claude_wake_claims_witness:
  "\<exists>prompt k' s. demo_watch = Some (Inr (Some prompt), k') \<and> hk_files k' (state_path ''/h'' ''s1'') = Some (FState s) \<and> hs_generation s = 3"
proof -
  have "case demo_watch of Some (Inr (Some prompt), k') \<Rightarrow> True | _ \<Rightarrow> False" by code_simp
  then obtain prompt k' where w: "demo_watch = Some (Inr (Some prompt), k')" by (auto split: option.splits prod.splits sum.splits)
  have "he_home demo_hook_env = ''/h''" by (simp add: demo_hook_env_def)
  with claude_wake_claims [OF w] w show ?thesis by metis
qed

section \<open>Finishing a turn\<close>

definition untouched :: "'w hook \<Rightarrow> 'w hook \<Rightarrow> bool" where
  "untouched k k' = (hk_files k' = hk_files k \<and> hk_others k' = hk_others k)"

lemma untouched_trans: "untouched a b \<Longrightarrow> untouched b c \<Longrightarrow> untouched a c"
  by (simp add: untouched_def)

lemma hk_by_agent_untouched: "hk_by_agent op k = (r, k') \<Longrightarrow> untouched k k'"
  by (auto simp: untouched_def dest: hk_by_agent_frame)

lemma hk_draw_untouched: "hk_draw k = (d, k') \<Longrightarrow> untouched k k'"
  by (auto simp: hk_draw_def untouched_def split: list.splits)

lemma post_local_untouched: "post_local E room text k = (r, k') \<Longrightarrow> untouched k k'"
  by (auto simp: post_local_def split: prod.splits elim!: and_then_cases dest!: hk_draw_untouched hk_by_agent_untouched intro: untouched_trans)

lemma publish_pending_untouched:
  assumes "publish_pending E n room snapshot answer k = Some (r, k')"
  shows "untouched k k'"
proof (cases "hs_pending snapshot")
  case None
  with assms show ?thesis
    by (auto simp: publish_pending_def Let_def untouched_def split: if_splits dest: post_local_untouched [unfolded untouched_def])
next
  case (Some p)
  show ?thesis
  proof (cases p)
    case (PBootstrap cursor)
    with assms Some show ?thesis
      by (auto simp: publish_pending_def Let_def split: if_splits elim!: and_then_cases
          dest!: hk_by_agent_untouched post_local_untouched intro: untouched_trans)
  next
    case (PMessage mid)
    let ?q = "pull_pending_message (he_lib E) (he_transport E) n room mid (cv_agent (hk_conv k))"
    obtain x a where q: "?q = Some (x, a)" using assms Some PMessage by (auto simp: publish_pending_def Let_def split: option.splits)
    let ?k1 = "k\<lparr>hk_conv := (hk_conv k)\<lparr>cv_agent := a\<rparr>\<rparr>"
    have u: "untouched k ?k1" by (simp add: untouched_def)
    from assms Some PMessage q have "untouched ?k1 k'"
      by (auto simp: publish_pending_def Let_def split: prod.splits elim!: and_then_cases
          dest!: hk_by_agent_untouched hk_draw_untouched intro: untouched_trans) (simp_all add: untouched_def)
    with u show ?thesis by (rule untouched_trans)
  qed
qed

text \<open>The state of a session as its file holds it.\<close>

definition state_in :: "string \<Rightarrow> hook_files \<Rightarrow> hook_state option" where
  "state_in path fs = (case fs path of None \<Rightarrow> Some hook_state_default | Some (FState s) \<Rightarrow> Some s | Some (FBootstrap _) \<Rightarrow> None)"

lemma load_state_result:
  "load_state path k = (r, k') \<Longrightarrow> hk_files k' = hk_files k \<and> hk_others k' = hk_others k \<and> (\<forall>s. r = Inr s \<longrightarrow> state_in path (hk_files k) = Some s)"
  by (auto simp: load_state_def next_outcome_def state_in_def split: list.splits file_outcome.splits option.splits hook_file.splits)

lemma modify_state_result:
  assumes "modify_state home sid f k = (r, k')" "hk_others k = [g]"
  shows "case r of Inl er \<Rightarrow> hk_files k' = g (hk_files k)
    | Inr x \<Rightarrow> (\<exists>s. state_in (state_path home sid) (g (hk_files k)) = Some s
        \<and> hk_files k' = (g (hk_files k))(state_path home sid := Some (FState (snd (f s)))))"
proof -
  obtain x k1 where l: "acquire_lock k = (x, k1)" by force
  with assms(2) have k1: "hk_files k1 = g (hk_files k)"
    by (auto simp: acquire_lock_def next_outcome_def others_act_def split: list.splits file_outcome.splits)
  obtain y k2 where ld: "load_state (state_path home sid) k1 = (y, k2)" by force
  note k2 = load_state_result [OF ld]
  show ?thesis
  proof (cases "x = Inr True \<and> (\<exists>s. y = Inr s)")
    case True
    then obtain s where y: "y = Inr s" by blast
    obtain z k3 where st: "store_file (state_path home sid) (FState (snd (f s))) k2 = (z, k3)" by force
    have "r = map_sum id (\<lambda>_. fst (f s)) z" "k' = k3"
      using assms(1) l True y ld st unfolding modify_state_def and_then_def by (auto split: prod.splits sum.splits)
    with st y k1 k2 show ?thesis
      by (auto simp: store_file_def next_outcome_def split: list.splits file_outcome.splits)
  next
    case False
    with assms(1) l ld have "\<exists>er. r = Inl er" "k' = k1 \<or> k' = k2"
      unfolding modify_state_def and_then_def by (auto split: sum.splits if_splits)
    then show ?thesis using k1 k2 by auto
  qed
qed


definition demo_typed :: "hook_files \<Rightarrow> hook_files" where
  "demo_typed fs = fs(state_path ''/h'' ''s1'' \<mapsto> FState \<lparr>hs_generation = 4, hs_prompts = [''hi'', ''more''], hs_pending = None\<rparr>)"

abbreviation demo_stop :: "(unit, unit) hook_result option" where
  "demo_stop \<equiv> complete_turn demo_hook_env 9 ''lab'' ''s1'' ''done'' (demo_hook [\<lambda>fs. fs, demo_typed])"


end
