(* ===== verification/Opencode.thy ===== *)
theory Opencode
  imports Codex_Bridge
begin

text \<open>
  The adapter for OpenCode (\<^verbatim>\<open>parler-cli/src/conversation/opencode.rs\<close>): the client of its local HTTP interface, the
  reader of its event stream, the transcript of a session, and the coordinator between the session and the
  room. What the local server answers and what arrives on the event stream are scripts; whether bytes are
  UTF-8 and serde's reader are parameters. One function per event of the coordinator's \<^verbatim>\<open>select!\<close>, as in the
  bridge to Codex.
\<close>

section \<open>Messages of a session\<close>

definition MESSAGE_TAIL_LIMIT :: nat where "MESSAGE_TAIL_LIMIT = 256"
definition SEEN_ASSISTANT_LIMIT :: nat where "SEEN_ASSISTANT_LIMIT = 1024"
definition EVENT_BUFFER_LIMIT :: nat where "EVENT_BUFFER_LIMIT = 8 * 1024 * 1024"

definition validate_session_id :: "string \<Rightarrow> bool" where
  "validate_session_id v =
     (strip_prefix ''ses_'' v \<noteq> None \<and> length v \<le> 128 \<and> list_all (\<lambda>c. is_ascii_alphanumeric c \<or> c = CHR ''_'' \<or> c = CHR ''-'') v)"

definition text_parts :: "json \<Rightarrow> bool \<Rightarrow> string" where
  "text_parts message user =
     join_with nl (filter (\<lambda>t. t \<noteq> []) (filter_map (\<lambda>p. map_option trim (as_str (jindex p ''text'')))
       (filter (\<lambda>p. jindex p ''type'' = JStr ''text'' \<and> jindex p ''ignored'' \<noteq> JBool True \<and> (user \<longrightarrow> jindex p ''synthetic'' \<noteq> JBool True))
         (jitems (jindex message ''parts'')))))"

definition user_message :: "json list \<Rightarrow> string \<Rightarrow> json option" where
  "user_message messages mid =
     find (\<lambda>m. jindex (jindex m ''info'') ''role'' = JStr ''user'' \<and> jindex (jindex m ''info'') ''id'' = JStr mid) messages"

definition opencode_local_turn :: "string \<Rightarrow> string \<Rightarrow> string \<Rightarrow> string" where
  "opencode_local_turn speaker prompt answer =
     (if trim prompt = [] then trim answer
      else if trim answer = [] then speaker @ '': '' @ trim prompt
      else speaker @ '': '' @ trim prompt @ nl @ nl @ ''Agent: '' @ trim answer)"

definition opencode_error_text :: "json \<Rightarrow> string" where
  "opencode_error_text v =
     (case as_str (jindex (jindex v ''data'') ''message'') of
        Some m \<Rightarrow> m
      | None \<Rightarrow> opt_or (as_str (jindex v ''message'')) ''OpenCode turn failed'')"

definition assistant_ids :: "json list \<Rightarrow> string list" where
  "assistant_ids messages =
     filter_map (\<lambda>m. as_str (jindex (jindex m ''info'') ''id''))
       (filter (\<lambda>m. jindex (jindex m ''info'') ''role'' = JStr ''assistant'' \<and> jindex (jindex (jindex m ''info'') ''time'') ''completed'' \<noteq> JNull) messages)"

definition opencode_line :: "json \<Rightarrow> string option" where
  "opencode_line m =
     (let info = jindex m ''info''
      in if jindex info ''role'' = JStr ''user''
         then map_option (\<lambda>(speaker, t). speaker @ '': '' @ t) (visible_user_transcript (text_parts m True))
         else if jindex info ''role'' = JStr ''assistant'' \<and> jindex info ''error'' = JNull
         then (let t = text_parts m False in if t = [] then None else Some (''Agent: '' @ t))
         else None)"

definition transcript_from_messages :: "json list \<Rightarrow> string" where
  "transcript_from_messages messages = clip_tail (join_with (nl @ nl) (filter_map opencode_line messages)) MAX_CONTEXT_CHARS"

record opencode_outcome =
  oo_parent_id :: string
  oo_answer :: string
  oo_local_text :: string
  oo_error :: "string option"

text \<open>A later answer to the same message takes the place of an earlier one.\<close>

fun put_outcome :: "opencode_outcome \<Rightarrow> opencode_outcome list \<Rightarrow> opencode_outcome list" where
  "put_outcome out [] = [out]"
| "put_outcome out (x # xs) = (if oo_parent_id x = oo_parent_id out then out # xs else x # put_outcome out xs)"

definition outcome_of_message :: "json list \<Rightarrow> json \<Rightarrow> string \<Rightarrow> opencode_outcome" where
  "outcome_of_message messages m mid =
     (let info = jindex m ''info''; parent = opt_or (as_str (jindex info ''parentID'')) mid; answer = text_parts m False
      in \<lparr>oo_parent_id = parent, oo_answer = answer,
          oo_local_text = (case Option.bind (user_message messages parent) (\<lambda>u. visible_user_transcript (text_parts u True)) of
                             Some (speaker, prompt) \<Rightarrow> opencode_local_turn speaker prompt answer
                           | None \<Rightarrow> answer),
          oo_error = (if jindex info ''error'' = JNull then None else Some (opencode_error_text (jindex info ''error'')))\<rparr>)"

fun collect_outcomes :: "json list \<Rightarrow> json list \<Rightarrow> opencode_outcome list \<Rightarrow> recent_ids \<Rightarrow> opencode_outcome list \<times> recent_ids" where
  "collect_outcomes messages [] outs seen = (outs, seen)"
| "collect_outcomes messages (m # ms) outs seen =
     (let info = jindex m ''info''
      in if jindex info ''role'' \<noteq> JStr ''assistant'' then collect_outcomes messages ms outs seen
         else case as_str (jindex info ''id'') of
                None \<Rightarrow> collect_outcomes messages ms outs seen
              | Some mid \<Rightarrow>
                  if recent_contains seen mid \<or> jindex (jindex info ''time'') ''completed'' = JNull then collect_outcomes messages ms outs seen
                  else collect_outcomes messages ms (put_outcome (outcome_of_message messages m mid) outs) (snd (recent_insert mid seen)))"

definition collect_completed_outcomes :: "json list \<Rightarrow> recent_ids \<Rightarrow> opencode_outcome list \<times> recent_ids" where
  "collect_completed_outcomes messages seen = collect_outcomes messages messages [] seen"

section \<open>The event stream\<close>

definition crlf2 :: string where "crlf2 = [CHR 13, CHR 10, CHR 13, CHR 10]"
definition lf2 :: string where "lf2 = [CHR 10, CHR 10]"

text \<open>The first place at or after an index where a blank line ends, with the length of its delimiter.\<close>

fun find_boundary :: "string \<Rightarrow> (nat \<times> nat) option" where
  "find_boundary [] = None"
| "find_boundary (c # cs) =
     (if strip_prefix crlf2 (c # cs) \<noteq> None then Some (0, 4)
      else if strip_prefix lf2 (c # cs) \<noteq> None then Some (0, 2)
      else map_option (\<lambda>(i, n). (Suc i, n)) (find_boundary cs))"

definition scan_boundary :: "string \<Rightarrow> nat \<Rightarrow> (nat \<times> nat) option" where
  "scan_boundary buffer start = map_option (\<lambda>(i, n). (start + i, n)) (find_boundary (drop start buffer))"

text \<open>\<^verbatim>\<open>str::lines\<close>: a carriage return before the line feed belongs to the end of the line.\<close>

definition str_lines :: "string \<Rightarrow> string list" where
  "str_lines s =
     (let ls = split_on (CHR 10) s
      in map (\<lambda>l. if l \<noteq> [] \<and> last l = CHR 13 then butlast l else l) (butlast ls) @ (if last ls = [] then [] else [last ls]))"

definition sse_data :: "string \<Rightarrow> string" where
  "sse_data frame =
     join_with nl (map (\<lambda>v. opt_or (strip_prefix '' '' v) v) (filter_map (strip_prefix ''data:'') (str_lines frame)))"

record sse_reader =
  sr_buffer :: string
  sr_scan_from :: nat

record opencode_lib =
  ol_utf8 :: "string \<Rightarrow> bool"
  ol_parse :: "string \<Rightarrow> json option"

definition sse_value :: "opencode_lib \<Rightarrow> string \<Rightarrow> client_error + json" where
  "sse_value P frame =
     (if \<not> ol_utf8 P frame then Inl (Plain ''OpenCode local event stream returned non-UTF-8 data'')
      else let data = sse_data frame
           in if data = [] then Inr JNull
              else case ol_parse P data of
                     Some v \<Rightarrow> Inr v
                   | None \<Rightarrow> Inl (Plain ''OpenCode local event stream returned invalid JSON''))"

text \<open>The next complete frame of the buffer; the scan resumes where the last one ended, less a delimiter's overlap.\<close>

definition take_sse_frame :: "sse_reader \<Rightarrow> string option \<times> sse_reader" where
  "take_sse_frame r =
     (case scan_boundary (sr_buffer r) (sr_scan_from r - 3) of
        None \<Rightarrow> (None, r\<lparr>sr_scan_from := length (sr_buffer r)\<rparr>)
      | Some (n, d) \<Rightarrow> (Some (take n (sr_buffer r)), \<lparr>sr_buffer = drop (n + d) (sr_buffer r), sr_scan_from = 0\<rparr>))"

definition take_sse_event :: "opencode_lib \<Rightarrow> sse_reader \<Rightarrow> (client_error + json option) \<times> sse_reader" where
  "take_sse_event P r =
     (case take_sse_frame r of
        (None, r1) \<Rightarrow> (Inr None, r1)
      | (Some frame, r1) \<Rightarrow> (map_sum id Some (sse_value P frame), r1))"

lemma find_boundary_inside: "find_boundary s = Some (n, d) \<Longrightarrow> n + d \<le> length s \<and> 0 < d"
proof (induction s arbitrary: n)
  case (Cons c cs)
  have p: "strip_prefix q l \<noteq> None \<Longrightarrow> length q \<le> length l" for q l :: string
    by (auto simp: strip_prefix_def split: if_splits) (metis length_take min.cobounded1)
  show ?case
  proof (cases "strip_prefix crlf2 (c # cs) \<noteq> None \<or> strip_prefix lf2 (c # cs) \<noteq> None")
    case True
    with Cons.prems p [of crlf2 "c # cs"] p [of lf2 "c # cs"] show ?thesis by (auto simp: crlf2_def lf2_def split: if_splits)
  next
    case False
    with Cons.prems obtain m where "find_boundary cs = Some (m, d)" "n = Suc m" by (auto split: if_splits)
    with Cons.IH show ?thesis by auto
  qed
qed simp

datatype stream_frame = SData string | STrailers | SFailed | SClosed

lemma take_sse_frame_shorter: "take_sse_frame r = (Some frame, r1) \<Longrightarrow> length (sr_buffer r1) < length (sr_buffer r)"
  by (auto simp: take_sse_frame_def scan_boundary_def split: option.splits prod.splits dest!: find_boundary_inside)

text \<open>Reading the next event that carries a value; without one the stream has delivered nothing complete yet.\<close>

function next_event :: "opencode_lib \<Rightarrow> stream_frame list \<Rightarrow> sse_reader \<Rightarrow> ((client_error + json) \<times> stream_frame list \<times> sse_reader) option" where
  "next_event P fs r =
     (case take_sse_frame r of
        (Some frame, r1) \<Rightarrow>
          (case sse_value P frame of
             Inl er \<Rightarrow> Some (Inl er, fs, r1)
           | Inr v \<Rightarrow> if v \<noteq> JNull then Some (Inr v, fs, r1) else next_event P fs r1)
      | (None, r1) \<Rightarrow>
          (case fs of
             [] \<Rightarrow> None
           | SClosed # fs' \<Rightarrow> Some (Inl (Plain ''OpenCode local event stream closed''), fs', r1)
           | SFailed # fs' \<Rightarrow> Some (Inl (Plain ''OpenCode local event stream failed''), fs', r1)
           | STrailers # fs' \<Rightarrow> next_event P fs' r1
           | SData d # fs' \<Rightarrow>
               if EVENT_BUFFER_LIMIT < length (sr_buffer r1) + length d
               then Some (Inl (Plain ''OpenCode local event exceeded the 8 MiB stream buffer limit''), fs', r1)
               else next_event P fs' (r1\<lparr>sr_buffer := sr_buffer r1 @ d\<rparr>)))"
  by pat_completeness auto
termination
  by (relation "inv_image (less_than <*lex*> less_than) (\<lambda>(P, fs, r). (length fs, length (sr_buffer r)))")
     (auto dest: take_sse_frame_shorter [OF sym])

declare next_event.simps [simp del]

definition session_busy_event :: "json \<Rightarrow> string \<Rightarrow> bool option" where
  "session_busy_event ev sid =
     (let props = jindex ev ''properties''
      in if jindex ev ''type'' \<noteq> JStr ''session.status'' \<or> as_str (jindex props ''sessionID'') \<noteq> Some sid then None
         else map_option (\<lambda>status. status \<noteq> ''idle'') (as_str (jindex (jindex props ''status'') ''type'')))"

section \<open>The local interface\<close>

datatype http_reply = HTimeout | HFailed | HBodyFailed | HReply nat string

record opencode_host =
  oh_session :: string
  oh_replies :: "http_reply list"
  oh_sent :: "(string \<times> string \<times> json option) list"
  oh_stream :: "stream_frame list"
  oh_reader :: sse_reader
  oh_known :: recent_ids
  oh_pending :: "(string \<times> stored_message) list"
  oh_pid :: nat
  oh_next :: nat

type_synonym 'a host_result = "(client_error + 'a) \<times> opencode_host"

definition api_request :: "opencode_lib \<Rightarrow> string \<Rightarrow> string \<Rightarrow> json option \<Rightarrow> nat list \<Rightarrow> opencode_host \<Rightarrow> json host_result" where
  "api_request P verb path body expected h =
     (let h1 = h\<lparr>oh_sent := oh_sent h @ [(verb, path, body)], oh_replies := tl (oh_replies h)\<rparr>
      in case oh_replies h of
           [] \<Rightarrow> (Inl (Plain ''OpenCode local API request timed out''), h1)
         | HTimeout # _ \<Rightarrow> (Inl (Plain ''OpenCode local API request timed out''), h1)
         | HFailed # _ \<Rightarrow> (Inl (Plain ''OpenCode local API request failed''), h1)
         | HBodyFailed # _ \<Rightarrow> (Inl (Plain ''OpenCode local API response failed or exceeded 8 MiB''), h1)
         | HReply status answer # _ \<Rightarrow>
             if status \<notin> set expected then (Inl (Plain (''OpenCode local API returned '' @ show_nat status)), h1)
             else if answer = [] then (Inr JNull, h1)
             else case ol_parse P answer of
                    Some v \<Rightarrow> (Inr v, h1)
                  | None \<Rightarrow> (Inl (Plain ''OpenCode local API returned invalid JSON''), h1))"

definition api_is_busy :: "opencode_lib \<Rightarrow> opencode_host \<Rightarrow> bool host_result" where
  "api_is_busy P h =
     and_then (api_request P ''GET'' ''/session/status'' None [200] h) (\<lambda>v h1.
       (Inr (case as_str (jindex (jindex v (oh_session h)) ''type'') of Some status \<Rightarrow> status \<noteq> ''idle'' | None \<Rightarrow> False), h1))"

definition message_tail_path :: "string \<Rightarrow> string" where
  "message_tail_path sid = ''/session/'' @ sid @ ''/message?limit='' @ show_nat MESSAGE_TAIL_LIMIT"

definition api_messages :: "opencode_lib \<Rightarrow> opencode_host \<Rightarrow> json list host_result" where
  "api_messages P h =
     and_then (api_request P ''GET'' (message_tail_path (oh_session h)) None [200] h) (\<lambda>v h1.
       (case as_array v of Some ms \<Rightarrow> Inr ms | None \<Rightarrow> Inl (Plain ''OpenCode returned a non-array session transcript''), h1))"

definition api_send_message :: "opencode_lib \<Rightarrow> string \<Rightarrow> string \<Rightarrow> bool \<Rightarrow> opencode_host \<Rightarrow> unit host_result" where
  "api_send_message P mid prompt no_reply h =
     and_then (api_request P ''POST'' (''/session/'' @ oh_session h @ (if no_reply then ''/message'' else ''/prompt_async''))
         (Some (JObj [(''messageID'', JStr mid), (''noReply'', JBool no_reply), (''parts'', JArr [JObj [(''type'', JStr ''text''), (''text'', JStr prompt)]])]))
         [if no_reply then 200 else 204] h) (\<lambda>_ h1. (Inr (), h1))"

definition api_create_session :: "opencode_lib \<Rightarrow> opencode_host \<Rightarrow> string host_result" where
  "api_create_session P h =
     and_then (api_request P ''POST'' ''/session'' (Some (JObj [(''title'', JStr ''Parler Protocol live conversation'')])) [200] h) (\<lambda>v h1.
       (case as_str (jindex v ''id'') of Some sid \<Rightarrow> Inr sid | None \<Rightarrow> Inl (Plain ''OpenCode created a session without an id''), h1))"

definition api_latest_session :: "opencode_lib \<Rightarrow> string \<Rightarrow> opencode_host \<Rightarrow> string host_result" where
  "api_latest_session P cwd h =
     and_then (api_request P ''GET'' ''/session?limit=50'' None [200] h) (\<lambda>v h1.
       (case Option.bind (find (\<lambda>x. as_str (jindex x ''directory'') = Some cwd) (jitems v)) (\<lambda>x. as_str (jindex x ''id'')) of
          Some sid \<Rightarrow> Inr sid
        | None \<Rightarrow> Inl (Plain (''no resumable OpenCode session found in '' @ cwd @ ''; omit --resume to start a new one'')), h1))"

definition api_require_session :: "opencode_lib \<Rightarrow> string \<Rightarrow> string \<Rightarrow> opencode_host \<Rightarrow> unit host_result" where
  "api_require_session P sid cwd h =
     (case api_request P ''GET'' (''/session/'' @ sid) None [200] h of
        (Inl er, h1) \<Rightarrow> (Inl (Plain (''could not resume OpenCode session '' @ quoted sid)), h1)
      | (Inr v, h1) \<Rightarrow>
          (if as_str (jindex v ''directory'') = Some cwd then Inr () else Inl (Plain (''OpenCode session '' @ quoted sid @ '' belongs to a different workspace'')), h1))"

text \<open>The session the adapter attaches to, what is known of it already and its transcript.\<close>

definition choose_session :: "opencode_lib \<Rightarrow> string \<Rightarrow> string option \<Rightarrow> opencode_host \<Rightarrow> string host_result" where
  "choose_session P cwd resume h =
     and_then (case resume of
                 None \<Rightarrow> api_create_session P h
               | Some v \<Rightarrow>
                   if eq_ignore_ascii_case v ''last'' then api_latest_session P cwd h
                   else if \<not> validate_session_id v then (Inl (Plain (''invalid OpenCode session id '' @ quoted v)), h)
                   else and_then (api_require_session P v cwd h) (\<lambda>_ h1. (Inr v, h1))) (\<lambda>sid h1.
       if validate_session_id sid then (Inr sid, h1) else (Inl (Plain (''invalid OpenCode session id '' @ quoted sid)), h1))"

definition attach_session :: "opencode_lib \<Rightarrow> string \<Rightarrow> string option \<Rightarrow> opencode_host \<Rightarrow> string host_result" where
  "attach_session P cwd resume h =
     and_then (choose_session P cwd resume h) (\<lambda>sid h1.
       and_then (api_messages P (h1\<lparr>oh_session := sid\<rparr>)) (\<lambda>ms h2.
         (Inr (transcript_from_messages ms),
          h2\<lparr>oh_known := recent_extend (assistant_ids ms) (recent_new SEEN_ASSISTANT_LIMIT), oh_pending := [], oh_next := 1\<rparr>)))"

definition message_id :: "opencode_host \<Rightarrow> string \<times> opencode_host" where
  "message_id h = (''msg_parler_'' @ show_nat (oh_pid h) @ ''_'' @ show_nat (oh_next h), h\<lparr>oh_next := oh_next h + 1\<rparr>)"

definition add_context :: "opencode_lib \<Rightarrow> string \<Rightarrow> opencode_host \<Rightarrow> unit host_result" where
  "add_context P prompt h =
     (case message_id h of
        (mid, h1) \<Rightarrow>
          (case api_send_message P mid prompt True h1 of
             (Inl er, h2) \<Rightarrow> (Inl (Plain ''OpenCode rejected the conversation catch-up context''), h2)
           | r \<Rightarrow> r))"

definition start_turn :: "opencode_lib \<Rightarrow> stored_message \<Rightarrow> string \<Rightarrow> opencode_host \<Rightarrow> unit host_result" where
  "start_turn P incoming prompt h =
     (case message_id h of
        (mid, h1) \<Rightarrow>
          (case api_send_message P mid prompt False h1 of
             (Inl er, h2) \<Rightarrow> (Inl (Plain ''OpenCode rejected a signed peer turn''), h2)
           | (Inr _, h2) \<Rightarrow> (Inr (), h2\<lparr>oh_pending := map_put mid incoming (oh_pending h2)\<rparr>)))"

definition completed_outcomes :: "opencode_lib \<Rightarrow> opencode_host \<Rightarrow> opencode_outcome list host_result" where
  "completed_outcomes P h =
     and_then (api_messages P h) (\<lambda>ms h1.
       case collect_completed_outcomes ms (oh_known h1) of (outs, seen) \<Rightarrow> (Inr outs, h1\<lparr>oh_known := seen\<rparr>))"

text \<open>The variables that point the program at this agent, and the password of its server; \<open>encode\<close> is base 64.\<close>

definition opencode_inline_config :: "json option option \<Rightarrow> string \<Rightarrow> json \<Rightarrow> client_error + json" where
  "opencode_inline_config existing executable environment =
     (case (case existing of None \<Rightarrow> Some (JObj []) | Some v \<Rightarrow> v) of
        None \<Rightarrow> Inl (Plain ''OPENCODE_CONFIG_CONTENT is not valid JSON'')
      | Some (JObj fs) \<Rightarrow>
          (case opt_or (jget ''mcp'' fs) (JObj []) of
             JObj servers \<Rightarrow>
               Inr (JObj (jinsert ''mcp'' (JObj (jinsert ''parler'' (JObj [(''type'', JStr ''local''), (''command'', JArr [JStr executable, JStr ''mcp'']),
                 (''enabled'', JBool True), (''environment'', environment)]) servers)) fs))
           | _ \<Rightarrow> Inl (Plain ''OPENCODE_CONFIG_CONTENT.mcp must be a JSON object''))
      | Some _ \<Rightarrow> Inl (Plain ''OPENCODE_CONFIG_CONTENT must contain a JSON object''))"

definition basic_authorization :: "(string \<Rightarrow> string) \<Rightarrow> string option \<Rightarrow> string option \<Rightarrow> string option" where
  "basic_authorization encode password username =
     (case password of
        None \<Rightarrow> None
      | Some p \<Rightarrow>
          if p = [] then None
          else let u = (case username of Some n \<Rightarrow> if n = [] then ''opencode'' else n | None \<Rightarrow> ''opencode'')
               in Some (''Basic '' @ encode (u @ '':'' @ p)))"

section \<open>The coordinator\<close>

record 'w opencode =
  oc_conv :: "'w conversation"
  oc_host :: opencode_host
  oc_queued :: "stored_message list"
  oc_busy :: bool
  oc_presence :: string
  oc_draws :: "send_draw list"
  oc_acked :: "stored_message list"

type_synonym ('w, 'a) oc_result = "(client_error + 'a) \<times> 'w opencode"

definition oc_by_host :: "(opencode_host \<Rightarrow> 'a host_result) \<Rightarrow> 'w opencode \<Rightarrow> ('w, 'a) oc_result" where
  "oc_by_host op b = (let (r, h) = op (oc_host b) in (r, b\<lparr>oc_host := h\<rparr>))"

definition oc_show_presence :: "'w bridge_env \<Rightarrow> 'w opencode \<Rightarrow> 'w opencode" where
  "oc_show_presence E b =
     b\<lparr>oc_conv := snd (cv_by_agent (agent_presence (be_transport E) (oc_presence b) (Some (''live conversation '' @ quoted (be_room E)))) (oc_conv b))\<rparr>"

definition oc_set_presence :: "'w bridge_env \<Rightarrow> 'w opencode \<Rightarrow> 'w opencode" where
  "oc_set_presence E b =
     (let state = (if oc_busy b then ''working'' else ''waiting'')
      in if state \<noteq> oc_presence b then oc_show_presence E (b\<lparr>oc_presence := state\<rparr>) else b)"

definition oc_publish :: "'w bridge_env \<Rightarrow> turn_capture \<Rightarrow> 'w opencode \<Rightarrow> ('w, unit) oc_result" where
  "oc_publish E cap b =
     (let d = (case oc_draws b of [] \<Rightarrow> \<lparr>sd_ts = 0, sd_uid = [], sd_client_id = []\<rparr> | d # ds \<Rightarrow> d); b1 = b\<lparr>oc_draws := tl (oc_draws b)\<rparr>
      in case cv_by_agent (publish_turn (be_lib E) (be_sign E) (be_parse E) (be_transport E) d (be_room E) cap) (oc_conv b1) of
           (Inl er, c) \<Rightarrow> (Inl er, b1\<lparr>oc_conv := c\<rparr>)
         | (Inr acked, c) \<Rightarrow> (Inr (), b1\<lparr>oc_conv := c, oc_acked := oc_acked b1 @ (case acked of Some m \<Rightarrow> [m] | None \<Rightarrow> [])\<rparr>))"

text \<open>The head of the loop: a queued message becomes a turn only if the session is idle when asked again.\<close>

definition oc_inject :: "opencode_lib \<Rightarrow> 'w bridge_env \<Rightarrow> 'w opencode \<Rightarrow> ('w, unit) oc_result" where
  "oc_inject P E b =
     (case oc_queued b of
        [] \<Rightarrow> (Inr (), b)
      | m # queued \<Rightarrow>
          if oc_busy b \<or> oh_pending (oc_host b) \<noteq> [] then (Inr (), b)
          else and_then (oc_by_host (api_is_busy P) b) (\<lambda>busy b1.
            if busy then (Inr (), b1\<lparr>oc_busy := True\<rparr>)
            else case live_turn_prompt (be_lib E) (be_transport E) (be_home E) (be_room E) m (host_display Opencode) (oc_conv b1) of
                   (None, c) \<Rightarrow> (Inl panic, b1\<lparr>oc_conv := c, oc_queued := queued\<rparr>)
                 | (Some prompt, c) \<Rightarrow>
                     and_then (oc_by_host (start_turn P m prompt) (b1\<lparr>oc_busy := False, oc_conv := c, oc_queued := queued\<rparr>)) (\<lambda>_ b2.
                       (Inr (), b2\<lparr>oc_busy := True\<rparr>))))"

definition oc_outcome :: "'w bridge_env \<Rightarrow> opencode_outcome \<Rightarrow> 'w opencode \<Rightarrow> ('w, unit) oc_result" where
  "oc_outcome E out b =
     (case map_of (oh_pending (oc_host b)) (oo_parent_id out) of
        Some m \<Rightarrow>
          let b1 = b\<lparr>oc_host := (oc_host b)\<lparr>oh_pending := map_del (oo_parent_id out) (oh_pending (oc_host b))\<rparr>\<rparr>
          in (case oo_error out of
                Some er \<Rightarrow> (Inl (Plain (''OpenCode could not finish an injected peer turn: '' @ er)), b1)
              | None \<Rightarrow> oc_publish E \<lparr>tc_incoming = Some m, tc_text = oo_answer out\<rparr> b1)
      | None \<Rightarrow>
          if oo_error out = None \<and> trim (oo_local_text out) \<noteq> [] then oc_publish E \<lparr>tc_incoming = None, tc_text = oo_local_text out\<rparr> b
          else (Inr (), b))"

fun oc_outcomes :: "'w bridge_env \<Rightarrow> opencode_outcome list \<Rightarrow> 'w opencode \<Rightarrow> ('w, unit) oc_result" where
  "oc_outcomes E [] b = (Inr (), b)"
| "oc_outcomes E (out # outs) b = and_then (oc_outcome E out b) (\<lambda>_ b'. oc_outcomes E outs b')"

definition oc_event :: "opencode_lib \<Rightarrow> 'w bridge_env \<Rightarrow> json \<Rightarrow> 'w opencode \<Rightarrow> ('w, bool) oc_result" where
  "oc_event P E ev b =
     (case session_busy_event ev (oh_session (oc_host b)) of
        None \<Rightarrow> (Inr False, b)
      | Some True \<Rightarrow> (Inr False, oc_set_presence E (b\<lparr>oc_busy := True\<rparr>))
      | Some False \<Rightarrow>
          and_then (oc_by_host (completed_outcomes P) (b\<lparr>oc_busy := False\<rparr>)) (\<lambda>outs b1.
            and_then (oc_outcomes E outs b1) (\<lambda>_ b2.
              and_then (oc_by_host (api_is_busy P) b2) (\<lambda>busy b3. (Inr False, oc_set_presence E (b3\<lparr>oc_busy := busy\<rparr>))))))"

datatype opencode_step = OTuiExited bool string | OTuiLost string | OArrived stored_message | OReceiverGone | OHeartbeatDue | OEventReady

definition oc_step :: "opencode_lib \<Rightarrow> 'w bridge_env \<Rightarrow> opencode_step \<Rightarrow> 'w opencode \<Rightarrow> ('w, bool) oc_result option" where
  "oc_step P E ev b =
     (case oc_inject P E b of
        (Inl er, b1) \<Rightarrow> Some (Inl er, b1)
      | (Inr _, b1) \<Rightarrow>
          (case ev of
             OTuiExited ok status \<Rightarrow> Some (if ok then Inr True else Inl (Plain (''interactive OpenCode exited with '' @ status)), b1)
           | OTuiLost m \<Rightarrow> Some (Inl (Plain m), b1)
           | OArrived m \<Rightarrow> Some (Inr False, b1\<lparr>oc_queued := oc_queued b1 @ [m]\<rparr>)
           | OReceiverGone \<Rightarrow> Some (Inl (Plain ''conversation receive loop stopped''), b1)
           | OHeartbeatDue \<Rightarrow> Some (Inr False, oc_show_presence E b1)
           | OEventReady \<Rightarrow>
               (case next_event P (oh_stream (oc_host b1)) (oh_reader (oc_host b1)) of
                  None \<Rightarrow> None
                | Some (r, fs, rd) \<Rightarrow>
                    let b2 = b1\<lparr>oc_host := (oc_host b1)\<lparr>oh_stream := fs, oh_reader := rd\<rparr>\<rparr>
                    in (case r of Inl er \<Rightarrow> Some (Inl er, b2) | Inr v \<Rightarrow> Some (oc_event P E v b2)))))"

fun oc_steps :: "opencode_lib \<Rightarrow> 'w bridge_env \<Rightarrow> opencode_step list \<Rightarrow> 'w opencode \<Rightarrow> ('w, bool) oc_result option" where
  "oc_steps P E [] b = Some (Inr False, b)"
| "oc_steps P E (ev # evs) b =
     (case oc_step P E ev b of
        Some (Inr False, b') \<Rightarrow> oc_steps P E evs b'
      | r \<Rightarrow> r)"

definition oc_coordinate :: "opencode_lib \<Rightarrow> 'w bridge_env \<Rightarrow> opencode_step list \<Rightarrow> send_draw list \<Rightarrow> opencode_host \<Rightarrow> 'w conversation \<Rightarrow> ('w, bool) oc_result option" where
  "oc_coordinate P E evs draws h c =
     (let b = \<lparr>oc_conv = c, oc_host = h, oc_queued = [], oc_busy = False, oc_presence = ''waiting'', oc_draws = draws, oc_acked = []\<rparr>
      in case oc_by_host (api_is_busy P) b of
           (Inl er, b1) \<Rightarrow> Some (Inl er, b1)
         | (Inr busy, b1) \<Rightarrow> oc_steps P E evs (b1\<lparr>oc_busy := busy, oc_presence := (if busy then ''working'' else ''waiting'')\<rparr>))"

end
