(* ===== verification/Codex_Laws.thy ===== *)
theory Codex_Laws
  imports Codex_Bridge
begin

text \<open>
  Correctness of the bridge into a visible Codex session: at most one peer message is under way as a turn of the
  thread, a peer message is acknowledged to the receive loop at most once, and nothing the bridge writes to
  the app-server grants an approval. Each is an invariant of one step of the coordinator, carried along a run
  by the same lemma.
\<close>

section \<open>Frames\<close>

lemma set_presence_frame [simp]:
  "bg_host (set_presence E st b) = bg_host b" "bg_queued (set_presence E st b) = bg_queued b"
  "bg_pending (set_presence E st b) = bg_pending b" "bg_turns (set_presence E st b) = bg_turns b"
  "bg_injected (set_presence E st b) = bg_injected b" "bg_acked (set_presence E st b) = bg_acked b"
  "bg_active (set_presence E st b) = bg_active b" "bg_terminal (set_presence E st b) = bg_terminal b"
  by (simp_all add: set_presence_def show_presence_def)

lemma rest_presence_frame [simp]:
  "bg_host (rest_presence E b) = bg_host b" "bg_queued (rest_presence E b) = bg_queued b"
  "bg_pending (rest_presence E b) = bg_pending b" "bg_turns (rest_presence E b) = bg_turns b"
  "bg_injected (rest_presence E b) = bg_injected b" "bg_acked (rest_presence E b) = bg_acked b"
  by (simp_all add: rest_presence_def)

lemma show_presence_frame [simp]:
  "bg_host (show_presence E st b) = bg_host b" "bg_queued (show_presence E st b) = bg_queued b"
  "bg_pending (show_presence E st b) = bg_pending b" "bg_turns (show_presence E st b) = bg_turns b"
  "bg_injected (show_presence E st b) = bg_injected b" "bg_acked (show_presence E st b) = bg_acked b"
  by (simp_all add: show_presence_def)

lemma publish_turn_acks:
  "publish_turn L sign parse T d room cap a = (Inr acked, a') \<Longrightarrow> acked = tc_incoming cap"
  by (auto simp: publish_turn_def Let_def and_then_def split: if_splits option.splits prod.splits sum.splits)

lemma bg_draw_frame:
  "bg_draw b = (d, b1) \<Longrightarrow> \<exists>ds. b1 = b\<lparr>bg_draws := ds\<rparr>"
  by (auto simp: bg_draw_def split: list.splits intro: exI [of _ "bg_draws b"])

lemma bg_publish_shape:
  assumes "bg_publish E cap b = (r, b')"
  shows "\<exists>c ds. b' = b\<lparr>bg_draws := ds, bg_conv := c,
    bg_acked := bg_acked b @ (if r = Inr () then case tc_incoming cap of Some m \<Rightarrow> [m] | None \<Rightarrow> [] else [])\<rparr>"
proof -
  obtain d b1 where d: "bg_draw b = (d, b1)" by force
  then obtain ds where b1: "b1 = b\<lparr>bg_draws := ds\<rparr>" using bg_draw_frame by blast
  obtain x a where p: "publish_turn (be_lib E) (be_sign E) (be_parse E) (be_transport E) d (be_room E) cap (cv_agent (bg_conv b1)) = (x, a)" by force
  show ?thesis
  proof (cases x)
    case (Inl er)
    with assms d p have "r = Inl er" "b' = b1\<lparr>bg_conv := (bg_conv b1)\<lparr>cv_agent := a\<rparr>\<rparr>"
      by (simp_all add: bg_publish_def cv_by_agent_def)
    then show ?thesis unfolding b1 by (intro exI [of _ "(bg_conv b)\<lparr>cv_agent := a\<rparr>"] exI [of _ ds]) simp
  next
    case (Inr acked)
    with p publish_turn_acks have "acked = tc_incoming cap" by blast
    with assms d p Inr have "r = Inr ()"
      "b' = b1\<lparr>bg_conv := (bg_conv b1)\<lparr>cv_agent := a\<rparr>, bg_acked := bg_acked b1 @ (case tc_incoming cap of Some m \<Rightarrow> [m] | None \<Rightarrow> [])\<rparr>"
      by (simp_all add: bg_publish_def cv_by_agent_def)
    then show ?thesis unfolding b1 by (intro exI [of _ "(bg_conv b)\<lparr>cv_agent := a\<rparr>"] exI [of _ ds]) simp
  qed
qed

lemma bg_publish_frame:
  assumes "bg_publish E cap b = (r, b')"
  shows "bg_host b' = bg_host b" "bg_queued b' = bg_queued b" "bg_pending b' = bg_pending b" "bg_turns b' = bg_turns b"
    "bg_injected b' = bg_injected b"
    "bg_acked b' = bg_acked b @ (if r = Inr () then case tc_incoming cap of Some m \<Rightarrow> [m] | None \<Rightarrow> [] else [])"
  using bg_publish_shape [OF assms] by auto

lemma handle_bridge_request_frame:
  "bg_by_host (handle_bridge_request v) b = (r, b') \<Longrightarrow> \<exists>h. b' = b\<lparr>bg_host := h\<rparr>"
  by (auto simp: bg_by_host_def split: prod.splits)

section \<open>Runs\<close>

text \<open>What every step keeps holds at the end of a run, whatever its result.\<close>

lemma coordinate_keeps:
  assumes "coordinate_codex E evs b = Some (r, b')" "I b"
    and "\<And>ev b r b'. I b \<Longrightarrow> bridge_step E ev b = Some (r, b') \<Longrightarrow> I b'"
  shows "I b'"
  using assms(1,2)
proof (induction evs arbitrary: b)
  case (Cons ev evs)
  from Cons.prems(1) obtain r1 b1 where s: "bridge_step E ev b = Some (r1, b1)" by (auto split: option.splits)
  have i: "I b1" by (rule assms(3) [OF Cons.prems(2) s])
  show ?case
  proof (cases "r1 = Inr False")
    case True
    with Cons.prems(1) s have "coordinate_codex E evs b1 = Some (r, b')" by simp
    from Cons.IH [OF this i] show ?thesis .
  next
    case False
    with Cons.prems(1) s have "b' = b1" by (auto split: sum.splits bool.splits)
    with i show ?thesis by simp
  qed
qed simp

text \<open>A step is the head of the loop followed by one of its events.\<close>

lemma bridge_step_cases:
  assumes "bridge_step E ev b = Some (r, b')"
  obtains (head) er where "inject_next E b = (Inl er, b')" "r = Inl er"
    | (stop) b1 where "inject_next E b = (Inr (), b1)" "b' = b1"
    | (arrive) b1 m where "inject_next E b = (Inr (), b1)" "ev = Arrived m" "b' = b1\<lparr>bg_queued := bg_queued b1 @ [m]\<rparr>"
    | (beat) b1 where "inject_next E b = (Inr (), b1)" "b' = show_presence E (bg_presence b1) b1"
    | (poll) b1 x h where "inject_next E b = (Inr (), b1)" "read_recent_thread (be_thread E) (bg_host b1) = Some (x, h)"
        "(case x of Inl er \<Rightarrow> b' = b1\<lparr>bg_host := h\<rparr> | Inr thread \<Rightarrow> on_poll E thread (b1\<lparr>bg_host := h\<rparr>) = (r, b'))"
    | (lost) b1 er h where "inject_next E b = (Inr (), b1)" "next_value (bg_host b1) = Some (Inl er, h)" "b' = b1\<lparr>bg_host := h\<rparr>"
    | (val) b1 v h where "inject_next E b = (Inr (), b1)" "next_value (bg_host b1) = Some (Inr v, h)"
        "on_value E v (b1\<lparr>bg_host := h\<rparr>) = (r, b')"
proof (cases "inject_next E b")
  case (Pair x b1)
  show ?thesis
  proof (cases x)
    case (Inl er) with assms Pair head show ?thesis by (simp add: bridge_step_def)
  next
    case (Inr u)
    then have i: "inject_next E b = (Inr (), b1)" using Pair by simp
    show ?thesis
    proof (cases ev)
      case (TuiExited ok s) with assms i stop show ?thesis by (auto simp: bridge_step_def)
    next
      case (TuiLost m) with assms i stop show ?thesis by (auto simp: bridge_step_def)
    next
      case (Arrived m) with assms i arrive show ?thesis by (auto simp: bridge_step_def)
    next
      case ReceiverGone with assms i stop show ?thesis by (auto simp: bridge_step_def)
    next
      case HeartbeatDue with assms i beat show ?thesis by (auto simp: bridge_step_def)
    next
      case PollDue with assms i poll show ?thesis by (auto simp: bridge_step_def split: if_splits option.splits prod.splits sum.splits)
    next
      case ValueReady with assms i lost val show ?thesis by (auto simp: bridge_step_def split: option.splits prod.splits sum.splits)
    qed
  qed
qed

section \<open>A session\<close>

text \<open>A session: a peer message arrives, becomes a turn, the app-server asks for an approval and the turn ends.\<close>

definition demo_bridge_env :: "unit bridge_env" where
  "demo_bridge_env = \<lparr>be_lib = demo_lib, be_sign = (\<lambda>a b. Some ''s''), be_parse = (\<lambda>s. None), be_transport = demo_post_hub, be_home = ''/h'',
     be_room = ''lab'', be_thread = ''th''\<rparr>"

definition demo_codex :: codex_host where
  "demo_codex = \<lparr>ch_next_id = 1, ch_buffered = [], ch_incoming =
     [AText (JObj [(''id'', JInt 1), (''result'', JObj [(''turn'', JObj [(''id'', JStr ''t1'')])])]),
      AText (JObj [(''method'', JStr ''execCommandApproval''), (''id'', JInt 7)]),
      AText (JObj [(''method'', JStr ''turn/completed''), (''params'', JObj [(''turn'', JObj [(''id'', JStr ''t1''), (''status'', JStr ''completed''),
        (''items'', JArr [JObj [(''type'', JStr ''agentMessage''), (''text'', JStr ''done'')]])])])])], ch_sends = [], ch_sent = []\<rparr>"

definition demo_bridge :: "unit bridge" where
  "demo_bridge = bridge_new demo_conversation demo_codex (recent_new 8) False []"

abbreviation demo_codex_session :: "bridge_event list \<Rightarrow> unit bridge_result option" where
  "demo_codex_session evs \<equiv> coordinate_codex demo_bridge_env evs demo_bridge"

section \<open>At most one peer turn\<close>

definition one_peer_turn :: "'w bridge \<Rightarrow> bool" where
  "one_peer_turn b = (finite (bg_injected b) \<and> length (bg_pending b) + card (bg_injected b) \<le> 1)"

lemma one_peer_turn_mono:
  assumes "one_peer_turn b" "length (bg_pending b') \<le> length (bg_pending b)" "bg_injected b' \<subseteq> bg_injected b"
  shows "one_peer_turn b'"
  using assms card_mono [of "bg_injected b" "bg_injected b'"] finite_subset by (fastforce simp: one_peer_turn_def)

lemma map_del_shorter: "map_of m k = Some v \<Longrightarrow> length (map_del k m) < length m"
  unfolding map_del_def by (rule length_filter_less [of "(k, v)"]) (auto dest: map_of_SomeD)

lemma inject_next_pending:
  assumes "inject_next E b = (r, b')"
  shows "bg_injected b' = bg_injected b" "bg_pending b' = bg_pending b \<or> bg_injected b = {} \<and> length (bg_pending b') = 1"
  using assms
  by (auto simp: inject_next_def idle_def Let_def bg_by_host_def and_then_def split: if_splits list.splits prod.splits option.splits sum.splits)

lemma one_peer_turn_head: "one_peer_turn b \<Longrightarrow> inject_next E b = (r, b') \<Longrightarrow> one_peer_turn b'"
  using inject_next_pending [of E b r b'] by (auto simp: one_peer_turn_def)

lemma one_peer_turn_response:
  assumes "one_peer_turn b" "on_response v b = (r, b')"
  shows "one_peer_turn b'"
proof (cases "\<exists>rid m. as_u64 (jindex v ''id'') = Some rid \<and> map_of (bg_pending b) rid = Some m")
  case True
  then obtain rid m where m: "as_u64 (jindex v ''id'') = Some rid" "map_of (bg_pending b) rid = Some m" by blast
  have "length (map_del rid (bg_pending b)) < length (bg_pending b)" by (rule map_del_shorter [OF m(2)])
  with assms(1) have "length (map_del rid (bg_pending b)) = 0" "finite (bg_injected b)" "card (bg_injected b) = 0"
    unfolding one_peer_turn_def by linarith+
  then have "map_del rid (bg_pending b) = []" "bg_injected b = {}" by simp_all
  with assms(2) m show ?thesis
    by (auto simp: on_response_def Let_def one_peer_turn_def split: option.splits if_splits)
next
  case False
  with assms show ?thesis by (auto simp: on_response_def split: option.splits)
qed

text \<open>What finished turns do to the state.\<close>

definition finishes :: "'w bridge \<Rightarrow> 'w bridge \<Rightarrow> bool" where
  "finishes b b' = (bg_pending b' = bg_pending b \<and> bg_injected b' \<subseteq> bg_injected b \<and> bg_queued b' = bg_queued b \<and> bg_host b' = bg_host b)"

lemma finishes_trans: "finishes a b \<Longrightarrow> finishes b c \<Longrightarrow> finishes a c"
  by (auto simp: finishes_def)

lemma finishes_publish: "bg_publish E cap b = (r, b') \<Longrightarrow> finishes b b'"
  by (simp add: finishes_def bg_publish_frame)

text \<open>A finished turn leaves the running ones; it is dropped or published first.\<close>

definition same_queues :: "'w bridge \<Rightarrow> 'w bridge \<Rightarrow> bool" where
  "same_queues b b' = (bg_pending b' = bg_pending b \<and> bg_queued b' = bg_queued b \<and> bg_acked b' = bg_acked b \<and> bg_host b' = bg_host b
     \<and> bg_injected b' \<subseteq> bg_injected b)"

lemma finished_incoming [simp]: "tc_incoming (finished_text turn cap) = tc_incoming cap"
  by (simp add: finished_text_def split: option.splits)

lemma on_turn_completed_cases:
  assumes "on_turn_completed E v b = (r, b')"
  obtains (no_id) "b' = b"
    | (dropped) tid where "bg_turns b' = map_del tid (bg_turns b)" "same_queues b b'"
    | (published) tid cap cap' b1 x b2 where "map_of (bg_turns b) tid = Some cap" "tc_incoming cap' = tc_incoming cap"
        "bg_turns b1 = map_del tid (bg_turns b)" "same_queues b b1" "bg_publish E cap' b1 = (x, b2)" "bg_turns b' = bg_turns b2" "same_queues b2 b'"
proof (cases "as_str (jindex (jindex (jindex v ''params'') ''turn'') ''id'')")
  case None with assms no_id show ?thesis by (simp add: on_turn_completed_def)
next
  case (Some tid)
  let ?turn = "jindex (jindex v ''params'') ''turn''" and ?cap = "map_of (bg_turns b) tid"
  obtain fresh seen where f: "(if ?cap \<noteq> None then recent_insert tid (bg_terminal b) else (False, bg_terminal b)) = (fresh, seen)" by force
  define b1 where "b1 = b\<lparr>bg_active := bg_active b - {tid}, bg_turns := map_del tid (bg_turns b), bg_terminal := seen,
                        bg_thread_active := False, bg_needs_sync := True\<rparr>"
  have b1: "bg_turns b1 = map_del tid (bg_turns b)" "same_queues b b1" by (simp_all add: b1_def same_queues_def)
  show ?thesis
  proof (cases "incomplete_turn_reason ?turn")
    case None
    then have run: "and_then (if fresh then bg_publish E (finished_text ?turn (the ?cap)) b1 else (Inr (), b1)) (\<lambda>_ b2.
                      (Inr False, rest_presence E (b2\<lparr>bg_injected := bg_injected b2 - {tid}\<rparr>))) = (r, b')"
      using assms Some f unfolding on_turn_completed_def Let_def b1_def by simp
    show ?thesis
    proof (cases fresh)
      case True
      with f obtain cap where cap: "?cap = Some cap" by (cases ?cap) auto
      obtain x b2 where p: "bg_publish E (finished_text ?turn cap) b1 = (x, b2)" by force
      with run True cap have "bg_turns b' = bg_turns b2" "same_queues b2 b'"
        by (auto simp: and_then_def same_queues_def split: sum.splits)
      with published [OF cap _ b1 p] show ?thesis by simp
    next
      case False
      with run have "bg_turns b' = map_del tid (bg_turns b)" "same_queues b b'"
        by (auto simp: and_then_def same_queues_def b1_def)
      then show ?thesis by (rule dropped)
    qed
  next
    case (Some er)
    with assms \<open>as_str _ = Some tid\<close> f have "bg_turns b' = map_del tid (bg_turns b)" "same_queues b b'"
      by (auto simp: on_turn_completed_def Let_def same_queues_def split: if_splits)
    then show ?thesis by (rule dropped)
  qed
qed

lemma finishes_turn_completed:
  assumes "on_turn_completed E v b = (r, b')"
  shows "finishes b b'"
  using assms
proof (cases rule: on_turn_completed_cases)
  case (published tid cap cap' b1 x b2)
  then show ?thesis using finishes_publish [OF published(5)] by (auto simp: finishes_def same_queues_def)
qed (auto simp: finishes_def same_queues_def)

lemma finishes_outcome: "publish_outcome E out b = (r, b') \<Longrightarrow> finishes b b'"
  by (auto simp: publish_outcome_def Let_def finishes_def dest!: bg_publish_shape split: if_splits option.splits)

lemma finishes_outcomes: "publish_outcomes E outs b = (r, b') \<Longrightarrow> finishes b b'"
proof (induction outs arbitrary: b)
  case (Cons out outs)
  then show ?case by (auto elim!: and_then_cases dest: finishes_outcome intro: finishes_trans)
qed (simp add: finishes_def)

lemma finishes_poll: "on_poll E thread b = (r, b') \<Longrightarrow> finishes b b'"
  by (auto simp: on_poll_def Let_def finishes_def elim!: and_then_cases dest!: finishes_outcomes split: option.splits if_splits prod.splits)

lemma one_peer_turn_finishes: "one_peer_turn b \<Longrightarrow> finishes b b' \<Longrightarrow> one_peer_turn b'"
  by (rule one_peer_turn_mono) (auto simp: finishes_def)

text \<open>A value from the app-server: a request it answers, a response, a notification, or a finished turn.\<close>

lemma on_value_cases:
  assumes "on_value E v b = (r, b')"
  obtains (request) x h where "handle_bridge_request v (bg_host b) = (x, h)" "b' = b\<lparr>bg_host := h\<rparr>"
    | (response) h where "handle_bridge_request v (bg_host b) = (Inr False, h)" "on_response v (b\<lparr>bg_host := h\<rparr>) = (r, b')"
    | (started) h where "handle_bridge_request v (bg_host b) = (Inr False, h)" "b' = on_turn_started E v (b\<lparr>bg_host := h\<rparr>)"
    | (status) h where "handle_bridge_request v (bg_host b) = (Inr False, h)" "b' = on_status_changed E v (b\<lparr>bg_host := h\<rparr>)"
    | (item) h where "handle_bridge_request v (bg_host b) = (Inr False, h)" "b' = on_item_completed v (b\<lparr>bg_host := h\<rparr>)"
    | (finish) h where "handle_bridge_request v (bg_host b) = (Inr False, h)" "on_turn_completed E v (b\<lparr>bg_host := h\<rparr>) = (r, b')"
proof -
  obtain x h where x: "handle_bridge_request v (bg_host b) = (x, h)" by force
  show ?thesis
  proof (cases x)
    case (Inl er) with assms x request show ?thesis by (simp add: on_value_def bg_by_host_def and_then_def)
  next
    case (Inr handled)
    show ?thesis
    proof (cases handled)
      case True with assms x Inr request show ?thesis by (simp add: on_value_def bg_by_host_def and_then_def)
    next
      case False
      with assms x Inr have "(case jfield v ''method'' of
              None \<Rightarrow> on_response v (b\<lparr>bg_host := h\<rparr>)
            | Some method \<Rightarrow>
                let name = opt_or (as_str method) []
                in if name = ''turn/started'' then (Inr False, on_turn_started E v (b\<lparr>bg_host := h\<rparr>))
                   else if name = ''thread/status/changed'' then (Inr False, on_status_changed E v (b\<lparr>bg_host := h\<rparr>))
                   else if name = ''item/completed'' then (Inr False, on_item_completed v (b\<lparr>bg_host := h\<rparr>))
                   else if name = ''turn/completed'' then on_turn_completed E v (b\<lparr>bg_host := h\<rparr>)
                   else (Inr False, b\<lparr>bg_host := h\<rparr>)) = (r, b')"
        by (simp add: on_value_def bg_by_host_def and_then_def)
      with x Inr False request response started status item finish show ?thesis
        by (auto simp: Let_def simp del: append.simps split: option.splits if_splits)
    qed
  qed
qed

lemma notification_frame [simp]:
  "bg_pending (on_turn_started E v b) = bg_pending b" "bg_injected (on_turn_started E v b) = bg_injected b"
  "bg_queued (on_turn_started E v b) = bg_queued b" "bg_acked (on_turn_started E v b) = bg_acked b"
  "bg_host (on_turn_started E v b) = bg_host b"
  "bg_pending (on_status_changed E v b) = bg_pending b" "bg_injected (on_status_changed E v b) = bg_injected b"
  "bg_queued (on_status_changed E v b) = bg_queued b" "bg_acked (on_status_changed E v b) = bg_acked b"
  "bg_host (on_status_changed E v b) = bg_host b" "bg_turns (on_status_changed E v b) = bg_turns b"
  "bg_pending (on_item_completed v b) = bg_pending b" "bg_injected (on_item_completed v b) = bg_injected b"
  "bg_queued (on_item_completed v b) = bg_queued b" "bg_acked (on_item_completed v b) = bg_acked b"
  "bg_host (on_item_completed v b) = bg_host b"
  by (auto simp: on_turn_started_def on_status_changed_def on_item_completed_def Let_def split: option.splits)

lemma one_peer_turn_value:
  assumes "one_peer_turn b" "on_value E v b = (r, b')"
  shows "one_peer_turn b'"
proof -
  have h: "one_peer_turn (b\<lparr>bg_host := h\<rparr>)" for h using assms(1) by (simp add: one_peer_turn_def)
  from assms(2) show ?thesis
  proof (cases rule: on_value_cases)
    case (response h') then show ?thesis using one_peer_turn_response h by blast
  next
    case (finish h') then show ?thesis using one_peer_turn_finishes finishes_turn_completed h by blast
  qed (use h in \<open>auto simp: one_peer_turn_def\<close>)
qed

lemma one_peer_turn_step:
  assumes "one_peer_turn b" "bridge_step E ev b = Some (r, b')"
  shows "one_peer_turn b'"
proof -
  have head: "one_peer_turn b1" if "inject_next E b = (x, b1)" for x b1 by (rule one_peer_turn_head [OF assms(1) that])
  have host: "one_peer_turn (b1\<lparr>bg_host := h\<rparr>)" if "one_peer_turn b1" for b1 :: "'a bridge" and h using that by (simp add: one_peer_turn_def)
  from assms(2) show ?thesis
  proof (cases rule: bridge_step_cases)
    case (poll b1 x h)
    then show ?thesis using host [OF head [OF poll(1)]] one_peer_turn_finishes finishes_poll by (fastforce split: sum.splits)
  next
    case (val b1 v h)
    show ?thesis by (rule one_peer_turn_value [OF host [OF head [OF val(1)]] val(3)])
  next
    case (arrive b1 m) then show ?thesis using head [OF arrive(1)] by (simp add: one_peer_turn_def)
  next
    case (beat b1) then show ?thesis using head [OF beat(1)] by (simp add: one_peer_turn_def)
  qed (use head host in auto)
qed

text \<open>C14: One peer turn at a time. Whatever the app-server delivers and in whatever order, at every moment of
  a session at most one peer message is either waiting for the answer to its \<open>turn/start\<close> or running as an
  injected turn of the visible thread.\<close>

theorem codex_one_peer_turn:
  assumes "coordinate_codex E evs (bridge_new c h seen0 initially_active draws) = Some (r, b)"
  shows "finite (bg_injected b) \<and> length (bg_pending b) + card (bg_injected b) \<le> 1"
proof -
  have "one_peer_turn b"
  proof (rule coordinate_keeps [OF assms])
    show "one_peer_turn (bridge_new c h seen0 initially_active draws)" by (simp add: one_peer_turn_def bridge_new_def)
  qed (rule one_peer_turn_step)
  then show ?thesis unfolding one_peer_turn_def .
qed

theorem codex_one_peer_turn_witness:
  "\<exists>r b. demo_codex_session [Arrived (demo_signed ''al'' ''u1'' 1), ValueReady] = Some (r, b) \<and> bg_injected b = {''t1''}
    \<and> length (bg_pending b) + card (bg_injected b) \<le> 1"
proof -
  have "map_option (\<lambda>(r, b). bg_injected b = {''t1''}) (demo_codex_session [Arrived (demo_signed ''al'' ''u1'' 1), ValueReady]) = Some True" by code_simp
  then obtain r b where b: "demo_codex_session [Arrived (demo_signed ''al'' ''u1'' 1), ValueReady] = Some (r, b)" "bg_injected b = {''t1''}" by auto
  with codex_one_peer_turn [OF b(1) [unfolded demo_bridge_def]] show ?thesis by blast
qed

section \<open>Acknowledgements\<close>

text \<open>The peer messages the coordinator has taken in: acknowledged, queued, asked to start, or running.\<close>

definition held_messages :: "'w bridge \<Rightarrow> stored_message multiset" where
  "held_messages b = mset (bg_acked b) + mset (bg_queued b) + mset (map snd (bg_pending b)) + mset (filter_map (tc_incoming \<circ> snd) (bg_turns b))"

definition arrivals :: "bridge_event list \<Rightarrow> stored_message list" where
  "arrivals evs = filter_map (\<lambda>ev. case ev of Arrived m \<Rightarrow> Some m | _ \<Rightarrow> None) evs"

definition opt_mset :: "'a option \<Rightarrow> 'a multiset" where
  "opt_mset x = mset (case x of Some y \<Rightarrow> [y] | None \<Rightarrow> [])"

lemma map_del_Cons: "map_del k ((k', v) # m) = (if k' = k then map_del k m else (k', v) # map_del k m)"
  by (simp add: map_del_def)

lemma filter_map_del: "mset (filter_map (f \<circ> snd) (map_del k m)) \<subseteq># mset (filter_map (f \<circ> snd) m)"
  by (induction m) (auto simp: map_del_def split: option.splits intro: subset_mset.trans)

lemma held_without_turn:
  "map_of m k = Some v \<Longrightarrow> opt_mset (f v) + mset (filter_map (f \<circ> snd) (map_del k m)) \<subseteq># mset (filter_map (f \<circ> snd) m)"
proof (induction m)
  case (Cons e m)
  show ?case
  proof (cases "fst e = k")
    case True
    with Cons.prems have "snd e = v" by (cases e) simp
    with True show ?thesis using filter_map_del [of f k m] by (cases e) (auto simp: map_del_Cons opt_mset_def comp_def split: option.splits)
  next
    case False
    with Cons.prems have "map_of m k = Some v" by (cases e) auto
    from Cons.IH [OF this] False show ?thesis by (cases e) (auto simp: map_del_Cons comp_def split: option.splits)
  qed
qed simp

lemma held_same_turn:
  "f v = (case map_of m k of Some u \<Rightarrow> f u | None \<Rightarrow> None) \<Longrightarrow> filter_map (f \<circ> snd) (map_put k v m) = filter_map (f \<circ> snd) m"
  by (induction m) (auto split: option.splits)

lemma held_new_turn: "f v = Some x \<Longrightarrow> mset (filter_map (f \<circ> snd) (map_put k v m)) \<subseteq># add_mset x (mset (filter_map (f \<circ> snd) m))"
  by (induction m) (auto split: option.splits simp: add_mset_commute)

lemma held_pending:
  "map_of m k = Some (x :: stored_message) \<Longrightarrow> add_mset x (mset (map snd (map_del k m))) \<subseteq># mset (map snd m)"
  using held_without_turn [of m k x Some]
proof -
  have fm: "filter_map (Some \<circ> snd) l = map snd l" for l :: "('b \<times> stored_message) list" by (induction l) auto
  assume "map_of m k = Some x"
  from held_without_turn [OF this, of Some] show ?thesis unfolding fm by (simp add: opt_mset_def)
qed

lemma held_head:
  "inject_next E b = (r, b') \<Longrightarrow> held_messages b' \<subseteq># held_messages b"
  by (auto simp: inject_next_def idle_def Let_def bg_by_host_def and_then_def held_messages_def
      split: if_splits list.splits prod.splits option.splits sum.splits)

lemma held_response:
  assumes "on_response v b = (r, b')"
  shows "held_messages b' \<subseteq># held_messages b"
proof (cases "\<exists>rid m. as_u64 (jindex v ''id'') = Some rid \<and> map_of (bg_pending b) rid = Some m")
  case True
  then obtain rid m where m: "as_u64 (jindex v ''id'') = Some rid" "map_of (bg_pending b) rid = Some m" by blast
  let ?P = "mset (map snd (map_del rid (bg_pending b)))" and ?T = "mset (filter_map (tc_incoming \<circ> snd) (bg_turns b))"
  let ?R = "mset (bg_acked b) + mset (bg_queued b)"
  have p: "add_mset m ?P \<subseteq># mset (map snd (bg_pending b))" by (rule held_pending [OF m(2)])
  then have all: "?R + add_mset m ?P + ?T \<subseteq># held_messages b" unfolding held_messages_def by (intro subset_mset.add_mono) auto
  have t: "mset (filter_map (tc_incoming \<circ> snd) (map_put tid (c\<lparr>tc_incoming := Some m\<rparr>) (bg_turns b))) \<subseteq># add_mset m ?T" for tid c
    by (rule held_new_turn) simp
  have "held_messages b' \<subseteq># ?R + add_mset m ?P + ?T"
  proof (cases "jfield v ''error''")
    case (Some e)
    with assms m show ?thesis by (auto simp: on_response_def Let_def held_messages_def split: if_splits)
  next
    case None
    with assms m show ?thesis
      using t by (auto simp: on_response_def Let_def held_messages_def split: option.splits)
  qed
  with all show ?thesis by (rule subset_mset.trans [rotated])
next
  case False
  with assms show ?thesis by (auto simp: on_response_def split: option.splits)
qed

lemma held_notifications [simp]:
  "held_messages (on_turn_started E v b) = held_messages b" "held_messages (on_status_changed E v b) = held_messages b"
  "held_messages (on_item_completed v b) = held_messages b"
proof -
  show "held_messages (on_status_changed E v b) = held_messages b" by (simp add: held_messages_def)
  have "filter_map (tc_incoming \<circ> snd) (bg_turns (on_turn_started E v b)) = filter_map (tc_incoming \<circ> snd) (bg_turns b)"
    by (auto simp: on_turn_started_def empty_capture_def split: option.splits intro!: held_same_turn)
  then show "held_messages (on_turn_started E v b) = held_messages b" by (simp add: held_messages_def)
  have "filter_map (tc_incoming \<circ> snd) (bg_turns (on_item_completed v b)) = filter_map (tc_incoming \<circ> snd) (bg_turns b)"
    by (auto simp: on_item_completed_def Let_def empty_capture_def opt_or_def split: option.splits intro!: held_same_turn)
  then show "held_messages (on_item_completed v b) = held_messages b" by (simp add: held_messages_def)
qed

text \<open>Publishing a turn moves its message from the running turns to the acknowledged ones.\<close>

lemma held_publish:
  assumes "map_of (bg_turns b0) tid = Some cap" "tc_incoming cap' = tc_incoming cap" "bg_publish E cap' b = (r, b')"
    and "bg_turns b = map_del tid (bg_turns b0)" "bg_acked b = bg_acked b0" "bg_queued b = bg_queued b0" "bg_pending b = bg_pending b0"
  shows "held_messages b' \<subseteq># held_messages b0"
proof -
  have "held_messages b' \<subseteq># mset (bg_acked b0) + mset (bg_queued b0) + mset (map snd (bg_pending b0))
      + (opt_mset (tc_incoming cap) + mset (filter_map (tc_incoming \<circ> snd) (map_del tid (bg_turns b0))))"
    using bg_publish_frame [OF assms(3)] assms(2,4-7) by (auto simp: held_messages_def opt_mset_def)
  also have "\<dots> \<subseteq># held_messages b0" unfolding held_messages_def
    using held_without_turn [OF assms(1), of tc_incoming] by (intro subset_mset.add_mono) auto
  finally show ?thesis .
qed

lemma held_dropped_turn:
  assumes "bg_turns b = map_del tid (bg_turns b0)" "bg_acked b = bg_acked b0" "bg_queued b = bg_queued b0" "bg_pending b = bg_pending b0"
  shows "held_messages b \<subseteq># held_messages b0"
  using filter_map_del [of tc_incoming tid "bg_turns b0"] assms unfolding held_messages_def by (simp del: o_apply)

lemma held_outcome:
  assumes "publish_outcome E out b = (r, b')"
  shows "held_messages b' \<subseteq># held_messages b"
proof (cases "to_id out \<in> bg_injected b \<and> to_error out = None \<and> map_of (bg_turns b) (to_id out) \<noteq> None")
  case True
  then obtain cap where cap: "map_of (bg_turns b) (to_id out) = Some cap" by blast
  let ?b3 = "b\<lparr>bg_active := bg_active b - {to_id out}, bg_injected := bg_injected b - {to_id out}, bg_turns := map_del (to_id out) (bg_turns b)\<rparr>"
  from True cap assms have "bg_publish E (cap\<lparr>tc_text := to_text out\<rparr>) ?b3 = (r, b')" by (simp add: publish_outcome_def Let_def)
  from held_publish [OF cap _ this] show ?thesis by simp
next
  case False
  with assms show ?thesis
    by (auto simp: publish_outcome_def Let_def held_messages_def dest!: bg_publish_shape split: if_splits option.splits
        intro!: filter_map_del)
qed

lemma held_outcomes: "publish_outcomes E outs b = (r, b') \<Longrightarrow> held_messages b' \<subseteq># held_messages b"
proof (induction outs arbitrary: b)
  case (Cons out outs)
  then show ?case by (auto elim!: and_then_cases dest: held_outcome intro: subset_mset.trans)
qed simp

lemma held_turn_completed:
  assumes "on_turn_completed E v b = (r, b')"
  shows "held_messages b' \<subseteq># held_messages b"
  using assms
proof (cases rule: on_turn_completed_cases)
  case (dropped tid)
  then show ?thesis by (intro held_dropped_turn) (simp_all add: same_queues_def)
next
  case (published tid cap cap' b1 x b2)
  have "held_messages b2 \<subseteq># held_messages b"
    by (rule held_publish [OF published(1,2,5,3)]) (use published(4) in \<open>simp_all add: same_queues_def\<close>)
  moreover have "held_messages b' = held_messages b2" using published(6,7) by (simp add: held_messages_def same_queues_def)
  ultimately show ?thesis by simp
qed simp

lemma held_host [simp]: "held_messages (b\<lparr>bg_host := h\<rparr>) = held_messages b"
  by (simp add: held_messages_def)

lemma held_poll: "on_poll E thread b = (r, b') \<Longrightarrow> held_messages b' \<subseteq># held_messages b"
  by (auto simp: on_poll_def Let_def held_messages_def elim!: and_then_cases dest!: held_outcomes split: option.splits if_splits prod.splits)

lemma held_value:
  assumes "on_value E v b = (r, b')"
  shows "held_messages b' \<subseteq># held_messages b"
  using assms
proof (cases rule: on_value_cases)
  case (response h) then show ?thesis using held_response by fastforce
next
  case (finish h) then show ?thesis using held_turn_completed by fastforce
qed simp_all

lemma held_step:
  assumes "bridge_step E ev b = Some (r, b')"
  shows "held_messages b' \<subseteq># held_messages b + mset (arrivals [ev])"
proof -
  have head: "held_messages b1 \<subseteq># held_messages b + mset (arrivals [ev])" if "inject_next E b = (x, b1)" for x b1
    using held_head [OF that] by (simp add: subset_mset.add_increasing2)
  from assms show ?thesis
  proof (cases rule: bridge_step_cases)
    case (arrive b1 m)
    then have "held_messages b' = add_mset m (held_messages b1)" by (simp add: held_messages_def)
    with arrive(2) held_head [OF arrive(1)] show ?thesis by (simp add: arrivals_def)
  next
    case (poll b1 x h)
    then have "held_messages b' \<subseteq># held_messages b1" using held_poll by (fastforce split: sum.splits)
    with head [OF poll(1)] show ?thesis by (rule subset_mset.trans [rotated])
  next
    case (val b1 v h)
    from held_value [OF val(3)] have "held_messages b' \<subseteq># held_messages b1" by simp
    with head [OF val(1)] show ?thesis by (rule subset_mset.trans [rotated])
  next
    case (beat b1) then show ?thesis using head [OF beat(1)] by (simp add: held_messages_def)
  qed (use head in auto)
qed

lemma held_session:
  "coordinate_codex E evs b = Some (r, b') \<Longrightarrow> held_messages b' \<subseteq># held_messages b + mset (arrivals evs)"
proof (induction evs arbitrary: b)
  case (Cons ev evs)
  from Cons.prems obtain r1 b1 where s: "bridge_step E ev b = Some (r1, b1)" by (auto split: option.splits)
  have e: "mset (arrivals (ev # evs)) = mset (arrivals [ev]) + mset (arrivals evs)"
    unfolding arrivals_def by (simp split: bridge_event.splits)
  show ?case
  proof (cases "r1 = Inr False")
    case True
    with Cons.prems s have "coordinate_codex E evs b1 = Some (r, b')" by simp
    from Cons.IH [OF this] held_step [OF s] show ?thesis unfolding e
      by (metis (no_types, lifting) add.assoc subset_mset.add_right_mono subset_mset.trans)
  next
    case False
    with Cons.prems s have "b' = b1" by (auto split: sum.splits bool.splits)
    with held_step [OF s] show ?thesis unfolding e by (simp add: add.assoc [symmetric] subset_mset.add_increasing2)
  qed
qed (simp add: arrivals_def)

text \<open>C13: Acknowledging peer messages. Over a session with a fresh coordinator the acknowledged messages are
  among those that arrived, each at most as often as it arrived, together with those still queued, starting or
  running: none is acknowledged twice and none is acknowledged while it is still waiting.\<close>

theorem codex_acks_once:
  assumes "coordinate_codex E evs (bridge_new c h seen0 initially_active draws) = Some (r, b)"
  shows "mset (bg_acked b) + mset (bg_queued b) + mset (map snd (bg_pending b)) + mset (filter_map (tc_incoming \<circ> snd) (bg_turns b))
    \<subseteq># mset (filter_map (\<lambda>ev. case ev of Arrived m \<Rightarrow> Some m | _ \<Rightarrow> None) evs)"
  using held_session [OF assms] by (simp add: held_messages_def bridge_new_def arrivals_def)

theorem codex_acks_once_witness:
  "\<exists>r b. demo_codex_session [Arrived (demo_signed ''al'' ''u1'' 1), ValueReady, ValueReady, ValueReady] = Some (r, b)
    \<and> bg_acked b = [demo_signed ''al'' ''u1'' 1] \<and> bg_queued b = [] \<and> bg_pending b = []"
proof -
  have "map_option (\<lambda>(r, b). bg_acked b = [demo_signed ''al'' ''u1'' 1])
      (demo_codex_session [Arrived (demo_signed ''al'' ''u1'' 1), ValueReady, ValueReady, ValueReady]) = Some True" by code_simp
  then obtain r b where b: "demo_codex_session [Arrived (demo_signed ''al'' ''u1'' 1), ValueReady, ValueReady, ValueReady] = Some (r, b)"
    "bg_acked b = [demo_signed ''al'' ''u1'' 1]" by auto
  from codex_acks_once [OF b(1) [unfolded demo_bridge_def]] b(2) have "bg_queued b = [] \<and> bg_pending b = []" by simp
  with b show ?thesis by blast
qed

section \<open>What the bridge writes\<close>

text \<open>A write is a request about the session's own thread, or an answer that is an error or grants nothing.\<close>

definition withheld :: "json \<Rightarrow> bool" where
  "withheld r =
     (jfield r ''decision'' \<in> {Some (JStr ''decline''), Some (JStr ''denied'')} \<or> jfield r ''permissions'' = Some (JObj [])
      \<or> jfield r ''answers'' = Some (JObj []) \<or> jfield r ''action'' = Some (JStr ''decline'') \<or> jfield r ''success'' = Some (JBool False))"

definition bridge_write :: "string \<Rightarrow> json \<Rightarrow> bool" where
  "bridge_write thread v =
     (case jfield v ''method'' of
        Some m \<Rightarrow> m \<in> {JStr ''turn/start'', JStr ''thread/turns/list''} \<and> jfield (jindex v ''params'') ''threadId'' = Some (JStr thread)
      | None \<Rightarrow> jfield v ''error'' \<noteq> None \<or> withheld (jindex v ''result''))"

definition wrote :: "string \<Rightarrow> codex_host \<Rightarrow> codex_host \<Rightarrow> bool" where
  "wrote thread h h' = (\<exists>ws. ch_sent h' = ch_sent h @ ws \<and> list_all (bridge_write thread) ws)"

lemma wrote_refl [simp]: "ch_sent h' = ch_sent h \<Longrightarrow> wrote th h h'"
  by (simp add: wrote_def)

lemma wrote_trans: "wrote th h1 h2 \<Longrightarrow> wrote th h2 h3 \<Longrightarrow> wrote th h1 h3"
  by (auto simp: wrote_def)

lemma wrote_upd [simp]:
  "wrote th (h\<lparr>ch_next_id := n\<rparr>) h' = wrote th h h'" "wrote th (h\<lparr>ch_incoming := is\<rparr>) h' = wrote th h h'"
  "wrote th h (h'\<lparr>ch_incoming := is\<rparr>) = wrote th h h'" "wrote th (h\<lparr>ch_buffered := bs\<rparr>) h' = wrote th h h'"
  "wrote th h (h'\<lparr>ch_buffered := bs\<rparr>) = wrote th h h'"
  by (simp_all add: wrote_def)

lemma host_send_wrote: "host_send v h = (r, h') \<Longrightarrow> bridge_write th v \<Longrightarrow> wrote th h h'"
  by (auto simp: host_send_def wrote_def split: list.splits bool.splits)

lemma if_Some_cases:
  assumes "(if c then Some x else y) = Some z"
  obtains "z = x" | "y = Some z"
  using assms by (cases c) auto

lemma server_response_withheld:
  assumes "bridge_server_response meth = Some (Inr result)"
  shows "withheld result"
proof -
  have w: "withheld (declined ''decline'')" "withheld (declined ''denied'')" "withheld (JObj [(''permissions'', JObj [])])"
    "withheld (JObj [(''answers'', JObj [])])" "withheld (JObj [(''action'', JStr ''decline''), (''content'', JNull)])"
    "withheld (JObj [(''success'', JBool False), (''contentItems'', c)])" for c
    by (simp_all add: withheld_def declined_def jget_def)
  from assms show ?thesis unfolding bridge_server_response_def
    by (elim if_Some_cases) (simp_all only: w sum.inject sum.distinct option.distinct)
qed

lemma handle_bridge_request_wrote:
  assumes "handle_bridge_request v h = (r, h')"
  shows "wrote th h h'"
proof (cases "(Option.bind (jfield v ''method'') as_str, jfield v ''id'')")
  case (Pair x y)
  show ?thesis
  proof (cases "\<exists>meth rid ans. x = Some meth \<and> y = Some rid \<and> bridge_server_response meth = Some ans")
    case True
    then obtain meth rid ans where m: "x = Some meth" "y = Some rid" "bridge_server_response meth = Some ans" by blast
    let ?w = "JObj [(''id'', rid), (case ans of Inr result \<Rightarrow> (''result'', result)
                    | Inl m \<Rightarrow> (''error'', JObj [(''code'', JInt (- 32601)), (''message'', JStr m)]))]"
    have "bridge_write th ?w"
      using server_response_withheld [of meth] m(3) by (cases ans) (simp_all add: bridge_write_def jindex_def jget_def)
    moreover have "\<exists>x. host_send ?w h = (x, h')"
      using assms Pair m by (auto simp: handle_bridge_request_def elim!: and_then_cases)
    ultimately show ?thesis using host_send_wrote by blast
  next
    case False
    with assms Pair have "h' = h" by (auto simp: handle_bridge_request_def split: option.splits)
    then show ?thesis by simp
  qed
qed

lemma await_response_wrote: "await_response rid h = Some (r, h') \<Longrightarrow> wrote th h h'"
proof (induction "length (ch_incoming h)" arbitrary: h rule: less_induct)
  case less
  note run = less.prems
  obtain x evs where x: "read_events (ch_incoming h) = Some (x, evs)"
    using run by (subst (asm) await_response.simps) (auto split: option.splits)
  show ?case
  proof (cases x)
    case (Inl er) with run x show ?thesis by (subst (asm) await_response.simps) auto
  next
    case (Inr v)
    let ?h1 = "h\<lparr>ch_incoming := evs\<rparr>"
    show ?thesis
    proof (cases "as_u64 (jindex v ''id'') = Some rid \<and> jfield v ''method'' = None")
      case True with run x Inr show ?thesis by (subst (asm) await_response.simps) (auto simp: Let_def split: option.splits)
    next
      case False
      obtain y h2 where y: "handle_bridge_request v ?h1 = (y, h2)" by force
      have shorter: "length evs < length (ch_incoming h)" by (rule read_events_shorter [OF x])
      have w: "wrote th h h2" using handle_bridge_request_wrote [OF y, of th] by simp
      show ?thesis
      proof (cases y)
        case (Inl er) with run x Inr False y w show ?thesis by (subst (asm) await_response.simps) auto
      next
        case (Inr handled)
        show ?thesis
        proof (cases handled)
          case True
          have "await_response rid (h2\<lparr>ch_incoming := evs\<rparr>) = Some (r, h')"
            using run x \<open>x = Inr v\<close> False y Inr True by (subst (asm) await_response.simps) auto
          from less.hyps [OF _ this] shorter w show ?thesis by (auto intro: wrote_trans)
        next
          case no: False
          have "await_response rid (h2\<lparr>ch_incoming := evs, ch_buffered := ch_buffered h2 @ [v]\<rparr>) = Some (r, h')"
            using run x \<open>x = Inr v\<close> False y Inr no by (subst (asm) await_response.simps) auto
          from less.hyps [OF _ this] shorter w show ?thesis by (auto intro: wrote_trans)
        qed
      qed
    qed
  qed
qed

lemma read_recent_thread_wrote: "read_recent_thread th h = Some (r, h') \<Longrightarrow> wrote th h h'"
proof -
  assume run: "read_recent_thread th h = Some (r, h')"
  let ?p = "codex_turn_page_params th" and ?id = "ch_next_id h"
  let ?w = "JObj [(''method'', JStr ''thread/turns/list''), (''id'', jnat ?id), (''params'', ?p)]"
  obtain x h1 where s: "host_send ?w (h\<lparr>ch_next_id := ?id + 1\<rparr>) = (x, h1)" by force
  have "bridge_write th ?w" by (simp add: bridge_write_def jindex_def jget_def codex_turn_page_params_def)
  from host_send_wrote [OF s this] have w: "wrote th h h1" by simp
  have req: "wrote th h h2" if "host_request ''thread/turns/list'' ?p h = Some (y, h2)" for y h2
    using that s w await_response_wrote [of ?id h1 y h2 th] by (cases x) (auto simp: host_request_def Let_def intro: wrote_trans)
  from run obtain y where "host_request ''thread/turns/list'' ?p h = Some (y, h')"
    by (auto simp: read_recent_thread_def split: option.splits prod.splits sum.splits if_splits)
  then show ?thesis by (rule req)
qed

lemma next_value_wrote: "next_value h = Some (r, h') \<Longrightarrow> wrote th h h'"
  by (auto simp: next_value_def read_value_def split: list.splits option.splits prod.splits)

lemma inject_next_wrote:
  assumes "inject_next E b = (r, b')"
  shows "wrote (be_thread E) (bg_host b) (bg_host b')"
proof (cases "idle b \<and> bg_queued b \<noteq> []")
  case True
  then obtain m queued where q: "bg_queued b = m # queued" by (cases "bg_queued b") auto
  obtain x c where p: "live_turn_prompt (be_lib E) (be_transport E) (be_home E) (be_room E) m (host_display Codex) (bg_conv b) = (x, c)" by force
  show ?thesis
  proof (cases x)
    case None with assms True q p show ?thesis by (auto simp: inject_next_def)
  next
    case (Some prompt)
    let ?rid = "ch_next_id (bg_host b)"
    obtain y h1 where s: "host_send (turn_start E ?rid prompt) ((bg_host b)\<lparr>ch_next_id := ?rid + 1\<rparr>) = (y, h1)" by force
    have "bridge_write (be_thread E) (turn_start E ?rid prompt)" by (simp add: bridge_write_def turn_start_def jindex_def jget_def)
    from host_send_wrote [OF s this] have "wrote (be_thread E) (bg_host b) h1" by simp
    moreover have "bg_host b' = h1"
      using assms True q p Some s by (auto simp: inject_next_def Let_def bg_by_host_def and_then_def split: sum.splits)
    ultimately show ?thesis by simp
  qed
next
  case False
  with assms show ?thesis by (auto simp: inject_next_def split: if_splits list.splits)
qed

lemma on_response_host: "on_response v b = (r, b') \<Longrightarrow> bg_host b' = bg_host b"
  by (auto simp: on_response_def Let_def split: option.splits if_splits)

lemma on_value_wrote:
  assumes "on_value E v b = (r, b')"
  shows "wrote th (bg_host b) (bg_host b')"
  using assms
proof (cases rule: on_value_cases)
  case (response h)
  then show ?thesis using handle_bridge_request_wrote on_response_host by fastforce
next
  case (finish h)
  then show ?thesis using handle_bridge_request_wrote finishes_turn_completed by (fastforce simp: finishes_def)
qed (auto dest: handle_bridge_request_wrote)

lemma bridge_step_wrote:
  assumes "bridge_step E ev b = Some (r, b')"
  shows "wrote (be_thread E) (bg_host b) (bg_host b')"
proof -
  have after: "wrote (be_thread E) (bg_host b) h" if "inject_next E b = (x, b1)" "wrote (be_thread E) (bg_host b1) h" for x b1 h
    using inject_next_wrote [OF that(1)] that(2) by (rule wrote_trans)
  from assms show ?thesis
  proof (cases rule: bridge_step_cases)
    case (head er) then show ?thesis using inject_next_wrote by blast
  next
    case (poll b1 x h)
    have "bg_host b' = h" using poll(3) finishes_poll by (fastforce simp: finishes_def split: sum.splits)
    with after [OF poll(1)] read_recent_thread_wrote [OF poll(2)] show ?thesis by simp
  next
    case (lost b1 er h) then show ?thesis using after next_value_wrote by simp
  next
    case (val b1 v h)
    have "wrote (be_thread E) (bg_host b1) (bg_host b')"
      using next_value_wrote [OF val(2)] on_value_wrote [OF val(3)] wrote_trans by fastforce
    then show ?thesis by (rule after [OF val(1)])
  qed (use after in auto)
qed

text \<open>C15: A session writes nothing that grants a peer anything. Everything the coordinator sends to the
  app-server is a \<open>turn/start\<close> or \<open>thread/turns/list\<close> for the session's own thread, an error, or an answer that declines,
  is empty or reports failure: no approval of a command, a patch, a permission or a tool call is ever given.\<close>

theorem codex_never_approves:
  assumes "coordinate_codex E evs b = Some (r, b')"
  shows "\<exists>ws. ch_sent (bg_host b') = ch_sent (bg_host b) @ ws \<and> list_all (bridge_write (be_thread E)) ws"
proof -
  have "wrote (be_thread E) (bg_host b) (bg_host b')"
    by (rule coordinate_keeps [OF assms]) (auto intro: wrote_trans bridge_step_wrote)
  then show ?thesis unfolding wrote_def .
qed

theorem codex_never_approves_witness:
  "\<exists>r b. demo_codex_session [Arrived (demo_signed ''al'' ''u1'' 1), ValueReady, ValueReady] = Some (r, b)
    \<and> length (ch_sent (bg_host b)) = 2 \<and> list_all (bridge_write ''th'') (ch_sent (bg_host b))"
proof -
  have "map_option (\<lambda>(r, b). length (ch_sent (bg_host b)) = 2)
      (demo_codex_session [Arrived (demo_signed ''al'' ''u1'' 1), ValueReady, ValueReady]) = Some True" by code_simp
  then obtain r b where b: "demo_codex_session [Arrived (demo_signed ''al'' ''u1'' 1), ValueReady, ValueReady] = Some (r, b)"
    "length (ch_sent (bg_host b)) = 2" by auto
  have "ch_sent (bg_host demo_bridge) = []" "be_thread demo_bridge_env = ''th''" by (simp_all add: demo_bridge_def bridge_new_def demo_codex_def demo_bridge_env_def)
  with codex_never_approves [OF b(1)] b show ?thesis by simp
qed

end
