(* ===== verification/Opencode_Laws.thy ===== *)
theory Opencode_Laws
  imports Opencode Codex_Laws
begin

text \<open>
  Correctness of the adapter for OpenCode: the incremental reader of the event stream yields the events of the
  whole stream however it is cut into pieces, and the coordinator has at most one peer turn under way and
  acknowledges a message at most once.
\<close>

section \<open>The event stream\<close>

text \<open>The delimiter a text starts with.\<close>

definition delim :: "string \<Rightarrow> nat option" where
  "delim s = (if strip_prefix crlf2 s \<noteq> None then Some 4 else if strip_prefix lf2 s \<noteq> None then Some 2 else None)"

lemma find_boundary_Cons: "find_boundary (c # cs) = (case delim (c # cs) of Some d \<Rightarrow> Some (0, d) | None \<Rightarrow> map_option (\<lambda>(i, n). (Suc i, n)) (find_boundary cs))"
  by (simp add: delim_def)

lemma delim_Nil [simp]: "delim [] = None"
  by (simp add: delim_def strip_prefix_def crlf2_def lf2_def)

lemma delim_take: "delim (take 4 s) = delim s"
proof -
  have "strip_prefix q (take 4 s) \<noteq> None \<longleftrightarrow> strip_prefix q s \<noteq> None" if "length q \<le> 4" for q
    using that by (simp add: strip_prefix_def min_absorb1)
  from this [of crlf2] this [of lf2] show ?thesis by (simp add: delim_def crlf2_def lf2_def)
qed

lemma find_boundary_None: "find_boundary s = None \<longleftrightarrow> (\<forall>i. delim (drop i s) = None)"
proof (induction s)
  case (Cons c cs)
  have "(\<forall>i. delim (drop i (c # cs)) = None) \<longleftrightarrow> delim (c # cs) = None \<and> (\<forall>i. delim (drop i cs) = None)"
    by (auto simp: drop_Cons split: nat.splits)
  with Cons show ?case by (simp add: find_boundary_Cons del: find_boundary.simps split: option.splits)
qed simp

lemma find_boundary_skip:
  "(\<And>i. i < k \<Longrightarrow> delim (drop i s) = None) \<Longrightarrow> k \<le> length s \<Longrightarrow> find_boundary s = map_option (\<lambda>(i, n). (k + i, n)) (find_boundary (drop k s))"
proof (induction k arbitrary: s)
  case (Suc k)
  from Suc.prems(2) obtain c cs where s: "s = c # cs" by (cases s) auto
  have "delim (drop i cs) = None" if "i < k" for i using Suc.prems(1) [of "Suc i"] that s by simp
  with Suc.IH [of cs] Suc.prems(2) s have "find_boundary cs = map_option (\<lambda>(i, n). (k + i, n)) (find_boundary (drop k cs))" by simp
  moreover have "delim (c # cs) = None" using Suc.prems(1) [of 0] s by simp
  ultimately show ?case unfolding s by (simp add: find_boundary_Cons option.map_comp comp_def case_prod_unfold del: find_boundary.simps)
qed (simp add: option.map_id)

text \<open>The reader has scanned a part of its buffer that holds no boundary.\<close>

definition scan_ok :: "sse_reader \<Rightarrow> bool" where
  "scan_ok r = (sr_scan_from r \<le> length (sr_buffer r) \<and> find_boundary (take (sr_scan_from r) (sr_buffer r)) = None)"

lemma scan_boundary_naive:
  assumes "scan_ok r"
  shows "scan_boundary (sr_buffer r) (sr_scan_from r - 3) = find_boundary (sr_buffer r)"
proof -
  let ?b = "sr_buffer r" and ?k = "sr_scan_from r"
  have "delim (drop i ?b) = None" if "i < ?k - 3" for i
  proof -
    have "take 4 (drop i (take ?k ?b)) = take 4 (drop i ?b)" using that by (simp add: drop_take min_absorb1)
    then have "delim (drop i ?b) = delim (drop i (take ?k ?b))" by (metis delim_take)
    then show ?thesis using assms by (simp add: scan_ok_def find_boundary_None)
  qed
  moreover have "?k - 3 \<le> length ?b" using assms unfolding scan_ok_def by linarith
  ultimately show ?thesis using find_boundary_skip [of "?k - 3" ?b] by (simp add: scan_boundary_def)
qed

text \<open>A boundary that has been found stays the first one, whatever follows.\<close>

lemma delim_later:
  assumes "delim (c # cs) = None" "delim (c # cs @ t) \<noteq> None"
  shows "find_boundary cs = None"
proof -
  have "length cs < 3"
  proof (rule ccontr)
    assume "\<not> length cs < 3"
    then have "take 4 (c # cs @ t) = take 4 (c # cs)" by (simp add: numeral_eq_Suc)
    with assms show False by (metis delim_take)
  qed
  then consider "cs = []" | a where "cs = [a]" | a b where "cs = [a, b]"
    by (cases cs; cases "tl cs"; cases "tl (tl cs)") auto
  then show ?thesis using assms
    by cases (auto simp: delim_def strip_prefix_def crlf2_def lf2_def split: if_splits)
qed

lemma find_boundary_append: "find_boundary s = Some (n, d) \<Longrightarrow> find_boundary (s @ t) = Some (n, d)"
proof (induction s arbitrary: n)
  case (Cons c cs)
  show ?case
  proof (cases "delim (c # cs)")
    case (Some d')
    have keep: "strip_prefix q l \<noteq> None \<Longrightarrow> strip_prefix q (l @ t) \<noteq> None" for q l
      by (auto dest!: strip_prefix_Some)
    have "strip_prefix crlf2 (c # cs @ t) = None" if "strip_prefix lf2 (c # cs) \<noteq> None"
      using that by (auto simp: strip_prefix_def crlf2_def lf2_def split: if_splits)
    with Some keep [of crlf2 "c # cs"] keep [of lf2 "c # cs"] have "delim (c # cs @ t) = Some d'"
      by (auto simp: delim_def split: if_splits)
    with Cons.prems Some show ?thesis by (simp add: find_boundary_Cons del: find_boundary.simps)
  next
    case None
    with Cons.prems obtain m where m: "find_boundary cs = Some (m, d)" "n = Suc m"
      by (auto simp: find_boundary_Cons simp del: find_boundary.simps)
    then have "delim (c # cs @ t) = None" using delim_later [OF None, of t] by (metis option.distinct(1))
    with Cons.IH [OF m(1)] m(2) show ?thesis by (simp add: find_boundary_Cons del: find_boundary.simps)
  qed
qed simp

section \<open>The frames of a stream\<close>

function frames_of :: "string \<Rightarrow> string list" where
  "frames_of s = (case find_boundary s of None \<Rightarrow> [] | Some (n, d) \<Rightarrow> take n s # frames_of (drop (n + d) s))"
  by pat_completeness auto
termination
  by (relation "measure length") (auto dest!: find_boundary_inside)

declare frames_of.simps [simp del]

text \<open>The events of a list of frames, up to the first that cannot be read.\<close>

fun frame_events :: "opencode_lib \<Rightarrow> string list \<Rightarrow> (client_error + json) list" where
  "frame_events P [] = []"
| "frame_events P (f # fs) =
     (case sse_value P f of
        Inl er \<Rightarrow> [Inl er]
      | Inr v \<Rightarrow> if v = JNull then frame_events P fs else Inr v # frame_events P fs)"

lemma next_event_progress:
  "next_event P fs r = Some (x, fs', r') \<Longrightarrow> length fs' < length fs \<or> length fs' = length fs \<and> length (sr_buffer r') < length (sr_buffer r)"
proof (induction P fs r rule: next_event.induct)
  case (1 P fs r)
  note run = "1.prems" [unfolded next_event.simps [of P fs r]]
  show ?case
  proof (cases "take_sse_frame r")
    case (Pair fo r1)
    show ?thesis
    proof (cases fo)
      case (Some frame)
      have "length (sr_buffer r1) < length (sr_buffer r)" using take_sse_frame_shorter Pair Some by blast
      with run Pair Some "1.IH"(3) [OF Pair [symmetric] Some] show ?thesis by (fastforce split: sum.splits if_splits)
    next
      case None
      show ?thesis
      proof (cases fs)
        case (Cons f fs1)
        have "length fs' \<le> length fs1"
        proof (cases f)
          case (SData d)
          show ?thesis
          proof (cases "EVENT_BUFFER_LIMIT < length (sr_buffer r1) + length d")
            case True with run Pair None Cons SData show ?thesis by simp
          next
            case False
            with run Pair None Cons SData have "next_event P fs1 (r1\<lparr>sr_buffer := sr_buffer r1 @ d\<rparr>) = Some (x, fs', r')" by simp
            from "1.IH"(1) [OF Pair [symmetric] None Cons SData False this] show ?thesis by linarith
          qed
        next
          case STrailers
          with run Pair None Cons have "next_event P fs1 r1 = Some (x, fs', r')" by simp
          from "1.IH"(2) [OF Pair [symmetric] None Cons STrailers this] show ?thesis by linarith
        qed (use run Pair None Cons in auto)
        then show ?thesis using Cons by simp
      qed (use run Pair None in simp)
    qed
  qed
qed

function read_stream :: "opencode_lib \<Rightarrow> stream_frame list \<Rightarrow> sse_reader \<Rightarrow> (client_error + json) list" where
  "read_stream P fs r =
     (case next_event P fs r of
        None \<Rightarrow> []
      | Some (Inl er, fs', r') \<Rightarrow> [Inl er]
      | Some (Inr v, fs', r') \<Rightarrow> Inr v # read_stream P fs' r')"
  by pat_completeness auto
termination
  by (relation "inv_image (less_than <*lex*> less_than) (\<lambda>(P, fs, r). (length fs, length (sr_buffer r)))")
     (auto dest: next_event_progress)

declare read_stream.simps [simp del]

text \<open>One frame or one piece of data at a time.\<close>

lemma read_stream_unfold:
  "read_stream P fs r =
     (case take_sse_frame r of
        (Some frame, r1) \<Rightarrow>
          (case sse_value P frame of Inl er \<Rightarrow> [Inl er] | Inr v \<Rightarrow> if v \<noteq> JNull then Inr v # read_stream P fs r1 else read_stream P fs r1)
      | (None, r1) \<Rightarrow>
          (case fs of
             [] \<Rightarrow> []
           | SClosed # fs' \<Rightarrow> [Inl (Plain ''OpenCode local event stream closed'')]
           | SFailed # fs' \<Rightarrow> [Inl (Plain ''OpenCode local event stream failed'')]
           | STrailers # fs' \<Rightarrow> read_stream P fs' r1
           | SData d # fs' \<Rightarrow>
               if EVENT_BUFFER_LIMIT < length (sr_buffer r1) + length d
               then [Inl (Plain ''OpenCode local event exceeded the 8 MiB stream buffer limit'')]
               else read_stream P fs' (r1\<lparr>sr_buffer := sr_buffer r1 @ d\<rparr>)))"
proof (cases "take_sse_frame r")
  case (Pair fo r1)
  note unfold = read_stream.simps [of P fs r] next_event.simps [of P fs r] Pair
  show ?thesis
  proof (cases fo)
    case (Some frame)
    then show ?thesis by (cases "sse_value P frame") (simp_all add: unfold read_stream.simps [of P fs r1])
  next
    case None
    show ?thesis
    proof (cases fs)
      case Nil then show ?thesis using None unfold by simp
    next
      case (Cons f fs1)
      show ?thesis
      proof (cases f)
        case (SData d)
        then show ?thesis using None Cons unfold read_stream.simps [of P fs1 "r1\<lparr>sr_buffer := sr_buffer r1 @ d\<rparr>"] by simp
      next
        case STrailers
        then show ?thesis using None Cons unfold read_stream.simps [of P fs1 r1] by simp
      qed (use None Cons unfold in simp_all)
    qed
  qed
qed

lemma take_sse_frame_scan:
  assumes "scan_ok r" "take_sse_frame r = (fo, r1)"
  shows "scan_ok r1" "case fo of
      Some frame \<Rightarrow> (\<exists>n d. find_boundary (sr_buffer r) = Some (n, d) \<and> frame = take n (sr_buffer r) \<and> sr_buffer r1 = drop (n + d) (sr_buffer r))
    | None \<Rightarrow> find_boundary (sr_buffer r) = None \<and> sr_buffer r1 = sr_buffer r \<and> sr_scan_from r1 = length (sr_buffer r)"
  using assms by (auto simp: take_sse_frame_def scan_boundary_naive scan_ok_def split: option.splits prod.splits)

lemma scan_ok_append: "scan_ok r \<Longrightarrow> scan_ok (r\<lparr>sr_buffer := sr_buffer r @ d\<rparr>)"
  by (auto simp: scan_ok_def)

lemma read_stream_frames:
  assumes "scan_ok r" "length (sr_buffer r @ concat ds) \<le> EVENT_BUFFER_LIMIT"
  shows "read_stream P (map SData ds) r = frame_events P (frames_of (sr_buffer r @ concat ds))"
  using assms
proof (induction "length ds + length (sr_buffer r @ concat ds) + length ds" arbitrary: ds r rule: less_induct)
  case less
  obtain fo r1 where t: "take_sse_frame r = (fo, r1)" by force
  note sc = take_sse_frame_scan [OF less.prems(1) t]
  let ?S = "sr_buffer r @ concat ds"
  show ?case
  proof (cases fo)
    case (Some frame)
    with sc obtain n d where f: "find_boundary (sr_buffer r) = Some (n, d)" "frame = take n (sr_buffer r)" "sr_buffer r1 = drop (n + d) (sr_buffer r)"
      by auto
    note le = find_boundary_inside [OF f(1)]
    have S: "frames_of ?S = frame # frames_of (sr_buffer r1 @ concat ds)"
      using find_boundary_append [OF f(1), of "concat ds"] f le by (subst frames_of.simps) simp
    have "read_stream P (map SData ds) r1 = frame_events P (frames_of (sr_buffer r1 @ concat ds))"
      by (rule less.hyps [OF _ sc(1)]) (use f le less.prems(2) in auto)
    then show ?thesis using Some t S by (subst read_stream_unfold) (simp split: sum.splits)
  next
    case None
    with sc have r1: "find_boundary (sr_buffer r) = None" "sr_buffer r1 = sr_buffer r" by auto
    show ?thesis
    proof (cases ds)
      case Nil
      then show ?thesis using None t r1 by (subst read_stream_unfold, subst frames_of.simps) simp
    next
      case (Cons d ds1)
      let ?r2 = "r1\<lparr>sr_buffer := sr_buffer r1 @ d\<rparr>"
      have "read_stream P (map SData ds1) ?r2 = frame_events P (frames_of (sr_buffer ?r2 @ concat ds1))"
        by (rule less.hyps [OF _ scan_ok_append [OF sc(1)]]) (use Cons r1 less.prems(2) in auto)
      then show ?thesis using Cons None t r1 less.prems(2) by (subst read_stream_unfold) simp
    qed
  qed
qed

text \<open>C18: The incremental reader of the event stream agrees with reading the whole stream at once: however the
  bytes are cut into pieces, within the limit of the buffer the events that are returned are those of the frames
  between the blank lines of the whole stream, up to the first that cannot be read.\<close>

theorem sse_pieces_invisible:
  assumes "length (concat pieces) \<le> EVENT_BUFFER_LIMIT"
  shows "read_stream P (map SData pieces) \<lparr>sr_buffer = [], sr_scan_from = 0\<rparr> = frame_events P (frames_of (concat pieces))"
  using read_stream_frames [of "\<lparr>sr_buffer = [], sr_scan_from = 0\<rparr>" pieces P] assms by (simp add: scan_ok_def)

abbreviation demo_pieces :: "string list" where
  "demo_pieces \<equiv> [''data: 7'' @ [CHR 13, CHR 10, CHR 13], [CHR 10] @ '': ping'' @ [CHR 10], [CHR 10] @ ''da'', ''ta:8'' @ [CHR 10, CHR 10] @ ''data'']"

definition demo_opencode_lib :: opencode_lib where
  "demo_opencode_lib = \<lparr>ol_utf8 = (\<lambda>s. True), ol_parse = (\<lambda>s. Some (JStr s))\<rparr>"

theorem sse_pieces_invisible_witness:
  "read_stream demo_opencode_lib (map SData demo_pieces) \<lparr>sr_buffer = [], sr_scan_from = 0\<rparr> = [Inr (JStr ''7''), Inr (JStr ''8'')]"
proof -
  have "length (concat demo_pieces) \<le> EVENT_BUFFER_LIMIT" by (simp add: EVENT_BUFFER_LIMIT_def)
  moreover have "frame_events demo_opencode_lib (frames_of (concat demo_pieces)) = [Inr (JStr ''7''), Inr (JStr ''8'')]" by code_simp
  ultimately show ?thesis using sse_pieces_invisible by metis
qed

section \<open>The coordinator\<close>

lemma api_request_pending: "api_request P v path body ex h = (r, h') \<Longrightarrow> oh_pending h' = oh_pending h"
  by (auto simp: api_request_def Let_def split: list.splits http_reply.splits if_splits option.splits)

lemma api_is_busy_pending: "api_is_busy P h = (r, h') \<Longrightarrow> oh_pending h' = oh_pending h"
  unfolding api_is_busy_def by (elim and_then_cases) (auto dest: api_request_pending)

lemma completed_pending: "completed_outcomes P h = (r, h') \<Longrightarrow> oh_pending h' = oh_pending h"
  unfolding completed_outcomes_def api_messages_def
  by (elim and_then_cases) (auto dest!: api_request_pending split: prod.splits elim!: and_then_cases)

lemma start_turn_pending:
  assumes "start_turn P m prompt h = (r, h')"
  shows "case r of Inl er \<Rightarrow> oh_pending h' = oh_pending h | Inr _ \<Rightarrow> \<exists>mid. oh_pending h' = map_put mid m (oh_pending h)"
proof -
  obtain mid h1 where i: "message_id h = (mid, h1)" by force
  then have h1: "oh_pending h1 = oh_pending h" by (auto simp: message_id_def)
  obtain x h2 where s: "api_send_message P mid prompt False h1 = (x, h2)" by force
  then have h2: "oh_pending h2 = oh_pending h1"
    unfolding api_send_message_def by (elim and_then_cases) (auto dest: api_request_pending)
  show ?thesis using assms i s h1 h2 by (cases x) (auto simp: start_turn_def)
qed

text \<open>The peer messages taken in, and how many of them are turns of the session.\<close>

definition oc_held :: "'w opencode \<Rightarrow> stored_message multiset" where
  "oc_held b = mset (oc_acked b) + mset (oc_queued b) + mset (map snd (oh_pending (oc_host b)))"

definition oc_fits :: "'w opencode \<Rightarrow> 'w opencode \<Rightarrow> bool" where
  "oc_fits b b' = (oc_held b' \<subseteq># oc_held b \<and> (length (oh_pending (oc_host b)) \<le> 1 \<longrightarrow> length (oh_pending (oc_host b')) \<le> 1))"

lemma oc_fits_trans: "oc_fits a b \<Longrightarrow> oc_fits b c \<Longrightarrow> oc_fits a c"
  by (auto simp: oc_fits_def intro: subset_mset.trans)

lemma oc_fits_same:
  "oh_pending (oc_host b') = oh_pending (oc_host b) \<Longrightarrow> oc_acked b' = oc_acked b \<Longrightarrow> oc_queued b' = oc_queued b \<Longrightarrow> oc_fits b b'"
  by (simp add: oc_fits_def oc_held_def)

lemma oc_fits_host:
  assumes "oc_by_host op b = (r, b')" "\<And>x h'. op (oc_host b) = (x, h') \<Longrightarrow> oh_pending h' = oh_pending (oc_host b)"
  shows "oc_fits b b'"
  using assms by (auto simp: oc_by_host_def split: prod.splits intro!: oc_fits_same)

lemma oc_busy_fits: "oc_by_host (api_is_busy P) b = (r, b') \<Longrightarrow> oc_fits b b'"
  by (erule oc_fits_host) (erule api_is_busy_pending)

lemma oc_set_presence_fits: "oc_fits b (oc_set_presence E b)"
  by (rule oc_fits_same) (simp_all add: oc_set_presence_def oc_show_presence_def Let_def)

lemma oc_publish_shape:
  assumes "oc_publish E cap b = (r, b')"
  shows "oc_host b' = oc_host b" "oc_queued b' = oc_queued b"
    "oc_acked b' = oc_acked b @ (if r = Inr () then case tc_incoming cap of Some m \<Rightarrow> [m] | None \<Rightarrow> [] else [])"
proof -
  let ?d = "case oc_draws b of [] \<Rightarrow> \<lparr>sd_ts = 0, sd_uid = [], sd_client_id = []\<rparr> | d # ds \<Rightarrow> d"
  obtain x a where p: "publish_turn (be_lib E) (be_sign E) (be_parse E) (be_transport E) ?d (be_room E) cap (cv_agent (oc_conv b)) = (x, a)" by force
  have "oc_host b' = oc_host b \<and> oc_queued b' = oc_queued b
    \<and> oc_acked b' = oc_acked b @ (if r = Inr () then case tc_incoming cap of Some m \<Rightarrow> [m] | None \<Rightarrow> [] else [])"
  proof (cases x)
    case (Inl er)
    with assms p show ?thesis by (auto simp: oc_publish_def cv_by_agent_def Let_def)
  next
    case (Inr acked)
    with p publish_turn_acks have "acked = tc_incoming cap" by blast
    with assms p Inr show ?thesis by (auto simp: oc_publish_def cv_by_agent_def Let_def)
  qed
  then show "oc_host b' = oc_host b" "oc_queued b' = oc_queued b"
    "oc_acked b' = oc_acked b @ (if r = Inr () then case tc_incoming cap of Some m \<Rightarrow> [m] | None \<Rightarrow> [] else [])" by blast+
qed

lemma oc_outcome_fits:
  assumes "oc_outcome E out b = (r, b')"
  shows "oc_fits b b'"
proof (cases "map_of (oh_pending (oc_host b)) (oo_parent_id out)")
  case None
  with assms show ?thesis
    by (auto simp: oc_outcome_def oc_publish_shape split: if_splits intro!: oc_fits_same)
next
  case (Some m)
  let ?k = "oo_parent_id out" and ?p = "oh_pending (oc_host b)"
  let ?b1 = "b\<lparr>oc_host := (oc_host b)\<lparr>oh_pending := map_del ?k ?p\<rparr>\<rparr>"
  have shorter: "length (map_del ?k ?p) < length ?p" by (rule map_del_shorter [OF Some])
  have held: "add_mset m (mset (map snd (map_del ?k ?p))) \<subseteq># mset (map snd ?p)" by (rule held_pending [OF Some])
  have "(oc_acked b' = oc_acked b \<or> oc_acked b' = oc_acked b @ [m]) \<and> oc_queued b' = oc_queued b \<and> oc_host b' = oc_host ?b1"
  proof (cases "oo_error out")
    case None
    with assms Some have p: "oc_publish E \<lparr>tc_incoming = Some m, tc_text = oo_answer out\<rparr> ?b1 = (r, b')" by (simp add: oc_outcome_def Let_def)
    from oc_publish_shape [OF p] show ?thesis by simp
  next
    case (Some er)
    with assms \<open>map_of _ _ = Some m\<close> have "b' = ?b1" by (simp add: oc_outcome_def Let_def)
    then show ?thesis by simp
  qed
  moreover from held have "mset (oc_acked b @ [m]) + mset (oc_queued b) + mset (map snd (map_del ?k ?p)) \<subseteq># oc_held b"
    "mset (oc_acked b) + mset (oc_queued b) + mset (map snd (map_del ?k ?p)) \<subseteq># oc_held b"
    unfolding oc_held_def by (auto simp: add.assoc subset_mset.add_left_mono dest: mset_subset_eq_insertD intro: subset_mset.less_imp_le)
  ultimately show ?thesis using shorter by (auto simp: oc_fits_def oc_held_def)
qed

lemma oc_outcomes_fits: "oc_outcomes E outs b = (r, b') \<Longrightarrow> oc_fits b b'"
proof (induction outs arbitrary: b)
  case (Cons out outs)
  then show ?case by (auto elim!: and_then_cases dest: oc_outcome_fits intro: oc_fits_trans)
qed (simp add: oc_fits_def)

lemma oc_event_fits:
  assumes "oc_event P E ev b = (r, b')"
  shows "oc_fits b b'"
proof (cases "session_busy_event ev (oh_session (oc_host b)) = Some False")
  case True
  let ?b0 = "b\<lparr>oc_busy := False\<rparr>"
  obtain x b1 where c: "oc_by_host (completed_outcomes P) ?b0 = (x, b1)" by force
  have "oc_fits ?b0 b1" by (rule oc_fits_host [OF c]) (erule completed_pending)
  moreover have "oc_fits b ?b0" by (rule oc_fits_same) simp_all
  ultimately have f1: "oc_fits b b1" using oc_fits_trans by blast
  show ?thesis
  proof (cases x)
    case (Inl er)
    with assms True c f1 show ?thesis by (simp add: oc_event_def and_then_def)
  next
    case (Inr outs)
    obtain y b2 where o: "oc_outcomes E outs b1 = (y, b2)" by force
    have f2: "oc_fits b b2" using oc_fits_trans [OF f1 oc_outcomes_fits [OF o]] .
    obtain z b3 where i: "oc_by_host (api_is_busy P) b2 = (z, b3)" by force
    have f3: "oc_fits b b3" using oc_fits_trans [OF f2 oc_busy_fits [OF i]] .
    have f4: "oc_fits b (oc_set_presence E (b3\<lparr>oc_busy := q\<rparr>))" for q
      using oc_fits_trans [OF f3 oc_fits_trans [OF oc_fits_same oc_set_presence_fits]] by simp
    from assms True c Inr o i have "b' = b2 \<or> b' = b3 \<or> (\<exists>q. b' = oc_set_presence E (b3\<lparr>oc_busy := q\<rparr>))"
      by (auto simp: oc_event_def and_then_def split: sum.splits)
    with f2 f3 f4 show ?thesis by auto
  qed
next
  case False
  have "oc_fits b (oc_set_presence E (b\<lparr>oc_busy := True\<rparr>))"
    by (rule oc_fits_trans [OF oc_fits_same oc_set_presence_fits]) simp_all
  moreover from assms False have "b' = b \<or> b' = oc_set_presence E (b\<lparr>oc_busy := True\<rparr>)"
    by (auto simp: oc_event_def split: option.splits bool.splits)
  ultimately show ?thesis using oc_fits_same [of b b] by auto
qed

lemma oc_inject_fits:
  assumes "oc_inject P E b = (r, b')"
  shows "oc_fits b b'"
proof (cases "oc_queued b = [] \<or> oc_busy b \<or> oh_pending (oc_host b) \<noteq> []")
  case True
  with assms have "b' = b" by (auto simp: oc_inject_def split: list.splits)
  then show ?thesis by (simp add: oc_fits_same)
next
  case False
  then obtain m queued where q: "oc_queued b = m # queued" and idle: "\<not> oc_busy b" "oh_pending (oc_host b) = []" by (cases "oc_queued b") auto
  obtain x b1 where i: "oc_by_host (api_is_busy P) b = (x, b1)" by force
  have h1: "oh_pending (oc_host b1) = []" "oc_acked b1 = oc_acked b" "oc_queued b1 = oc_queued b"
    using i idle by (auto simp: oc_by_host_def split: prod.splits dest: api_is_busy_pending)
  obtain y c where l: "live_turn_prompt (be_lib E) (be_transport E) (be_home E) (be_room E) m (host_display Opencode) (oc_conv b1) = (y, c)" by force
  show ?thesis
  proof (cases "x = Inr False \<and> (\<exists>prompt. y = Some prompt)")
    case True
    then obtain prompt where y: "y = Some prompt" by blast
    let ?b2 = "b1\<lparr>oc_busy := False, oc_conv := c, oc_queued := queued\<rparr>"
    obtain z h where s: "start_turn P m prompt (oc_host b1) = (z, h)" by force
    note pe = start_turn_pending [OF s]
    have "oc_host b' = h" "oc_acked b' = oc_acked b" "oc_queued b' = queued"
      using assms q idle i True y l s h1 by (auto simp: oc_inject_def and_then_def oc_by_host_def [of "start_turn P m prompt"] split: sum.splits)
    then show ?thesis using pe h1(1) q idle by (cases z) (auto simp: oc_fits_def oc_held_def)
  next
    case no: False
    from assms q idle i l no have "b' = b1 \<or> b' = b1\<lparr>oc_busy := True\<rparr> \<or> b' = b1\<lparr>oc_conv := c, oc_queued := queued\<rparr>"
      by (auto simp: oc_inject_def and_then_def split: sum.splits option.splits if_splits)
    then show ?thesis using h1 q idle by (auto simp: oc_fits_def oc_held_def)
  qed
qed

definition oc_arrivals :: "opencode_step list \<Rightarrow> stored_message list" where
  "oc_arrivals evs = filter_map (\<lambda>ev. case ev of OArrived m \<Rightarrow> Some m | _ \<Rightarrow> None) evs"

definition oc_sound :: "'w opencode \<Rightarrow> stored_message list \<Rightarrow> bool" where
  "oc_sound b ms = (oc_held b \<subseteq># mset ms \<and> length (oh_pending (oc_host b)) \<le> 1)"

lemma oc_sound_fits: "oc_sound b ms \<Longrightarrow> oc_fits b b' \<Longrightarrow> oc_sound b' ms"
  by (auto simp: oc_sound_def oc_fits_def intro: subset_mset.trans)

lemma oc_sound_more: "oc_sound b ms \<Longrightarrow> oc_sound b (ms @ ns)"
  by (auto simp: oc_sound_def subset_mset.add_increasing2)

lemma oc_step_sound:
  assumes "oc_step P E ev b = Some (r, b')" "oc_sound b ms"
  shows "oc_sound b' (ms @ oc_arrivals [ev])"
proof -
  obtain x b1 where i: "oc_inject P E b = (x, b1)" by force
  have s1: "oc_sound b1 ms" using oc_sound_fits [OF assms(2) oc_inject_fits [OF i]] .
  have more: "oc_sound b' (ms @ oc_arrivals [ev])" if "oc_fits b1 b'" using oc_sound_more [OF oc_sound_fits [OF s1 that]] .
  show ?thesis
  proof (cases x)
    case (Inl er) with assms(1) i more show ?thesis by (simp add: oc_step_def oc_fits_same)
  next
    case (Inr u)
    show ?thesis
    proof (cases ev)
      case (OArrived m)
      with assms(1) i Inr have "b' = b1\<lparr>oc_queued := oc_queued b1 @ [m]\<rparr>" by (simp add: oc_step_def)
      then have "oc_held b' = add_mset m (oc_held b1)" "oc_host b' = oc_host b1" by (simp_all add: oc_held_def)
      with s1 OArrived show ?thesis by (simp add: oc_sound_def oc_arrivals_def)
    next
      case OHeartbeatDue
      with assms(1) i Inr have b': "b' = oc_show_presence E b1" by (simp add: oc_step_def)
      have "oc_fits b1 b'" unfolding b' by (rule oc_fits_same) (simp_all add: oc_show_presence_def)
      then show ?thesis by (rule more)
    next
      case OEventReady
      from assms(1) i Inr OEventReady obtain y fs rd where n: "next_event P (oh_stream (oc_host b1)) (oh_reader (oc_host b1)) = Some (y, fs, rd)"
        by (auto simp: oc_step_def split: option.splits)
      let ?b2 = "b1\<lparr>oc_host := (oc_host b1)\<lparr>oh_stream := fs, oh_reader := rd\<rparr>\<rparr>"
      have f2: "oc_fits b1 ?b2" by (rule oc_fits_same) simp_all
      from assms(1) i Inr OEventReady n have "b' = ?b2 \<or> (\<exists>v. oc_event P E v ?b2 = (r, b'))"
        by (auto simp: oc_step_def Let_def split: sum.splits)
      then have "oc_fits b1 b'" using f2 oc_event_fits oc_fits_trans by blast
      then show ?thesis by (rule more)
    qed (use assms(1) i Inr more in \<open>auto simp: oc_step_def oc_fits_same split: if_splits\<close>)
  qed
qed

lemma oc_steps_sound:
  "oc_steps P E evs b = Some (r, b') \<Longrightarrow> oc_sound b ms \<Longrightarrow> oc_sound b' (ms @ oc_arrivals evs)"
proof (induction evs arbitrary: b ms)
  case (Cons ev evs)
  from Cons.prems(1) obtain r1 b1 where s: "oc_step P E ev b = Some (r1, b1)" by (auto split: option.splits)
  note s1 = oc_step_sound [OF s Cons.prems(2)]
  have e: "oc_arrivals (ev # evs) = oc_arrivals [ev] @ oc_arrivals evs"
    unfolding oc_arrivals_def by (simp split: opencode_step.splits)
  show ?case
  proof (cases "r1 = Inr False")
    case True
    with Cons.prems(1) s have "oc_steps P E evs b1 = Some (r, b')" by simp
    from Cons.IH [OF this s1] show ?thesis unfolding e by simp
  next
    case False
    with Cons.prems(1) s have "b' = b1" by (auto split: sum.splits bool.splits)
    with oc_sound_more [OF s1] show ?thesis unfolding e by simp
  qed
qed (simp add: oc_arrivals_def)

text \<open>C19: The coordinator of an OpenCode session. Over a session that begins with nothing pending at most one
  peer message is a turn of the session at a time, and the messages acknowledged, together with those queued or
  running, are among those that arrived: none is acknowledged more often than it arrived.\<close>

theorem opencode_acks_once:
  assumes "oc_coordinate P E evs draws h c = Some (r, b)" "oh_pending h = []"
  shows "length (oh_pending (oc_host b)) \<le> 1 \<and>
    mset (oc_acked b) + mset (oc_queued b) + mset (map snd (oh_pending (oc_host b)))
      \<subseteq># mset (filter_map (\<lambda>ev. case ev of OArrived m \<Rightarrow> Some m | _ \<Rightarrow> None) evs)"
proof -
  let ?b = "\<lparr>oc_conv = c, oc_host = h, oc_queued = [], oc_busy = False, oc_presence = ''waiting'', oc_draws = draws, oc_acked = []\<rparr>"
  obtain x b1 where i: "oc_by_host (api_is_busy P) ?b = (x, b1)" by force
  have "oc_sound ?b []" using assms(2) by (simp add: oc_sound_def oc_held_def)
  then have s1: "oc_sound b1 []" using oc_sound_fits [OF _ oc_busy_fits [OF i]] by blast
  have "oc_sound b (oc_arrivals evs)"
  proof (cases x)
    case (Inl er)
    with assms(1) i have "b = b1" by (simp add: oc_coordinate_def)
    with oc_sound_more [OF s1, of "oc_arrivals evs"] show ?thesis by simp
  next
    case (Inr busy)
    let ?b2 = "b1\<lparr>oc_busy := busy, oc_presence := (if busy then ''working'' else ''waiting'')\<rparr>"
    from assms(1) i Inr have "oc_steps P E evs ?b2 = Some (r, b)" by (simp add: oc_coordinate_def)
    moreover have "oc_sound ?b2 []" using s1 by (simp add: oc_sound_def oc_held_def)
    ultimately show ?thesis using oc_steps_sound by fastforce
  qed
  then show ?thesis by (simp add: oc_sound_def oc_held_def oc_arrivals_def)
qed

text \<open>A session: a message arrives, becomes a turn, and the idle event publishes its answer.\<close>

definition demo_answers :: "string \<Rightarrow> json option" where
  "demo_answers s =
     (if s = ''i'' then Some (JObj [])
      else if s = ''e'' then Some (JObj [(''type'', JStr ''session.status''),
             (''properties'', JObj [(''sessionID'', JStr ''ses_1''), (''status'', JObj [(''type'', JStr ''idle'')])])])
      else if s = ''m'' then Some (JArr [JObj [(''info'', JObj [(''role'', JStr ''assistant''), (''id'', JStr ''a1''), (''parentID'', JStr ''msg_parler_5_1''),
             (''time'', JObj [(''completed'', JInt 1)])]), (''parts'', JArr [JObj [(''type'', JStr ''text''), (''text'', JStr ''done'')]])]])
      else None)"

definition demo_server :: opencode_host where
  "demo_server = \<lparr>oh_session = ''ses_1'', oh_replies = [HReply 200 ''i'', HReply 200 ''i'', HReply 204 [], HReply 200 ''m'', HReply 200 ''i''], oh_sent = [],
     oh_stream = [SData (''data:e'' @ [CHR 10]), SData [CHR 10]], oh_reader = \<lparr>sr_buffer = [], sr_scan_from = 0\<rparr>, oh_known = recent_new 8,
     oh_pending = [], oh_pid = 5, oh_next = 1\<rparr>"

abbreviation demo_attached :: "(unit, bool) oc_result option" where
  "demo_attached \<equiv> oc_coordinate \<lparr>ol_utf8 = (\<lambda>s. True), ol_parse = demo_answers\<rparr> demo_bridge_env [OArrived (demo_signed ''al'' ''u1'' 1), OEventReady] []
     demo_server demo_conversation"

theorem opencode_acks_once_witness:
  "\<exists>r b. demo_attached = Some (r, b) \<and> oc_acked b = [demo_signed ''al'' ''u1'' 1] \<and> oc_queued b = [] \<and> oh_pending (oc_host b) = []"
proof -
  have "map_option (\<lambda>(r, b). oc_acked b = [demo_signed ''al'' ''u1'' 1]) demo_attached = Some True" by code_simp
  then obtain r b where b: "demo_attached = Some (r, b)" "oc_acked b = [demo_signed ''al'' ''u1'' 1]" by auto
  have "oh_pending demo_server = []" by (simp add: demo_server_def)
  from opencode_acks_once [OF b(1) this] b show ?thesis by auto
qed

end
