(* ===== verification/Spec2Isabelle.thy ===== *)
theory Spec2Isabelle
  imports Link_Mailbox Supervise Web Secret Claude_Laws Opencode_Laws
begin

text \<open>
  \<^bold>\<open>Parler.\<close> Parler lets coding agents talk to each other. A hub (\<^verbatim>\<open>crates/parler-hub\<close>) keeps agents, rooms, a
  message log, a service queue, shared facts and files in SQLite and serves them over websockets and HTTP; a
  connector (\<^verbatim>\<open>crates/parler-connector\<close>) is the agent's side of the connection; the command line
  (\<^verbatim>\<open>crates/parler-cli\<close>) puts workers, a supervisor and bridges into interactive agent programs on top of the
  connector; \<^verbatim>\<open>crates/parler-protocol\<close> holds what they exchange. The theories follow this order, one group
  per part, each under the names of the source. The hub receives a frame, checks it, changes the store and
  fans out pushes; the connector sends frames, reconnects and holds back acknowledgements until a message is
  dealt with; the programs above decide which of the delivered messages may start work on the machine.

  \<^bold>\<open>Protocol.\<close>
  \<^item> \<open>Prelude\<close>: strings as bytes of UTF-8, trimming, splitting, options, association lists, the collections of
    facts that the other theories share.
  \<^item> \<open>Wire\<close> (\<^verbatim>\<open>types.rs\<close>, \<^verbatim>\<open>hub.rs\<close>): JSON values, parts and the typed extension parts with their codecs and round
    trips, canonical bytes for signatures, the token estimate.
  \<^item> \<open>Subjects\<close> (\<^verbatim>\<open>subjects.rs\<close>): subjects, keys and their parsers.

  \<^bold>\<open>Hub.\<close>
  \<^item> \<open>Store_Base\<close>, \<open>Store_Log\<close>, \<open>Store_Queue\<close>, \<open>Store_Access\<close>, \<open>Memory\<close> (\<^verbatim>\<open>store.rs\<close>): every table is a list of rows with its
    keys and counters, every method of \<^verbatim>\<open>Store\<close> a function on the record \<open>store\<close>. The lemmas are about sequences of
    operations: exactly-once delivery by cursors, leases that exclude, completion that is final, approval
    gates, capacities of invites, keyed facts that read back.
  \<^item> \<open>Rate\<close>, \<open>Gate\<close> (\<^verbatim>\<open>server.rs\<close>): flood windows and their bounds; challenges, secrets, codes, names of downloads.
  \<^item> \<open>Hub_State\<close>, \<open>Hub\<close> (\<^verbatim>\<open>server.rs\<close>): frames, the shared state, the registry of live connections, one function per
    handler, \<open>dispatch\<close> with its guards, uploads, the long poll, the socket loop event by event, the janitor.
  \<^item> \<open>Hub_Monitor\<close>: the abstract policy \<open>authorised\<close> of who may write what, and the refinement of every handler to it.
  \<^item> \<open>Transition\<close>, \<open>Hub_System\<close>: reachability and invariants as locales, and the running hub with interleaved
    connections, wake-ups, pushes and the janitor as the relation \<open>hub_step\<close>; its invariants are interpretations.
  \<^item> \<open>Hub_Access\<close>, \<open>Hub_Guard\<close>, \<open>Hub_Reads\<close>: how identity and membership come about, what a reply may contain, refused
    frames, the kind of every reply, what a frame does to log and cursors.
  \<^item> \<open>Web\<close> (\<^verbatim>\<open>server.rs\<close>): the HTTP routes behind the flood guard; what a response needs and what a request changes.
  \<^item> \<open>Secret\<close> (\<^verbatim>\<open>secret.rs\<close>, \<^verbatim>\<open>main.rs\<close>): the join secret, its file, and the test for a local address.

  \<^bold>\<open>Connector.\<close>
  \<^item> \<open>Client\<close>, \<open>Agent\<close> (\<^verbatim>\<open>client.rs\<close>, \<^verbatim>\<open>agent.rs\<close>): the websocket client over a peer that maps a message to the events it
    causes, and every method of \<^verbatim>\<open>MeshAgent\<close> over a record of transport functions.
  \<^item> \<open>Mailbox\<close>: the contract of a transport, as a locale, and what an agent's reads guarantee over it. \<open>Link\<close>,
    \<open>Link_Laws\<close>, \<open>Link_Mailbox\<close>: client, network and hub composed; the network's losses are scripted; the composition is an
    interpretation of the contract, so the agent misses no message of the real hub.
  \<^item> \<open>Attention\<close>, \<open>Config\<close>, \<open>Replay\<close>, \<open>Runtime\<close> (\<^verbatim>\<open>attention.rs\<close>, \<^verbatim>\<open>config.rs\<close>, \<^verbatim>\<open>runtime.rs\<close>): the attention policy, the local
    configuration, the replay ledger shared by processes with failing input and output, and the runtime that
    hands messages to a host.

  \<^bold>\<open>Programs.\<close>
  \<^item> \<open>Worker\<close>, \<open>Supervise\<close> (\<^verbatim>\<open>worker.rs\<close>, \<^verbatim>\<open>work.rs\<close>): which requests run on the machine, at what rate, and how turns end.
  \<^item> \<open>Render\<close> (\<^verbatim>\<open>lib.rs\<close>): a message as text, portable keys.
  \<^item> \<open>Conversation\<close>, \<open>Conversation_Laws\<close> (\<^verbatim>\<open>conversation.rs\<close>): entering a live conversation, the bounded backlog, shared
    files, the receive loop, results of turns. The lemmas: only verified files reach the inbox, only signed
    messages for this room and agent reach the host, prompts keep their limits.
  \<^item> \<open>Codex_Bridge\<close>, \<open>Codex_Laws\<close> (\<^verbatim>\<open>conversation.rs\<close>): the client of the Codex app-server and the coordinator between it and
    the room, one function per event. The lemmas: one peer turn at a time, acknowledgements at most once, no
    approval on behalf of a peer.
  \<^item> \<open>Claude_Hooks\<close>, \<open>Claude_Laws\<close> (\<^verbatim>\<open>conversation/claude.rs\<close>): the hooks of a Claude session around their shared state file,
    with other hooks acting between any two accesses. The lemmas: a wake is a recorded claim of an authentic
    message, and a finished turn settles its claim and prompts only after it is published.
  \<^item> \<open>Opencode\<close>, \<open>Opencode_Laws\<close> (\<^verbatim>\<open>conversation/opencode.rs\<close>): the client of OpenCode's local server, the incremental reader
    of its event stream and the coordinator. The lemmas: the reader is independent of how the stream is cut, one
    peer turn at a time, acknowledgements at most once.

  This theory holds the properties that span the hub: the refinement of its policy and the invariants of the
  reachable states, with the consequences for a client.

  \<^bold>\<open>Conventions.\<close> A fallible operation returns a sum with the error on the left, a panic is \<open>None\<close> or the error
  \<open>panic\<close>; a write that precedes a failing statement stays. Times are integers of milliseconds, lengths are
  natural numbers; casts that wrap or saturate are written out. Error texts are shortened to ASCII.

  \<^bold>\<open>Scripts and loops.\<close> What comes from outside is an argument: the record \<open>lib\<close> (content hash, signature
  check, JSON writer, Unicode tables, search indexes, hash order), \<open>env\<close> (clock and draws of one frame), and
  lists that script a network, a disk, a child process, a host program or the events of a loop. Nothing is
  assumed of them except where a theorem says so, and then a witness gives an instance. Loops over such
  lists are structural recursion, so a run is as long as its script and the theorems hold for every script;
  the loops that end by themselves (paging through a backlog, replacing text, awaiting a response) are total
  functions with a measure. Fuel is used once: \<open>pull_pending_message\<close> may pass over at most as many messages as its
  number says, and the theorem about it holds for every number. A loop that waits for an event that never comes has no result
  (\<open>None\<close>), and the liveness theorems say which scripts lead to an answer.

  \<^bold>\<open>Not modelled.\<close> SQLite itself (opening, migration, checkpoints, failing statements), the text form of JSON
  and the derived codecs of frames, TLS and the HTTP framework with the landing page's markup, signatures,
  tokens and provisioning of \<^verbatim>\<open>parler-auth\<close> (wrappers over other libraries; signing and verification are
  parameters), argument parsing and terminal output of the command line, the MCP server and the writers of
  other programs' configuration files (\<^verbatim>\<open>mcp.rs\<close>, \<^verbatim>\<open>connect.rs\<close>), which only call the connector, and the start
  of agent programs. Fused search scores are exact rationals where the code has \<^verbatim>\<open>f32\<close>. The code's locks
  make one step of \<open>hub_step\<close> atomic; finer interleavings do not occur in the model.
\<close>

section \<open>The hub refines its access policy\<close>


definition demo_conn :: "nat \<Rightarrow> conn_state" where
  "demo_conn c = (case sy_socks demo_sys c of Some k \<Rightarrow> sk_conn k
     | None \<Rightarrow> \<lparr>cn_nonce = None, cn_authed = None, cn_pending = None, cn_conn_id = 0, cn_push_tx = None, cn_hello_frames = 0\<rparr>)"

abbreviation demo_al :: authed where
  "demo_al \<equiv> \<lparr>au_id = ''al'', au_name = ''Al'', au_role = None\<rparr>"

abbreviation demo_send :: "reply \<times> conn_state \<times> hub" where
  "demo_send \<equiv> dispatch demo_lib (demo_env 9) (Send (TRoom ''lab'') [Text ''again''] None None None) (demo_conn 1) (sy_hub demo_sys)"

lemma demo_al_authed: "cn_authed (demo_conn 1) = Some demo_al" by code_simp
lemma demo_fresh: "fresh_env (demo_env 9) (sys_store demo_sys)" by code_simp
lemmas demo_store_ok = durable.holds [OF demo_reachable]








text \<open>C26: A send on a reachable hub that stores a new message queues exactly that message, once, on
  exactly the channels of the subscribed connections of the other members of its room, as far as their
  buffers have space, and touches no other channel.\<close>

theorem push_exact:
  assumes "reachable (hub_init budget) (hub_step L) y"
    and "handle_send L e me tgt parts mentions reply_to client_id (sy_hub y) = (Inr f, h')"
    and "st_messages (hb_store h') \<noteq> st_messages (sys_store y)" "fresh_env e (sys_store y)"
  shows "\<exists>g. st_messages (hb_store h') = st_messages (sys_store y) @ [g] \<and> mg_author g = au_id me \<and>
    f = Sent (mg_id g) (mg_seq g) (mg_room g) \<and>
    (\<forall>c. hb_channels h' c =
       (if \<exists>a. is_member (mg_room g) a (hb_store h') \<and> a \<noteq> au_id me \<and> c \<in> subscribed a (sy_hub y)
        then map_option (pushed (Delivery (to_stored g))) (hb_channels (sy_hub y) c)
        else hb_channels (sy_hub y) c))"
proof -
  from send_appends [OF assms(2,3)] obtain room s1 h2 g where
    g: "f = Sent (mg_id g) (mg_seq g) room" "mg_room g = room" "mg_author g = au_id me"
      "st_messages (hb_store h') = st_messages (sys_store y) @ [g]"
    and h2: "hb_store h2 = hb_store h'" "h' = fanout room (au_id me) (to_stored g) h2"
      "hb_subscribers h2 = hb_subscribers (sy_hub y)" "hb_channels h2 = hb_channels (sy_hub y)" by metis
  have sub: "subscribed a h2 = subscribed a (sy_hub y)" for a by (simp add: subscribed_def h2)
  have reg: "registry_ok h2"
    using registered_ok [OF conjunct2 [OF registry.both.holds [OF assms(1)]]] by (simp add: registry_ok_def sub h2(3))
  have ok: "store_ok (sys_store y)" by (rule durable.holds [OF assms(1)])
  have "store_ok (hb_store h')"
    using refined_send [OF ok assms(4), of L me tgt parts mentions reply_to client_id] assms(2) ok
    by (auto intro: refines_store_ok)
  then have "keyed_ok (hb_store h2)" unfolding h2(1) store_ok_def by blast
  note ch = fanout_channels [OF reg this, of room "au_id me" "to_stored g", folded h2(2), unfolded h2(1) h2(4) sub]
  show ?thesis by (rule exI [of _ g]) (simp only: g ch simp_thms)
qed

theorem push_exact_witness:
  "\<exists>g. st_messages (hb_store (snd (handle_send demo_lib (demo_env 9) demo_al (TRoom ''lab'') [Text ''again''] None None None (sy_hub demo_sys))))
     = st_messages (sys_store demo_sys) @ [g] \<and> mg_author g = ''al''"
proof -
  let ?r = "handle_send demo_lib (demo_env 9) demo_al (TRoom ''lab'') [Text ''again''] None None None (sy_hub demo_sys)"
  have "fst ?r = Inr (Sent ''u9'' 2 ''lab'')" "st_messages (hb_store (snd ?r)) \<noteq> st_messages (sys_store demo_sys)" by code_simp+
  then have "?r = (Inr (Sent ''u9'' 2 ''lab''), snd ?r)" "st_messages (hb_store (snd ?r)) \<noteq> st_messages (sys_store demo_sys)"
    by (metis prod.collapse)+
  from push_exact [OF demo_reachable this demo_fresh] show ?thesis by fastforce
qed

text \<open>C28: A connection becomes authenticated by exactly one kind of frame: a hello, among the first four,
  within the size bounds, whose signature over the unexpired challenge this hub issued to the connection
  verifies under the claimed id, with the join secret where the hub has one; and it is then that id.\<close>

theorem authentication_iff:
  assumes "cn_authed conn = None" "dispatch L e frame conn h = (r, conn', h')"
  shows "cn_authed conn' = Some me \<longleftrightarrow>
    (\<exists>aid name role nonce sig secret. frame = Hello aid name role nonce sig secret
       \<and> good_hello L e conn h aid name role sig secret \<and> me = \<lparr>au_id = aid, au_name = name, au_role = role\<rparr>)"
  using assms by (rule hello_authenticates)

definition demo_fresh_conn :: conn_state where
  "demo_fresh_conn = \<lparr>cn_nonce = Some (issue_challenge (lb_content_id demo_lib) ''parler://h'' 20 ''n''), cn_authed = None,
     cn_pending = None, cn_conn_id = 3, cn_push_tx = Some 3, cn_hello_frames = 1\<rparr>"

theorem authentication_iff_witness:
  "cn_authed (fst (snd (dispatch demo_lib (demo_env 30) (Hello ''cy'' ''Cy'' None None (Some ''cy'') None) demo_fresh_conn (sy_hub demo_sys))))
     = Some \<lparr>au_id = ''cy'', au_name = ''Cy'', au_role = None\<rparr>"
proof -
  have "good_hello demo_lib (demo_env 30) demo_fresh_conn (sy_hub demo_sys) ''cy'' ''Cy'' None (Some ''cy'') None"
    unfolding good_hello_def
    by (intro conjI exI [of _ "''cy''"] exI [of _ "issue_challenge (lb_content_id demo_lib) ''parler://h'' 20 ''n''"]; code_simp)
  moreover have "cn_authed demo_fresh_conn = None" by (simp add: demo_fresh_conn_def)
  ultimately show ?thesis using authentication_iff by (metis prod.collapse)
qed

text \<open>C34: A frame that is refused before it is handled (on a connection that is not authenticated, over
  the agent's operation rate, or out of bounds) is answered with a coded error and changes nothing but the
  rate counters.\<close>

theorem refused_frame_no_effect:
  assumes "dispatch L e frame conn h = (r, conn', h')" "refused L e frame conn h"
  shows "(\<exists>m c. r = Frame (Error_frame m (Some c))) \<and> conn' = conn \<and> h' = h\<lparr>hb_rate := hb_rate h'\<rparr>"
  using assms by (rule refused_dispatch)

theorem refused_frame_no_effect_witness:
  "\<exists>m c. fst (dispatch demo_lib (demo_env 30) (Pull ''lab'' None None None None) demo_fresh_conn (sy_hub demo_sys)) = Frame (Error_frame m (Some c))"
proof -
  have "refused demo_lib (demo_env 30) (Pull ''lab'' None None None None) demo_fresh_conn (sy_hub demo_sys)"
    by (simp add: refused_def demo_fresh_conn_def)
  with refused_frame_no_effect show ?thesis by (metis prod.collapse)
qed







text \<open>C31: A parked long poll is answered at the latest by the first turn past its deadline, whatever happens
  to the hub between its turns; the answer is the page an ordinary pull of the room returns at that moment,
  and before the deadline it is not empty.\<close>

theorem long_poll_answers:
  assumes "(e, others) \<in> set turns" "pk_deadline p \<le> ev_now e"
  shows "\<exists>e1 h1 ms c h2. poll_run me turns p h = Some (e1, h1, Pulled (pk_room p) ms c, h2)
    \<and> pull (pk_room p) (au_id me) None (pk_limit p) (pk_ack p) (hb_store h1) = ((ms, c), hb_store h2)
    \<and> (ms \<noteq> [] \<or> pk_deadline p \<le> ev_now e1)"
proof -
  from poll_run_returns [OF assms, of me h] obtain e1 h1 f h2 where r: "poll_run me turns p h = Some (e1, h1, f, h2)"
    by (metis prod.collapse)
  from poll_run_pull [OF r] obtain ms c where
    "pull (pk_room p) (au_id me) None (pk_limit p) (pk_ack p) (hb_store h1) = ((ms, c), hb_store h2)"
    "f = Pulled (pk_room p) ms c" "ms \<noteq> [] \<or> pk_deadline p \<le> ev_now e1" by blast
  with r show ?thesis by blast
qed

theorem long_poll_answers_witness:
  "\<exists>e1 h1 ms c h2. poll_run demo_al [(demo_env 11, id), (demo_env 99, id)]
     \<lparr>pk_room = ''lab'', pk_limit = None, pk_ack = Some 1, pk_seen = 0, pk_deadline = 50\<rparr> (sy_hub demo_sys)
       = Some (e1, h1, Pulled ''lab'' ms c, h2) \<and> (ms \<noteq> [] \<or> 50 \<le> ev_now e1)"
  using long_poll_answers [of "demo_env 99" id "[(demo_env 11, id), (demo_env 99, id)]"
      "\<lparr>pk_room = ''lab'', pk_limit = None, pk_ack = Some 1, pk_seen = 0, pk_deadline = 50\<rparr>" demo_al "sy_hub demo_sys"]
  by (simp add: demo_env_def) blast

text \<open>C32: When an upload is acknowledged its bytes have the announced size and hash, and until the files or
  tables change, every member of the room it is bound to downloads exactly these bytes under its content id;
  bytes of another size or hash are refused with a coded error and only release the upload's permits.\<close>

theorem upload_download_roundtrip:
  assumes "finish_blob_upload L e p data h = (f, h')" "is_member (pu_room p) (au_id me) (hb_store h)"
  shows "(\<forall>bid n. f = BlobStored bid n \<longrightarrow> bid = lb_content_id L data \<and> bid = pu_id p \<and> n = length data \<and> n = pu_size p \<and>
      (\<exists>g h''. handle_get_blob e' me bid h' = (Inr (FrameThenFile g bid), h'') \<and> send_reply (FrameThenFile g bid) h'' = [OFrame g, OBinary data]))
    \<and> (lb_content_id L data \<noteq> pu_id p \<or> length data \<noteq> pu_size p \<longrightarrow> (\<exists>m c. f = Error_frame m (Some c)) \<and> h' = release (Some p) h)"
proof (intro conjI allI impI)
  fix bid n
  assume f: "f = BlobStored bid n"
  note up = upload_stored [OF assms(1) [unfolded f]]
  from up show "bid = lb_content_id L data" "bid = pu_id p" "n = length data" "n = pu_size p" by auto
  have "blob_meta bid (hb_store h') \<noteq> None" "blob_readable_by bid (au_id me) (hb_store h')" "hb_blob_dir h' bid = Some data"
    using up(6,7) assms(2) by (simp_all add: put_blob_meta_present put_blob_readable)
  from get_blob_sends [OF this, of e'] show "\<exists>g h''. handle_get_blob e' me bid h' = (Inr (FrameThenFile g bid), h'')
      \<and> send_reply (FrameThenFile g bid) h'' = [OFrame g, OBinary data]" by blast
next
  assume "lb_content_id L data \<noteq> pu_id p \<or> length data \<noteq> pu_size p"
  then obtain m c where "finish_blob_upload L e p data h = (Error_frame m (Some c), release (Some p) h)"
    using upload_refused [of L data p h e] by blast
  with assms(1) show "\<exists>m c. f = Error_frame m (Some c)" "h' = release (Some p) h" by auto
qed

definition demo_upload :: pending_upload where
  "demo_upload = \<lparr>pu_id = ''00112233aabb'', pu_room = ''lab'', pu_author = ''al'', pu_size = 3, pu_media_type = None, pu_permit = 1\<rparr>"

theorem upload_download_roundtrip_witness:
  "\<exists>g h''. handle_get_blob (demo_env 31) demo_al ''00112233aabb'' (snd (finish_blob_upload demo_lib (demo_env 30) demo_upload ''abc'' (sy_hub demo_sys)))
     = (Inr (FrameThenFile g ''00112233aabb''), h'') \<and> send_reply (FrameThenFile g ''00112233aabb'') h'' = [OFrame g, OBinary ''abc'']"
proof -
  let ?u = "finish_blob_upload demo_lib (demo_env 30) demo_upload ''abc'' (sy_hub demo_sys)"
  have m: "is_member (pu_room demo_upload) (au_id demo_al) (sys_store demo_sys)" by code_simp
  have f: "fst ?u = BlobStored ''00112233aabb'' 3" by code_simp
  have "?u = (fst ?u, snd ?u)" by simp
  from upload_download_roundtrip [OF this m, of "demo_env 31"] f show ?thesis by blast
qed

section \<open>An agent and the hub over a failing network\<close>


text \<open>Bo reads the room; the answer to the first pull is lost after Al has written again, the agent
  dials, signs in and asks again, and commits.\<close>

definition demo_turn :: "nat \<Rightarrow> fate \<Rightarrow> (hub \<Rightarrow> hub) \<Rightarrow> turn" where
  "demo_turn n ft others = \<lparr>tn_fate = ft, tn_env = demo_env n, tn_others = others, tn_pushes = 1, tn_polls = []\<rparr>"

definition demo_net :: net where
  "demo_net = \<lparr>nt_hub = sy_hub demo_sys, nt_sock = sy_socks demo_sys 2,
     nt_turns = [demo_turn 20 AnswerLost (foreign demo_lib (demo_env 9) (demo_conn 1) (Send (TRoom ''lab'') [Text ''again''] None None None)),
       demo_turn 21 Answered id, demo_turn 22 Answered id, demo_turn 23 Answered id, demo_turn 24 Answered id]\<rparr>"

definition demo_client :: "net hub_client" where
  "demo_client = \<lparr>hc_peer = demo_net, hc_arrived = [], hc_inbox = [], hc_subscribed = True\<rparr>"

abbreviation demo_bo :: identity where
  "demo_bo \<equiv> \<lparr>idn_id = ''bo'', idn_seed = ''bo''\<rparr>"

abbreviation demo_reads :: "stored_message list \<times> net hub_client mesh_agent" where
  "demo_reads \<equiv> run_reads (hub_transport demo_lib (\<lambda>seed b. Some seed) None) [RPull ''lab'' None None, RCommit ''lab'']
     (with_transport_and_identity demo_client demo_bo ''Bo'' None ''ws://h'')"

lemma demo_bo_start: "link_ok ''bo'' demo_client"
proof -
  have "log_ok (sys_store demo_sys)" using demo_store_ok by (simp add: store_ok_def)
  moreover have "cn_authed (demo_conn 1) = Some demo_al" by (rule demo_al_authed)
  moreover have "map_option (\<lambda>k. map_option au_id (cn_authed (sk_conn k))) (sy_socks demo_sys 2) = Some (Some ''bo'')" by code_simp
  ultimately show ?thesis using demo_chans
    by (auto simp: link_ok_def pre_link_def authed_link_def net_ok_def demo_client_def demo_net_def demo_turn_def harmless_def
        intro: foreign_harmless)
qed

lemma demo_bo_cursors: "\<forall>r. get_cursor r ''bo'' (net_store demo_client) < st_next_seq (net_store demo_client)"
proof -
  have "list_all (\<lambda>m. mb_cursor m < st_next_seq (net_store demo_client)) (st_members (net_store demo_client)) \<and> 0 < st_next_seq (net_store demo_client)"
    by code_simp
  then show ?thesis by (auto simp: list_all_iff intro: cursors_below)
qed


end
